(* ===== verification/GoPrelude.thy ===== *)
theory GoPrelude
  imports Main "HOL-Library.Char_ord" "HOL-Library.List_Lexorder" "HOL-Library.Product_Lexorder"
begin

text \<open>
  What the BinFlow sources use of Go's standard library, and the facts about it that the
  component theories share.

  A Go \<open>string\<close> is a byte string: a \<open>char list\<close>, whose characters are bytes. The functions
  below are those of the packages \<open>strings\<close> and \<open>strconv\<close> at the arguments the sources give
  them. Case mapping, case folding (\<open>equal_fold\<close>) and white space (\<open>is_space\<close>, \<open>trim_space\<close>,
  \<open>fields\<close>) are the ASCII part of Go's, which folds and trims Unicode letters and blanks too: on a
  text with other characters the model and the code may differ. A three-way comparison returns an \<open>int\<close> in
  \<open>{-1, 0, 1}\<close>, as Go's does. The locale \<open>go_comparator\<close> is the contract such a comparison
  has to keep for sorting and for "pick the greatest" loops to make sense, on the inputs
  where \<open>ok\<close> holds; \<open>pick_best\<close> is the loop the adapters write over it.
\<close>

named_theorems str_simps \<open>unfolding rules for the string operations\<close>
named_theorems cmp_simps \<open>unfolding rules for three-way comparisons\<close>

type_synonym bytes = "char list"


section \<open>Character classes and case\<close>

definition byte_of :: "char \<Rightarrow> nat" where
  "byte_of c = of_char c"

definition is_digit :: "char \<Rightarrow> bool" where
  "is_digit c \<longleftrightarrow> 48 \<le> byte_of c \<and> byte_of c \<le> 57"

definition is_lower_alpha :: "char \<Rightarrow> bool" where
  "is_lower_alpha c \<longleftrightarrow> 97 \<le> byte_of c \<and> byte_of c \<le> 122"

definition is_upper_alpha :: "char \<Rightarrow> bool" where
  "is_upper_alpha c \<longleftrightarrow> 65 \<le> byte_of c \<and> byte_of c \<le> 90"

definition is_space :: "char \<Rightarrow> bool" where
  "is_space c \<longleftrightarrow> byte_of c \<in> {9, 10, 11, 12, 13, 32}"

definition lower_char :: "char \<Rightarrow> char" where
  "lower_char c = (if is_upper_alpha c then char_of (byte_of c + 32) else c)"

definition upper_char :: "char \<Rightarrow> char" where
  "upper_char c = (if is_lower_alpha c then char_of (byte_of c - 32) else c)"

definition to_lower :: "string \<Rightarrow> string" where
  "to_lower s = map lower_char s"

definition to_upper :: "string \<Rightarrow> string" where
  "to_upper s = map upper_char s"

definition equal_fold :: "string \<Rightarrow> string \<Rightarrow> bool" where
  "equal_fold a b \<longleftrightarrow> to_lower a = to_lower b"

definition digit_val :: "char \<Rightarrow> nat" where
  "digit_val c = byte_of c - 48"

lemmas char_class_defs =
  byte_of_def is_digit_def is_lower_alpha_def is_upper_alpha_def is_space_def
  lower_char_def upper_char_def digit_val_def

declare char_class_defs [str_simps]
declare to_lower_def [str_simps] to_upper_def [str_simps] equal_fold_def [str_simps]

lemma byte_of_less: "byte_of c < 256"
  by (simp add: byte_of_def)

lemma lower_char_idem [simp]: "lower_char (lower_char c) = lower_char c"
  by (auto simp: char_class_defs)

lemma to_lower_idem [simp]: "to_lower (to_lower s) = to_lower s"
  by (simp add: to_lower_def)

lemma to_lower_Nil [simp]: "to_lower [] = []"
  by (simp add: to_lower_def)

lemma to_lower_Cons [simp]: "to_lower (c # s) = lower_char c # to_lower s"
  by (simp add: to_lower_def)

lemma to_lower_append [simp]: "to_lower (s @ t) = to_lower s @ to_lower t"
  by (simp add: to_lower_def)

lemma to_lower_eq_Nil [simp]: "to_lower s = [] \<longleftrightarrow> s = []"
  by (simp add: to_lower_def)

lemma length_to_lower [simp]: "length (to_lower s) = length s"
  by (simp add: to_lower_def)

lemma lower_digit [simp]: "is_digit c \<Longrightarrow> lower_char c = c"
  by (auto simp: char_class_defs)

lemma equal_fold_refl [simp]: "equal_fold a a"
  by (simp add: equal_fold_def)

lemma equal_fold_sym: "equal_fold a b \<Longrightarrow> equal_fold b a"
  by (simp add: equal_fold_def)

lemma equal_fold_trans: "equal_fold a b \<Longrightarrow> equal_fold b c \<Longrightarrow> equal_fold a c"
  by (simp add: equal_fold_def)


section \<open>Searching, splitting and trimming\<close>

definition has_prefix :: "string \<Rightarrow> string \<Rightarrow> bool" where
  "has_prefix s p \<longleftrightarrow> take (length p) s = p"

definition has_suffix :: "string \<Rightarrow> string \<Rightarrow> bool" where
  "has_suffix s p \<longleftrightarrow> length p \<le> length s \<and> drop (length s - length p) s = p"

definition trim_suffix :: "string \<Rightarrow> string \<Rightarrow> string" where
  "trim_suffix s p = (if has_suffix s p then take (length s - length p) s else s)"

fun index_byte :: "string \<Rightarrow> char \<Rightarrow> nat option" where
  "index_byte [] c = None"
| "index_byte (x # xs) c = (if x = c then Some 0 else map_option Suc (index_byte xs c))"

fun str_index :: "string \<Rightarrow> string \<Rightarrow> nat option" where
  "str_index [] p = (if p = [] then Some 0 else None)"
| "str_index (x # xs) p =
     (if has_prefix (x # xs) p then Some 0 else map_option Suc (str_index xs p))"

fun split_on :: "char \<Rightarrow> string \<Rightarrow> string list" where
  "split_on c [] = [[]]"
| "split_on c (x # xs) =
     (if x = c then [] # split_on c xs
      else (case split_on c xs of [] \<Rightarrow> [[x]] | y # ys \<Rightarrow> (x # y) # ys))"

fun join_with :: "char \<Rightarrow> string list \<Rightarrow> string" where
  "join_with c [] = []"
| "join_with c [x] = x"
| "join_with c (x # y # ys) = x @ c # join_with c (y # ys)"

definition trim_space :: "string \<Rightarrow> string" where
  "trim_space s = rev (dropWhile is_space (rev (dropWhile is_space s)))"

text \<open>\<open>strings.FieldsFunc\<close>: the maximal runs of characters that do not satisfy \<open>f\<close>.\<close>

fun fields_func :: "(char \<Rightarrow> bool) \<Rightarrow> string \<Rightarrow> string \<Rightarrow> string list" where
  "fields_func f acc [] = (if acc = [] then [] else [rev acc])"
| "fields_func f acc (x # xs) =
     (if f x then (if acc = [] then fields_func f [] xs else rev acc # fields_func f [] xs)
      else fields_func f (x # acc) xs)"

definition fields :: "string \<Rightarrow> string list" where
  "fields s = fields_func is_space [] s"

declare has_prefix_def [str_simps] has_suffix_def [str_simps] trim_suffix_def [str_simps]
declare trim_space_def [str_simps] fields_def [str_simps]

lemma has_prefix_iff: "has_prefix s p \<longleftrightarrow> (\<exists>t. s = p @ t)"
  unfolding has_prefix_def by (metis append_eq_conv_conj append_take_drop_id)

lemma has_suffix_iff: "has_suffix s p \<longleftrightarrow> (\<exists>t. s = t @ p)"
proof
  assume "has_suffix s p"
  then have "s = take (length s - length p) s @ p"
    unfolding has_suffix_def by (metis append_take_drop_id)
  then show "\<exists>t. s = t @ p" by blast
qed (auto simp: has_suffix_def)

lemma split_on_nonempty [simp]: "split_on c s \<noteq> []"
  by (cases s) (auto split: list.splits)

lemma split_on_append_any: "split_on c (s @ c # t) = split_on c s @ split_on c t"
proof (induction s)
  case (Cons x xs)
  then show ?case by (cases "split_on c xs") auto
qed simp

lemma split_on_noc: "c \<notin> set s \<Longrightarrow> split_on c s = [s]"
  by (induction s) auto

lemma split_on_append:
  "c \<notin> set s \<Longrightarrow> split_on c (s @ c # t) = s # split_on c t"
  by (induction s) auto

lemma split_on_parts: "\<forall>p\<in>set (split_on c s). c \<notin> set p"
proof (induction s)
  case (Cons x xs)
  then show ?case by (cases "split_on c xs") auto
qed simp

lemma join_split [simp]: "join_with c (split_on c s) = s"
proof (induction s)
  case (Cons x xs)
  show ?case
  proof (cases "split_on c xs")
    case Nil
    then show ?thesis by simp
  next
    case (Cons y ys)
    with Cons.IH show ?thesis by (cases ys) auto
  qed
qed simp

lemma split_join:
  "xs \<noteq> [] \<Longrightarrow> \<forall>x\<in>set xs. c \<notin> set x \<Longrightarrow> split_on c (join_with c xs) = xs"
  by (induction c xs rule: join_with.induct) (auto simp: split_on_noc split_on_append)

lemma split_on_inj: "split_on c s = split_on c t \<Longrightarrow> s = t"
  by (metis join_split)

lemma set_split_on: "x \<in> set p \<Longrightarrow> p \<in> set (split_on c s) \<Longrightarrow> x \<in> set s"
proof (induction s arbitrary: p)
  case (Cons y ys)
  show ?case
  proof (cases "split_on c ys")
    case (Cons a as)
    with Cons.prems Cons.IH [of a] Cons.IH [of p] show ?thesis by (auto split: if_splits)
  qed (use Cons.prems in auto)
qed simp

lemma index_byte_Some:
  "index_byte s c = Some i \<Longrightarrow> i < length s \<and> s ! i = c \<and> c \<notin> set (take i s)"
  by (induction s arbitrary: i) (auto split: if_splits)

lemma index_byte_None: "index_byte s c = None \<longleftrightarrow> c \<notin> set s"
  by (induction s) auto

lemma index_byte_append: "c \<notin> set s \<Longrightarrow> index_byte (s @ c # t) c = Some (length s)"
  by (induction s) auto

lemma index_byte_split:
  "index_byte s c = Some i \<Longrightarrow> s = take i s @ c # drop (Suc i) s"
  using index_byte_Some [of s c i] by (metis id_take_nth_drop)


section \<open>Numbers\<close>

definition all_digits :: "string \<Rightarrow> bool" where
  "all_digits s \<longleftrightarrow> list_all is_digit s"

fun dec_value :: "nat \<Rightarrow> string \<Rightarrow> nat" where
  "dec_value acc [] = acc"
| "dec_value acc (c # cs) = dec_value (acc * 10 + digit_val c) cs"

datatype num_error = ErrSyntax | ErrRange

definition max_uint64 :: nat where
  "max_uint64 = 2 ^ 64 - 1"

text \<open>\<open>strconv.ParseUint(s, 10, 64)\<close>.\<close>

definition parse_uint :: "string \<Rightarrow> num_error + nat" where
  "parse_uint s =
     (if s = [] \<or> \<not> all_digits s then Inl ErrSyntax
      else if dec_value 0 s > max_uint64 then Inl ErrRange
      else Inr (dec_value 0 s))"

text \<open>
  The value \<open>ParseUint\<close> returns next to its error: the largest \<open>uint64\<close> out of range, zero on a
  syntax error. Code that discards the error computes with it.
\<close>

definition parse_uint_value :: "string \<Rightarrow> nat" where
  "parse_uint_value s =
     (case parse_uint s of Inr n \<Rightarrow> n | Inl ErrRange \<Rightarrow> max_uint64 | Inl ErrSyntax \<Rightarrow> 0)"

text \<open>\<open>strconv.ParseInt(s, 10, 64)\<close> and \<open>strconv.Atoi\<close>, with an optional sign.\<close>

definition parse_int :: "string \<Rightarrow> num_error + int" where
  "parse_int s =
     (let neg = (case s of c # _ \<Rightarrow> c = CHR ''-'' | [] \<Rightarrow> False);
          body = (case s of c # cs \<Rightarrow> (if c = CHR ''-'' \<or> c = CHR ''+'' then cs else s)
                  | [] \<Rightarrow> [])
      in if body = [] \<or> \<not> all_digits body then Inl ErrSyntax
         else if neg then
           (if dec_value 0 body > 2 ^ 63 then Inl ErrRange else Inr (- int (dec_value 0 body)))
         else
           (if dec_value 0 body \<ge> 2 ^ 63 then Inl ErrRange else Inr (int (dec_value 0 body))))"

declare parse_uint_def [str_simps] parse_int_def [str_simps] all_digits_def [str_simps]

lemma dec_value_append: "dec_value a (s @ t) = dec_value (dec_value a s) t"
  by (induction s arbitrary: a) auto

lemma dec_value_acc: "dec_value a s = a * 10 ^ length s + dec_value 0 s"
proof (induction s arbitrary: a)
  case (Cons c cs)
  from Cons.IH [of "a * 10 + digit_val c"] Cons.IH [of "digit_val c"]
  show ?case by (simp add: algebra_simps)
qed simp

lemma digit_val_less: "is_digit c \<Longrightarrow> digit_val c < 10"
  by (auto simp: digit_val_def is_digit_def)

lemma dec_value_bound: "all_digits s \<Longrightarrow> dec_value 0 s < 10 ^ length s"
proof (induction s rule: rev_induct)
  case (snoc c cs)
  then have "dec_value 0 cs < 10 ^ length cs" and "digit_val c < 10"
    by (auto simp: all_digits_def digit_val_less)
  then show ?case by (simp add: dec_value_append)
qed simp

text \<open>Decimal rendering of an unsigned number (\<open>%d\<close>, \<open>strconv.FormatUint(n, 10)\<close>).\<close>

definition digit_char :: "nat \<Rightarrow> char" where
  "digit_char d = char_of (48 + d)"

fun dec_string :: "nat \<Rightarrow> string" where
  "dec_string n = (if n < 10 then [digit_char n] else dec_string (n div 10) @ [digit_char (n mod 10)])"

declare dec_string.simps [simp del]

definition no_leading_zero :: "string \<Rightarrow> bool" where
  "no_leading_zero s \<longleftrightarrow> \<not> (length s > 1 \<and> hd s = CHR ''0'')"

lemma byte_of_digit_char: "d < 10 \<Longrightarrow> byte_of (digit_char d) = 48 + d"
  by (simp add: byte_of_def digit_char_def)

lemma is_digit_digit_char [simp]: "d < 10 \<Longrightarrow> is_digit (digit_char d)"
  by (simp add: is_digit_def byte_of_digit_char)

lemma digit_val_digit_char [simp]: "d < 10 \<Longrightarrow> digit_val (digit_char d) = d"
  by (simp add: digit_val_def byte_of_digit_char)

lemma digit_char_digit_val [simp]: "is_digit c \<Longrightarrow> digit_char (digit_val c) = c"
  by (simp add: digit_char_def digit_val_def is_digit_def byte_of_def)

lemma digit_char_eq_0: "d < 10 \<Longrightarrow> digit_char d = CHR ''0'' \<longleftrightarrow> d = 0"
proof
  assume "d < 10" "digit_char d = CHR ''0''"
  then have "byte_of (digit_char d) = byte_of (CHR ''0'')" by simp
  with \<open>d < 10\<close> show "d = 0" by (simp add: byte_of_digit_char) (simp add: byte_of_def)
qed (use digit_char_digit_val [of "CHR ''0''"] in \<open>simp add: char_class_defs\<close>)

lemma dec_string_nonempty [simp]: "dec_string n \<noteq> []"
  by (subst dec_string.simps) simp

lemma all_digits_dec_string [simp]: "all_digits (dec_string n)"
proof (induction n rule: dec_string.induct)
  case (1 n)
  then show ?case by (subst dec_string.simps) (auto simp: all_digits_def)
qed

lemma dec_value_dec_string [simp]: "dec_value 0 (dec_string n) = n"
proof (induction n rule: dec_string.induct)
  case (1 n)
  then show ?case by (subst dec_string.simps) (auto simp: dec_value_append)
qed

lemma hd_dec_string: "n > 0 \<Longrightarrow> hd (dec_string n) \<noteq> CHR ''0''"
proof (induction n rule: dec_string.induct)
  case (1 n)
  then show ?case by (subst dec_string.simps) (auto simp: digit_char_eq_0)
qed

lemma no_leading_zero_dec_string [simp]: "no_leading_zero (dec_string n)"
proof (cases "n = 0")
  case True
  then show ?thesis by (simp add: no_leading_zero_def dec_string.simps)
next
  case False
  then show ?thesis by (simp add: no_leading_zero_def hd_dec_string)
qed

lemma dec_value_pos: "all_digits s \<Longrightarrow> s \<noteq> [] \<Longrightarrow> hd s \<noteq> CHR ''0'' \<Longrightarrow> 0 < dec_value 0 s"
proof (cases s)
  case (Cons c cs)
  assume "all_digits s" "s \<noteq> []" "hd s \<noteq> CHR ''0''"
  with Cons have "is_digit c" "digit_char (digit_val c) \<noteq> CHR ''0''"
    by (auto simp: all_digits_def)
  then have "digit_val c \<noteq> 0" by (metis digit_char_eq_0 digit_val_less)
  with Cons show ?thesis using dec_value_acc [of "digit_val c" cs] by simp
qed simp

text \<open>Rendering inverts reading on the spellings without a leading zero.\<close>

lemma dec_string_dec_value:
  "all_digits s \<Longrightarrow> s \<noteq> [] \<Longrightarrow> no_leading_zero s \<Longrightarrow> dec_string (dec_value 0 s) = s"
proof (induction s rule: rev_induct)
  case (snoc c cs)
  have c: "is_digit c" and cs: "all_digits cs" using snoc.prems by (auto simp: all_digits_def)
  show ?case
  proof (cases "cs = []")
    case True
    with c show ?thesis by (subst dec_string.simps) (simp add: digit_val_less)
  next
    case False
    have nz: "no_leading_zero cs" "hd cs \<noteq> CHR ''0''"
      using snoc.prems False by (auto simp: no_leading_zero_def hd_append split: if_splits)
    have IH: "dec_string (dec_value 0 cs) = cs" using snoc.IH cs False nz by simp
    have "dec_value 0 cs > 0" using dec_value_pos cs False nz by simp
    with IH c digit_val_less [OF c] show ?thesis
      by (subst dec_string.simps) (simp add: dec_value_append)
  qed
qed simp

lemma all_digits_no_char: "all_digits s \<Longrightarrow> \<not> is_digit c \<Longrightarrow> c \<notin> set s"
  by (auto simp: all_digits_def list_all_iff)

lemma parse_uint_bound: "parse_uint s = Inr n \<Longrightarrow> n \<le> max_uint64"
  by (auto simp: parse_uint_def split: if_splits)

lemma parse_uint_value_Inr: "parse_uint s = Inr n \<Longrightarrow> parse_uint_value s = n"
  by (simp add: parse_uint_value_def)


lemma list_length_4:
  assumes "length xs = 4" obtains a b c d where "xs = [a, b, c, d]"
proof -
  have "length xs = Suc (Suc (Suc (Suc 0)))" using assms by simp
  with that show thesis by (auto simp: length_Suc_conv)
qed


section \<open>Three-way comparison\<close>

definition compare_ord :: "'a::linorder \<Rightarrow> 'a \<Rightarrow> int" where
  "compare_ord a b = (if a < b then -1 else if b < a then 1 else 0)"

text \<open>\<open>strings.Compare\<close>: bytewise lexicographic order.\<close>

definition str_compare :: "string \<Rightarrow> string \<Rightarrow> int" where
  "str_compare a b = compare_ord a b"

declare compare_ord_def [cmp_simps] str_compare_def [cmp_simps]

lemma compare_ord_range: "compare_ord a b \<in> {-1, 0, 1}"
  by (simp add: compare_ord_def)

lemma compare_ord_refl [simp]: "compare_ord a a = 0"
  by (simp add: compare_ord_def)

lemma compare_ord_eq_0 [simp]: "compare_ord a b = 0 \<longleftrightarrow> a = b"
  by (auto simp: compare_ord_def)

lemma compare_ord_less_0 [simp]: "compare_ord a b < 0 \<longleftrightarrow> a < b"
  by (auto simp: compare_ord_def)

lemma compare_ord_le_0 [simp]: "compare_ord a b \<le> 0 \<longleftrightarrow> a \<le> b"
  by (auto simp: compare_ord_def)

lemma compare_ord_gr_0 [simp]: "0 < compare_ord a b \<longleftrightarrow> b < a"
  by (auto simp: compare_ord_def)

lemma compare_ord_swap: "compare_ord b a = - compare_ord a b"
  by (auto simp: compare_ord_def)

lemma compare_ord_prod:
  "compare_ord (a, b) (c, d) =
     (if compare_ord a c \<noteq> 0 then compare_ord a c else compare_ord b d)"
  by (auto simp: compare_ord_def less_prod_def)

lemma compare_ord_Cons:
  "compare_ord (x # xs) (y # ys) =
     (if compare_ord x y \<noteq> 0 then compare_ord x y else compare_ord xs ys)"
  by (auto simp: compare_ord_def)

lemma compare_ord_Nil [simp]:
  "compare_ord [] ys = (if ys = [] then 0 else -1)" "compare_ord xs [] = (if xs = [] then 0 else 1)"
  by (auto simp: compare_ord_def neq_Nil_conv)


lemmas compare_nat = compare_ord_def [where 'a = nat]

lemma compare_bool [simp]: "compare_ord False True = -1" "compare_ord True False = 1"
  by (simp_all add: compare_ord_def)

text \<open>
  Digit strings without leading zeros are ordered by length first, bytes second, as their
  numbers are.
\<close>

lemma char_less_digit: "is_digit c \<Longrightarrow> is_digit d \<Longrightarrow> c < d \<longleftrightarrow> digit_val c < digit_val d"
  by (auto simp: less_char_def digit_val_def is_digit_def byte_of_def)

lemma digit_val_inj: "is_digit c \<Longrightarrow> is_digit d \<Longrightarrow> digit_val c = digit_val d \<longleftrightarrow> c = d"
  by (metis digit_char_digit_val)

lemma dec_value_less_eq_length:
  "length s = length t \<Longrightarrow> all_digits s \<Longrightarrow> all_digits t \<Longrightarrow> dec_value 0 s < dec_value 0 t \<longleftrightarrow> s < t"
proof (induction s t rule: list_induct2)
  case (Cons c cs d ds)
  have c: "is_digit c" "is_digit d" "all_digits cs" "all_digits ds"
    using Cons.prems by (auto simp: all_digits_def)
  let ?n = "length ds"
  have len: "length cs = ?n" using Cons.hyps by simp
  have eq: "dec_value 0 (c # cs) = digit_val c * 10 ^ ?n + dec_value 0 cs"
    "dec_value 0 (d # ds) = digit_val d * 10 ^ ?n + dec_value 0 ds"
    using dec_value_acc [of "digit_val c" cs] dec_value_acc [of "digit_val d" ds] len by simp_all
  have b: "dec_value 0 cs < 10 ^ ?n" "dec_value 0 ds < 10 ^ ?n"
    using c dec_value_bound [of cs] dec_value_bound [of ds] len by auto
  have step: "x * 10 ^ ?n + u < y * 10 ^ ?n + v"
    if "x < y" "u < 10 ^ ?n" for x y u v :: nat
  proof -
    from that(1) have "Suc x * 10 ^ ?n \<le> y * 10 ^ ?n" by (intro mult_le_mono1) simp
    with that(2) show ?thesis by simp
  qed
  consider "digit_val c < digit_val d" | "digit_val c = digit_val d" | "digit_val d < digit_val c"
    by linarith
  then show ?case
  proof cases
    case 1
    with step [OF 1 b(1)] c show ?thesis unfolding eq by (simp add: char_less_digit)
  next
    case 2
    with Cons.IH c show ?thesis unfolding eq by (simp add: digit_val_inj)
  next
    case 3
    then have "\<not> c < d" "c \<noteq> d" using c by (auto simp: char_less_digit)
    with step [OF 3 b(2), of "dec_value 0 cs"] show ?thesis unfolding eq by simp
  qed
qed simp

lemma dec_value_lower:
  assumes "all_digits s" "s \<noteq> []" "hd s \<noteq> CHR ''0''"
  shows "10 ^ (length s - 1) \<le> dec_value 0 s"
proof (cases s)
  case (Cons c cs)
  have "is_digit c" "digit_val c \<noteq> 0"
    using assms Cons dec_value_pos [of "[c]"] by (auto simp: all_digits_def)
  then have "10 ^ length cs \<le> digit_val c * (10::nat) ^ length cs" by simp
  then have "10 ^ length cs \<le> dec_value (digit_val c) cs"
    unfolding dec_value_acc [of "digit_val c" cs] by (rule trans_le_add1)
  with Cons show ?thesis by simp
qed (use assms in simp)

lemma dec_value_longer:
  assumes "all_digits s" "all_digits t" "no_leading_zero t" "s \<noteq> []" "length s < length t"
  shows "dec_value 0 s < dec_value 0 t"
proof -
  have t: "t \<noteq> []" "hd t \<noteq> CHR ''0''"
    using assms(3-5) by (cases s; auto simp: no_leading_zero_def)+
  have "dec_value 0 s < 10 ^ length s" by (rule dec_value_bound [OF assms(1)])
  also have "\<dots> \<le> 10 ^ (length t - 1)" using assms(5) by (intro power_increasing) auto
  also have "\<dots> \<le> dec_value 0 t" using dec_value_lower [OF assms(2)] t by simp
  finally show ?thesis .
qed

definition shortlex :: "string \<Rightarrow> string \<Rightarrow> bool" where
  "shortlex x y \<longleftrightarrow> length x < length y \<or> (length x = length y \<and> x < y)"

lemma shortlex_dec_value:
  assumes "all_digits x" "all_digits y" "no_leading_zero x" "no_leading_zero y" "x \<noteq> []" "y \<noteq> []"
  shows "shortlex x y \<longleftrightarrow> dec_value 0 x < dec_value 0 y"
proof -
  consider "length x < length y" | "length x = length y" | "length y < length x" by linarith
  then show ?thesis
  proof cases
    case 1
    with dec_value_longer [of x y] assms show ?thesis by (simp add: shortlex_def)
  next
    case 2
    with dec_value_less_eq_length [of x y] assms show ?thesis by (simp add: shortlex_def)
  next
    case 3
    with dec_value_longer [of y x] assms show ?thesis by (simp add: shortlex_def)
  qed
qed

lemma dec_value_inj:
  "all_digits x \<Longrightarrow> all_digits y \<Longrightarrow> no_leading_zero x \<Longrightarrow> no_leading_zero y \<Longrightarrow> x \<noteq> [] \<Longrightarrow> y \<noteq> []
   \<Longrightarrow> dec_value 0 x = dec_value 0 y \<longleftrightarrow> x = y"
  by (metis dec_string_dec_value)


section \<open>The contract of a comparison, and its clients\<close>

locale go_comparator =
  fixes cmp :: "'a \<Rightarrow> 'a \<Rightarrow> int" and ok :: "'a \<Rightarrow> bool"
  assumes cmp_range: "cmp a b \<in> {-1, 0, 1}"
    and cmp_swap: "ok a \<Longrightarrow> ok b \<Longrightarrow> cmp b a = - cmp a b"
    and cmp_trans: "ok a \<Longrightarrow> ok b \<Longrightarrow> ok c \<Longrightarrow> cmp a b \<le> 0 \<Longrightarrow> cmp b c \<le> 0 \<Longrightarrow> cmp a c \<le> 0"
begin

lemma cmp_self: "ok a \<Longrightarrow> cmp a a = 0"
  using cmp_swap [of a a] by simp

lemma cmp_total: "ok a \<Longrightarrow> ok b \<Longrightarrow> cmp a b \<le> 0 \<or> cmp b a \<le> 0"
  using cmp_swap [of a b] by linarith

lemma cmp_equiv_trans:
  assumes "ok a" "ok b" "ok c" "cmp a b = 0" "cmp b c = 0"
  shows "cmp a c = 0"
proof -
  have "cmp a c \<le> 0" using assms cmp_trans [of a b c] by simp
  moreover have "cmp c a \<le> 0"
    using assms cmp_trans [of c b a] cmp_swap [of a b] cmp_swap [of b c] by simp
  ultimately show ?thesis using assms cmp_swap [of a c] by simp
qed

end

text \<open>
  \<open>best := none; for v in vs: if none found or cmp(v, best) > 0 then best := v\<close>, the selection
  loop of the version adapters.
\<close>

fun pick_best :: "('a \<Rightarrow> 'a \<Rightarrow> int) \<Rightarrow> 'a option \<Rightarrow> 'a list \<Rightarrow> 'a option" where
  "pick_best cmp best [] = best"
| "pick_best cmp best (v # vs) =
     pick_best cmp (case best of None \<Rightarrow> Some v | Some b \<Rightarrow> if cmp v b > 0 then Some v else Some b) vs"

context go_comparator
begin

lemma pick_best_step:
  assumes "\<forall>v\<in>set vs. ok v" "ok b"
  shows "\<exists>m. pick_best cmp (Some b) vs = Some m \<and> m \<in> insert b (set vs)
           \<and> (\<forall>v\<in>insert b (set vs). cmp v m \<le> 0)"
  using assms
proof (induction vs arbitrary: b)
  case Nil
  then show ?case by (auto simp: cmp_self)
next
  case (Cons v vs)
  let ?b = "if cmp v b > 0 then v else b"
  have okb: "ok ?b" using Cons.prems by simp
  have le: "cmp v ?b \<le> 0 \<and> cmp b ?b \<le> 0"
    using Cons.prems cmp_self cmp_swap [of v b] by auto
  obtain m where m: "pick_best cmp (Some ?b) vs = Some m" "m \<in> insert ?b (set vs)"
      "\<forall>x\<in>insert ?b (set vs). cmp x m \<le> 0"
    using Cons.IH [of ?b] Cons.prems okb by auto
  have okm: "ok m" using m(2) okb Cons.prems by auto
  have bm: "cmp ?b m \<le> 0" using m(3) by blast
  have vb: "ok v" "ok b" using Cons.prems by auto
  have bound: "cmp v m \<le> 0 \<and> cmp b m \<le> 0"
    using cmp_trans [OF vb(1) okb okm] cmp_trans [OF vb(2) okb okm] le bm by blast
  have mem: "m \<in> insert b (set (v # vs))" using m(2) by (auto split: if_splits)
  have all: "\<forall>x\<in>insert b (set (v # vs)). cmp x m \<le> 0" using m(3) bound by auto
  have "pick_best cmp (Some b) (v # vs) = Some m" using m(1) by (simp split: if_splits)
  with mem all show ?case by blast
qed

lemma pick_best_max:
  assumes "\<forall>v\<in>set vs. ok v" "vs \<noteq> []"
  shows "\<exists>m. pick_best cmp None vs = Some m \<and> m \<in> set vs \<and> (\<forall>v\<in>set vs. cmp v m \<le> 0)"
proof -
  obtain v us where "vs = v # us" using assms(2) by (cases vs) auto
  with pick_best_step [of us v] assms(1) show ?thesis by auto
qed

end

text \<open>A comparison that compares the keys of a linear order keeps the contract.\<close>

lemma go_comparator_key:
  assumes "\<And>a b. cmp a b \<in> {-1, 0, 1}"
    and "\<And>a b. ok a \<Longrightarrow> ok b \<Longrightarrow> cmp a b = compare_ord (key a) (key b)"
  shows "go_comparator cmp ok"
proof
  fix a b c
  show "cmp a b \<in> {-1, 0, 1}" by (rule assms(1))
  show "cmp b a = - cmp a b" if "ok a" "ok b"
    using that assms(2) compare_ord_swap [of "key b" "key a"] by simp
  show "cmp a c \<le> 0" if "ok a" "ok b" "ok c" "cmp a b \<le> 0" "cmp b c \<le> 0"
    using that assms(2) by (simp add: order.trans [of "key a" "key b" "key c"])
qed

end
