(* ===== verification/Version_Semver.thy ===== *)
theory Version_Semver
  imports GoPrelude
begin

text \<open>
  The three SemVer implementations of the package adapters: npm
  (\<open>internal/adapter/npm/semver.go\<close>), cargo (\<open>internal/adapter/cargo/version.go\<close>) and helm
  (\<open>internal/adapter/helm/semver.go\<close>). Each adapter keeps its own copy of the parser and of
  the comparison; they are modelled one by one.

  The abstract specification is SemVer precedence as the lexicographic order of a key:
  \<open>(major, minor, patch, is-release, prerelease identifiers)\<close>, where a numeric identifier is
  below every alphanumeric one. The comparisons are shown to compare these keys; the contract
  \<open>go_comparator\<close> and the maximum chosen by \<open>latestVersion\<close> follow.
\<close>


section \<open>The specification: precedence keys\<close>

datatype ident = Num nat | Alnum string

instantiation ident :: linorder
begin

fun less_eq_ident :: "ident \<Rightarrow> ident \<Rightarrow> bool" where
  "less_eq_ident (Num a) (Num b) = (a \<le> b)"
| "less_eq_ident (Num a) (Alnum t) = True"
| "less_eq_ident (Alnum s) (Num b) = False"
| "less_eq_ident (Alnum s) (Alnum t) = (s \<le> t)"

fun less_ident :: "ident \<Rightarrow> ident \<Rightarrow> bool" where
  "less_ident (Num a) (Num b) = (a < b)"
| "less_ident (Num a) (Alnum t) = True"
| "less_ident (Alnum s) (Num b) = False"
| "less_ident (Alnum s) (Alnum t) = (s < t)"

instance
proof
  fix x y z :: ident
  show "(x < y) = (x \<le> y \<and> \<not> y \<le> x)" by (cases x; cases y) auto
  show "x \<le> x" by (cases x) auto
  show "x \<le> y \<Longrightarrow> y \<le> z \<Longrightarrow> x \<le> z" by (cases x; cases y; cases z) auto
  show "x \<le> y \<Longrightarrow> y \<le> x \<Longrightarrow> x = y" by (cases x; cases y) auto
  show "x \<le> y \<or> y \<le> x" by (cases x; cases y) auto
qed

end

lemma compare_ident [cmp_simps]:
  "compare_ord (Num a) (Num b) = compare_ord a b"
  "compare_ord (Num a) (Alnum t) = -1"
  "compare_ord (Alnum s) (Num b) = 1"
  "compare_ord (Alnum s) (Alnum t) = compare_ord s t"
  by (auto simp: compare_ord_def)

record semver =
  major :: nat
  minor :: nat
  patch :: nat
  pre :: string
  build :: string

datatype semver_error =
  InvalidBuild | InvalidPrerelease | WantThreeParts
| EmptyNumeric | LeadingZero | NotNumeric | NumericRange

text \<open>The precedence key over a reading \<open>f\<close> of prerelease identifiers.\<close>

definition precedence_key ::
  "(string \<Rightarrow> ident) \<Rightarrow> semver \<Rightarrow> nat \<times> nat \<times> nat \<times> bool \<times> ident list" where
  "precedence_key f v =
     (major v, minor v, patch v, pre v = [], map f (split_on (CHR ''.'') (pre v)))"

text \<open>SemVer section 11: an all-digit identifier is its number, unbounded.\<close>

definition spec_ident :: "string \<Rightarrow> ident" where
  "spec_ident s = (if s \<noteq> [] \<and> all_digits s then Num (dec_value 0 s) else Alnum s)"


section \<open>npm: parsing\<close>


definition npm_parseNumericIdentifier :: "string \<Rightarrow> semver_error + nat" where
  "npm_parseNumericIdentifier s =
     (if s = [] then Inl EmptyNumeric
      else if length s > 1 \<and> hd s = CHR ''0'' then Inl LeadingZero
      else if \<not> list_all is_digit s then Inl NotNumeric
      else (case parse_uint s of Inl _ \<Rightarrow> Inl NumericRange | Inr n \<Rightarrow> Inr n))"

text \<open>
  One identifier: the byte loop rejects anything outside digits, letters and the hyphen, and
  keeps whether only digits were seen.
\<close>

definition npm_ident_char :: "char \<Rightarrow> bool" where
  "npm_ident_char c \<longleftrightarrow>
     is_digit c \<or> is_lower_alpha c \<or> is_upper_alpha c \<or> c = CHR ''-''"

definition npm_validDotIdentifiers :: "string \<Rightarrow> bool \<Rightarrow> bool" where
  "npm_validDotIdentifiers s isBuild \<longleftrightarrow>
     list_all (\<lambda>id. id \<noteq> [] \<and> list_all npm_ident_char id
                 \<and> \<not> (list_all is_digit id \<and> \<not> isBuild \<and> length id > 1 \<and> hd id = CHR ''0''))
       (split_on (CHR ''.'') s)"

definition npm_isNumericIdentifier :: "string \<Rightarrow> bool" where
  "npm_isNumericIdentifier s \<longleftrightarrow> s \<noteq> [] \<and> list_all is_digit s"

definition npm_parseCore :: "string \<Rightarrow> string \<Rightarrow> string \<Rightarrow> semver_error + semver" where
  "npm_parseCore rest p b =
     (case split_on (CHR ''.'') rest of
        [x, y, z] \<Rightarrow>
          (case npm_parseNumericIdentifier x of Inl e \<Rightarrow> Inl e
           | Inr mj \<Rightarrow> (case npm_parseNumericIdentifier y of Inl e \<Rightarrow> Inl e
           | Inr mn \<Rightarrow> (case npm_parseNumericIdentifier z of Inl e \<Rightarrow> Inl e
           | Inr pt \<Rightarrow> Inr \<lparr>major = mj, minor = mn, patch = pt, pre = p, build = b\<rparr>)))
      | _ \<Rightarrow> Inl WantThreeParts)"

definition npm_parsePre :: "string \<Rightarrow> string \<Rightarrow> semver_error + semver" where
  "npm_parsePre rest b =
     (case index_byte rest (CHR ''-'') of
        None \<Rightarrow> npm_parseCore rest [] b
      | Some i \<Rightarrow>
          (let p = drop (Suc i) rest in
           if p = [] \<or> \<not> npm_validDotIdentifiers p False then Inl InvalidPrerelease
           else npm_parseCore (take i rest) p b))"

definition npm_parseSemver :: "string \<Rightarrow> semver_error + semver" where
  "npm_parseSemver v =
     (case index_byte v (CHR ''+'') of
        None \<Rightarrow> npm_parsePre v []
      | Some i \<Rightarrow>
          (let b = drop (Suc i) v in
           if \<not> npm_validDotIdentifiers b True then Inl InvalidBuild
           else npm_parsePre (take i v) b))"

definition npm_compareUint :: "nat \<Rightarrow> nat \<Rightarrow> int" where
  "npm_compareUint a b = (if a < b then -1 else if a > b then 1 else 0)"

definition npm_compareInt :: "nat \<Rightarrow> nat \<Rightarrow> int" where
  "npm_compareInt a b = (if a < b then -1 else if a > b then 1 else 0)"

fun npm_comparePrerelease_loop :: "string list \<Rightarrow> string list \<Rightarrow> int" where
  "npm_comparePrerelease_loop (x # xs) (y # ys) =
     (let xn = npm_isNumericIdentifier x; yn = npm_isNumericIdentifier y in
      if xn \<and> yn then
        (let c = npm_compareUint (parse_uint_value x) (parse_uint_value y)
         in if c \<noteq> 0 then c else npm_comparePrerelease_loop xs ys)
      else if xn then -1
      else if yn then 1
      else (let c = str_compare x y
            in if c \<noteq> 0 then c else npm_comparePrerelease_loop xs ys))"
| "npm_comparePrerelease_loop xs ys = npm_compareInt (length xs) (length ys)"

definition npm_comparePrerelease :: "string \<Rightarrow> string \<Rightarrow> int" where
  "npm_comparePrerelease a b =
     npm_comparePrerelease_loop (split_on (CHR ''.'') a) (split_on (CHR ''.'') b)"

definition npm_compareParsed :: "semver \<Rightarrow> semver \<Rightarrow> int" where
  "npm_compareParsed sa sb =
     (let c = npm_compareUint (major sa) (major sb) in if c \<noteq> 0 then c else
      let c = npm_compareUint (minor sa) (minor sb) in if c \<noteq> 0 then c else
      let c = npm_compareUint (patch sa) (patch sb) in if c \<noteq> 0 then c else
      if pre sa = [] \<and> pre sb = [] then 0
      else if pre sa = [] then 1
      else if pre sb = [] then -1
      else npm_comparePrerelease (pre sa) (pre sb))"

definition npm_compareSemver :: "string \<Rightarrow> string \<Rightarrow> int" where
  "npm_compareSemver a b =
     (case (npm_parseSemver a, npm_parseSemver b) of
        (Inr sa, Inr sb) \<Rightarrow> npm_compareParsed sa sb
      | _ \<Rightarrow> str_compare a b)"

definition npm_valid :: "string \<Rightarrow> bool" where
  "npm_valid v \<longleftrightarrow> (case npm_parseSemver v of Inr _ \<Rightarrow> True | Inl _ \<Rightarrow> False)"

text \<open>\<open>latestVersion\<close> ranges over the keys of a Go map, in any order.\<close>

fun npm_latestVersion_loop :: "string \<Rightarrow> string list \<Rightarrow> string" where
  "npm_latestVersion_loop best [] = best"
| "npm_latestVersion_loop best (v # vs) =
     npm_latestVersion_loop (if best = [] \<or> npm_compareSemver v best > 0 then v else best) vs"

definition npm_latestVersion :: "string list \<Rightarrow> string" where
  "npm_latestVersion versions = npm_latestVersion_loop [] versions"


section \<open>cargo\<close>

definition cargo_parseNumericIdentifier :: "string \<Rightarrow> semver_error + nat" where
  "cargo_parseNumericIdentifier s =
     (if s = [] then Inl EmptyNumeric
      else if length s > 1 \<and> hd s = CHR ''0'' then Inl LeadingZero
      else if \<not> list_all is_digit s then Inl NotNumeric
      else (case parse_uint s of Inl _ \<Rightarrow> Inl NumericRange | Inr n \<Rightarrow> Inr n))"

text \<open>
  One identifier: the byte loop rejects anything outside digits, letters and the hyphen, and
  keeps whether only digits were seen.
\<close>

definition cargo_ident_char :: "char \<Rightarrow> bool" where
  "cargo_ident_char c \<longleftrightarrow>
     is_digit c \<or> is_lower_alpha c \<or> is_upper_alpha c \<or> c = CHR ''-''"

definition cargo_validDotIdentifiers :: "string \<Rightarrow> bool \<Rightarrow> bool" where
  "cargo_validDotIdentifiers s isBuild \<longleftrightarrow>
     list_all (\<lambda>id. id \<noteq> [] \<and> list_all cargo_ident_char id
                 \<and> \<not> (list_all is_digit id \<and> \<not> isBuild \<and> length id > 1 \<and> hd id = CHR ''0''))
       (split_on (CHR ''.'') s)"

definition cargo_isNumericIdentifier :: "string \<Rightarrow> bool" where
  "cargo_isNumericIdentifier s \<longleftrightarrow> s \<noteq> [] \<and> list_all is_digit s"

definition cargo_parseCore :: "string \<Rightarrow> string \<Rightarrow> string \<Rightarrow> semver_error + semver" where
  "cargo_parseCore rest p b =
     (case split_on (CHR ''.'') rest of
        [x, y, z] \<Rightarrow>
          (case cargo_parseNumericIdentifier x of Inl e \<Rightarrow> Inl e
           | Inr mj \<Rightarrow> (case cargo_parseNumericIdentifier y of Inl e \<Rightarrow> Inl e
           | Inr mn \<Rightarrow> (case cargo_parseNumericIdentifier z of Inl e \<Rightarrow> Inl e
           | Inr pt \<Rightarrow> Inr \<lparr>major = mj, minor = mn, patch = pt, pre = p, build = b\<rparr>)))
      | _ \<Rightarrow> Inl WantThreeParts)"

definition cargo_parsePre :: "string \<Rightarrow> string \<Rightarrow> semver_error + semver" where
  "cargo_parsePre rest b =
     (case index_byte rest (CHR ''-'') of
        None \<Rightarrow> cargo_parseCore rest [] b
      | Some i \<Rightarrow>
          (let p = drop (Suc i) rest in
           if p = [] \<or> \<not> cargo_validDotIdentifiers p False then Inl InvalidPrerelease
           else cargo_parseCore (take i rest) p b))"

definition cargo_parseSemver :: "string \<Rightarrow> semver_error + semver" where
  "cargo_parseSemver v =
     (case index_byte v (CHR ''+'') of
        None \<Rightarrow> cargo_parsePre v []
      | Some i \<Rightarrow>
          (let b = drop (Suc i) v in
           if \<not> cargo_validDotIdentifiers b True then Inl InvalidBuild
           else cargo_parsePre (take i v) b))"

definition cargo_compareUint :: "nat \<Rightarrow> nat \<Rightarrow> int" where
  "cargo_compareUint a b = (if a < b then -1 else if a > b then 1 else 0)"

definition cargo_compareInt :: "nat \<Rightarrow> nat \<Rightarrow> int" where
  "cargo_compareInt a b = (if a < b then -1 else if a > b then 1 else 0)"

fun cargo_comparePrerelease_loop :: "string list \<Rightarrow> string list \<Rightarrow> int" where
  "cargo_comparePrerelease_loop (x # xs) (y # ys) =
     (let xn = cargo_isNumericIdentifier x; yn = cargo_isNumericIdentifier y in
      if xn \<and> yn then
        (let c = cargo_compareUint (parse_uint_value x) (parse_uint_value y)
         in if c \<noteq> 0 then c else cargo_comparePrerelease_loop xs ys)
      else if xn then -1
      else if yn then 1
      else (let c = str_compare x y
            in if c \<noteq> 0 then c else cargo_comparePrerelease_loop xs ys))"
| "cargo_comparePrerelease_loop xs ys = cargo_compareInt (length xs) (length ys)"

definition cargo_comparePrerelease :: "string \<Rightarrow> string \<Rightarrow> int" where
  "cargo_comparePrerelease a b =
     cargo_comparePrerelease_loop (split_on (CHR ''.'') a) (split_on (CHR ''.'') b)"

definition cargo_compareParsed :: "semver \<Rightarrow> semver \<Rightarrow> int" where
  "cargo_compareParsed sa sb =
     (let c = cargo_compareUint (major sa) (major sb) in if c \<noteq> 0 then c else
      let c = cargo_compareUint (minor sa) (minor sb) in if c \<noteq> 0 then c else
      let c = cargo_compareUint (patch sa) (patch sb) in if c \<noteq> 0 then c else
      if pre sa = [] \<and> pre sb = [] then 0
      else if pre sa = [] then 1
      else if pre sb = [] then -1
      else cargo_comparePrerelease (pre sa) (pre sb))"

definition cargo_compareSemver :: "string \<Rightarrow> string \<Rightarrow> int" where
  "cargo_compareSemver a b =
     (case (cargo_parseSemver a, cargo_parseSemver b) of
        (Inr sa, Inr sb) \<Rightarrow> cargo_compareParsed sa sb
      | _ \<Rightarrow> str_compare a b)"

definition cargo_normalizeVersionKey :: "string \<Rightarrow> string" where
  "cargo_normalizeVersionKey v =
     (case cargo_parseSemver v of
        Inl _ \<Rightarrow> v
      | Inr s \<Rightarrow>
          dec_string (major s) @ ''.'' @ dec_string (minor s) @ ''.'' @ dec_string (patch s)
          @ (if pre s \<noteq> [] then ''-'' @ pre s else []))"

definition cargo_sameVersionIgnoringBuild :: "string \<Rightarrow> string \<Rightarrow> bool" where
  "cargo_sameVersionIgnoringBuild a b \<longleftrightarrow>
     cargo_normalizeVersionKey a = cargo_normalizeVersionKey b"


section \<open>helm\<close>

definition helm_parseNumericIdentifier :: "string \<Rightarrow> semver_error + nat" where
  "helm_parseNumericIdentifier s =
     (if s = [] then Inl EmptyNumeric
      else if length s > 1 \<and> hd s = CHR ''0'' then Inl LeadingZero
      else (case parse_uint s of
              Inl ErrSyntax \<Rightarrow> Inl NotNumeric
            | Inl ErrRange \<Rightarrow> Inl NumericRange
            | Inr n \<Rightarrow> Inr n))"

definition helm_validDotIdentifiers :: "string \<Rightarrow> bool" where
  "helm_validDotIdentifiers s \<longleftrightarrow>
     s \<noteq> [] \<and>
     list_all (\<lambda>id. id \<noteq> [] \<and> list_all (\<lambda>c. is_digit c \<or> is_lower_alpha c \<or> is_upper_alpha c
                                           \<or> c = CHR ''-'') id)
       (split_on (CHR ''.'') s)"

definition helm_parseCore :: "string \<Rightarrow> string \<Rightarrow> semver_error + semver" where
  "helm_parseCore rest p =
     (case split_on (CHR ''.'') rest of
        [x, y, z] \<Rightarrow>
          (case helm_parseNumericIdentifier x of Inl e \<Rightarrow> Inl e
           | Inr mj \<Rightarrow> (case helm_parseNumericIdentifier y of Inl e \<Rightarrow> Inl e
           | Inr mn \<Rightarrow> (case helm_parseNumericIdentifier z of Inl e \<Rightarrow> Inl e
           | Inr pt \<Rightarrow> Inr \<lparr>major = mj, minor = mn, patch = pt, pre = p, build = []\<rparr>)))
      | _ \<Rightarrow> Inl WantThreeParts)"

definition helm_parsePre :: "string \<Rightarrow> semver_error + semver" where
  "helm_parsePre rest =
     (case index_byte rest (CHR ''-'') of
        None \<Rightarrow> helm_parseCore rest []
      | Some i \<Rightarrow>
          (let p = drop (Suc i) rest in
           if p = [] \<or> \<not> helm_validDotIdentifiers p then Inl InvalidPrerelease
           else helm_parseCore (take i rest) p))"

definition helm_parseSemver :: "string \<Rightarrow> semver_error + semver" where
  "helm_parseSemver v =
     (case index_byte v (CHR ''+'') of
        None \<Rightarrow> helm_parsePre v
      | Some i \<Rightarrow>
          (if \<not> helm_validDotIdentifiers (drop (Suc i) v) then Inl InvalidBuild
           else helm_parsePre (take i v)))"

definition helm_compareUint :: "nat \<Rightarrow> nat \<Rightarrow> int" where
  "helm_compareUint a b = (if a < b then -1 else if a > b then 1 else 0)"

fun helm_comparePrerelease_loop :: "string list \<Rightarrow> string list \<Rightarrow> int" where
  "helm_comparePrerelease_loop (x # xs) (y # ys) =
     (case (parse_uint x, parse_uint y) of
        (Inr xn, Inr yn) \<Rightarrow>
          (let c = helm_compareUint xn yn
           in if c \<noteq> 0 then c else helm_comparePrerelease_loop xs ys)
      | (Inr xn, Inl _) \<Rightarrow> -1
      | (Inl _, Inr yn) \<Rightarrow> 1
      | (Inl _, Inl _) \<Rightarrow>
          (if x \<noteq> y then str_compare x y else helm_comparePrerelease_loop xs ys))"
| "helm_comparePrerelease_loop xs ys =
     (if length xs < length ys then -1 else if length xs > length ys then 1 else 0)"

definition helm_comparePrerelease :: "string \<Rightarrow> string \<Rightarrow> int" where
  "helm_comparePrerelease a b =
     helm_comparePrerelease_loop (split_on (CHR ''.'') a) (split_on (CHR ''.'') b)"

definition helm_compareParsed :: "semver \<Rightarrow> semver \<Rightarrow> int" where
  "helm_compareParsed sa sb =
     (let c = helm_compareUint (major sa) (major sb) in if c \<noteq> 0 then c else
      let c = helm_compareUint (minor sa) (minor sb) in if c \<noteq> 0 then c else
      let c = helm_compareUint (patch sa) (patch sb) in if c \<noteq> 0 then c else
      if pre sa = [] \<and> pre sb = [] then 0
      else if pre sa = [] then 1
      else if pre sb = [] then -1
      else helm_comparePrerelease (pre sa) (pre sb))"

definition helm_compareSemver :: "string \<Rightarrow> string \<Rightarrow> int" where
  "helm_compareSemver a b =
     (case (helm_parseSemver a, helm_parseSemver b) of
        (Inr sa, Inr sb) \<Rightarrow> helm_compareParsed sa sb
      | _ \<Rightarrow> str_compare a b)"

definition helm_valid :: "string \<Rightarrow> bool" where
  "helm_valid v \<longleftrightarrow> (case helm_parseSemver v of Inr _ \<Rightarrow> True | Inl _ \<Rightarrow> False)"


section \<open>Comparing parsed versions compares keys\<close>

text \<open>npm reads a numeric identifier with the error of \<open>ParseUint\<close> discarded: it saturates.\<close>

definition npm_ident :: "string \<Rightarrow> ident" where
  "npm_ident s = (if npm_isNumericIdentifier s then Num (parse_uint_value s) else Alnum s)"

definition helm_ident :: "string \<Rightarrow> ident" where
  "helm_ident s = (case parse_uint s of Inr n \<Rightarrow> Num n | Inl _ \<Rightarrow> Alnum s)"

definition npm_key :: "string \<Rightarrow> nat \<times> nat \<times> nat \<times> bool \<times> ident list" where
  "npm_key v = (case npm_parseSemver v of
                  Inr s \<Rightarrow> precedence_key npm_ident s | Inl _ \<Rightarrow> (0, 0, 0, False, []))"

definition helm_key :: "string \<Rightarrow> nat \<times> nat \<times> nat \<times> bool \<times> ident list" where
  "helm_key v = (case helm_parseSemver v of
                   Inr s \<Rightarrow> precedence_key helm_ident s | Inl _ \<Rightarrow> (0, 0, 0, False, []))"

lemma npm_comparePrerelease_loop_key:
  "npm_comparePrerelease_loop xs ys = compare_ord (map npm_ident xs) (map npm_ident ys)"
proof (induction xs ys rule: npm_comparePrerelease_loop.induct)
  case (1 x xs y ys)
  then show ?case
    by (auto simp: npm_ident_def npm_compareUint_def compare_ord_Cons cmp_simps Let_def)
qed (auto simp: npm_compareInt_def)

lemma helm_comparePrerelease_loop_key:
  "helm_comparePrerelease_loop xs ys = compare_ord (map helm_ident xs) (map helm_ident ys)"
proof (induction xs ys rule: helm_comparePrerelease_loop.induct)
  case (1 x xs y ys)
  then show ?case
    by (auto simp: helm_ident_def helm_compareUint_def compare_ord_Cons cmp_simps Let_def
             split: sum.splits)
qed auto

lemma npm_compareParsed_key:
  "npm_compareParsed a b = compare_ord (precedence_key npm_ident a) (precedence_key npm_ident b)"
  unfolding npm_compareParsed_def precedence_key_def npm_comparePrerelease_def
    npm_comparePrerelease_loop_key npm_compareUint_def compare_ord_prod Let_def
  by (auto simp: compare_ord_def)

lemma helm_compareParsed_key:
  "helm_compareParsed a b = compare_ord (precedence_key helm_ident a) (precedence_key helm_ident b)"
  unfolding helm_compareParsed_def precedence_key_def helm_comparePrerelease_def
    helm_comparePrerelease_loop_key helm_compareUint_def compare_ord_prod Let_def
  by (auto simp: compare_ord_def)

lemma npm_compareSemver_key:
  "npm_valid a \<Longrightarrow> npm_valid b \<Longrightarrow> npm_compareSemver a b = compare_ord (npm_key a) (npm_key b)"
  by (auto simp: npm_valid_def npm_compareSemver_def npm_key_def npm_compareParsed_key
           split: sum.splits)

lemma helm_compareSemver_key:
  "helm_valid a \<Longrightarrow> helm_valid b \<Longrightarrow> helm_compareSemver a b = compare_ord (helm_key a) (helm_key b)"
  by (auto simp: helm_valid_def helm_compareSemver_def helm_key_def helm_compareParsed_key
           split: sum.splits)

lemma npm_compareSemver_range: "npm_compareSemver a b \<in> {-1, 0, 1}"
  unfolding npm_compareSemver_def npm_compareParsed_key str_compare_def
  by (auto simp: compare_ord_def split: sum.splits)

lemma helm_compareSemver_range: "helm_compareSemver a b \<in> {-1, 0, 1}"
  unfolding helm_compareSemver_def helm_compareParsed_key str_compare_def
  by (auto simp: compare_ord_def split: sum.splits)

interpretation npm_order: go_comparator npm_compareSemver npm_valid
  by (rule go_comparator_key [where key = npm_key])
    (use npm_compareSemver_range npm_compareSemver_key in auto)

interpretation helm_order: go_comparator helm_compareSemver helm_valid
  by (rule go_comparator_key [where key = helm_key])
    (use helm_compareSemver_range helm_compareSemver_key in auto)


section \<open>The twins agree\<close>

lemma cargo_npm_numeric: "cargo_parseNumericIdentifier = npm_parseNumericIdentifier"
  by (simp add: fun_eq_iff cargo_parseNumericIdentifier_def npm_parseNumericIdentifier_def)

lemma cargo_npm_dot: "cargo_validDotIdentifiers = npm_validDotIdentifiers"
  by (simp add: fun_eq_iff cargo_validDotIdentifiers_def npm_validDotIdentifiers_def
        cargo_ident_char_def [abs_def] npm_ident_char_def [abs_def])

lemma cargo_npm_compareUint: "cargo_compareUint = npm_compareUint"
  by (simp add: fun_eq_iff cargo_compareUint_def npm_compareUint_def)

lemma cargo_npm_compareInt: "cargo_compareInt = npm_compareInt"
  by (simp add: fun_eq_iff cargo_compareInt_def npm_compareInt_def)

lemma cargo_npm_isNumeric: "cargo_isNumericIdentifier = npm_isNumericIdentifier"
  by (simp add: fun_eq_iff cargo_isNumericIdentifier_def npm_isNumericIdentifier_def)

lemma cargo_npm_core: "cargo_parseCore = npm_parseCore"
  by (intro ext) (unfold cargo_parseCore_def npm_parseCore_def cargo_npm_numeric, rule refl)

lemma cargo_npm_pre: "cargo_parsePre = npm_parsePre"
  by (intro ext) (unfold cargo_parsePre_def npm_parsePre_def cargo_npm_core cargo_npm_dot, rule refl)

lemma cargo_npm_parse: "cargo_parseSemver = npm_parseSemver"
  by (intro ext) (unfold cargo_parseSemver_def npm_parseSemver_def cargo_npm_pre cargo_npm_dot, rule refl)

lemma cargo_npm_loop: "cargo_comparePrerelease_loop = npm_comparePrerelease_loop"
proof (intro ext)
  fix xs ys
  show "cargo_comparePrerelease_loop xs ys = npm_comparePrerelease_loop xs ys"
    by (induction xs ys rule: npm_comparePrerelease_loop.induct)
      (simp_all add: Let_def cargo_npm_isNumeric cargo_npm_compareUint cargo_npm_compareInt)
qed

lemma cargo_npm_compareParsed: "cargo_compareParsed = npm_compareParsed"
  by (intro ext) (unfold cargo_compareParsed_def npm_compareParsed_def cargo_comparePrerelease_def
      npm_comparePrerelease_def cargo_npm_loop cargo_npm_compareUint, rule refl)

lemma cargo_npm_compare: "cargo_compareSemver = npm_compareSemver"
  by (intro ext) (unfold cargo_compareSemver_def npm_compareSemver_def cargo_npm_parse
      cargo_npm_compareParsed, rule refl)

lemma helm_npm_numeric:
  "npm_parseNumericIdentifier x = Inr n \<Longrightarrow> helm_parseNumericIdentifier x = Inr n"
  by (auto simp: npm_parseNumericIdentifier_def helm_parseNumericIdentifier_def
           split: if_splits sum.splits)

lemma helm_npm_dot: "npm_validDotIdentifiers x b \<Longrightarrow> helm_validDotIdentifiers x"
proof -
  assume v: "npm_validDotIdentifiers x b"
  then have "x \<noteq> []" by (auto simp: npm_validDotIdentifiers_def)
  with v show ?thesis
    unfolding npm_validDotIdentifiers_def helm_validDotIdentifiers_def
      npm_ident_char_def [abs_def]
    by (auto elim!: list.pred_mono_strong)
qed

lemma helm_npm_core:
  "npm_parseCore r p b = Inr v \<Longrightarrow> helm_parseCore r p = Inr (v\<lparr>build := []\<rparr>)"
  unfolding npm_parseCore_def helm_parseCore_def
  by (clarsimp simp: helm_npm_numeric split: list.split_asm sum.split_asm)

lemma helm_npm_pre: "npm_parsePre r b = Inr v \<Longrightarrow> helm_parsePre r = Inr (v\<lparr>build := []\<rparr>)"
  unfolding npm_parsePre_def helm_parsePre_def
  by (auto simp: Let_def helm_npm_core dest: helm_npm_dot split: option.splits if_splits)

lemma helm_npm_parse:
  "npm_parseSemver x = Inr v \<Longrightarrow> helm_parseSemver x = Inr (v\<lparr>build := []\<rparr>)"
  unfolding npm_parseSemver_def helm_parseSemver_def
  by (auto simp: Let_def helm_npm_pre dest: helm_npm_dot split: option.splits if_splits)

text \<open>
  The numeric prerelease identifiers of a version that fit a \<open>uint64\<close>: on these the three
  readings of an identifier agree.
\<close>

definition bounded_pre :: "semver \<Rightarrow> bool" where
  "bounded_pre v \<longleftrightarrow>
     (\<forall>i\<in>set (split_on (CHR ''.'') (pre v)). all_digits i \<longrightarrow> dec_value 0 i \<le> max_uint64)"

definition npm_bounded :: "string \<Rightarrow> bool" where
  "npm_bounded v \<longleftrightarrow> (case npm_parseSemver v of Inr s \<Rightarrow> bounded_pre s | Inl _ \<Rightarrow> False)"

lemma npm_ident_spec:
  "(all_digits i \<longrightarrow> dec_value 0 i \<le> max_uint64) \<Longrightarrow> npm_ident i = spec_ident i"
  by (auto simp: npm_ident_def spec_ident_def npm_isNumericIdentifier_def parse_uint_value_def
        parse_uint_def all_digits_def)

lemma helm_ident_spec:
  "(all_digits i \<longrightarrow> dec_value 0 i \<le> max_uint64) \<Longrightarrow> helm_ident i = spec_ident i"
  by (auto simp: helm_ident_def spec_ident_def parse_uint_def)

lemma bounded_key:
  "bounded_pre v \<Longrightarrow> precedence_key npm_ident v = precedence_key spec_ident v"
  "bounded_pre v \<Longrightarrow> precedence_key helm_ident v = precedence_key spec_ident v"
  by (simp_all add: precedence_key_def bounded_pre_def npm_ident_spec helm_ident_spec)

lemma precedence_key_build [simp]: "precedence_key f (v\<lparr>build := b\<rparr>) = precedence_key f v"
  by (simp add: precedence_key_def)

lemma npm_valid_cases:
  assumes "npm_valid v" obtains s where "npm_parseSemver v = Inr s"
  using assms by (auto simp: npm_valid_def split: sum.splits)

lemma npm_bounded_cases:
  assumes "npm_bounded v" obtains s where "npm_parseSemver v = Inr s" "bounded_pre s"
  using assms by (auto simp: npm_bounded_def split: sum.splits)


text \<open>The \<open>latestVersion\<close> loop is the shared selection loop, as long as no key is empty.\<close>

lemma npm_valid_nonempty: "npm_valid v \<Longrightarrow> v \<noteq> []"
  by (auto simp: npm_valid_def npm_parseSemver_def npm_parsePre_def npm_parseCore_def)

lemma npm_latestVersion_loop_pick:
  assumes "\<forall>v\<in>set vs. v \<noteq> []"
  shows "npm_latestVersion_loop best vs =
     (case pick_best npm_compareSemver (if best = [] then None else Some best) vs of
        None \<Rightarrow> [] | Some m \<Rightarrow> m)"
  using assms
proof (induction vs arbitrary: best)
  case (Cons v vs)
  let ?b = "if best = [] \<or> npm_compareSemver v best > 0 then v else best"
  have "?b \<noteq> []" using Cons.prems by auto
  with Cons.IH [of ?b] Cons.prems show ?case by (auto split: if_splits)
qed auto

text \<open>Reading back the cargo key: the part of a valid version before its build metadata.\<close>

lemma npm_numeric_print:
  assumes "npm_parseNumericIdentifier x = Inr n"
  shows "dec_string n = x" "CHR ''.'' \<notin> set x" "CHR ''-'' \<notin> set x" "CHR ''+'' \<notin> set x"
proof -
  have x: "x \<noteq> []" "all_digits x" "no_leading_zero x" "n = dec_value 0 x"
    using assms
    by (auto simp: npm_parseNumericIdentifier_def parse_uint_def all_digits_def
        no_leading_zero_def split: if_splits)
  then show "dec_string n = x" by (simp add: dec_string_dec_value)
  show "CHR ''.'' \<notin> set x" "CHR ''-'' \<notin> set x" "CHR ''+'' \<notin> set x"
    using x(2) by (auto simp: all_digits_def list_all_iff char_class_defs)
qed

lemma npm_core_print:
  assumes "npm_parseCore r p b = Inr v"
  shows "r = dec_string (major v) @ ''.'' @ dec_string (minor v) @ ''.'' @ dec_string (patch v)"
    "pre v = p" "build v = b"
proof -
  obtain x y z where xyz: "split_on (CHR ''.'') r = [x, y, z]"
    and n: "npm_parseNumericIdentifier x = Inr (major v)"
      "npm_parseNumericIdentifier y = Inr (minor v)"
      "npm_parseNumericIdentifier z = Inr (patch v)" and pb: "pre v = p" "build v = b"
    using assms unfolding npm_parseCore_def
    by (clarsimp split: list.split_asm sum.split_asm)
  from pb show "pre v = p" "build v = b" by simp_all
  have "r = join_with (CHR ''.'') [x, y, z]" using xyz join_split [of "CHR ''.''" r] by simp
  with n show "r = dec_string (major v) @ ''.'' @ dec_string (minor v) @ ''.'' @ dec_string (patch v)"
    by (simp add: npm_numeric_print)
qed

lemma npm_pre_print:
  assumes "npm_parsePre r b = Inr v"
  shows "r = dec_string (major v) @ ''.'' @ dec_string (minor v) @ ''.'' @ dec_string (patch v)
             @ (if pre v \<noteq> [] then ''-'' @ pre v else [])" (is "r = ?print v")
    "build v = b"
proof -
  show "build v = b"
    using assms unfolding npm_parsePre_def Let_def
    by (auto split: option.split_asm if_split_asm dest: npm_core_print(3))
  show "r = ?print v"
  proof (cases "index_byte r (CHR ''-'')")
    case None
    then have "npm_parseCore r [] b = Inr v" using assms by (simp add: npm_parsePre_def)
    from npm_core_print(1,2) [OF this] show ?thesis by simp
  next
    case (Some i)
    then have c: "npm_parseCore (take i r) (drop (Suc i) r) b = Inr v" "drop (Suc i) r \<noteq> []"
      using assms by (auto simp: npm_parsePre_def Let_def split: if_splits)
    have "r = take i r @ ''-'' @ drop (Suc i) r" using index_byte_split [OF Some] by simp
    also have "\<dots> = ?print v" using npm_core_print(1,2) [OF c(1)] c(2) by simp
    finally show ?thesis .
  qed
qed

lemma cargo_key_prefix:
  assumes "npm_valid v"
  shows "cargo_normalizeVersionKey v =
    (case index_byte v (CHR ''+'') of None \<Rightarrow> v | Some i \<Rightarrow> take i v)"
proof -
  obtain w where w: "npm_parseSemver v = Inr w" using assms by (rule npm_valid_cases)
  show ?thesis
  proof (cases "index_byte v (CHR ''+'')")
    case None
    with w have "npm_parsePre v [] = Inr w" by (simp add: npm_parseSemver_def)
    from npm_pre_print(1) [OF this] None w show ?thesis
      by (simp add: cargo_normalizeVersionKey_def cargo_npm_parse)
  next
    case (Some i)
    with w have "npm_parsePre (take i v) (drop (Suc i) v) = Inr w"
      by (simp add: npm_parseSemver_def Let_def split: if_splits)
    from npm_pre_print(1) [OF this] Some w show ?thesis
      by (simp add: cargo_normalizeVersionKey_def cargo_npm_parse)
  qed
qed

lemma npm_parsePre_build:
  "npm_parsePre r b = Inr v \<Longrightarrow> npm_parsePre r c = Inr (v\<lparr>build := c\<rparr>)"
  unfolding npm_parsePre_def npm_parseCore_def Let_def
  by (clarsimp split: option.split_asm if_split_asm list.split_asm sum.split_asm)

lemma cargo_key_parse:
  assumes "npm_parseSemver v = Inr w"
  shows "npm_parseSemver (cargo_normalizeVersionKey v) = Inr (w\<lparr>build := []\<rparr>)"
proof -
  have v: "npm_valid v" using assms by (simp add: npm_valid_def)
  show ?thesis
  proof (cases "index_byte v (CHR ''+'')")
    case None
    with assms have "npm_parsePre v [] = Inr w" by (simp add: npm_parseSemver_def)
    with npm_parsePre_build [OF this, of "[]"] None v show ?thesis
      by (simp add: cargo_key_prefix npm_parseSemver_def)
  next
    case (Some i)
    with assms have p: "npm_parsePre (take i v) (drop (Suc i) v) = Inr w"
      by (simp add: npm_parseSemver_def Let_def split: if_splits)
    have "index_byte (take i v) (CHR ''+'') = None"
      using index_byte_Some [OF Some] by (simp add: index_byte_None)
    with npm_parsePre_build [OF p, of "[]"] Some v show ?thesis
      by (simp add: cargo_key_prefix npm_parseSemver_def)
  qed
qed

lemmas npm_eval =
  npm_bounded_def bounded_pre_def npm_valid_def npm_parseSemver_def npm_parsePre_def npm_parseCore_def
  npm_parseNumericIdentifier_def npm_validDotIdentifiers_def npm_ident_char_def
  parse_uint_def all_digits_def char_class_defs max_uint64_def


section \<open>Properties\<close>

text \<open>
  C40: On versions that parse and whose numeric prerelease identifiers fit a uint64, npm's
  \<open>compareSemver\<close> is the three-way comparison of the SemVer precedence keys: core numbers
  first, a release above its prereleases, then the identifiers in SemVer order.
\<close>

theorem npm_compare_is_precedence:
  assumes "npm_bounded a" "npm_bounded b"
  shows "\<exists>va vb. npm_parseSemver a = Inr va \<and> npm_parseSemver b = Inr vb \<and>
     npm_compareSemver a b = compare_ord (precedence_key spec_ident va) (precedence_key spec_ident vb)"
proof -
  obtain va vb where "npm_parseSemver a = Inr va" "bounded_pre va"
      "npm_parseSemver b = Inr vb" "bounded_pre vb"
    using assms by (metis npm_bounded_cases)
  then show ?thesis
    by (simp add: npm_compareSemver_def npm_compareParsed_key bounded_key)
qed

theorem npm_compare_is_precedence_witness:
  "npm_bounded ''1.0.0-rc.2'' \<and> npm_bounded ''1.0.0-rc.10'' \<and>
   (\<exists>va vb. npm_parseSemver ''1.0.0-rc.2'' = Inr va \<and> npm_parseSemver ''1.0.0-rc.10'' = Inr vb \<and>
     npm_compareSemver ''1.0.0-rc.2'' ''1.0.0-rc.10''
       = compare_ord (precedence_key spec_ident va) (precedence_key spec_ident vb))"
proof -
  have a: "npm_bounded ''1.0.0-rc.2''" by (simp add: npm_eval)
  have b: "npm_bounded ''1.0.0-rc.10''" by (simp add: npm_eval)
  show ?thesis using npm_compare_is_precedence [OF a b] a b by blast
qed

text \<open>
  \<open>latestVersion\<close> over a non-empty set of valid versions, ranged over in any order, returns
  one of them, and no version of the set is above it.
\<close>

theorem npm_latestVersion_max:
  assumes "\<forall>v\<in>set vs. npm_valid v" "vs \<noteq> []"
  shows "npm_latestVersion vs \<in> set vs \<and> (\<forall>v\<in>set vs. npm_compareSemver v (npm_latestVersion vs) \<le> 0)"
proof -
  obtain m where "pick_best npm_compareSemver None vs = Some m" "m \<in> set vs"
      "\<forall>v\<in>set vs. npm_compareSemver v m \<le> 0"
    using npm_order.pick_best_max [OF assms] by blast
  moreover have "\<forall>v\<in>set vs. v \<noteq> []" using assms(1) npm_valid_nonempty by blast
  ultimately show ?thesis by (simp add: npm_latestVersion_def npm_latestVersion_loop_pick)
qed

theorem npm_latestVersion_max_witness:
  "list_all npm_valid [''1.9.0'', ''1.10.0'', ''1.10.0-rc.1''] \<and>
   npm_latestVersion [''1.9.0'', ''1.10.0'', ''1.10.0-rc.1''] \<in> set [''1.9.0'', ''1.10.0'', ''1.10.0-rc.1''] \<and>
   npm_compareSemver ''1.9.0'' (npm_latestVersion [''1.9.0'', ''1.10.0'', ''1.10.0-rc.1'']) \<le> 0"
proof -
  have "\<forall>v\<in>set [''1.9.0'', ''1.10.0'', ''1.10.0-rc.1'']. npm_valid v" by (simp add: npm_eval)
  with npm_latestVersion_max [OF this] show ?thesis by simp
qed

text \<open>
  The three copies agree. cargo's comparison is npm's on every pair of strings, and helm's
  is npm's on every pair of npm-valid versions whose numeric prerelease identifiers fit a uint64.
\<close>

theorem semver_twins_agree:
  "cargo_compareSemver a b = npm_compareSemver a b \<and>
   (npm_bounded a \<longrightarrow> npm_bounded b \<longrightarrow> helm_compareSemver a b = npm_compareSemver a b)"
proof (intro conjI impI)
  show "cargo_compareSemver a b = npm_compareSemver a b" by (simp add: cargo_npm_compare)
  assume "npm_bounded a" "npm_bounded b"
  then obtain va vb where v: "npm_parseSemver a = Inr va" "bounded_pre va"
      "npm_parseSemver b = Inr vb" "bounded_pre vb"
    by (metis npm_bounded_cases)
  then show "helm_compareSemver a b = npm_compareSemver a b"
    by (simp add: npm_compareSemver_def helm_compareSemver_def npm_compareParsed_key
        helm_compareParsed_key bounded_key helm_npm_parse)
qed

theorem semver_twins_agree_witness:
  "npm_bounded ''2.0.0'' \<and> npm_bounded ''2.0.0-beta'' \<and>
   helm_compareSemver ''2.0.0'' ''2.0.0-beta'' = npm_compareSemver ''2.0.0'' ''2.0.0-beta''"
proof -
  have "npm_bounded ''2.0.0''" "npm_bounded ''2.0.0-beta''" by (simp_all add: npm_eval)
  with semver_twins_agree [of "''2.0.0''" "''2.0.0-beta''"] show ?thesis by simp
qed

text \<open>
  The cargo index uniqueness key of a valid version is the version with its build metadata
  cut off; it parses back to the same version without build metadata, is its own key, and two
  valid versions with the same key compare as equal.
\<close>

theorem cargo_version_key:
  assumes "cargo_parseSemver a = Inr va"
  shows "cargo_parseSemver (cargo_normalizeVersionKey a) = Inr (va\<lparr>build := []\<rparr>)
    \<and> cargo_normalizeVersionKey (cargo_normalizeVersionKey a) = cargo_normalizeVersionKey a
    \<and> (\<forall>b vb. cargo_parseSemver b = Inr vb \<longrightarrow> cargo_sameVersionIgnoringBuild a b
          \<longrightarrow> cargo_compareSemver a b = 0)"
proof (intro conjI allI impI)
  have p: "npm_parseSemver a = Inr va" using assms by (simp add: cargo_npm_parse)
  show "cargo_parseSemver (cargo_normalizeVersionKey a) = Inr (va\<lparr>build := []\<rparr>)"
    using cargo_key_parse [OF p] by (simp add: cargo_npm_parse)
  show "cargo_normalizeVersionKey (cargo_normalizeVersionKey a) = cargo_normalizeVersionKey a"
    using cargo_key_parse [OF p] p
    by (simp add: cargo_normalizeVersionKey_def [of "cargo_normalizeVersionKey a"] cargo_npm_parse)
      (simp add: cargo_normalizeVersionKey_def cargo_npm_parse)
  fix b vb
  assume b: "cargo_parseSemver b = Inr vb" and same: "cargo_sameVersionIgnoringBuild a b"
  have q: "npm_parseSemver b = Inr vb" using b by (simp add: cargo_npm_parse)
  have "va\<lparr>build := []\<rparr> = vb\<lparr>build := []\<rparr>"
    using cargo_key_parse [OF p] cargo_key_parse [OF q] same
    by (simp add: cargo_sameVersionIgnoringBuild_def)
  then have "precedence_key npm_ident va = precedence_key npm_ident vb"
    by (metis precedence_key_build)
  then show "cargo_compareSemver a b = 0"
    by (simp add: cargo_npm_compare npm_compareSemver_def p q npm_compareParsed_key)
qed

theorem cargo_version_key_witness:
  "\<exists>va. cargo_parseSemver ''1.2.3+linux'' = Inr va \<and>
     cargo_parseSemver (cargo_normalizeVersionKey ''1.2.3+linux'') = Inr (va\<lparr>build := []\<rparr>)"
proof -
  have "npm_valid ''1.2.3+linux''" by (simp add: npm_eval)
  then obtain va where "cargo_parseSemver ''1.2.3+linux'' = Inr va"
    by (auto simp: npm_valid_def cargo_npm_parse split: sum.splits)
  with cargo_version_key [OF this] show ?thesis by blast
qed


section \<open>What does not hold\<close>

text \<open>
  The comment on \<open>compareSemver\<close> calls the fallback on invalid spellings "a stable total
  order". Mixed with valid versions it is not an order: these three spellings form a cycle.
\<close>

theorem npm_compare_cycle:
  "npm_compareSemver ''10.0.0'' ''5'' < 0 \<and> npm_compareSemver ''5'' ''9.0.0'' < 0 \<and>
   npm_compareSemver ''9.0.0'' ''10.0.0'' < 0"
  by (simp add: npm_eval npm_compareSemver_def npm_compareParsed_def npm_compareUint_def
      str_compare_def)

text \<open>
  The comment on \<open>latestVersion\<close> says that ties are broken lexically. They are broken by
  iteration order: the first of two versions that differ in build metadata is kept.
\<close>

theorem npm_latestVersion_ties:
  "npm_latestVersion [''1.0.0+a'', ''1.0.0+b''] = ''1.0.0+a'' \<and>
   npm_latestVersion [''1.0.0+b'', ''1.0.0+a''] = ''1.0.0+b''"
  by (simp add: npm_eval npm_latestVersion_def npm_compareSemver_def npm_compareParsed_def
      npm_compareUint_def)

text \<open>
  Numeric prerelease identifiers above the uint64 range are not compared numerically: npm reads
  both as the largest uint64, helm takes them for alphanumeric ones.
\<close>

theorem huge_numeric_identifiers:
  "npm_compareSemver ''1.0.0-99999999999999999999'' ''1.0.0-99999999999999999998'' = 0 \<and>
   helm_compareSemver ''1.0.0-99999999999999999999'' ''1.0.0-100000000000000000000'' > 0"
  by (simp add: npm_eval npm_compareSemver_def npm_compareParsed_def npm_compareUint_def
      npm_comparePrerelease_def npm_isNumericIdentifier_def parse_uint_value_def npm_compareInt_def
      helm_compareSemver_def helm_parseSemver_def helm_parsePre_def helm_parseCore_def
      helm_parseNumericIdentifier_def helm_validDotIdentifiers_def helm_compareParsed_def
      helm_compareUint_def helm_comparePrerelease_def str_compare_def compare_ord_def)

text \<open>
  helm's \<open>parseSemver\<close> is documented as strict SemVer 2.0, which forbids leading zeros in
  numeric prerelease identifiers; it accepts them.
\<close>

theorem helm_accepts_leading_zero:
  "helm_valid ''1.0.0-01'' \<and> \<not> npm_valid ''1.0.0-01''"
  by (simp add: npm_eval helm_valid_def helm_parseSemver_def helm_parsePre_def helm_parseCore_def
      helm_parseNumericIdentifier_def helm_validDotIdentifiers_def)

end
