(* ===== verification/Version_Nuget.thy ===== *)
theory Version_Nuget
  imports Version_Semver
begin

text \<open>
  The NuGet version grammar, order and normal form (\<open>internal/adapter/nuget/version.go\<close>).
  Numbers are read by a loop on \<open>uint64\<close>, whose wrap-around is written out; it is shown never
  to happen. The order is the comparison of the keys of \<open>Version_Semver\<close> with a four-field
  core, and normalisation is idempotent.
\<close>

record nugetVersion =
  core :: "nat list"
  hasRev :: bool
  prerelease :: "string list"
  hasPre :: bool
  nbuild :: string


section \<open>Grammar\<close>

definition nuget_validPrereleaseIdent :: "string \<Rightarrow> bool" where
  "nuget_validPrereleaseIdent i \<longleftrightarrow>
     list_all (\<lambda>r. is_lower_alpha r \<or> is_upper_alpha r \<or> is_digit r \<or> r = CHR ''-'') i"

definition nuget_isNumericIdent :: "string \<Rightarrow> bool" where
  "nuget_isNumericIdent s \<longleftrightarrow> s \<noteq> [] \<and> list_all is_digit s"

fun nuget_parseUint_loop :: "nat \<Rightarrow> string \<Rightarrow> nat option" where
  "nuget_parseUint_loop n [] = Some n"
| "nuget_parseUint_loop n (c # cs) =
     (if \<not> is_digit c then None
      else nuget_parseUint_loop ((n * 10 + digit_val c) mod 2 ^ 64) cs)"

definition nuget_parseUint :: "string \<Rightarrow> nat option" where
  "nuget_parseUint s = (if s = [] \<or> length s > 19 then None else nuget_parseUint_loop 0 s)"

text \<open>The prerelease loop: every identifier legal, numeric ones without a leading zero.\<close>

definition nuget_pre_ok :: "string \<Rightarrow> bool" where
  "nuget_pre_ok i \<longleftrightarrow>
     i \<noteq> [] \<and> nuget_validPrereleaseIdent i
     \<and> \<not> (nuget_isNumericIdent i \<and> length i > 1 \<and> hd i = CHR ''0'')"

text \<open>The core loop over two to four fields fills \<open>core[i]\<close>; absent fields stay zero.\<close>

fun nuget_parseFields :: "string list \<Rightarrow> nat list option" where
  "nuget_parseFields [] = Some []"
| "nuget_parseFields (p # ps) =
     (case nuget_parseUint p of None \<Rightarrow> None
      | Some n \<Rightarrow> map_option (\<lambda>ns. n # ns) (nuget_parseFields ps))"

definition nuget_parseCore :: "string \<Rightarrow> string list \<Rightarrow> bool \<Rightarrow> string \<Rightarrow> nugetVersion option" where
  "nuget_parseCore s ids hp b =
     (let parts = split_on (CHR ''.'') s in
      if length parts < 2 \<or> length parts > 4 then None
      else (case nuget_parseFields parts of None \<Rightarrow> None
            | Some ns \<Rightarrow> Some \<lparr>core = ns @ replicate (4 - length ns) 0, hasRev = (length parts = 4),
                               prerelease = ids, hasPre = hp, nbuild = b\<rparr>))"

definition nuget_parsePre :: "string \<Rightarrow> string \<Rightarrow> nugetVersion option" where
  "nuget_parsePre s b =
     (case index_byte s (CHR ''-'') of
        None \<Rightarrow> nuget_parseCore s [] False b
      | Some i \<Rightarrow>
          (let ids = split_on (CHR ''.'') (drop (Suc i) s) in
           if \<not> list_all nuget_pre_ok ids then None
           else nuget_parseCore (take i s) ids True b))"

definition parseNuGetVersion :: "string \<Rightarrow> nugetVersion option" where
  "parseNuGetVersion s =
     (if s = [] then None
      else (case index_byte s (CHR ''+'') of
              None \<Rightarrow> nuget_parsePre s []
            | Some i \<Rightarrow>
                (if take i s = [] then None
                 else nuget_parsePre (take i s) (drop (Suc i) s))))"


section \<open>Order\<close>

definition nuget_compareOrdinalIdent :: "string \<Rightarrow> string \<Rightarrow> int" where
  "nuget_compareOrdinalIdent a b = str_compare a b"

fun nuget_compareCore :: "nat list \<Rightarrow> nat list \<Rightarrow> int" where
  "nuget_compareCore (x # xs) (y # ys) =
     (if x \<noteq> y then (if x < y then -1 else 1) else nuget_compareCore xs ys)"
| "nuget_compareCore _ _ = 0"

fun nuget_comparePre :: "string list \<Rightarrow> string list \<Rightarrow> int" where
  "nuget_comparePre (x # xs) (y # ys) =
     (let xn = nuget_isNumericIdent x; yn = nuget_isNumericIdent y in
      if xn \<and> yn then
        (if x \<noteq> y then
           (if length x < length y \<or> (length x = length y \<and> x < y) then -1 else 1)
         else nuget_comparePre xs ys)
      else if xn then -1
      else if yn then 1
      else
        (if x \<noteq> y then (if nuget_compareOrdinalIdent x y < 0 then -1 else 1)
         else nuget_comparePre xs ys))"
| "nuget_comparePre xs ys =
     (if length xs < length ys then -1 else if length xs > length ys then 1 else 0)"

definition nuget_compareParsed :: "nugetVersion \<Rightarrow> nugetVersion \<Rightarrow> int" where
  "nuget_compareParsed va vb =
     (let c = nuget_compareCore (core va) (core vb) in if c \<noteq> 0 then c
      else if \<not> hasPre va \<and> \<not> hasPre vb then 0
      else if \<not> hasPre va then 1
      else if \<not> hasPre vb then -1
      else nuget_comparePre (prerelease va) (prerelease vb))"

definition compareNuGetVersions :: "string \<Rightarrow> string \<Rightarrow> int" where
  "compareNuGetVersions a b =
     (case (parseNuGetVersion a, parseNuGetVersion b) of
        (Some va, Some vb) \<Rightarrow> nuget_compareParsed va vb
      | _ \<Rightarrow> str_compare (to_lower a) (to_lower b))"


section \<open>Normal form\<close>

function nuget_u64toa_loop :: "nat \<Rightarrow> string \<Rightarrow> string" where
  "nuget_u64toa_loop n buf =
     (if n > 0 then nuget_u64toa_loop (n div 10) (digit_char (n mod 10) # buf) else buf)"
  by pat_completeness auto
termination by (relation "measure fst") auto

declare nuget_u64toa_loop.simps [simp del]

definition nuget_u64toa :: "nat \<Rightarrow> string" where
  "nuget_u64toa n = (if n = 0 then ''0'' else nuget_u64toa_loop n [])"

definition nuget_render :: "nugetVersion \<Rightarrow> string" where
  "nuget_render v =
     nuget_u64toa (core v ! 0) @ ''.'' @ nuget_u64toa (core v ! 1) @ ''.'' @ nuget_u64toa (core v ! 2)
     @ (if hasRev v then ''.'' @ nuget_u64toa (core v ! 3) else [])
     @ (if hasPre v then ''-'' @ join_with (CHR ''.'') (map to_lower (prerelease v)) else [])
     @ (if nbuild v \<noteq> [] then ''+'' @ to_lower (nbuild v) else [])"

definition normalizeNuGetVersion :: "string \<Rightarrow> string option" where
  "normalizeNuGetVersion s = map_option nuget_render (parseNuGetVersion s)"

definition isPrereleaseVersion :: "string \<Rightarrow> bool" where
  "isPrereleaseVersion s = (case parseNuGetVersion s of Some v \<Rightarrow> hasPre v | None \<Rightarrow> False)"


section \<open>Package ids\<close>

definition isAlnumASCII :: "char \<Rightarrow> bool" where
  "isAlnumASCII c \<longleftrightarrow> is_digit c \<or> is_lower_alpha c \<or> is_upper_alpha c"

definition isIDCorner :: "char \<Rightarrow> bool" where
  "isIDCorner c \<longleftrightarrow> c = CHR ''-'' \<or> c = CHR ''_'' \<or> isAlnumASCII c"

definition validPackageID :: "string \<Rightarrow> bool" where
  "validPackageID i \<longleftrightarrow>
     i \<noteq> [] \<and> length i \<le> 100 \<and> isIDCorner (hd i) \<and> isIDCorner (last i)
     \<and> list_all (\<lambda>r. is_lower_alpha r \<or> is_upper_alpha r \<or> is_digit r
                   \<or> r = CHR ''-'' \<or> r = CHR ''_'' \<or> r = CHR ''.'') i"

text \<open>\<open>lowerASCII\<close>: an early return when nothing is upper case, then a byte loop.\<close>

definition lowerASCII :: "string \<Rightarrow> string" where
  "lowerASCII s =
     (if \<not> list_ex is_upper_alpha s then s
      else map (\<lambda>c. if is_upper_alpha c then char_of (byte_of c + (97 - 65)) else c) s)"


section \<open>Lemmas\<close>

lemma nuget_parseUint_loop_exact:
  assumes "all_digits s" "n < 10 ^ k" "k + length s \<le> 19"
  shows "nuget_parseUint_loop n s = Some (dec_value n s)"
  using assms
proof (induction s arbitrary: n k)
  case (Cons c cs)
  have c: "is_digit c" "all_digits cs" using Cons.prems by (auto simp: all_digits_def)
  have lt: "n * 10 + digit_val c < 10 ^ Suc k"
    using Cons.prems(2) digit_val_less [OF c(1)] by simp
  also have "\<dots> \<le> (10::nat) ^ 19" using Cons.prems(3) by (intro power_increasing) auto
  also have "\<dots> < 2 ^ 64" by simp
  finally have "(n * 10 + digit_val c) mod 2 ^ 64 = n * 10 + digit_val c" by simp
  with Cons.IH [OF c(2) lt] Cons.prems(3) c(1) show ?case by simp
qed simp

lemma nuget_parseUint_loop_digits: "nuget_parseUint_loop n s = Some m \<Longrightarrow> all_digits s"
  by (induction s arbitrary: n) (auto simp: all_digits_def split: if_splits)

lemma nuget_parseUint_Some:
  "nuget_parseUint s = Some n \<longleftrightarrow>
     s \<noteq> [] \<and> length s \<le> 19 \<and> all_digits s \<and> n = dec_value 0 s"
  using nuget_parseUint_loop_exact [of s 0 0] nuget_parseUint_loop_digits [of 0 s]
  by (auto simp: nuget_parseUint_def)

lemma nuget_u64toa_loop_dec: "nuget_u64toa_loop n buf = (if n = 0 then buf else dec_string n @ buf)"
proof (induction n buf rule: nuget_u64toa_loop.induct)
  case (1 n buf)
  show ?case
  proof (cases "n < 10")
    case True
    with "1.IH" show ?thesis
      by (auto simp: nuget_u64toa_loop.simps [of n buf] dec_string.simps [of n])
  next
    case False
    with "1.IH" show ?thesis
      by (auto simp: nuget_u64toa_loop.simps [of n buf] dec_string.simps [of n])
  qed
qed

lemma nuget_u64toa_dec [simp]: "nuget_u64toa n = dec_string n"
  using digit_char_eq_0 [of 0]
  by (simp add: nuget_u64toa_def nuget_u64toa_loop_dec dec_string.simps [of 0])

lemma lowerASCII_to_lower: "lowerASCII s = to_lower s"
  by (induction s) (auto simp: lowerASCII_def to_lower_def lower_char_def list_ex_iff map_idI)

definition nuget_wf :: "nugetVersion \<Rightarrow> bool" where
  "nuget_wf v \<longleftrightarrow>
     length (core v) = 4 \<and> list_all (\<lambda>n. n < 10 ^ 19) (core v) \<and> (\<not> hasRev v \<longrightarrow> core v ! 3 = 0)
     \<and> list_all nuget_pre_ok (prerelease v) \<and> (hasPre v \<longleftrightarrow> prerelease v \<noteq> [])"

lemma nuget_parseFields_Some:
  "nuget_parseFields ps = Some ns \<Longrightarrow> length ns = length ps \<and> list_all (\<lambda>n. n < 10 ^ 19) ns"
proof (induction ps arbitrary: ns)
  case (Cons p ps)
  then obtain n ms where n: "nuget_parseUint p = Some n" "nuget_parseFields ps = Some ms" "ns = n # ms"
    by (auto split: option.splits)
  then have "length p \<le> 19" "n < 10 ^ length p"
    using dec_value_bound [of p] by (auto simp: nuget_parseUint_Some)
  then have "n < 10 ^ 19" using power_increasing [of "length p" 19 "10::nat"] by linarith
  with n Cons.IH show ?case by simp
qed simp

lemma nuget_parseCore_wf:
  assumes "nuget_parseCore s ids hp b = Some v" "list_all nuget_pre_ok ids" "hp \<longleftrightarrow> ids \<noteq> []"
  shows "nuget_wf v"
proof -
  let ?parts = "split_on (CHR ''.'') s"
  obtain ns where ns: "nuget_parseFields ?parts = Some ns" "2 \<le> length ?parts" "length ?parts \<le> 4"
      "v = \<lparr>core = ns @ replicate (4 - length ns) 0, hasRev = (length ?parts = 4),
            prerelease = ids, hasPre = hp, nbuild = b\<rparr>"
    using assms(1) by (auto simp: nuget_parseCore_def Let_def split: if_splits option.splits)
  note f = nuget_parseFields_Some [OF ns(1)]
  have "length ns < 4 \<Longrightarrow> (ns @ replicate (4 - length ns) 0) ! 3 = 0"
    by (simp add: nth_append nth_replicate)
  with f ns assms(2,3) show ?thesis by (auto simp: nuget_wf_def list_all_iff)
qed

lemma nuget_parse_wf:
  assumes "parseNuGetVersion s = Some v" shows "nuget_wf v"
proof -
  have "nuget_wf v" if "nuget_parsePre t b = Some v" for t b
  proof (cases "index_byte t (CHR ''-'')")
    case None
    with that nuget_parseCore_wf show ?thesis by (fastforce simp: nuget_parsePre_def)
  next
    case (Some i)
    with that show ?thesis
      by (auto simp: nuget_parsePre_def Let_def split: if_splits intro: nuget_parseCore_wf)
  qed
  with assms show ?thesis by (auto simp: parseNuGetVersion_def split: if_splits option.splits)
qed

subsection \<open>The order compares keys\<close>

definition nuget_key :: "nugetVersion \<Rightarrow> nat list \<times> bool \<times> ident list" where
  "nuget_key v = (core v, \<not> hasPre v, map spec_ident (prerelease v))"

lemma nuget_compareCore_key:
  "length xs = length ys \<Longrightarrow> nuget_compareCore xs ys = compare_ord xs ys"
  by (induction xs ys rule: list_induct2) (auto simp: compare_ord_Cons compare_ord_def)

lemma nuget_pre_ok_numeric:
  "nuget_pre_ok i \<Longrightarrow> nuget_isNumericIdent i \<Longrightarrow> i \<noteq> [] \<and> all_digits i \<and> no_leading_zero i"
  by (auto simp: nuget_pre_ok_def nuget_isNumericIdent_def all_digits_def no_leading_zero_def)

lemma nuget_spec_ident:
  "nuget_isNumericIdent i \<Longrightarrow> spec_ident i = Num (dec_value 0 i)"
  "\<not> nuget_isNumericIdent i \<Longrightarrow> spec_ident i = Alnum i"
  by (auto simp: spec_ident_def nuget_isNumericIdent_def all_digits_def)

lemma nuget_ident_step:
  assumes "nuget_pre_ok x" "nuget_pre_ok y" "nuget_isNumericIdent x" "nuget_isNumericIdent y"
  shows "compare_ord (dec_value 0 x) (dec_value 0 y) =
    (if x \<noteq> y then (if length x < length y \<or> (length x = length y \<and> x < y) then -1 else 1) else 0)"
proof -
  note d = nuget_pre_ok_numeric [OF assms(1,3)] nuget_pre_ok_numeric [OF assms(2,4)]
  have "shortlex x y \<longleftrightarrow> dec_value 0 x < dec_value 0 y" "dec_value 0 x = dec_value 0 y \<longleftrightarrow> x = y"
    using d by (simp_all add: shortlex_dec_value dec_value_inj)
  then show ?thesis by (auto simp: compare_ord_def shortlex_def)
qed

lemma nuget_comparePre_key:
  "list_all nuget_pre_ok xs \<Longrightarrow> list_all nuget_pre_ok ys \<Longrightarrow>
   nuget_comparePre xs ys = compare_ord (map spec_ident xs) (map spec_ident ys)"
proof (induction xs ys rule: nuget_comparePre.induct)
  case (1 x xs y ys)
  have ok: "nuget_pre_ok x" "nuget_pre_ok y" "list_all nuget_pre_ok xs" "list_all nuget_pre_ok ys"
    using "1.prems" by auto
  show ?case
  proof (cases "nuget_isNumericIdent x \<and> nuget_isNumericIdent y")
    case True
    with 1 ok nuget_ident_step [OF ok(1,2)] show ?thesis
      by (auto simp: Let_def compare_ord_Cons nuget_spec_ident compare_ident)
  next
    case False
    with 1 ok show ?thesis
      by (auto simp: Let_def compare_ord_Cons nuget_spec_ident compare_ident
          nuget_compareOrdinalIdent_def str_compare_def compare_ord_def)
  qed
qed auto

lemma nuget_compareParsed_key:
  assumes "nuget_wf a" "nuget_wf b"
  shows "nuget_compareParsed a b = compare_ord (nuget_key a) (nuget_key b)"
proof -
  have "length (core a) = length (core b)" using assms by (simp add: nuget_wf_def)
  moreover have "nuget_comparePre (prerelease a) (prerelease b) =
      compare_ord (map spec_ident (prerelease a)) (map spec_ident (prerelease b))"
    using assms by (simp add: nuget_wf_def nuget_comparePre_key)
  moreover have "\<not> hasPre a \<Longrightarrow> prerelease a = []" "\<not> hasPre b \<Longrightarrow> prerelease b = []"
    using assms by (auto simp: nuget_wf_def)
  ultimately show ?thesis
    unfolding nuget_compareParsed_def nuget_key_def Let_def compare_ord_prod
    by (auto simp: nuget_compareCore_key compare_ord_def)
qed

definition nuget_valid :: "string \<Rightarrow> bool" where
  "nuget_valid s \<longleftrightarrow> parseNuGetVersion s \<noteq> None"

lemma compareNuGetVersions_key:
  "parseNuGetVersion a = Some va \<Longrightarrow> parseNuGetVersion b = Some vb \<Longrightarrow>
   compareNuGetVersions a b = compare_ord (nuget_key va) (nuget_key vb)"
  by (simp add: compareNuGetVersions_def nuget_compareParsed_key nuget_parse_wf)

interpretation nuget_order: go_comparator compareNuGetVersions nuget_valid
proof (rule go_comparator_key [where key = "\<lambda>s. nuget_key (the (parseNuGetVersion s))"])
  fix a b
  show "compareNuGetVersions a b \<in> {-1, 0, 1}"
  proof (cases "parseNuGetVersion a = None \<or> parseNuGetVersion b = None")
    case True
    then show ?thesis
      by (auto simp: compareNuGetVersions_def str_compare_def compare_ord_def split: option.splits)
  next
    case False
    then obtain va vb where "parseNuGetVersion a = Some va" "parseNuGetVersion b = Some vb" by auto
    then show ?thesis by (simp only: compareNuGetVersions_key compare_ord_range)
  qed
  show "compareNuGetVersions a b =
      compare_ord (nuget_key (the (parseNuGetVersion a))) (nuget_key (the (parseNuGetVersion b)))"
    if "nuget_valid a" "nuget_valid b"
    using that by (auto simp: nuget_valid_def compareNuGetVersions_key)
qed

subsection \<open>Rendering and reading back\<close>

lemma nuget_parseFields_print:
  "list_all (\<lambda>n. n < 10 ^ 19) ns \<Longrightarrow> nuget_parseFields (map dec_string ns) = Some ns"
proof (induction ns)
  case (Cons n ns)
  have "length (dec_string n) \<le> 19"
  proof (rule ccontr)
    assume "\<not> length (dec_string n) \<le> 19"
    then have len: "20 \<le> length (dec_string n)" by simp
    then have "n \<noteq> 0" by (cases "n = 0") (auto simp: dec_string.simps [of 0])
    then have "10 ^ (length (dec_string n) - 1) \<le> n"
      using dec_value_lower [of "dec_string n"] hd_dec_string [of n] by simp
    moreover have "(10::nat) ^ 19 \<le> 10 ^ (length (dec_string n) - 1)"
      using len by (intro power_increasing) auto
    ultimately show False using Cons.prems by simp
  qed
  with Cons show ?case by (simp add: nuget_parseUint_Some [THEN iffD2])
qed simp

lemma dec_string_no_sep: "c \<in> set (dec_string n) \<Longrightarrow> is_digit c"
  using all_digits_dec_string [of n] by (auto simp: all_digits_def list_all_iff)

lemma dec_string_no_punct [simp]:
  "CHR ''.'' \<notin> set (dec_string n)" "CHR ''-'' \<notin> set (dec_string n)" "CHR ''+'' \<notin> set (dec_string n)"
  using dec_string_no_sep by (force simp: char_class_defs)+

lemma join_no_char:
  "c \<noteq> d \<Longrightarrow> \<forall>x\<in>set xs. d \<notin> set x \<Longrightarrow> d \<notin> set (join_with c xs)"
  by (induction c xs rule: join_with.induct) auto

definition nuget_fields :: "nugetVersion \<Rightarrow> nat list" where
  "nuget_fields v = (if hasRev v then core v else take 3 (core v))"

lemma nuget_core_print:
  assumes "nuget_wf v"
  shows "nuget_parseCore (join_with (CHR ''.'') (map dec_string (nuget_fields v))) ids hp b =
    Some \<lparr>core = core v, hasRev = hasRev v, prerelease = ids, hasPre = hp, nbuild = b\<rparr>"
proof -
  have "length (core v) = 4" using assms by (simp add: nuget_wf_def)
  then obtain w x y z where c: "core v = [w, x, y, z]" by (rule list_length_4)
  have z: "\<not> hasRev v \<longrightarrow> z = 0" using assms c by (simp add: nuget_wf_def)
  have "list_all (\<lambda>n. n < 10 ^ 19) (nuget_fields v)"
    using assms c by (auto simp: nuget_wf_def nuget_fields_def)
  then have f: "nuget_parseFields (map dec_string (nuget_fields v)) = Some (nuget_fields v)"
    by (rule nuget_parseFields_print)
  have "split_on (CHR ''.'') (join_with (CHR ''.'') (map dec_string (nuget_fields v)))
      = map dec_string (nuget_fields v)"
    by (rule split_join) (auto simp: nuget_fields_def c)
  with f c z show ?thesis by (auto simp: nuget_parseCore_def Let_def nuget_fields_def)
qed

lemma nuget_render_fields:
  assumes "nuget_wf v"
  shows "nuget_render v = join_with (CHR ''.'') (map dec_string (nuget_fields v))
     @ (if hasPre v then ''-'' @ join_with (CHR ''.'') (map to_lower (prerelease v)) else [])
     @ (if nbuild v \<noteq> [] then ''+'' @ to_lower (nbuild v) else [])"
proof -
  have "length (core v) = 4" using assms by (simp add: nuget_wf_def)
  then obtain w x y z where "core v = [w, x, y, z]" by (rule list_length_4)
  then show ?thesis by (simp add: nuget_render_def nuget_fields_def)
qed

lemma lower_ident_char:
  "is_lower_alpha r \<or> is_upper_alpha r \<or> is_digit r \<or> r = CHR ''-'' \<Longrightarrow>
   is_lower_alpha (lower_char r) \<or> is_digit (lower_char r) \<or> lower_char r = CHR ''-''"
  by (auto simp: char_class_defs)

lemma lower_is_digit: "is_digit (lower_char r) \<longleftrightarrow> is_digit r"
  by (auto simp: char_class_defs)

lemma nuget_pre_ok_lower: assumes "nuget_pre_ok i" shows "nuget_pre_ok (to_lower i)"
proof -
  have valid: "nuget_validPrereleaseIdent (to_lower i)"
    using assms lower_ident_char
    by (auto simp: nuget_pre_ok_def nuget_validPrereleaseIdent_def to_lower_def list_all_iff)
  have num: "nuget_isNumericIdent (to_lower i) \<Longrightarrow> to_lower i = i"
    by (auto simp: nuget_isNumericIdent_def to_lower_def list_all_iff lower_is_digit intro: map_idI)
  show ?thesis
  proof (cases "nuget_isNumericIdent (to_lower i)")
    case True
    with num assms show ?thesis by simp
  next
    case False
    with valid assms show ?thesis by (simp add: nuget_pre_ok_def)
  qed
qed

lemma nuget_pre_ok_punct: assumes "nuget_pre_ok i" shows "CHR ''.'' \<notin> set i" "CHR ''+'' \<notin> set i"
  using assms
  by (auto simp: nuget_pre_ok_def nuget_validPrereleaseIdent_def list_all_iff char_class_defs)

definition nuget_lowered :: "nugetVersion \<Rightarrow> nugetVersion" where
  "nuget_lowered v = v\<lparr>prerelease := map to_lower (prerelease v), nbuild := to_lower (nbuild v)\<rparr>"

lemma nuget_parsePre_print:
  assumes "nuget_wf v"
  shows "nuget_parsePre (join_with (CHR ''.'') (map dec_string (nuget_fields v))
     @ (if hasPre v then ''-'' @ join_with (CHR ''.'') (map to_lower (prerelease v)) else [])) b
   = Some ((nuget_lowered v)\<lparr>nbuild := b\<rparr>)"
proof -
  let ?core = "join_with (CHR ''.'') (map dec_string (nuget_fields v))"
  let ?ids = "map to_lower (prerelease v)"
  have nodash: "CHR ''-'' \<notin> set ?core" by (rule join_no_char) auto
  have low: "list_all nuget_pre_ok ?ids"
    using assms by (auto simp: nuget_wf_def list_all_iff nuget_pre_ok_lower)
  show ?thesis
  proof (cases "hasPre v")
    case False
    then have "prerelease v = []" using assms by (simp add: nuget_wf_def)
    with False nodash assms show ?thesis
      by (simp add: nuget_parsePre_def index_byte_None [THEN iffD2] nuget_core_print nuget_lowered_def)
  next
    case True
    then have ne: "?ids \<noteq> []" using assms by (simp add: nuget_wf_def)
    have split: "split_on (CHR ''.'') (join_with (CHR ''.'') ?ids) = ?ids"
      by (rule split_join) (use ne low nuget_pre_ok_punct(1) in \<open>auto simp: list_all_iff\<close>)
    have "index_byte (?core @ CHR ''-'' # join_with (CHR ''.'') ?ids) (CHR ''-'') = Some (length ?core)"
      by (rule index_byte_append [OF nodash])
    with True split low assms show ?thesis
      by (simp add: nuget_parsePre_def Let_def nuget_core_print nuget_lowered_def)
  qed
qed

lemma nuget_parse_render:
  assumes "nuget_wf v"
  shows "parseNuGetVersion (nuget_render v) = Some (nuget_lowered v)"
proof -
  let ?head = "join_with (CHR ''.'') (map dec_string (nuget_fields v))
     @ (if hasPre v then ''-'' @ join_with (CHR ''.'') (map to_lower (prerelease v)) else [])"
  have "\<forall>i\<in>set (map to_lower (prerelease v)). CHR ''+'' \<notin> set i"
    using assms nuget_pre_ok_lower nuget_pre_ok_punct(2) by (auto simp: nuget_wf_def list_all_iff)
  then have "CHR ''+'' \<notin> set (join_with (CHR ''.'') (map to_lower (prerelease v)))"
    by (intro join_no_char) auto
  moreover have "CHR ''+'' \<notin> set (join_with (CHR ''.'') (map dec_string (nuget_fields v)))"
    by (rule join_no_char) auto
  ultimately have noplus: "CHR ''+'' \<notin> set ?head" by simp
  have "length (core v) = 4" using assms by (simp add: nuget_wf_def)
  then obtain w x y z where "core v = [w, x, y, z]" by (rule list_length_4)
  then have ne: "?head \<noteq> []" by (simp add: nuget_fields_def)
  show ?thesis
  proof (cases "nbuild v = []")
    case True
    have "index_byte ?head (CHR ''+'') = None" using noplus by (simp add: index_byte_None)
    with True ne show ?thesis
      unfolding nuget_render_fields [OF assms] parseNuGetVersion_def
      using nuget_parsePre_print [OF assms, of "[]"] by (simp add: nuget_lowered_def)
  next
    case False
    have "index_byte (?head @ CHR ''+'' # to_lower (nbuild v)) (CHR ''+'') = Some (length ?head)"
      by (rule index_byte_append [OF noplus])
    with False ne show ?thesis
      unfolding nuget_render_fields [OF assms] parseNuGetVersion_def
      using nuget_parsePre_print [OF assms, of "to_lower (nbuild v)"] by (simp add: nuget_lowered_def)
  qed
qed

lemma nuget_lowered_wf: "nuget_wf v \<Longrightarrow> nuget_wf (nuget_lowered v)"
  by (auto simp: nuget_wf_def nuget_lowered_def list_all_iff nuget_pre_ok_lower)

lemma nuget_lowered_fields [simp]: "core (nuget_lowered v) = core v" "hasPre (nuget_lowered v) = hasPre v"
  by (simp_all add: nuget_lowered_def)

lemma nuget_render_lowered: "nuget_render (nuget_lowered v) = nuget_render v"
  by (simp add: nuget_render_def nuget_lowered_def comp_def)


section \<open>Properties\<close>

text \<open>
  \<open>parseUint\<close> accepts exactly the non-empty digit strings of at most 19 characters, and its
  uint64 accumulation never wraps: the result is the number the digits spell.
\<close>

theorem nuget_parseUint_exact:
  "nuget_parseUint s = Some n \<longleftrightarrow>
     s \<noteq> [] \<and> length s \<le> 19 \<and> list_all is_digit s \<and> n = dec_value 0 s"
  by (simp add: nuget_parseUint_Some all_digits_def)

text \<open>
  \<open>compareNuGetVersions\<close> on parsable spellings is the three-way comparison of the keys (core
  fields, release above prerelease, SemVer identifier order), so it is reflexive, symmetric
  under exchange and transitive there.
\<close>

theorem nuget_compare_is_order:
  assumes "nuget_valid a" "nuget_valid b" "nuget_valid c"
  shows "compareNuGetVersions a b
           = compare_ord (nuget_key (the (parseNuGetVersion a))) (nuget_key (the (parseNuGetVersion b)))
    \<and> compareNuGetVersions b a = - compareNuGetVersions a b
    \<and> (compareNuGetVersions a b \<le> 0 \<longrightarrow> compareNuGetVersions b c \<le> 0 \<longrightarrow> compareNuGetVersions a c \<le> 0)"
proof (intro conjI impI)
  show "compareNuGetVersions a b
      = compare_ord (nuget_key (the (parseNuGetVersion a))) (nuget_key (the (parseNuGetVersion b)))"
    using assms by (auto simp: nuget_valid_def compareNuGetVersions_key)
  show "compareNuGetVersions b a = - compareNuGetVersions a b"
    using assms by (rule_tac nuget_order.cmp_swap)
  assume "compareNuGetVersions a b \<le> 0" "compareNuGetVersions b c \<le> 0"
  with assms show "compareNuGetVersions a c \<le> 0" by (blast intro: nuget_order.cmp_trans)
qed

lemmas nuget_eval =
  nuget_valid_def parseNuGetVersion_def nuget_parsePre_def nuget_parseCore_def nuget_pre_ok_def
  nuget_validPrereleaseIdent_def nuget_isNumericIdent_def nuget_parseUint_def char_class_defs Let_def

theorem nuget_compare_is_order_witness:
  "nuget_valid ''1.0.0-alpha'' \<and> nuget_valid ''1.0.0-alpha.1'' \<and> nuget_valid ''1.0'' \<and>
   compareNuGetVersions ''1.0.0-alpha.1'' ''1.0.0-alpha'' = - compareNuGetVersions ''1.0.0-alpha'' ''1.0.0-alpha.1''"
proof -
  have v: "nuget_valid ''1.0.0-alpha''" "nuget_valid ''1.0.0-alpha.1''" "nuget_valid ''1.0''"
    by (simp_all add: nuget_eval)
  with nuget_compare_is_order [OF v] show ?thesis by blast
qed

text \<open>
  Normalisation is a normal form. When \<open>normalizeNuGetVersion\<close> returns a spelling, that
  spelling parses, has the same core fields and prerelease mark as the input, and normalises
  to itself.
\<close>

theorem nuget_normalize_roundtrip:
  assumes "normalizeNuGetVersion s = Some t"
  shows "normalizeNuGetVersion t = Some t
    \<and> isPrereleaseVersion t = isPrereleaseVersion s
    \<and> map_option core (parseNuGetVersion t) = map_option core (parseNuGetVersion s)"
proof -
  obtain v where v: "parseNuGetVersion s = Some v" and t: "t = nuget_render v"
    using assms by (auto simp: normalizeNuGetVersion_def)
  have wf: "nuget_wf v" by (rule nuget_parse_wf [OF v])
  have "parseNuGetVersion t = Some (nuget_lowered v)" unfolding t by (rule nuget_parse_render [OF wf])
  with v t show ?thesis
    by (simp add: normalizeNuGetVersion_def isPrereleaseVersion_def nuget_render_lowered)
qed

theorem nuget_normalize_roundtrip_witness:
  "\<exists>t. normalizeNuGetVersion ''01.2-Beta+X'' = Some t \<and> normalizeNuGetVersion t = Some t"
proof -
  have "nuget_valid ''01.2-Beta+X''" by (simp add: nuget_eval)
  then obtain t where "normalizeNuGetVersion ''01.2-Beta+X'' = Some t"
    by (auto simp: nuget_valid_def normalizeNuGetVersion_def)
  with nuget_normalize_roundtrip [OF this] show ?thesis by blast
qed


section \<open>What does not hold\<close>

text \<open>
  The comment on \<open>validPackageID\<close> asks for a non-hyphen first and last character; the corner
  test accepts the hyphen.
\<close>

theorem nuget_hyphen_corners: "validPackageID ''-a-''"
  by (simp add: validPackageID_def isIDCorner_def isAlnumASCII_def char_class_defs)

end
