(* ===== verification/Version_Maven.thy ===== *)
theory Version_Maven
  imports GoPrelude
begin

text \<open>
  Maven version ordering (\<open>internal/adapter/maven/version.go\<close>): the tokenizer and the token
  comparison of \<open>VersionComparator\<close>. The comparison is symmetric under exchange for all
  strings, orders the documented suffixes around a release for every base version, and is an
  order on all-numeric versions. It is not transitive in general, which the last section shows.
\<close>

datatype versionToken = TokMissing | TokInt int | TokQualifier string


section \<open>Tokens\<close>

definition constUnknownWeight :: nat where
  "constUnknownWeight = 8"

definition qualifierWeights :: "string \<Rightarrow> nat option" where
  "qualifierWeights = map_of
     [(''alpha'', 1), (''a'', 1), (''beta'', 2), (''b'', 2), (''milestone'', 3), (''m'', 3),
      (''rc'', 4), (''cr'', 4), (''snapshot'', 5), ('''', 6), (''ga'', 6), (''final'', 6),
      (''release'', 6), (''sp'', 7)]"

definition qualifierWeight :: "string \<Rightarrow> nat" where
  "qualifierWeight s = (case qualifierWeights s of Some w \<Rightarrow> w | None \<Rightarrow> constUnknownWeight)"

fun maven_qualifier :: "versionToken \<Rightarrow> string" where
  "maven_qualifier (TokQualifier s) = to_lower s"
| "maven_qualifier _ = []"

fun maven_str :: "versionToken \<Rightarrow> string" where
  "maven_str (TokQualifier s) = s"
| "maven_str _ = []"

definition maven_compareQualifiers :: "versionToken \<Rightarrow> versionToken \<Rightarrow> int" where
  "maven_compareQualifiers t u =
     (let wa = qualifierWeight (maven_qualifier t); wb = qualifierWeight (maven_qualifier u) in
      if wa \<noteq> wb then (if wa < wb then -1 else 1)
      else if wa = constUnknownWeight \<and> maven_str t \<noteq> maven_str u then
        str_compare (to_lower (maven_str t)) (to_lower (maven_str u))
      else 0)"

fun maven_compare :: "versionToken \<Rightarrow> versionToken \<Rightarrow> int" where
  "maven_compare TokMissing TokMissing = 0"
| "maven_compare (TokInt a) (TokInt b) = (if a < b then -1 else if a > b then 1 else 0)"
| "maven_compare (TokInt a) TokMissing = (if a = 0 then 0 else 1)"
| "maven_compare TokMissing (TokInt b) = (if b = 0 then 0 else -1)"
| "maven_compare (TokInt a) (TokQualifier s) = 1"
| "maven_compare (TokQualifier s) (TokInt b) = -1"
| "maven_compare t u = maven_compareQualifiers t u"

definition splitAlphaNum :: "string \<Rightarrow> string \<times> string" where
  "splitAlphaNum s =
     (takeWhile (\<lambda>c. is_lower_alpha c \<or> is_upper_alpha c) s,
      dropWhile (\<lambda>c. is_lower_alpha c \<or> is_upper_alpha c) s)"

definition maven_tokenizeField :: "string \<Rightarrow> versionToken list" where
  "maven_tokenizeField f0 =
     (let f = trim_space f0 in
      if f = [] then []
      else (case parse_int f of
              Inr n \<Rightarrow> [TokInt n]
            | Inl _ \<Rightarrow>
                (let (head, tail) = splitAlphaNum f in
                 (if head \<noteq> [] then [TokQualifier head] else [])
                 @ (if tail \<noteq> [] then
                      (case parse_int tail of Inr n \<Rightarrow> [TokInt n] | Inl _ \<Rightarrow> [TokQualifier tail])
                    else []))))"

definition maven_sep :: "char \<Rightarrow> bool" where
  "maven_sep r \<longleftrightarrow> r = CHR ''.'' \<or> r = CHR ''-'' \<or> r = CHR ''_''"

definition tokenizeVersion :: "string \<Rightarrow> versionToken list" where
  "tokenizeVersion v = concat (map maven_tokenizeField (fields_func maven_sep [] v))"


section \<open>The comparison loop\<close>

text \<open>The loop runs to the longer length; the shorter side reads as missing tokens.\<close>

fun maven_compareTokens :: "versionToken list \<Rightarrow> versionToken list \<Rightarrow> int" where
  "maven_compareTokens [] [] = 0"
| "maven_compareTokens (t # ts) [] =
     (let c = maven_compare t TokMissing in if c \<noteq> 0 then c else maven_compareTokens ts [])"
| "maven_compareTokens [] (u # us) =
     (let c = maven_compare TokMissing u in if c \<noteq> 0 then c else maven_compareTokens [] us)"
| "maven_compareTokens (t # ts) (u # us) =
     (let c = maven_compare t u in if c \<noteq> 0 then c else maven_compareTokens ts us)"

definition maven_CompareVersions :: "string \<Rightarrow> string \<Rightarrow> int" where
  "maven_CompareVersions a b = maven_compareTokens (tokenizeVersion a) (tokenizeVersion b)"


section \<open>Lemmas\<close>

lemma maven_compareQualifiers_swap: "maven_compareQualifiers u t = - maven_compareQualifiers t u"
  by (auto simp: maven_compareQualifiers_def Let_def str_compare_def compare_ord_def)

lemma maven_compare_swap: "maven_compare u t = - maven_compare t u"
  using maven_compareQualifiers_swap [of u t] by (cases t; cases u) auto

lemma maven_compareTokens_swap: "maven_compareTokens us ts = - maven_compareTokens ts us"
proof (induction ts us rule: maven_compareTokens.induct)
  case (2 t ts)
  then show ?case using maven_compare_swap [of TokMissing t] by (auto simp: Let_def)
next
  case (3 u us)
  then show ?case using maven_compare_swap [of u TokMissing] by (auto simp: Let_def)
next
  case (4 t ts u us)
  then show ?case using maven_compare_swap [of u t] by (auto simp: Let_def)
qed simp

lemma maven_compare_self [simp]: "maven_compare t t = 0"
  using maven_compare_swap [of t t] by simp

lemma maven_compareTokens_prefix:
  "maven_compareTokens (ts @ us) (ts @ vs) = maven_compareTokens us vs"
  by (induction ts) (auto simp: Let_def)

lemma maven_compareTokens_suffix: "maven_compareTokens (ts @ us) ts = maven_compareTokens us []"
  using maven_compareTokens_prefix [of ts us "[]"] by simp

text \<open>A separator ends a field, whatever came before it.\<close>

lemma fields_func_append:
  "f c \<Longrightarrow> fields_func f acc (s @ c # t) = fields_func f acc s @ fields_func f [] t"
  by (induction f acc s rule: fields_func.induct) auto

lemma tokenizeVersion_append:
  "maven_sep c \<Longrightarrow> tokenizeVersion (v @ c # w) = tokenizeVersion v @ tokenizeVersion w"
  by (simp add: tokenizeVersion_def fields_func_append)

lemma maven_compare_extension:
  "maven_sep c \<Longrightarrow>
   maven_CompareVersions (v @ c # w) v = maven_compareTokens (tokenizeVersion w) []"
  by (simp add: maven_CompareVersions_def tokenizeVersion_append maven_compareTokens_suffix)

lemmas maven_eval =
  tokenizeVersion_def maven_sep_def maven_tokenizeField_def splitAlphaNum_def parse_int_def
  all_digits_def trim_space_def char_class_defs maven_compareQualifiers_def qualifierWeight_def
  qualifierWeights_def constUnknownWeight_def str_compare_def Let_def char_of_eq_iff


subsection \<open>All-numeric versions\<close>

definition all_int :: "versionToken list \<Rightarrow> bool" where
  "all_int ts \<longleftrightarrow> list_all (\<lambda>t. \<exists>n. t = TokInt n \<and> 0 \<le> n) ts"

fun int_of_token :: "versionToken \<Rightarrow> int" where
  "int_of_token (TokInt n) = n"
| "int_of_token _ = 0"

text \<open>The key: the numbers without their trailing zeros.\<close>

fun strip_zeros :: "int list \<Rightarrow> int list" where
  "strip_zeros [] = []"
| "strip_zeros (n # ns) = (let r = strip_zeros ns in if n = 0 \<and> r = [] then [] else n # r)"

definition maven_numeric :: "string \<Rightarrow> bool" where
  "maven_numeric v \<longleftrightarrow> all_int (tokenizeVersion v)"

lemma strip_zeros_nonneg: "\<forall>n\<in>set ns. 0 \<le> n \<Longrightarrow> strip_zeros ns \<noteq> [] \<Longrightarrow> [] < strip_zeros ns"
  by (cases "strip_zeros ns") auto

lemma maven_compareTokens_numeric:
  "all_int ts \<Longrightarrow> all_int us \<Longrightarrow>
   maven_compareTokens ts us =
     compare_ord (strip_zeros (map int_of_token ts)) (strip_zeros (map int_of_token us))"
proof (induction ts us rule: maven_compareTokens.induct)
  case (4 t ts u us)
  obtain a b where t: "t = TokInt a" "0 \<le> a" and u: "u = TokInt b" "0 \<le> b"
      and ts: "all_int ts" and us: "all_int us"
    using "4.prems" by (auto simp: all_int_def)
  have IH: "maven_compare t u = 0 \<Longrightarrow> maven_compareTokens ts us =
      compare_ord (strip_zeros (map int_of_token ts)) (strip_zeros (map int_of_token us))"
    using 4 ts us by simp
  show ?case
  proof (cases "a = b")
    case True
    with IH t u show ?thesis by (auto simp: Let_def compare_ord_Cons)
  next
    case False
    with t u show ?thesis by (auto simp: Let_def compare_ord_Cons compare_ord_def)
  qed
qed (auto simp: all_int_def Let_def)

lemma maven_compareTokens_range: "maven_compareTokens ts us \<in> {-1, 0, 1}"
proof (induction ts us rule: maven_compareTokens.induct)
  case (4 t ts u us)
  then show ?case
    by (cases t; cases u) (auto simp: Let_def maven_compareQualifiers_def str_compare_def compare_ord_def)
next
  case (2 t ts)
  then show ?case
    by (cases t) (auto simp: Let_def maven_compareQualifiers_def str_compare_def compare_ord_def)
next
  case (3 u us)
  then show ?case
    by (cases u) (auto simp: Let_def maven_compareQualifiers_def str_compare_def compare_ord_def)
qed simp

interpretation maven_order: go_comparator maven_CompareVersions maven_numeric
  by (rule go_comparator_key [where key = "\<lambda>v. strip_zeros (map int_of_token (tokenizeVersion v))"])
    (unfold maven_CompareVersions_def maven_numeric_def,
     rule maven_compareTokens_range, rule maven_compareTokens_numeric)


section \<open>Properties\<close>

text \<open>
  The Maven comparison is symmetric under exchange on all strings. For every base version
  \<open>v\<close>, \<open>v-SNAPSHOT\<close> and \<open>v-rc1\<close> are below \<open>v\<close>, \<open>v-sp1\<close> is above it, \<open>v.0\<close> equals it and \<open>v.1\<close> is
  above it.
\<close>

theorem maven_release_suffixes:
  "maven_CompareVersions b a = - maven_CompareVersions a b
   \<and> maven_CompareVersions (v @ ''-SNAPSHOT'') v = -1
   \<and> maven_CompareVersions (v @ ''-rc1'') v = -1
   \<and> maven_CompareVersions (v @ ''-sp1'') v = 1
   \<and> maven_CompareVersions (v @ ''.0'') v = 0
   \<and> maven_CompareVersions (v @ ''.1'') v = 1"
proof (intro conjI)
  show "maven_CompareVersions b a = - maven_CompareVersions a b"
    unfolding maven_CompareVersions_def by (rule maven_compareTokens_swap)
  show "maven_CompareVersions (v @ ''-SNAPSHOT'') v = -1"
    by (simp add: maven_compare_extension maven_sep_def) (simp add: maven_eval)
  show "maven_CompareVersions (v @ ''-rc1'') v = -1"
    by (simp add: maven_compare_extension maven_sep_def) (simp add: maven_eval)
  show "maven_CompareVersions (v @ ''-sp1'') v = 1"
    by (simp add: maven_compare_extension maven_sep_def) (simp add: maven_eval)
  show "maven_CompareVersions (v @ ''.0'') v = 0"
    by (simp add: maven_compare_extension maven_sep_def) (simp add: maven_eval)
  show "maven_CompareVersions (v @ ''.1'') v = 1"
    by (simp add: maven_compare_extension maven_sep_def) (simp add: maven_eval)
qed


section \<open>What does not hold\<close>

text \<open>
  The comparison the metadata calculator sorts with is not transitive: \<open>1\<close> equals \<open>1.0\<close>, and
  \<open>1.sp\<close> is above the first and below the second.
\<close>

theorem maven_compare_intransitive:
  "maven_CompareVersions ''1'' ''1.0'' = 0 \<and> maven_CompareVersions ''1.0'' ''1.sp'' = 1 \<and>
   maven_CompareVersions ''1'' ''1.sp'' = -1"
  by (simp add: maven_CompareVersions_def maven_eval)

end
