(* ===== verification/Version_Goproxy.thy ===== *)
theory Version_Goproxy
  imports GoPrelude
begin

text \<open>
  Go module versions (\<open>internal/adapter/goproxy/version.go\<close>). The adapter states its grammar as
  regular expressions; they are kept as such, over a small regular-expression type whose
  anchored match is computed by derivatives and shown to be membership in the language.
  The comparison is shown to be an order on all strings, and \<open>pickLatest\<close> its maximum.
\<close>


section \<open>Regular expressions\<close>

datatype rx = REps | RCls "char \<Rightarrow> bool" | RNone | RSeq rx rx | RAlt rx rx | RStar rx

primrec rx_nullable :: "rx \<Rightarrow> bool" where
  "rx_nullable REps = True"
| "rx_nullable (RCls p) = False"
| "rx_nullable RNone = False"
| "rx_nullable (RSeq r s) = (rx_nullable r \<and> rx_nullable s)"
| "rx_nullable (RAlt r s) = (rx_nullable r \<or> rx_nullable s)"
| "rx_nullable (RStar r) = True"

primrec rx_deriv :: "char \<Rightarrow> rx \<Rightarrow> rx" where
  "rx_deriv c REps = RNone"
| "rx_deriv c (RCls p) = (if p c then REps else RNone)"
| "rx_deriv c RNone = RNone"
| "rx_deriv c (RSeq r s) =
     (if rx_nullable r then RAlt (RSeq (rx_deriv c r) s) (rx_deriv c s) else RSeq (rx_deriv c r) s)"
| "rx_deriv c (RAlt r s) = RAlt (rx_deriv c r) (rx_deriv c s)"
| "rx_deriv c (RStar r) = RSeq (rx_deriv c r) (RStar r)"

text \<open>\<open>MatchString\<close> of an expression anchored at both ends.\<close>

fun rx_match :: "rx \<Rightarrow> string \<Rightarrow> bool" where
  "rx_match r [] = rx_nullable r"
| "rx_match r (c # cs) = rx_match (rx_deriv c r) cs"

fun rx_lit :: "string \<Rightarrow> rx" where
  "rx_lit [] = REps"
| "rx_lit (c # cs) = RSeq (RCls (\<lambda>x. x = c)) (rx_lit cs)"

fun rx_seq :: "rx list \<Rightarrow> rx" where
  "rx_seq [] = REps"
| "rx_seq (r # rs) = RSeq r (rx_seq rs)"

definition rx_opt :: "rx \<Rightarrow> rx" where "rx_opt r = RAlt REps r"
definition rx_plus :: "rx \<Rightarrow> rx" where "rx_plus r = RSeq r (RStar r)"
definition rx_digit :: rx where "rx_digit = RCls is_digit"

primrec rx_lang :: "rx \<Rightarrow> string set" where
  "rx_lang REps = {[]}"
| "rx_lang (RCls p) = {[c] |c. p c}"
| "rx_lang RNone = {}"
| "rx_lang (RSeq r s) = {u @ v |u v. u \<in> rx_lang r \<and> v \<in> rx_lang s}"
| "rx_lang (RAlt r s) = rx_lang r \<union> rx_lang s"
| "rx_lang (RStar r) = {concat us |us. set us \<subseteq> rx_lang r}"

lemma rx_nullable_lang: "rx_nullable r \<longleftrightarrow> [] \<in> rx_lang r"
  by (induction r) (auto intro: exI [of _ "[]"])

lemma star_Cons:
  assumes "set us \<subseteq> L" "c # w = concat us"
  obtains u vs where "c # u \<in> L" "set vs \<subseteq> L" "w = u @ concat vs"
  using assms
proof (induction us)
  case (Cons x us)
  show ?case
  proof (cases x)
    case Nil
    with Cons show ?thesis by simp
  next
    case (Cons d u)
    with Cons.prems have "c # u \<in> L" "set us \<subseteq> L" "w = u @ concat us" by auto
    then show ?thesis by (rule Cons.prems(1))
  qed
qed simp

lemma Cons_append_split:
  "(\<exists>u v. c # w = u @ v \<and> P u \<and> Q v) \<longleftrightarrow>
   (\<exists>u v. w = u @ v \<and> P (c # u) \<and> Q v) \<or> (P [] \<and> Q (c # w))"
proof
  assume "\<exists>u v. c # w = u @ v \<and> P u \<and> Q v"
  then obtain u v where "c # w = u @ v" "P u" "Q v" by blast
  then show "(\<exists>u v. w = u @ v \<and> P (c # u) \<and> Q v) \<or> (P [] \<and> Q (c # w))" by (cases u) auto
next
  assume "(\<exists>u v. w = u @ v \<and> P (c # u) \<and> Q v) \<or> (P [] \<and> Q (c # w))"
  then show "\<exists>u v. c # w = u @ v \<and> P u \<and> Q v" by (metis append_Cons append_Nil)
qed

lemma rx_deriv_lang: "w \<in> rx_lang (rx_deriv c r) \<longleftrightarrow> c # w \<in> rx_lang r"
proof (induction r arbitrary: w)
  case (RSeq r s)
  have "c # w \<in> rx_lang (RSeq r s) \<longleftrightarrow>
      (\<exists>u v. w = u @ v \<and> c # u \<in> rx_lang r \<and> v \<in> rx_lang s) \<or> ([] \<in> rx_lang r \<and> c # w \<in> rx_lang s)"
    using Cons_append_split [of c w "\<lambda>u. u \<in> rx_lang r" "\<lambda>v. v \<in> rx_lang s"] by simp
  with RSeq show ?case by (auto simp: rx_nullable_lang)
next
  case (RStar r)
  show ?case
  proof
    assume "w \<in> rx_lang (rx_deriv c (RStar r))"
    then obtain u us where "w = u @ concat us" "c # u \<in> rx_lang r" "set us \<subseteq> rx_lang r"
      using RStar by auto
    then show "c # w \<in> rx_lang (RStar r)" by (auto intro!: exI [of _ "(c # u) # us"])
  next
    assume "c # w \<in> rx_lang (RStar r)"
    then obtain us where "set us \<subseteq> rx_lang r" "c # w = concat us" by auto
    then obtain u vs where "c # u \<in> rx_lang r" "set vs \<subseteq> rx_lang r" "w = u @ concat vs"
      by (rule star_Cons)
    with RStar show "w \<in> rx_lang (rx_deriv c (RStar r))" by auto
  qed
qed auto

lemma rx_match_lang: "rx_match r s \<longleftrightarrow> s \<in> rx_lang r"
  by (induction s arbitrary: r) (auto simp: rx_nullable_lang rx_deriv_lang)

lemma rx_lang_lit [simp]: "rx_lang (rx_lit s) = {s}"
  by (induction s) auto

lemma rx_digit_star: "w \<in> rx_lang (RStar rx_digit) \<longleftrightarrow> list_all is_digit w"
proof
  assume "w \<in> rx_lang (RStar rx_digit)"
  then obtain us where "set us \<subseteq> {[c] |c. is_digit c}" "w = concat us" by (auto simp: rx_digit_def)
  then show "list_all is_digit w" by (induction us arbitrary: w) auto
next
  assume "list_all is_digit w"
  moreover have "w = concat (map (\<lambda>c. [c]) w)" by (induction w) auto
  ultimately show "w \<in> rx_lang (RStar rx_digit)"
    by (auto simp: rx_digit_def list_all_iff intro!: exI [of _ "map (\<lambda>c. [c]) w"])
qed


section \<open>The grammar\<close>

definition alnum_hyphen :: "char \<Rightarrow> bool" where
  "alnum_hyphen c \<longleftrightarrow> is_digit c \<or> is_upper_alpha c \<or> is_lower_alpha c \<or> c = CHR ''-''"

text \<open>\<open>(0|[1-9][0-9]*)\<close>\<close>

definition rx_num :: rx where
  "rx_num = RAlt (rx_lit ''0'') (RSeq (RCls (\<lambda>c. is_digit c \<and> c \<noteq> CHR ''0'')) (RStar rx_digit))"

text \<open>\<open>[0-9A-Za-z-]+(\.[0-9A-Za-z-]+)*\<close>\<close>

definition rx_dotted :: rx where
  "rx_dotted =
     RSeq (rx_plus (RCls alnum_hyphen)) (RStar (RSeq (rx_lit ''.'') (rx_plus (RCls alnum_hyphen))))"

definition releaseRE :: rx where
  "releaseRE = rx_seq
     [rx_lit ''v'', rx_num, rx_lit ''.'', rx_num, rx_lit ''.'', rx_num,
      rx_opt (RSeq (rx_lit ''-'') rx_dotted), rx_opt (rx_lit ''+incompatible'')]"

definition rx_repeat :: "nat \<Rightarrow> rx \<Rightarrow> rx" where
  "rx_repeat n r = rx_seq (replicate n r)"

definition pseudoRE :: rx where
  "pseudoRE = rx_seq
     [rx_lit ''v'', rx_plus rx_digit, rx_lit ''.'',
      RAlt (rx_lit ''0.0-'')
        (rx_seq [rx_plus rx_digit, rx_lit ''.'', rx_plus rx_digit, rx_lit ''-'',
                 rx_opt (RSeq (RStar (RCls (\<lambda>c. c \<noteq> CHR ''+''))) (rx_lit ''.'')), rx_lit ''0.'']),
      rx_repeat 14 rx_digit, rx_lit ''-'',
      rx_plus (RCls (\<lambda>c. is_upper_alpha c \<or> is_lower_alpha c \<or> is_digit c)),
      rx_opt (RSeq (rx_lit ''+'') rx_dotted)]"

text \<open>
  \<open>FindStringSubmatch\<close> of \<open>^v([0-9]+)\.([0-9]+)\.([0-9]+)\<close>: the three digit runs (the last one
  taken greedily) and the text behind the match.
\<close>

definition canonicalCore :: "string \<Rightarrow> (string \<times> string \<times> string \<times> string) option" where
  "canonicalCore version =
     (case version of
        c # r0 \<Rightarrow>
          (let a = takeWhile is_digit r0; r1 = dropWhile is_digit r0 in
           case r1 of
             d1 # r1' \<Rightarrow>
               (let b = takeWhile is_digit r1'; r2 = dropWhile is_digit r1' in
                case r2 of
                  d2 # r2' \<Rightarrow>
                    (let e = takeWhile is_digit r2'; r3 = dropWhile is_digit r2' in
                     if c = CHR ''v'' \<and> d1 = CHR ''.'' \<and> d2 = CHR ''.'' \<and> a \<noteq> [] \<and> b \<noteq> [] \<and> e \<noteq> []
                     then Some (a, b, e, r3) else None)
                | [] \<Rightarrow> None)
           | [] \<Rightarrow> None)
      | [] \<Rightarrow> None)"

definition major_digits :: "string \<Rightarrow> bool" where
  "major_digits ds \<longleftrightarrow>
     ds \<noteq> [] \<and> list_all is_digit ds \<and> hd ds \<noteq> CHR ''0'' \<and> hd ds \<noteq> CHR ''1''"

text \<open>\<open>^v([2-9][0-9]*)$\<close>\<close>

definition majorSuffix :: "string \<Rightarrow> string option" where
  "majorSuffix seg =
     (case seg of
        c # ds \<Rightarrow> (if c = CHR ''v'' \<and> major_digits ds then Some ds else None)
      | [] \<Rightarrow> None)"

text \<open>\<open>\.v([2-9][0-9]*)$\<close>: the digits are the longest digit suffix, behind a \<open>.v\<close>.\<close>

definition gopkgMajor :: "string \<Rightarrow> string option" where
  "gopkgMajor seg =
     (let ds = rev (takeWhile is_digit (rev seg)); before = take (length seg - length ds) seg
      in if major_digits ds \<and> has_suffix before ''.v'' then Some ds else None)"

definition validPutVersion :: "string \<Rightarrow> bool" where
  "validPutVersion version \<longleftrightarrow> rx_match releaseRE version \<or> rx_match pseudoRE version"

text \<open>The value of \<open>strconv.ParseInt\<close> with its error discarded.\<close>

definition parse_int_value :: "string \<Rightarrow> int" where
  "parse_int_value s = (case parse_int s of Inr n \<Rightarrow> n | Inl ErrRange \<Rightarrow> 2 ^ 63 - 1 | Inl ErrSyntax \<Rightarrow> 0)"

datatype major_error = NotCanonical | MajorMismatch

definition majorWanted :: "string \<Rightarrow> int" where
  "majorWanted module =
     (let seg = last (split_on (CHR ''/'') module) in
      case majorSuffix seg of
        Some m \<Rightarrow> parse_int_value m
      | None \<Rightarrow>
          (if has_prefix module ''gopkg.in/''
           then (case gopkgMajor seg of Some m \<Rightarrow> parse_int_value m | None \<Rightarrow> -1)
           else -1))"

definition checkMajorConsistency :: "string \<Rightarrow> string \<Rightarrow> major_error + unit" where
  "checkMajorConsistency module version =
     (let want = majorWanted module in
      if want < 0 then Inr ()
      else (case canonicalCore version of
              None \<Rightarrow> Inl NotCanonical
            | Some (a, _) \<Rightarrow> (if parse_int_value a \<noteq> want then Inl MajorMismatch else Inr ())))"

definition isIncompatible :: "string \<Rightarrow> bool" where
  "isIncompatible version = has_suffix version ''+incompatible''"


section \<open>Parsing\<close>

record parsedVersion =
  pmajor :: nat
  pminor :: nat
  ppatch :: nat
  pprerelease :: string
  pseudo :: bool
  pseudoTime :: string
  praw :: string

definition isAllDigits :: "string \<Rightarrow> bool" where
  "isAllDigits s \<longleftrightarrow> list_all is_digit s \<and> length s > 0"

fun goproxy_class :: "parsedVersion \<Rightarrow> nat" where
  "goproxy_class v = (if pseudo v then 2 else if pprerelease v \<noteq> [] then 1 else 0)"

text \<open>The window loop: the first 14 consecutive digits of the body.\<close>

fun first_stamp :: "string \<Rightarrow> string" where
  "first_stamp body =
     (if length body < 14 then []
      else if isAllDigits (take 14 body) then take 14 body
      else first_stamp (tl body))"

declare first_stamp.simps [simp del]

definition parseVersion :: "string \<Rightarrow> parsedVersion option" where
  "parseVersion version =
     (case canonicalCore version of
        None \<Rightarrow> None
      | Some (a, b, e, rest) \<Rightarrow>
          (let pv = \<lparr>pmajor = parse_uint_value a, pminor = parse_uint_value b,
                     ppatch = parse_uint_value e, pprerelease = [], pseudo = False,
                     pseudoTime = [], praw = version\<rparr> in
           if rx_match pseudoRE version then
             Some (pv\<lparr>pseudo := True,
                      pseudoTime := (case index_byte rest (CHR ''-'') of
                                       Some i \<Rightarrow> first_stamp (drop (Suc i) rest) | None \<Rightarrow> [])\<rparr>)
           else
             (let rest' = trim_suffix rest ''+incompatible'' in
              Some (if has_prefix rest' ''-'' then pv\<lparr>pprerelease := tl rest'\<rparr> else pv))))"


section \<open>Comparison\<close>

definition compareU64 :: "nat \<Rightarrow> nat \<Rightarrow> int" where
  "compareU64 a b = (if a < b then -1 else if a > b then 1 else 0)"

fun goproxy_comparePrerelease_loop :: "string list \<Rightarrow> string list \<Rightarrow> int" where
  "goproxy_comparePrerelease_loop (x # xs) (y # ys) =
     (let an = isAllDigits x; bn = isAllDigits y in
      if an \<and> bn then
        (if length x \<noteq> length y then (if length x < length y then -1 else 1)
         else (let c = str_compare x y in if c \<noteq> 0 then c else goproxy_comparePrerelease_loop xs ys))
      else if an then -1
      else if bn then 1
      else (let c = str_compare x y in if c \<noteq> 0 then c else goproxy_comparePrerelease_loop xs ys))"
| "goproxy_comparePrerelease_loop xs ys =
     (if length xs < length ys then -1 else if length xs > length ys then 1 else 0)"

definition goproxy_comparePrerelease :: "string \<Rightarrow> string \<Rightarrow> int" where
  "goproxy_comparePrerelease a b =
     (if a = b then 0
      else if a = [] then 1
      else if b = [] then -1
      else goproxy_comparePrerelease_loop (split_on (CHR ''.'') a) (split_on (CHR ''.'') b))"

definition goproxy_compareParsed :: "parsedVersion \<Rightarrow> parsedVersion \<Rightarrow> int" where
  "goproxy_compareParsed pa pb =
     (if goproxy_class pa \<noteq> goproxy_class pb then
        (if goproxy_class pa < goproxy_class pb then 1 else -1)
      else
      let c = compareU64 (pmajor pa) (pmajor pb) in if c \<noteq> 0 then c else
      let c = compareU64 (pminor pa) (pminor pb) in if c \<noteq> 0 then c else
      let c = compareU64 (ppatch pa) (ppatch pb) in if c \<noteq> 0 then c else
      if pseudo pa \<or> pseudo pb then
        (let c = str_compare (pseudoTime pa) (pseudoTime pb) in
         if c \<noteq> 0 then c else str_compare (praw pa) (praw pb))
      else goproxy_comparePrerelease (pprerelease pa) (pprerelease pb))"

definition goproxy_CompareVersions :: "string \<Rightarrow> string \<Rightarrow> int" where
  "goproxy_CompareVersions a b =
     (case (parseVersion a, parseVersion b) of
        (Some pa, None) \<Rightarrow> 1
      | (None, Some pb) \<Rightarrow> -1
      | (None, None) \<Rightarrow> str_compare a b
      | (Some pa, Some pb) \<Rightarrow> goproxy_compareParsed pa pb)"

fun pickLatest_loop :: "string \<Rightarrow> bool \<Rightarrow> string list \<Rightarrow> string \<times> bool" where
  "pickLatest_loop best found [] = (best, found)"
| "pickLatest_loop best found (v # vs) =
     (if \<not> found \<or> goproxy_CompareVersions v best > 0 then pickLatest_loop v True vs
      else pickLatest_loop best found vs)"

definition pickLatest :: "string list \<Rightarrow> string \<times> bool" where
  "pickLatest versions = pickLatest_loop [] False versions"


section \<open>The comparison compares keys\<close>

definition goproxy_ident :: "string \<Rightarrow> bool \<times> nat \<times> string" where
  "goproxy_ident s = (\<not> isAllDigits s, if isAllDigits s then length s else 0, s)"

definition goproxy_key ::
  "string \<Rightarrow> bool \<times> nat \<times> nat \<times> nat \<times> nat \<times> string \<times> string \<times> (bool \<times> nat \<times> string) list" where
  "goproxy_key v =
     (case parseVersion v of
        None \<Rightarrow> (False, 0, 0, 0, 0, v, [], [])
      | Some p \<Rightarrow>
          (True, 2 - goproxy_class p, pmajor p, pminor p, ppatch p,
           if pseudo p then (pseudoTime p, praw p, [])
           else ([], [], map goproxy_ident (split_on (CHR ''.'') (pprerelease p)))))"

lemma goproxy_ident_compare:
  "compare_ord (goproxy_ident x) (goproxy_ident y) =
     (if isAllDigits x \<and> isAllDigits y then
        (if length x \<noteq> length y then (if length x < length y then -1 else 1) else str_compare x y)
      else if isAllDigits x then -1
      else if isAllDigits y then 1
      else str_compare x y)"
  by (simp add: goproxy_ident_def compare_ord_prod compare_nat str_compare_def)

lemma goproxy_loop_key:
  "goproxy_comparePrerelease_loop xs ys = compare_ord (map goproxy_ident xs) (map goproxy_ident ys)"
proof (induction xs arbitrary: ys)
  case (Cons x xs)
  show ?case
  proof (cases ys)
    case (Cons y zs)
    have "goproxy_comparePrerelease_loop (x # xs) (y # zs) =
        (let c = compare_ord (goproxy_ident x) (goproxy_ident y)
         in if c \<noteq> 0 then c else goproxy_comparePrerelease_loop xs zs)"
      by (simp add: goproxy_ident_compare Let_def)
    with Cons.IH [of zs] Cons show ?thesis by (simp add: Let_def compare_ord_Cons)
  qed simp
qed simp

lemma goproxy_comparePrerelease_key:
  "a = [] \<longleftrightarrow> b = [] \<Longrightarrow> goproxy_comparePrerelease a b =
     compare_ord (map goproxy_ident (split_on (CHR ''.'') a)) (map goproxy_ident (split_on (CHR ''.'') b))"
  by (auto simp: goproxy_comparePrerelease_def goproxy_loop_key)

lemma goproxy_compareParsed_key:
  assumes "parseVersion a = Some pa" "parseVersion b = Some pb"
  shows "goproxy_compareParsed pa pb = compare_ord (goproxy_key a) (goproxy_key b)"
proof (cases "goproxy_class pa = goproxy_class pb")
  case False
  have "compare_ord (2 - x) (2 - y) = (if x < y then 1 else -1)"
    if "x \<le> 2" "y \<le> 2" "x \<noteq> y" for x y :: nat
    using that by (auto simp: compare_nat)
  from this [OF _ _ False]
  have c: "compare_ord (2 - goproxy_class pa) (2 - goproxy_class pb) =
      (if goproxy_class pa < goproxy_class pb then 1 else -1)" by simp
  with False assms show ?thesis
    by (simp add: goproxy_compareParsed_def goproxy_key_def compare_ord_prod del: goproxy_class.simps)
next
  case True
  then have p: "pseudo pa \<longleftrightarrow> pseudo pb" and
    q: "\<not> pseudo pa \<Longrightarrow> pprerelease pa = [] \<longleftrightarrow> pprerelease pb = []"
    by (auto split: if_splits)
  show ?thesis
  proof (cases "pseudo pa")
    case True
    with p \<open>goproxy_class pa = goproxy_class pb\<close> assms show ?thesis
      unfolding goproxy_compareParsed_def goproxy_key_def Let_def
      by (simp add: compare_ord_prod compareU64_def str_compare_def compare_nat
          del: goproxy_class.simps)
  next
    case False
    with p q \<open>goproxy_class pa = goproxy_class pb\<close> assms show ?thesis
      unfolding goproxy_compareParsed_def goproxy_key_def Let_def
      by (simp add: compare_ord_prod compareU64_def goproxy_comparePrerelease_key compare_nat
          del: goproxy_class.simps)
  qed
qed

lemma goproxy_CompareVersions_key:
  "goproxy_CompareVersions a b = compare_ord (goproxy_key a) (goproxy_key b)"
proof (cases "parseVersion a = None \<or> parseVersion b = None")
  case True
  then show ?thesis
    unfolding goproxy_CompareVersions_def goproxy_key_def
    by (auto simp add: compare_ord_prod str_compare_def split: option.split)
next
  case False
  then obtain pa pb where "parseVersion a = Some pa" "parseVersion b = Some pb" by auto
  with goproxy_compareParsed_key [OF this] show ?thesis by (simp add: goproxy_CompareVersions_def)
qed

interpretation goproxy_order: go_comparator goproxy_CompareVersions "\<lambda>_. True"
  by (rule go_comparator_key [where key = goproxy_key])
    (simp_all only: goproxy_CompareVersions_key compare_ord_range)

lemma pickLatest_loop_pick:
  "pickLatest_loop best found vs =
     (case pick_best goproxy_CompareVersions (if found then Some best else None) vs of
        None \<Rightarrow> (best, False) | Some m \<Rightarrow> (m, True))"
proof (induction vs arbitrary: best found)
  case (Cons v vs)
  obtain mv mb where "pick_best goproxy_CompareVersions (Some v) vs = Some mv"
      "pick_best goproxy_CompareVersions (Some best) vs = Some mb"
    using goproxy_order.pick_best_step [of vs v] goproxy_order.pick_best_step [of vs best] by auto
  with Cons.IH [of v True] Cons.IH [of best True] show ?case by auto
qed simp

lemma goproxy_class_mono:
  assumes "parseVersion a = Some pa" "goproxy_CompareVersions a b \<le> 0"
  shows "\<exists>pb. parseVersion b = Some pb \<and> goproxy_class pb \<le> goproxy_class pa"
  using assms
  by (auto simp: goproxy_CompareVersions_def goproxy_compareParsed_def split: option.splits if_splits)


section \<open>PUT accepts only versions the comparison can rank\<close>

lemma canonicalCore_Some:
  assumes "list_all is_digit a" "list_all is_digit b" "list_all is_digit e" "a \<noteq> []" "b \<noteq> []" "e \<noteq> []"
  shows "canonicalCore (CHR ''v'' # a @ CHR ''.'' # b @ CHR ''.'' # e @ rest) \<noteq> None"
proof -
  have nd: "\<not> is_digit (CHR ''.'')" by (simp add: char_class_defs)
  have a: "takeWhile is_digit (a @ CHR ''.'' # r) = a" "dropWhile is_digit (a @ CHR ''.'' # r) = CHR ''.'' # r"
    for r using assms(1) nd by (simp_all add: list_all_iff)
  have b: "takeWhile is_digit (b @ CHR ''.'' # r) = b" "dropWhile is_digit (b @ CHR ''.'' # r) = CHR ''.'' # r"
    for r using assms(2) nd by (simp_all add: list_all_iff)
  have e: "takeWhile is_digit (e @ rest) \<noteq> []" using assms(3,6) by (cases e) auto
  from a b e assms(4,5) show ?thesis by (simp add: canonicalCore_def Let_def)
qed

lemma rx_plus_digit: "w \<in> rx_lang (rx_plus rx_digit) \<Longrightarrow> list_all is_digit w \<and> w \<noteq> []"
proof -
  assume "w \<in> rx_lang (rx_plus rx_digit)"
  then obtain c v where "w = c # v" "is_digit c" "v \<in> rx_lang (RStar rx_digit)"
    by (auto simp: rx_plus_def rx_digit_def simp del: rx_lang.simps(6))
  then show ?thesis by (simp only: rx_digit_star) simp
qed

lemma rx_num_digits: "w \<in> rx_lang rx_num \<Longrightarrow> list_all is_digit w \<and> w \<noteq> []"
  unfolding rx_num_def
  by (auto simp del: rx_lang.simps(6) simp add: rx_digit_star char_class_defs)

lemma releaseRE_core: "v \<in> rx_lang releaseRE \<Longrightarrow> canonicalCore v \<noteq> None"
proof -
  assume "v \<in> rx_lang releaseRE"
  then obtain a b e r where "a \<in> rx_lang rx_num" "b \<in> rx_lang rx_num" "e \<in> rx_lang rx_num"
      "v = CHR ''v'' # a @ CHR ''.'' # b @ CHR ''.'' # e @ r"
    unfolding releaseRE_def rx_seq.simps rx_lang.simps(4) rx_lang_lit by auto
  with rx_num_digits [of a] rx_num_digits [of b] rx_num_digits [of e] show ?thesis
    using canonicalCore_Some [of a b e r] by simp
qed

lemma rx_seq_four:
  "w \<in> rx_lang (rx_seq (rx_lit p # r # rx_lit q # s # rest)) \<Longrightarrow>
    \<exists>a m t. a \<in> rx_lang r \<and> m \<in> rx_lang s \<and> w = p @ a @ q @ m @ t"
  by (simp only: rx_seq.simps rx_lang.simps(4) rx_lang_lit) blast

lemma pseudoRE_core: "v \<in> rx_lang pseudoRE \<Longrightarrow> canonicalCore v \<noteq> None"
proof -
  assume "v \<in> rx_lang pseudoRE"
  then obtain a m r where a: "a \<in> rx_lang (rx_plus rx_digit)"
    and m: "m \<in> rx_lang (RAlt (rx_lit ''0.0-'')
        (rx_seq [rx_plus rx_digit, rx_lit ''.'', rx_plus rx_digit, rx_lit ''-'',
                 rx_opt (RSeq (RStar (RCls (\<lambda>c. c \<noteq> CHR ''+''))) (rx_lit ''.'')), rx_lit ''0.'']))"
    and v: "v = ''v'' @ a @ ''.'' @ m @ r"
    unfolding pseudoRE_def by (drule_tac rx_seq_four) blast
  have "\<exists>b e t. list_all is_digit b \<and> b \<noteq> [] \<and> list_all is_digit e \<and> e \<noteq> [] \<and>
      m = b @ CHR ''.'' # e @ t"
  proof (cases "m = ''0.0-''")
    case True
    then show ?thesis
      by (intro exI [of _ "''0''"] exI [of _ "''-''"]) (simp add: char_class_defs)
  next
    case False
    with m obtain b e t where "b \<in> rx_lang (rx_plus rx_digit)" "e \<in> rx_lang (rx_plus rx_digit)"
        "m = b @ CHR ''.'' # e @ CHR ''-'' # t"
      unfolding rx_lang.simps(5) rx_seq.simps(2) rx_lang.simps(4) rx_lang_lit by auto
    with rx_plus_digit [of b] rx_plus_digit [of e] show ?thesis by blast
  qed
  then obtain b e t where "list_all is_digit b" "b \<noteq> []" "list_all is_digit e" "e \<noteq> []"
      "m = b @ CHR ''.'' # e @ t" by blast
  with rx_plus_digit [OF a] v canonicalCore_Some [of a b e "t @ r"] show ?thesis by simp
qed


section \<open>Properties\<close>

text \<open>
  \<open>pickLatest\<close> over a non-empty version list finds one of its members, no member is above
  it, and it is a release when the list has one: the class of the answer (0 release, 1
  prerelease, 2 pseudo-version) is at most the class of any parsable member.
\<close>

theorem goproxy_pickLatest_max:
  assumes "vs \<noteq> []"
  shows "\<exists>m. pickLatest vs = (m, True) \<and> m \<in> set vs
    \<and> (\<forall>v\<in>set vs. goproxy_CompareVersions v m \<le> 0)
    \<and> (\<forall>v\<in>set vs. \<forall>p. parseVersion v = Some p \<longrightarrow>
          (\<exists>q. parseVersion m = Some q \<and> goproxy_class q \<le> goproxy_class p))"
proof -
  obtain m where "pick_best goproxy_CompareVersions None vs = Some m" "m \<in> set vs"
      and max: "\<forall>v\<in>set vs. goproxy_CompareVersions v m \<le> 0"
    using goproxy_order.pick_best_max [of vs] assms by auto
  moreover have "pickLatest vs = (m, True)"
    using calculation(1) by (simp add: pickLatest_def pickLatest_loop_pick)
  ultimately show ?thesis using goproxy_class_mono by blast
qed

theorem goproxy_pickLatest_max_witness:
  "[''v1.2.0-rc.1'', ''v1.1.0''] \<noteq> [] \<and> (\<exists>m. pickLatest [''v1.2.0-rc.1'', ''v1.1.0''] = (m, True))"
  using goproxy_pickLatest_max [of "[''v1.2.0-rc.1'', ''v1.1.0'']"] by blast

text \<open>
  Every version the PUT grammar accepts, release or pseudo-version, has a parsed ordering
  key, so a stored version always takes part in the selection of the latest version.
\<close>

theorem goproxy_put_versions_rank:
  assumes "validPutVersion v"
  shows "\<exists>p. parseVersion v = Some p \<and> praw p = v"
proof -
  have "canonicalCore v \<noteq> None"
    using assms releaseRE_core pseudoRE_core by (auto simp: validPutVersion_def rx_match_lang)
  then show ?thesis by (auto simp: parseVersion_def Let_def)
qed

lemmas goproxy_eval =
  validPutVersion_def releaseRE_def pseudoRE_def rx_num_def rx_dotted_def rx_opt_def rx_plus_def
  rx_digit_def rx_repeat_def alnum_hyphen_def char_class_defs

theorem goproxy_put_versions_rank_witness:
  "validPutVersion ''v1.4.0'' \<and> (\<exists>p. parseVersion ''v1.4.0'' = Some p \<and> praw p = ''v1.4.0'')"
proof -
  have "validPutVersion ''v1.4.0''" by (simp add: goproxy_eval)
  with goproxy_put_versions_rank [OF this] show ?thesis by blast
qed


section \<open>What does not hold\<close>

text \<open>
  The major rule is documented for every module path ending in \<open>/vN\<close> with \<open>N >= 2\<close>. The
  expression \<open>[2-9][0-9]*\<close> leaves out every major version that starts with the digit one: a
  \<open>/v10\<close> path accepts a \<open>v1\<close> version.
\<close>

theorem goproxy_major_ten_unchecked:
  "checkMajorConsistency ''example.com/m/v10'' ''v1.0.0'' = Inr () \<and>
   checkMajorConsistency ''example.com/m/v2'' ''v1.0.0'' = Inl MajorMismatch"
  by (simp add: checkMajorConsistency_def majorWanted_def majorSuffix_def major_digits_def
      has_prefix_def canonicalCore_def parse_int_value_def parse_int_def all_digits_def
      char_class_defs Let_def)

text \<open>
  Numeric prerelease identifiers are documented as compared numerically. The comparison looks at
  their lengths first, and the PUT grammar allows leading zeros, so \<open>001\<close> ranks above \<open>9\<close>.
\<close>

theorem goproxy_leading_zero_order:
  "goproxy_comparePrerelease ''001'' ''9'' = 1 \<and> validPutVersion ''v1.0.0-001''"
  by (simp add: goproxy_comparePrerelease_def isAllDigits_def goproxy_eval)

end
