(* ===== verification/GoTime.thy ===== *)
theory GoTime
  imports GoPrelude
begin

text \<open>
  The part of Go's \<open>time\<close> package the modelled code uses. An instant is the number of
  nanoseconds since the Unix epoch (UTC), a duration a number of nanoseconds. Civil dates are
  proleptic Gregorian dates from year 1 on, numbered in days from 0001-01-01; the calendar
  functions are executable, and the lemmas show that they form an order isomorphism between day
  numbers and valid dates. \<open>format_rfc3339\<close> is \<open>t.UTC().Format(time.RFC3339)\<close> and
  \<open>parse_rfc3339\<close> is \<open>time.Parse(time.RFC3339, s)\<close> on the strict RFC 3339 grammar (the
  lenient spellings Go also tolerates, one-digit hours and comma fractions, are refused).
\<close>

type_synonym time = int
type_synonym duration = int

definition nanosecond :: duration where "nanosecond = 1"
definition millisecond :: duration where "millisecond = 1000000"
definition second :: duration where "second = 1000000000"
definition minute :: duration where "minute = 60 * second"
definition hour :: duration where "hour = 60 * minute"

text \<open>A \<open>time.Duration\<close> is a signed 64-bit count: what its products come to.\<close>

definition wrap64 :: "int \<Rightarrow> int" where
  "wrap64 n = (n + 2 ^ 63) mod 2 ^ 64 - 2 ^ 63"

lemma wrap64_double [simp]: "wrap64 (2 * wrap64 n) = wrap64 (2 * n)"
proof -
  have m: "wrap64 n mod 2 ^ 64 = n mod 2 ^ 64" unfolding wrap64_def mod_diff_left_eq by simp
  have "2 * wrap64 n mod 2 ^ 64 = 2 * n mod 2 ^ 64" using mod_mult_cong [OF refl m, of 2] by simp
  from mod_add_cong [OF this refl, of "2 ^ 63"] show ?thesis unfolding wrap64_def [of "2 * wrap64 n"] wrap64_def [of "2 * n"] by simp
qed

named_theorems duration_defs
declare nanosecond_def [duration_defs] millisecond_def [duration_defs] second_def [duration_defs]
  minute_def [duration_defs] hour_def [duration_defs]


section \<open>The calendar\<close>

definition is_leap :: "nat \<Rightarrow> bool" where
  "is_leap y \<longleftrightarrow> y mod 4 = 0 \<and> (y mod 100 \<noteq> 0 \<or> y mod 400 = 0)"

definition year_len :: "nat \<Rightarrow> nat" where
  "year_len y = (if is_leap y then 366 else 365)"

definition month_len :: "nat \<Rightarrow> nat \<Rightarrow> nat" where
  "month_len y m =
     (if m = 2 then (if is_leap y then 29 else 28)
      else if m \<in> {4, 6, 9, 11} then 30 else 31)"

text \<open>Days before 1 January of year \<open>y\<close>, for \<open>y \<ge> 1\<close>.\<close>

definition days_before_year :: "nat \<Rightarrow> nat" where
  "days_before_year y =
     (let p = y - 1 in 365 * p + p div 4 + p div 400 - p div 100)"

fun days_before_month :: "nat \<Rightarrow> nat \<Rightarrow> nat" where
  "days_before_month y 0 = 0"
| "days_before_month y (Suc m) =
     (if m = 0 then 0 else days_before_month y m + month_len y m)"

lemma year_len_pos [simp]: "0 < year_len y" "year_len y \<noteq> 0"
  by (auto simp: year_len_def)

function year_from :: "nat \<Rightarrow> nat \<Rightarrow> nat \<times> nat" where
  "year_from y n = (if n < year_len y then (y, n) else year_from (y + 1) (n - year_len y))"
  by pat_completeness auto
termination
proof (relation "measure snd")
  show "\<not> n < year_len y \<Longrightarrow> ((y + 1, n - year_len y), (y, n)) \<in> measure snd" for y n
    using year_len_pos(1) [of y] by (simp add: not_less del: year_len_pos)
qed simp
declare year_from.simps [simp del]

function month_from :: "nat \<Rightarrow> nat \<Rightarrow> nat \<Rightarrow> nat \<times> nat" where
  "month_from y m n =
     (if n < month_len y m \<or> 12 \<le> m then (m, n + 1) else month_from y (m + 1) (n - month_len y m))"
  by pat_completeness auto
termination by (relation "measure (\<lambda>(y, m, n). 12 - m)") auto
declare month_from.simps [simp del]

type_synonym civil_date = "nat \<times> nat \<times> nat"

definition civil_of_days :: "nat \<Rightarrow> civil_date" where
  "civil_of_days n =
     (let c = n div 146097; (y, r) = year_from 1 (n mod 146097);
          (m, d) = month_from y 1 r
      in (400 * c + y, m, d))"

fun days_of_civil :: "civil_date \<Rightarrow> nat" where
  "days_of_civil (y, m, d) = days_before_year y + days_before_month y m + (d - 1)"

fun valid_date :: "civil_date \<Rightarrow> bool" where
  "valid_date (y, m, d) \<longleftrightarrow> 1 \<le> y \<and> 1 \<le> m \<and> m \<le> 12 \<and> 1 \<le> d \<and> d \<le> month_len y m"

lemma div_suc: "k \<noteq> 0 \<Longrightarrow> Suc p div k = p div k + (if Suc p mod k = 0 then 1 else (0::nat))"
  by (simp add: div_Suc)

lemma days_before_year_Suc:
  "1 \<le> y \<Longrightarrow> days_before_year (Suc y) = days_before_year y + year_len y"
proof -
  assume "1 \<le> y"
  then obtain p where p: "y = Suc p" by (cases y) auto
  have le: "p div 100 \<le> p div 4" "Suc p div 100 \<le> Suc p div 4"
    by (simp_all add: div_le_mono2)
  have "Suc p mod 400 = 0 \<Longrightarrow> Suc p mod 100 = 0" "Suc p mod 100 = 0 \<Longrightarrow> Suc p mod 4 = 0"
    by presburger+
  then have l: "year_len y = 365 + (if Suc p mod 4 = 0 then 1 else 0)
      + (if Suc p mod 400 = 0 then 1 else 0) - (if Suc p mod 100 = 0 then 1 else 0)"
    by (auto simp: p year_len_def is_leap_def)
  define a b c where "a = (if Suc p mod 4 = 0 then 1 else 0 :: nat)"
    and "b = (if Suc p mod 400 = 0 then 1 else 0 :: nat)" and "c = (if Suc p mod 100 = 0 then 1 else 0 :: nat)"
  have "Suc p div 4 = p div 4 + a" "Suc p div 100 = p div 100 + c" "Suc p div 400 = p div 400 + b"
    using div_suc [of 4 p] div_suc [of 100 p] div_suc [of 400 p] unfolding a_def b_def c_def by simp_all
  moreover have "c \<le> 1" by (simp add: c_def)
  moreover have "days_before_year (Suc y) = 365 * Suc p + Suc p div 4 + Suc p div 400 - Suc p div 100"
    "days_before_year y = 365 * p + p div 4 + p div 400 - p div 100"
    by (simp_all only: p days_before_year_def Let_def diff_Suc_1)
  moreover have "year_len y = 365 + a + b - c" using l unfolding a_def b_def c_def by (simp only:)
  moreover have "365 * Suc p + (A + a) + (B + b) - (C + c) = (365 * p + A + B - C) + (365 + a + b - c)"
    if "c \<le> 1" "C \<le> A" for A B C
    using that by simp
  ultimately show ?thesis using le(1) by simp
qed

lemma days_before_year_mono: "1 \<le> y \<Longrightarrow> y \<le> z \<Longrightarrow> days_before_year y \<le> days_before_year z"
proof -
  assume "1 \<le> y" "y \<le> z"
  from this(2,1) show ?thesis by (induction z rule: dec_induct) (auto simp: days_before_year_Suc)
qed

lemma days_before_year_less:
  "1 \<le> y \<Longrightarrow> y < z \<Longrightarrow> days_before_year y + year_len y \<le> days_before_year z"
  using days_before_year_mono [of "Suc y" z] by (simp add: days_before_year_Suc)

lemma days_before_year_cycle:
  assumes "1 \<le> y" shows "days_before_year (400 * c + y) = 146097 * c + days_before_year y"
proof -
  obtain p where p: "y = Suc p" using assms by (cases y) auto
  have "(400 * c + p) div 4 = 100 * c + p div 4" "(400 * c + p) div 100 = 4 * c + p div 100"
    "(400 * c + p) div 400 = c + p div 400" "p div 100 \<le> p div 4"
    using div_mult_self4 [of 4 "100 * c" p] div_mult_self4 [of 100 "4 * c" p]
      div_mult_self4 [of 400 c p] div_le_mono2 [of 4 100 p]
    by simp_all
  moreover have "365 * (400 * c + p) + (100 * c + A) + (c + B) - (4 * c + C)
      = 146097 * c + (365 * p + A + B - C)" if "C \<le> A" for A B C
    using that by simp
  ultimately show ?thesis by (simp add: p days_before_year_def Let_def)
qed

lemma year_from_spec:
  "1 \<le> y \<Longrightarrow> year_from y n = (y', r) \<Longrightarrow>
     days_before_year y + n = days_before_year y' + r \<and> r < year_len y' \<and> 1 \<le> y'"
proof (induction y n arbitrary: y' r rule: year_from.induct)
  case (1 y n)
  show ?case
  proof (cases "n < year_len y")
    case False
    with 1 show ?thesis by (fastforce simp: year_from.simps [of y n] days_before_year_Suc)
  qed (use 1 in \<open>simp add: year_from.simps [of y n]\<close>)
qed

lemma is_leap_cycle [simp]: "is_leap (400 * c + y) = is_leap y"
  using mod_mult_self4 [of 4 "100 * c" y] mod_mult_self4 [of 100 "4 * c" y]
    mod_mult_self4 [of 400 c y]
  by (simp add: is_leap_def)

lemma month_len_cycle [simp]: "month_len (400 * c + y) m = month_len y m"
  by (simp add: month_len_def)

lemma days_before_month_cycle [simp]: "days_before_month (400 * c + y) m = days_before_month y m"
  by (induction m) auto

lemma month_len_bounds: "28 \<le> month_len y m" "month_len y m \<le> 31"
  by (auto simp: month_len_def)

lemma days_before_month_12:
  "days_before_month y 12 + month_len y 12 = year_len y"
  by (simp add: numeral_eq_Suc month_len_def year_len_def)

lemma days_before_month_le: "1 \<le> m \<Longrightarrow> m \<le> k \<Longrightarrow> days_before_month y m \<le> days_before_month y k"
proof -
  assume "1 \<le> m" "m \<le> k"
  from this(2,1) show ?thesis by (induction k rule: dec_induct) auto
qed

lemma days_before_month_less:
  "1 \<le> m \<Longrightarrow> m < k \<Longrightarrow> days_before_month y m + month_len y m \<le> days_before_month y k"
  using days_before_month_le [of "Suc m" k y] by simp

lemma month_from_spec:
  "1 \<le> m \<Longrightarrow> m \<le> 12 \<Longrightarrow> days_before_month y m + n < year_len y \<Longrightarrow> month_from y m n = (m', d) \<Longrightarrow>
     days_before_month y m + n = days_before_month y m' + (d - 1)
     \<and> 1 \<le> m' \<and> m' \<le> 12 \<and> 1 \<le> d \<and> d \<le> month_len y m'"
proof (induction y m n arbitrary: m' d rule: month_from.induct)
  case (1 y m n)
  show ?case
  proof (cases "n < month_len y m \<or> 12 \<le> m")
    case True
    moreover have "n < month_len y m" if "12 \<le> m"
    proof -
      have m: "m = 12" using that 1(3) by simp
      show ?thesis using 1(4) days_before_month_12 [of y] unfolding m by linarith
    qed
    ultimately show ?thesis using 1 by (auto simp: month_from.simps [of y m n])
  next
    case False
    with 1 show ?thesis by (simp add: month_from.simps [of y m n])
  qed
qed

lemma civil_of_days_valid:
  "valid_date (civil_of_days n) \<and> days_of_civil (civil_of_days n) = n"
proof -
  obtain y r where yr: "year_from 1 (n mod 146097) = (y, r)" by fastforce
  obtain m d where md: "month_from y 1 r = (m, d)" by fastforce
  have z: "days_before_year 1 = 0" "days_before_month y 1 = 0"
    by (simp_all add: days_before_year_def)
  have y: "n mod 146097 = days_before_year y + r" "r < year_len y" "1 \<le> y"
    using year_from_spec [OF _ yr] z by simp_all
  have m: "r = days_before_month y m + (d - 1)" "1 \<le> m" "m \<le> 12" "1 \<le> d" "d \<le> month_len y m"
    using month_from_spec [OF _ _ _ md] z y by simp_all
  have "civil_of_days n = (400 * (n div 146097) + y, m, d)"
    unfolding civil_of_days_def Let_def yr by (simp only: prod.case md)
  moreover have "146097 * (n div 146097) + (days_before_year y + r) = n"
    using div_mult_mod_eq [of n 146097] y(1) by simp
  ultimately show ?thesis using y m by (simp add: days_before_year_cycle)
qed

lemma days_of_civil_less:
  assumes "valid_date a" "valid_date b" "a < b" shows "days_of_civil a < days_of_civil b"
proof -
  obtain y m d where a: "a = (y, m, d)" by (metis prod_cases3)
  obtain z k e where b: "b = (z, k, e)" by (metis prod_cases3)
  have in_year: "days_before_month y m + (d - 1) < year_len y"
    using assms(1) days_before_month_le [of m 12 y] days_before_month_less [of m 12 y]
      days_before_month_12 [of y] by (cases "m = 12") (auto simp: a)
  consider "y < z" | "y = z" "m < k" | "y = z" "m = k" "d < e"
    using assms(3) unfolding a b less_prod_def by (simp, linarith)
  then show ?thesis
  proof cases
    case 1
    with in_year days_before_year_less [of y z] assms(1) show ?thesis by (simp add: a b)
  next
    case 2
    then have "days_before_month z m + (d - 1) < days_before_month z k"
    proof -
      have "1 \<le> m" "1 \<le> d" "d \<le> month_len y m" using assms(1) by (simp_all add: a)
      moreover have "days_before_month y m + month_len y m \<le> days_before_month y k"
        using days_before_month_less [of m k y] \<open>1 \<le> m\<close> 2 by blast
      ultimately show ?thesis unfolding \<open>y = z\<close> by linarith
    qed
    with 2 show ?thesis by (simp only: a b days_of_civil.simps)
  next
    case 3
    then have "d - 1 < e - 1" using assms(1) unfolding a valid_date.simps by linarith
    with 3 show ?thesis by (simp only: a b days_of_civil.simps)
  qed
qed

lemma days_of_civil_mono_iff:
  "valid_date a \<Longrightarrow> valid_date b \<Longrightarrow> days_of_civil a < days_of_civil b \<longleftrightarrow> a < b"
  by (metis days_of_civil_less less_asym linorder_neqE)

lemma days_of_civil_inj:
  "valid_date a \<Longrightarrow> valid_date b \<Longrightarrow> days_of_civil a = days_of_civil b \<longleftrightarrow> a = b"
  by (metis days_of_civil_less less_irrefl linorder_neqE)

lemma civil_of_days_of_civil: "valid_date a \<Longrightarrow> civil_of_days (days_of_civil a) = a"
  using civil_of_days_valid [of "days_of_civil a"] days_of_civil_inj by blast

lemma civil_of_days_less_iff [simp]: "civil_of_days m < civil_of_days n \<longleftrightarrow> m < n"
  using civil_of_days_valid [of m] civil_of_days_valid [of n]
    days_of_civil_mono_iff [of "civil_of_days m" "civil_of_days n"] by simp


section \<open>RFC 3339 text\<close>

text \<open>Seconds from 0001-01-01T00:00:00Z to the Unix epoch.\<close>

definition unix_to_internal :: int where "unix_to_internal = 62135596800"

definition abs_seconds :: "time \<Rightarrow> nat" where
  "abs_seconds t = nat (t div second + unix_to_internal)"

fun pad_digits :: "nat \<Rightarrow> nat \<Rightarrow> string" where
  "pad_digits 0 n = []"
| "pad_digits (Suc k) n = pad_digits k (n div 10) @ [digit_char (n mod 10)]"

definition format_civil :: "civil_date \<Rightarrow> nat \<Rightarrow> string" where
  "format_civil ymd s =
     (case ymd of (y, m, d) \<Rightarrow>
        pad_digits 4 y @ ''-'' @ pad_digits 2 m @ ''-'' @ pad_digits 2 d @ ''T''
        @ pad_digits 2 (s div 3600) @ '':'' @ pad_digits 2 (s div 60 mod 60) @ '':''
        @ pad_digits 2 (s mod 60) @ ''Z'')"

definition format_rfc3339 :: "time \<Rightarrow> string" where
  "format_rfc3339 t =
     (let a = abs_seconds t in format_civil (civil_of_days (a div 86400)) (a mod 86400))"

definition parse_digits :: "string \<Rightarrow> nat option" where
  "parse_digits s = (if all_digits s then Some (dec_value 0 s) else None)"

text \<open>The zone suffix: \<open>Z\<close> or a signed \<open>hh:mm\<close> offset, in seconds.\<close>

definition parse_zone :: "string \<Rightarrow> int option" where
  "parse_zone z =
     (if z = ''Z'' then Some 0
      else if length z = 6 \<and> (hd z = CHR ''+'' \<or> hd z = CHR ''-'') \<and> z ! 3 = CHR '':''
      then case (parse_digits (take 2 (drop 1 z)), parse_digits (drop 4 z)) of
             (Some h, Some m) \<Rightarrow>
               if h \<le> 24 \<and> m \<le> 60
               then Some ((if hd z = CHR ''+'' then 1 else - 1) * (int h * 3600 + int m * 60)) else None
           | _ \<Rightarrow> None
      else None)"

text \<open>An optional fraction: a dot and at least one digit, read to nine places.\<close>

definition parse_frac :: "string \<Rightarrow> (int \<times> string) option" where
  "parse_frac s =
     (if s \<noteq> [] \<and> hd s = CHR ''.''
      then let ds = takeWhile is_digit (tl s) in
           if ds = [] then None
           else Some (int (dec_value 0 (take 9 (ds @ replicate 9 CHR ''0''))),
                      dropWhile is_digit (tl s))
      else Some (0, s))"

definition valid_clock :: "nat \<Rightarrow> nat \<Rightarrow> nat \<Rightarrow> bool" where
  "valid_clock h mi sc \<longleftrightarrow> h < 24 \<and> mi < 60 \<and> sc < 60"

definition parse_rfc3339 :: "string \<Rightarrow> time option" where
  "parse_rfc3339 s =
     (if length s < 20 \<or> s ! 4 \<noteq> CHR ''-'' \<or> s ! 7 \<noteq> CHR ''-'' \<or> s ! 10 \<noteq> CHR ''T''
         \<or> s ! 13 \<noteq> CHR '':'' \<or> s ! 16 \<noteq> CHR '':'' then None
      else
        case (parse_digits (take 4 s), parse_digits (take 2 (drop 5 s)), parse_digits (take 2 (drop 8 s)),
              parse_digits (take 2 (drop 11 s)), parse_digits (take 2 (drop 14 s)),
              parse_digits (take 2 (drop 17 s)), parse_frac (drop 19 s)) of
          (Some y, Some m, Some d, Some h, Some mi, Some sc, Some (f, z)) \<Rightarrow>
            (case parse_zone z of
               None \<Rightarrow> None
             | Some off \<Rightarrow>
                 if valid_date (y, m, d) \<and> valid_clock h mi sc
                 then Some ((int (days_of_civil (y, m, d) * 86400 + h * 3600 + mi * 60 + sc)
                             - unix_to_internal - off) * second + f)
                 else None)
        | _ \<Rightarrow> None)"


subsection \<open>Fixed-width fields\<close>

lemma length_pad_digits [simp]: "length (pad_digits k n) = k"
  by (induction k arbitrary: n) auto

lemma digit_char_mod [simp]: "is_digit (digit_char (n mod 10))" "digit_val (digit_char (n mod 10)) = n mod 10"
  by (simp_all add: is_digit_def digit_char_def digit_val_def byte_of_def)

lemma all_digits_pad [simp]: "all_digits (pad_digits k n)"
  by (induction k arbitrary: n) (auto simp: all_digits_def)

lemma dec_value_pad: "n < 10 ^ k \<Longrightarrow> dec_value 0 (pad_digits k n) = n"
  by (induction k arbitrary: n) (auto simp: dec_value_append less_mult_imp_div_less)

lemma pad_digits_less:
  "m < 10 ^ k \<Longrightarrow> n < 10 ^ k \<Longrightarrow> pad_digits k m < pad_digits k n \<longleftrightarrow> m < n"
  using dec_value_less_eq_length [of "pad_digits k m" "pad_digits k n"] by (simp add: dec_value_pad)

lemma pad_digits_inj:
  "m < 10 ^ k \<Longrightarrow> n < 10 ^ k \<Longrightarrow> pad_digits k m = pad_digits k n \<longleftrightarrow> m = n"
  by (metis dec_value_pad)

lemma append_less_iff:
  fixes a :: "'a::linorder list"
  shows "length a = length b \<Longrightarrow> a @ u < b @ v \<longleftrightarrow> a < b \<or> (a = b \<and> u < v)"
  by (induction a b rule: list_induct2) auto

lemma parse_digits_pad [simp]: "n < 10 ^ k \<Longrightarrow> parse_digits (pad_digits k n) = Some n"
  by (simp add: parse_digits_def dec_value_pad)

lemma pad_field_less:
  "m < 10 ^ k \<Longrightarrow> n < 10 ^ k \<Longrightarrow>
    pad_digits k m @ u < pad_digits k n @ v \<longleftrightarrow> m < n \<or> (m = n \<and> u < v)"
  by (simp add: append_less_iff pad_digits_less pad_digits_inj)

lemma clock_fields:
  fixes s :: nat
  assumes "s < 86400"
  shows "s div 3600 < 24" "s div 60 mod 60 < 60" "s mod 60 < 60"
    "s div 3600 * 3600 + s div 60 mod 60 * 60 + s mod 60 = s"
proof -
  show "s div 3600 < 24" using assms by (simp add: less_mult_imp_div_less)
  have "s div 3600 = s div 60 div 60" by (simp add: div_mult2_eq [symmetric])
  then show "s div 3600 * 3600 + s div 60 mod 60 * 60 + s mod 60 = s"
    using div_mult_mod_eq [of s 60] div_mult_mod_eq [of "s div 60" 60] by linarith
qed simp_all

definition printable_date :: "civil_date \<Rightarrow> bool" where
  "printable_date ymd \<longleftrightarrow> valid_date ymd \<and> fst ymd < 10000"

lemma printable_bounds:
  assumes "printable_date (y, m, d)"
  shows "y < 10 ^ 4" "m < 10 ^ 2" "d < 10 ^ 2"
  using assms month_len_bounds(2) [of y m] by (auto simp: printable_date_def)

lemma format_civil_less:
  assumes "printable_date a" "printable_date b" "s < 86400" "t < 86400"
  shows "format_civil a s < format_civil b t \<longleftrightarrow> a < b \<or> (a = b \<and> s < t)"
proof -
  obtain y m d where a: "a = (y, m, d)" by (metis prod_cases3)
  obtain z k e where b: "b = (z, k, e)" by (metis prod_cases3)
  define sh sm ss th tm ts where "sh = s div 3600" and "sm = s div 60 mod 60" and "ss = s mod 60"
    and "th = t div 3600" and "tm = t div 60 mod 60" and "ts = t mod 60"
  note f = sh_def [symmetric] sm_def [symmetric] ss_def [symmetric]
    th_def [symmetric] tm_def [symmetric] ts_def [symmetric]
  have s: "sh < 24" "sm < 60" "ss < 60" "sh * 3600 + sm * 60 + ss = s"
    and t: "th < 24" "tm < 60" "ts < 60" "th * 3600 + tm * 60 + ts = t"
    using clock_fields [OF assms(3)] clock_fields [OF assms(4)] by (simp_all add: f)
  have w: "sh < 10 ^ 2" "sm < 10 ^ 2" "ss < 10 ^ 2" "th < 10 ^ 2" "tm < 10 ^ 2" "ts < 10 ^ 2"
    using s t by simp_all
  have "format_civil a s < format_civil b t \<longleftrightarrow>
      y < z \<or> y = z \<and> (m < k \<or> m = k \<and> (d < e \<or> d = e \<and>
        (sh < th \<or> sh = th \<and> (sm < tm \<or> sm = tm \<and> ss < ts))))"
    using printable_bounds [OF assms(1) [unfolded a]] printable_bounds [OF assms(2) [unfolded b]] w
    by (simp add: a b format_civil_def f pad_field_less del: power_numeral)
  also have "(sh < th \<or> sh = th \<and> (sm < tm \<or> sm = tm \<and> ss < ts)) \<longleftrightarrow> s < t"
    using s t by linarith
  finally show ?thesis by (auto simp: a b less_prod_def)
qed

lemma parse_format_civil:
  assumes "printable_date a" "s < 86400"
  shows "parse_rfc3339 (format_civil a s)
    = Some ((int (days_of_civil a * 86400 + s) - unix_to_internal) * second)"
proof -
  obtain y m d where a: "a = (y, m, d)" by (metis prod_cases3)
  note b = printable_bounds [OF assms(1) [unfolded a]]
  obtain y1 y2 y3 y4 where y: "pad_digits 4 y = [y1, y2, y3, y4]"
    by (rule list_length_4 [of "pad_digits 4 y"]) simp
  have two: "\<exists>p q. pad_digits 2 n = [p, q]" for n
    by (simp add: numeral_2_eq_2)
  obtain m1 m2 where m: "pad_digits 2 m = [m1, m2]" using two by blast
  obtain d1 d2 where d: "pad_digits 2 d = [d1, d2]" using two by blast
  obtain h1 h2 where h: "pad_digits 2 (s div 3600) = [h1, h2]" using two by blast
  obtain i1 i2 where i: "pad_digits 2 (s div 60 mod 60) = [i1, i2]" using two by blast
  obtain s1 s2 where s: "pad_digits 2 (s mod 60) = [s1, s2]" using two by blast
  note c = clock_fields [OF assms(2)]
  have p: "parse_digits [y1, y2, y3, y4] = Some y" "parse_digits [m1, m2] = Some m"
    "parse_digits [d1, d2] = Some d" "parse_digits [h1, h2] = Some (s div 3600)"
    "parse_digits [i1, i2] = Some (s div 60 mod 60)" "parse_digits [s1, s2] = Some (s mod 60)"
    using b c unfolding y [symmetric] m [symmetric] d [symmetric] h [symmetric] i [symmetric] s [symmetric]
    by (simp_all add: parse_digits_pad)
  have v: "valid_date (y, m, d)" "valid_clock (s div 3600) (s div 60 mod 60) (s mod 60)"
    using assms(1) c by (simp_all add: a printable_date_def valid_clock_def)
  have "parse_rfc3339 (format_civil a s) = Some ((int (days_of_civil a * 86400 + s div 3600 * 3600
      + s div 60 mod 60 * 60 + s mod 60) - unix_to_internal) * second)"
    using v by (simp add: parse_rfc3339_def format_civil_def a y m d h i s p parse_frac_def parse_zone_def
        del: days_of_civil.simps valid_date.simps)
  also have "days_of_civil a * 86400 + s div 3600 * 3600 + s div 60 mod 60 * 60 + s mod 60
      = days_of_civil a * 86400 + s" using c(4) by linarith
  finally show ?thesis .
qed


subsection \<open>Instants\<close>

text \<open>Instants whose RFC 3339 text has a four-digit year: 0001-01-01 to 9999-12-31.\<close>

definition printable_time :: "time \<Rightarrow> bool" where
  "printable_time t \<longleftrightarrow> 0 \<le> t div second + unix_to_internal \<and> abs_seconds t < 3652059 * 86400"

lemma printable_days: "n < 3652059 \<Longrightarrow> printable_date (civil_of_days n)"
proof -
  assume n: "n < 3652059"
  obtain y m d where c: "civil_of_days n = (y, m, d)" by (metis prod_cases3)
  have v: "valid_date (y, m, d)" "days_of_civil (y, m, d) = n"
    using civil_of_days_valid [of n] by (simp_all only: c)
  have "\<not> 10000 \<le> y"
  proof
    assume "10000 \<le> y"
    then have "days_before_year 10000 \<le> days_before_year y" by (intro days_before_year_mono) simp_all
    moreover have "days_before_year 10000 = 3652059" by (simp add: days_before_year_def)
    ultimately show False using v(2) n unfolding days_of_civil.simps by linarith
  qed
  with v show ?thesis by (simp only: c printable_date_def fst_conv not_le)
qed

lemma format_rfc3339_less:
  assumes "printable_time s" "printable_time t"
  shows "format_rfc3339 s < format_rfc3339 t \<longleftrightarrow> s div second < t div second"
proof -
  define a b where "a = abs_seconds s" and "b = abs_seconds t"
  have p: "printable_date (civil_of_days (a div 86400))" "printable_date (civil_of_days (b div 86400))"
    using assms by (auto intro!: printable_days simp: printable_time_def a_def b_def less_mult_imp_div_less)
  have inj: "civil_of_days (a div 86400) = civil_of_days (b div 86400) \<longleftrightarrow> a div 86400 = b div 86400"
    by (metis civil_of_days_less_iff less_irrefl linorder_neqE_nat)
  have "format_rfc3339 s < format_rfc3339 t \<longleftrightarrow>
      a div 86400 < b div 86400 \<or> (a div 86400 = b div 86400 \<and> a mod 86400 < b mod 86400)"
    using format_civil_less [OF p, of "a mod 86400" "b mod 86400"]
    by (simp add: format_rfc3339_def Let_def a_def [symmetric] b_def [symmetric] inj)
  also have "\<dots> \<longleftrightarrow> a < b"
    using div_mult_mod_eq [of a 86400] div_mult_mod_eq [of b 86400] mod_less_divisor [of 86400 a]
      mod_less_divisor [of 86400 b] by linarith
  also have "\<dots> \<longleftrightarrow> s div second < t div second"
    using assms by (auto simp: a_def b_def abs_seconds_def printable_time_def)
  finally show ?thesis .
qed

lemma format_rfc3339_le:
  "printable_time s \<Longrightarrow> printable_time t \<Longrightarrow>
    format_rfc3339 s \<le> format_rfc3339 t \<longleftrightarrow> s div second \<le> t div second"
  using format_rfc3339_less [of t s] by (simp add: not_less [symmetric])

lemma parse_format_rfc3339:
  assumes "printable_time t"
  shows "parse_rfc3339 (format_rfc3339 t) = Some (t div second * second)"
proof -
  define a where "a = abs_seconds t"
  have "printable_date (civil_of_days (a div 86400))"
    using assms by (auto intro!: printable_days simp: printable_time_def a_def less_mult_imp_div_less)
  from parse_format_civil [OF this, of "a mod 86400"] civil_of_days_valid [of "a div 86400"]
  have "parse_rfc3339 (format_rfc3339 t)
      = Some ((int (a div 86400 * 86400 + a mod 86400) - unix_to_internal) * second)"
    by (simp add: format_rfc3339_def Let_def a_def [symmetric])
  also have "int (a div 86400 * 86400 + a mod 86400) - unix_to_internal = t div second"
    using assms by (simp add: a_def abs_seconds_def printable_time_def)
  finally show ?thesis .
qed

lemma format_rfc3339_nonempty [simp]: "format_rfc3339 t \<noteq> []"
  by (simp add: format_rfc3339_def format_civil_def Let_def split: prod.splits)

end
