(* ===== verification/Storage_Hold.thy ===== *)
theory Storage_Hold
  imports GoTime
begin

text \<open>
  The garbage collector's hold set (\<open>storage/hold.go\<close>) and the busy retry budget of the
  session-row writes (\<open>storage/busy.go\<close>).

  The clock of the hold set is an argument of the operations that read it. The mutex makes each
  operation atomic, so a concurrent history of a hold set is a sequence of operations
  (\<open>hold_op\<close>, \<open>hold_run\<close>). The locale \<open>hold_counter\<close> is the contract the collector and the
  upload sessions rely on: registrations are counted, a registration refreshes the expiry, and a
  check answers from the count and the age. \<open>acquire\<close>, \<open>release\<close> and \<open>held\<close> are shown to keep it.
\<close>

section \<open>The hold set\<close>

definition DefaultGCHoldTTL :: duration where "DefaultGCHoldTTL = 600 * second"
definition MinGCHoldTTL :: duration where "MinGCHoldTTL = 60 * second"

definition resolveGCHoldTTL :: "duration \<Rightarrow> duration" where
  "resolveGCHoldTTL d =
     (if d \<le> 0 then DefaultGCHoldTTL else if d < MinGCHoldTTL then MinGCHoldTTL else d)"

record holdEntry =
  hold_count :: nat
  refreshed :: time

record holdSet =
  hold_ttl :: duration
  hold_entries :: "string \<rightharpoonup> holdEntry"

definition newHoldSet :: "duration \<Rightarrow> holdSet" where
  "newHoldSet ttl = \<lparr>hold_ttl = resolveGCHoldTTL ttl, hold_entries = Map.empty\<rparr>"

definition acquire :: "time \<Rightarrow> string \<Rightarrow> holdSet \<Rightarrow> holdSet" where
  "acquire now sha h =
     (let e = (case hold_entries h sha of Some e \<Rightarrow> e | None \<Rightarrow> \<lparr>hold_count = 0, refreshed = 0\<rparr>)
      in h\<lparr>hold_entries := (hold_entries h)(sha \<mapsto>
             e\<lparr>hold_count := hold_count e + 1, refreshed := now\<rparr>)\<rparr>)"

definition release :: "string \<Rightarrow> holdSet \<Rightarrow> holdSet" where
  "release sha h =
     (case hold_entries h sha of
        None \<Rightarrow> h
      | Some e \<Rightarrow>
          if hold_count e = 0 then h
          else if hold_count e - 1 = 0 then h\<lparr>hold_entries := (hold_entries h)(sha := None)\<rparr>
          else h\<lparr>hold_entries := (hold_entries h)(sha \<mapsto> e\<lparr>hold_count := hold_count e - 1\<rparr>)\<rparr>)"

definition held :: "time \<Rightarrow> string \<Rightarrow> holdSet \<Rightarrow> bool \<times> holdSet" where
  "held now sha h =
     (case hold_entries h sha of
        None \<Rightarrow> (False, h)
      | Some e \<Rightarrow>
          if now - refreshed e \<ge> hold_ttl h
          then (False, h\<lparr>hold_entries := (hold_entries h)(sha := None)\<rparr>)
          else (hold_count e > 0, h))"

text \<open>What a hold set stores of a sha: the outstanding registrations and the last refresh.\<close>

definition hold_registrations :: "holdSet \<Rightarrow> string \<Rightarrow> nat" where
  "hold_registrations h sha = (case hold_entries h sha of Some e \<Rightarrow> hold_count e | None \<Rightarrow> 0)"

definition hold_since :: "holdSet \<Rightarrow> string \<Rightarrow> time" where
  "hold_since h sha = (case hold_entries h sha of Some e \<Rightarrow> refreshed e | None \<Rightarrow> 0)"

text \<open>No entry is kept at count zero: the map holds exactly the registered shas.\<close>

definition hold_wf :: "holdSet \<Rightarrow> bool" where
  "hold_wf h \<longleftrightarrow> MinGCHoldTTL \<le> hold_ttl h \<and> (\<forall>sha e. hold_entries h sha = Some e \<longrightarrow> 0 < hold_count e)"

lemma resolveGCHoldTTL_min: "MinGCHoldTTL \<le> resolveGCHoldTTL d"
  by (simp add: resolveGCHoldTTL_def DefaultGCHoldTTL_def MinGCHoldTTL_def duration_defs)

lemma newHoldSet_wf: "hold_wf (newHoldSet ttl)"
  by (simp add: hold_wf_def newHoldSet_def resolveGCHoldTTL_min)

lemma acquire_wf: "hold_wf h \<Longrightarrow> hold_wf (acquire now sha h)"
  by (simp add: hold_wf_def acquire_def Let_def)

lemma release_wf: "hold_wf h \<Longrightarrow> hold_wf (release sha h)"
  by (auto simp: hold_wf_def release_def split: option.splits)

lemma held_wf: "hold_wf h \<Longrightarrow> hold_wf (snd (held now sha h))"
  by (auto simp: hold_wf_def held_def split: option.splits)

lemma hold_ttl_ops [simp]:
  "hold_ttl (acquire now sha h) = hold_ttl h" "hold_ttl (release sha h) = hold_ttl h"
  "hold_ttl (snd (held now sha h)) = hold_ttl h"
  by (simp_all add: acquire_def release_def held_def Let_def split: option.splits)


section \<open>The contract of a hold set\<close>

locale hold_counter =
  fixes acq :: "time \<Rightarrow> string \<Rightarrow> 'h \<Rightarrow> 'h"
    and rel :: "string \<Rightarrow> 'h \<Rightarrow> 'h"
    and chk :: "time \<Rightarrow> string \<Rightarrow> 'h \<Rightarrow> bool \<times> 'h"
    and ttl :: "'h \<Rightarrow> duration"
    and cnt :: "'h \<Rightarrow> string \<Rightarrow> nat"
    and since :: "'h \<Rightarrow> string \<Rightarrow> time"
  assumes cnt_acq: "cnt (acq t s h) s' = (if s' = s then Suc (cnt h s) else cnt h s')"
    and since_acq: "since (acq t s h) s' = (if s' = s then t else since h s')"
    and cnt_rel: "cnt (rel s h) s' = (if s' = s then cnt h s - 1 else cnt h s')"
    and since_rel: "0 < cnt (rel s h) s' \<Longrightarrow> since (rel s h) s' = since h s'"
    and chk_iff: "fst (chk t s h) \<longleftrightarrow> 0 < cnt h s \<and> t - since h s < ttl h"
    and cnt_chk: "cnt (snd (chk t s h)) s' =
      (if s' = s \<and> 0 < cnt h s \<and> ttl h \<le> t - since h s then 0 else cnt h s')"
    and since_chk: "0 < cnt (snd (chk t s h)) s' \<Longrightarrow> since (snd (chk t s h)) s' = since h s'"
    and ttl_acq: "ttl (acq t s h) = ttl h"
    and ttl_rel: "ttl (rel s h) = ttl h"
    and ttl_chk: "ttl (snd (chk t s h)) = ttl h"

datatype hold_op = Acquire time string | Release string | Check time string

text \<open>
  The releases of \<open>sha\<close> in a history are answered by the registrations of others: \<open>n\<close> of them
  outstanding at the start, plus those the history makes.
\<close>

fun others_release :: "string \<Rightarrow> nat \<Rightarrow> hold_op list \<Rightarrow> bool" where
  "others_release sha n [] = True"
| "others_release sha n (Acquire t s # ops) = others_release sha (if s = sha then Suc n else n) ops"
| "others_release sha n (Release s # ops) =
     (if s = sha then 0 < n \<and> others_release sha (n - 1) ops else others_release sha n ops)"
| "others_release sha n (Check t s # ops) = others_release sha n ops"

fun op_within :: "time \<Rightarrow> time \<Rightarrow> hold_op \<Rightarrow> bool" where
  "op_within lo hi (Acquire t s) \<longleftrightarrow> lo \<le> t \<and> t < hi"
| "op_within lo hi (Release s) \<longleftrightarrow> True"
| "op_within lo hi (Check t s) \<longleftrightarrow> lo \<le> t \<and> t < hi"

context hold_counter
begin

fun step :: "hold_op \<Rightarrow> 'h \<Rightarrow> 'h" where
  "step (Acquire t s) h = acq t s h"
| "step (Release s) h = rel s h"
| "step (Check t s) h = snd (chk t s h)"

lemma step_keeps_registration:
  assumes "n < cnt h sha" "lo \<le> since h sha" "ttl h = d"
    and "others_release sha n (op # ops)" "op_within lo (lo + d) op"
  shows "\<exists>m. m < cnt (step op h) sha \<and> lo \<le> since (step op h) sha
    \<and> ttl (step op h) = d \<and> others_release sha m ops"
proof (cases op)
  case (Acquire t s)
  with assms show ?thesis
    by (intro exI [of _ "if s = sha then Suc n else n"]) (auto simp: cnt_acq since_acq ttl_acq)
next
  case (Release s)
  with assms show ?thesis
    by (intro exI [of _ "if s = sha then n - 1 else n"])
      (auto simp: cnt_rel ttl_rel since_rel split: if_splits)
next
  case (Check t s)
  with assms have "t - since h sha < d" by simp
  with Check assms show ?thesis
    by (intro exI [of _ n]) (auto simp: cnt_chk ttl_chk since_chk)
qed

lemma registration_kept:
  "n < cnt h sha \<Longrightarrow> lo \<le> since h sha \<Longrightarrow> ttl h = d \<Longrightarrow> others_release sha n ops
   \<Longrightarrow> list_all (op_within lo (lo + d)) ops
   \<Longrightarrow> 0 < cnt (fold step ops h) sha \<and> lo \<le> since (fold step ops h) sha \<and> ttl (fold step ops h) = d"
proof (induction ops arbitrary: n h)
  case (Cons op ops)
  from Cons.prems step_keeps_registration [of n h sha lo d op ops] Cons.IH show ?case by auto
qed auto

lemma acquired_is_held:
  assumes "others_release sha (cnt h sha) ops" "list_all (op_within t (t + ttl h)) ops"
    and "now < t + ttl h"
  shows "fst (chk now sha (fold step ops (acq t sha h)))"
  using registration_kept [of "cnt h sha" "acq t sha h" sha t "ttl h" ops] assms
  by (simp add: cnt_acq since_acq ttl_acq chk_iff)

end

interpretation hs: hold_counter acquire release held hold_ttl hold_registrations hold_since
  by unfold_locales
    (auto simp: acquire_def release_def held_def hold_registrations_def hold_since_def Let_def
      split: option.splits if_splits)


fun hold_step :: "hold_op \<Rightarrow> holdSet \<Rightarrow> holdSet" where
  "hold_step (Acquire t s) h = acquire t s h"
| "hold_step (Release s) h = release s h"
| "hold_step (Check t s) h = snd (held t s h)"

definition hold_run :: "hold_op list \<Rightarrow> holdSet \<Rightarrow> holdSet" where
  "hold_run ops h = fold hold_step ops h"

lemma hs_step: "hs.step = hold_step"
proof (intro ext)
  show "hs.step op h = hold_step op h" for op h by (cases op) simp_all
qed

lemma hold_run_wf: "hold_wf h \<Longrightarrow> hold_wf (hold_run ops h)"
proof (induction ops arbitrary: h)
  case (Cons op ops)
  then show ?case by (cases op) (simp_all add: hold_run_def acquire_wf release_wf held_wf)
qed (simp add: hold_run_def)


section \<open>The busy retry budget\<close>

record BusyRetryPolicy =
  Attempts :: int
  Backoff :: duration
  MaxBackoff :: duration

definition DefaultBusyRetry :: BusyRetryPolicy where
  "DefaultBusyRetry = \<lparr>Attempts = 4, Backoff = 250 * millisecond, MaxBackoff = second\<rparr>"

definition busy_resolved :: "BusyRetryPolicy \<Rightarrow> BusyRetryPolicy" where
  "busy_resolved p0 =
     (let p1 = (if Attempts p0 < 1 then p0\<lparr>Attempts := Attempts DefaultBusyRetry\<rparr> else p0);
          p2 = (if Backoff p1 < millisecond then p1\<lparr>Backoff := Backoff DefaultBusyRetry\<rparr> else p1);
          p3 = (if MaxBackoff p2 < Backoff p2
                then p2\<lparr>MaxBackoff := MaxBackoff DefaultBusyRetry\<rparr> else p2)
      in if MaxBackoff p3 < Backoff p3 then p3\<lparr>MaxBackoff := Backoff p3\<rparr> else p3)"

text \<open>
  The outcome of one execution of the wrapped operation: success, a busy-class store error
  (\<open>metadata.ErrStoreBusy\<close>), or any other error.
\<close>

datatype store_res = StoreOk | StoreBusy | StoreErr

text \<open>
  The loop of \<open>RetryOnBusy\<close>. \<open>fn n\<close> is the outcome of execution \<open>n\<close> (from 1), \<open>ctxErr n\<close> whether
  the context is cancelled after it. The result is the returned outcome, the number of
  executions, and the sleeps in order. The doubled pause is not wrapped to 64 bits: the wrap is
  reached only by a loop that has slept \<open>2 ^ 62\<close> nanoseconds in one pause, some 146 years.
\<close>

function busy_loop :: "(nat \<Rightarrow> store_res) \<Rightarrow> (nat \<Rightarrow> bool) \<Rightarrow> BusyRetryPolicy \<Rightarrow> nat \<Rightarrow> duration
    \<Rightarrow> store_res \<times> nat \<times> duration list" where
  "busy_loop fn ctxErr p attempt backoff =
     (if fn attempt \<noteq> StoreBusy then (fn attempt, attempt, [])
      else if int attempt \<ge> Attempts p then (StoreBusy, attempt, [])
      else if ctxErr attempt then (StoreBusy, attempt, [])
      else (case busy_loop fn ctxErr p (attempt + 1)
                   (if backoff * 2 > MaxBackoff p then MaxBackoff p else backoff * 2) of
              (r, n, sleeps) \<Rightarrow> (r, n, backoff # sleeps)))"
  by pat_completeness auto
termination
  by (relation "measure (\<lambda>(fn, ctxErr, p, attempt, backoff). nat (Attempts p - int attempt))") auto
declare busy_loop.simps [simp del]

definition RetryOnBusy :: "(nat \<Rightarrow> bool) \<Rightarrow> BusyRetryPolicy \<Rightarrow> (nat \<Rightarrow> store_res)
    \<Rightarrow> store_res \<times> nat \<times> duration list" where
  "RetryOnBusy ctxErr pol fn =
     (let p = busy_resolved pol in busy_loop fn ctxErr p 1 (Backoff p))"

lemma busy_resolved_bounds:
  "1 \<le> Attempts (busy_resolved p)" "millisecond \<le> Backoff (busy_resolved p)"
  "Backoff (busy_resolved p) \<le> MaxBackoff (busy_resolved p)"
  by (auto simp: busy_resolved_def DefaultBusyRetry_def Let_def millisecond_def)

lemma busy_loop_spec:
  assumes "int attempt \<le> Attempts p" "0 \<le> backoff" "backoff \<le> MaxBackoff p"
    and "busy_loop fn ctxErr p attempt backoff = (r, n, sleeps)"
  shows "attempt \<le> n \<and> int n \<le> Attempts p \<and> r = fn n
    \<and> (\<forall>k\<in>{attempt..<n}. fn k = StoreBusy \<and> \<not> ctxErr k)
    \<and> (r = StoreBusy \<longrightarrow> int n = Attempts p \<or> ctxErr n)
    \<and> length sleeps = n - attempt \<and> sorted sleeps
    \<and> (\<forall>d\<in>set sleeps. backoff \<le> d \<and> d \<le> MaxBackoff p)"
  using assms
proof (induction fn ctxErr p attempt backoff arbitrary: r n sleeps rule: busy_loop.induct)
  case (1 fn ctxErr p attempt backoff)
  show ?case
  proof (cases "fn attempt \<noteq> StoreBusy \<or> int attempt \<ge> Attempts p \<or> ctxErr attempt")
    case True
    with 1(2-5) show ?thesis
      by (auto simp: busy_loop.simps [of fn ctxErr p attempt backoff] split: if_splits)
  next
    case False
    define b where "b = (if backoff * 2 > MaxBackoff p then MaxBackoff p else backoff * 2)"
    have b: "0 \<le> b" "b \<le> MaxBackoff p" "backoff \<le> b" using 1(3,4) by (auto simp: b_def)
    obtain r' n' sl where rec: "busy_loop fn ctxErr p (attempt + 1) b = (r', n', sl)"
      by (metis prod_cases3)
    with 1(5) False have eq: "r = r'" "n = n'" "sleeps = backoff # sl"
      by (auto simp: busy_loop.simps [of fn ctxErr p attempt backoff] b_def)
    have IH: "attempt + 1 \<le> n' \<and> int n' \<le> Attempts p \<and> r' = fn n'
        \<and> (\<forall>k\<in>{attempt + 1..<n'}. fn k = StoreBusy \<and> \<not> ctxErr k)
        \<and> (r' = StoreBusy \<longrightarrow> int n' = Attempts p \<or> ctxErr n')
        \<and> length sl = n' - (attempt + 1) \<and> sorted sl \<and> (\<forall>d\<in>set sl. b \<le> d \<and> d \<le> MaxBackoff p)"
      using 1(1) [OF _ _ _ _ b(1,2) [unfolded b_def] rec [unfolded b_def]] False by (simp add: b_def)
    have "{attempt..<n'} = insert attempt {attempt + 1..<n'}" using IH by auto
    with IH False b eq 1(4) show ?thesis by force
  qed
qed

lemma RetryOnBusy_result: "RetryOnBusy ctxErr pol fn = (r, n, sleeps) \<Longrightarrow> r = fn n"
  using busy_loop_spec [of 1 "busy_resolved pol" "Backoff (busy_resolved pol)" fn ctxErr r n sleeps]
    busy_resolved_bounds [of pol]
  by (simp add: RetryOnBusy_def Let_def millisecond_def)


section \<open>Properties\<close>

text \<open>
  C15: A registration protects its sha. After \<open>acquire\<close> at time \<open>t\<close>, any history of operations on
  the hold set before \<open>t + ttl\<close>, in which the releases of this sha answer registrations of other
  owners (those outstanding before and those the history makes), leaves the sha held at every
  instant before \<open>t + ttl\<close>: neither the release of a concurrent uploader of the same content nor
  the lazy purge takes the protection away.
\<close>

theorem hold_protects:
  assumes "others_release sha (hold_registrations h sha) ops"
    and "list_all (op_within t (t + hold_ttl h)) ops" "now < t + hold_ttl h"
  shows "fst (held now sha (hold_run ops (acquire t sha h)))"
  using hs.acquired_is_held [OF assms] by (simp add: hold_run_def hs_step)

theorem hold_protects_witness:
  "fst (held 20 ''aa'' (hold_run [Acquire 5 ''aa'', Check 6 ''bb'', Release ''aa'', Check 7 ''aa'']
     (acquire 0 ''aa'' (newHoldSet 0))))"
  using hold_protects [of "''aa''" "newHoldSet 0"
      "[Acquire 5 ''aa'', Check 6 ''bb'', Release ''aa'', Check 7 ''aa'']" 0 20]
  by (simp add: newHoldSet_def resolveGCHoldTTL_def DefaultGCHoldTTL_def second_def
      hold_registrations_def)

text \<open>
  The expiry is a backstop. Once the last registration of a sha is older than the TTL (at
  least a minute, whatever is configured), \<open>held\<close> answers no, forgets the sha whatever its
  count was, and leaves every other sha alone; and a sha whose registrations were all released is
  not held.
\<close>

theorem hold_expires:
  assumes "hold_since h sha + hold_ttl h \<le> now \<or> hold_registrations h sha = 0" "hold_wf h"
  shows "\<not> fst (held now sha h) \<and> hold_registrations (snd (held now sha h)) sha = 0
    \<and> (\<forall>s. s \<noteq> sha \<longrightarrow> hold_entries (snd (held now sha h)) s = hold_entries h s)
    \<and> 60 * second \<le> hold_ttl h"
  using assms
  by (auto simp: held_def hold_since_def hold_registrations_def hold_wf_def MinGCHoldTTL_def
      split: option.splits)

theorem hold_expires_witness:
  "\<not> fst (held (600 * second) ''aa'' (acquire 0 ''aa'' (newHoldSet 0)))"
  using hold_expires [of "acquire 0 ''aa'' (newHoldSet 0)" "''aa''" "600 * second"]
    acquire_wf [OF newHoldSet_wf [of 0], of 0 "''aa''"]
  by (simp add: hs.since_acq newHoldSet_def resolveGCHoldTTL_def DefaultGCHoldTTL_def)

text \<open>
  C39: \<open>RetryOnBusy\<close> stays inside its budget. With any policy it executes the operation at least
  once and at most \<open>Attempts\<close> times, returns the outcome of the last execution, re-executes only
  after busy outcomes with a live context, and gives a busy outcome up only when the budget is
  spent or the context is cancelled; the sleeps between executions grow from \<open>Backoff\<close> and never
  exceed \<open>MaxBackoff\<close>.
\<close>

theorem retry_within_budget:
  assumes "RetryOnBusy ctxErr pol fn = (r, n, sleeps)"
  shows "1 \<le> n \<and> int n \<le> Attempts (busy_resolved pol) \<and> r = fn n
    \<and> (\<forall>k\<in>{1..<n}. fn k = StoreBusy \<and> \<not> ctxErr k)
    \<and> (r = StoreBusy \<longrightarrow> int n = Attempts (busy_resolved pol) \<or> ctxErr n)
    \<and> length sleeps = n - 1 \<and> sorted sleeps
    \<and> (\<forall>d\<in>set sleeps. Backoff (busy_resolved pol) \<le> d \<and> d \<le> MaxBackoff (busy_resolved pol))"
  using busy_loop_spec [of 1 "busy_resolved pol" "Backoff (busy_resolved pol)" fn ctxErr r n sleeps]
    busy_resolved_bounds [of pol] assms
  by (simp add: RetryOnBusy_def Let_def millisecond_def)

theorem retry_within_budget_witness:
  "RetryOnBusy (\<lambda>_. False) DefaultBusyRetry (\<lambda>k. if k < 3 then StoreBusy else StoreOk)
     = (StoreOk, 3, [250000000, 500000000])
   \<and> int 3 \<le> Attempts (busy_resolved DefaultBusyRetry) \<and> length [250000000, 500000000 :: int] = 3 - 1"
proof -
  have "RetryOnBusy (\<lambda>_. False) DefaultBusyRetry (\<lambda>k. if k < 3 then StoreBusy else StoreOk)
     = (StoreOk, 3, [250000000, 500000000])"
    by (simp add: RetryOnBusy_def busy_resolved_def DefaultBusyRetry_def duration_defs busy_loop.simps)
  with retry_within_budget [OF this] show ?thesis by simp
qed

end
