(* ===== verification/Storage_Engine.thy ===== *)
theory Storage_Engine
  imports Storage_Hold "HOL-Library.AList"
begin

text \<open>
  The disk storage engine: \<open>storage/engine.go\<close>, \<open>storage/session.go\<close>, \<open>storage/digest.go\<close>, and the
  \<open>upload_sessions\<close> table of \<open>metadata/substores_upload.go\<close>.

  The record \<open>engine\<close> holds the in-memory fields of the Go struct (closed flag, session registry,
  hold set, options), the heap of session objects by handle, and the disk: the blob files by
  (shard, name), the upload directories with their data file, and the rows of the session table.
  Directories, registry and table are association lists, so that they can be listed. Every
  system call and store call that can fail is asked from the environment \<open>env\<close>; a failed call
  changes nothing. The three hash functions are the parameter \<open>hash_suite\<close>; the code relies on
  the lengths of their results only (\<open>sized_hashes\<close>). Operations are atomic, as the session and
  engine mutexes make them; what Go guards against a concurrent \<open>Close\<close> is a second phase
  (\<open>begin_register\<close>, \<open>resume_register\<close>) that tests the closed flag again. Two views are coarser than
  the source: \<open>ResumeSession\<close> is one step, though the source re-hashes the data file without
  the mutex of a session still open on it (its one production caller serializes the resumes of an
  upload), and \<open>os.RemoveAll\<close> removes a directory as a whole or not at all, though it may stop
  half way.
\<close>

section \<open>Digests\<close>

record hash_suite =
  raw_sha256 :: "bytes \<Rightarrow> bytes"
  raw_sha1 :: "bytes \<Rightarrow> bytes"
  raw_md5 :: "bytes \<Rightarrow> bytes"

definition sized_hashes :: "hash_suite \<Rightarrow> bool" where
  "sized_hashes H \<longleftrightarrow> (\<forall>b. length (raw_sha256 H b) = 32 \<and> length (raw_sha1 H b) = 20
     \<and> length (raw_md5 H b) = 16)"

definition hex_digit :: "nat \<Rightarrow> char" where
  "hex_digit n = (if n < 10 then char_of (48 + n) else char_of (87 + n))"

definition hex_encode :: "bytes \<Rightarrow> string" where
  "hex_encode bs = concat (map (\<lambda>c. [hex_digit (byte_of c div 16), hex_digit (byte_of c mod 16)]) bs)"

record digestSums =
  sum_sha256 :: string
  sum_sha1 :: string
  sum_md5 :: string

text \<open>The streaming hash states are determined by the bytes written to them so far.\<close>

type_synonym digesters = bytes

definition newDigesters :: digesters where "newDigesters = []"

definition digest_write :: "bytes \<Rightarrow> digesters \<Rightarrow> digesters" where
  "digest_write b d = d @ b"

definition sums :: "hash_suite \<Rightarrow> digesters \<Rightarrow> digestSums" where
  "sums H d = \<lparr>sum_sha256 = hex_encode (raw_sha256 H d), sum_sha1 = hex_encode (raw_sha1 H d),
     sum_md5 = hex_encode (raw_md5 H d)\<rparr>"

definition sha256HexLen :: nat where "sha256HexLen = 64"
definition sha1HexLen :: nat where "sha1HexLen = 40"
definition md5HexLen :: nat where "md5HexLen = 32"

definition lower_hex :: "char \<Rightarrow> bool" where
  "lower_hex c \<longleftrightarrow> is_digit c \<or> (97 \<le> byte_of c \<and> byte_of c \<le> 102)"

definition validSha256 :: "string \<Rightarrow> bool" where
  "validSha256 s \<longleftrightarrow> length s = sha256HexLen \<and> list_all lower_hex s"

text \<open>\<open>None\<close> is the error of a malformed digest.\<close>

definition normalizeHex :: "string \<Rightarrow> nat \<Rightarrow> string option" where
  "normalizeHex s want =
     (if s = [] then Some []
      else if length s \<noteq> want then None
      else let low = to_lower s in if list_all lower_hex low then Some low else None)"


section \<open>State\<close>

datatype storage_error =
  ErrEngineClosed | ErrSessionNotFound | ErrSessionPoisoned | ErrChecksumMismatch
| ErrBlobNotFound | ErrBlobCorrupt | ErrFinalized | ErrNilSession | ErrInvalidSha256
| ErrCanceled | ErrIO | ErrStore

record BlobRef =
  Sha256 :: string
  Sha1 :: string
  Md5 :: string
  Size :: nat

record sessionState =
  st_version :: nat
  st_id :: string
  st_created :: time
  st_received :: nat

record upload_row =
  u_state :: sessionState
  u_created :: string
  u_expires :: string

record os_file =
  f_data :: bytes
  f_mtime :: time

record uploadSession =
  s_id :: string
  s_state :: sessionState
  s_digests :: digesters
  s_done :: bool
  s_poisoned :: bool

record Options =
  o_ttl :: duration
  o_holdTTL :: duration
  o_sessions :: bool
  o_retry :: BusyRetryPolicy

record engine =
  e_opts :: Options
  e_closed :: bool
  e_sessions :: "(string \<times> nat) list"
  e_holds :: holdSet
  e_heap :: "nat \<Rightarrow> uploadSession option"
  e_next :: nat
  e_blobs :: "((string \<times> string) \<times> os_file) list"
  e_uploads :: "(string \<times> os_file option) list"
  e_rows :: "(string \<times> upload_row) list"

datatype io_call =
  IoMkdir | IoRemoveAll | IoOpenFile | IoStat | IoRead | IoSeek | IoSync | IoStatTarget
| IoMkdirShard | IoRename | IoSyncDir | IoRemove | IoReadDir
| RowCreate | RowSetState | RowGet | RowDelete | RowList

text \<open>
  The environment of a call: the clock, whether the context is cancelled at entry, the uuid the
  random source yields (\<open>None\<close>: it failed), which calls fail (by call and object), the outcomes
  of the retried row writes by attempt, and the context after each attempt.
\<close>

record env =
  n_now :: time
  n_ctx :: bool
  n_uuid :: "string option"
  n_fail :: "io_call \<Rightarrow> string \<Rightarrow> bool"
  n_row :: "io_call \<Rightarrow> string \<Rightarrow> nat \<Rightarrow> store_res"
  n_ctxAfter :: "nat \<Rightarrow> bool"

definition DefaultSessionTTL :: duration where "DefaultSessionTTL = 24 * hour"

definition session_ttl :: "Options \<Rightarrow> duration" where
  "session_ttl opts = (if o_ttl opts \<le> 0 then DefaultSessionTTL else o_ttl opts)"

definition isLiveSession :: "engine \<Rightarrow> string \<Rightarrow> bool" where
  "isLiveSession e sid \<longleftrightarrow> map_of (e_sessions e) sid \<noteq> None"


section \<open>The session table\<close>

definition us_get :: "string \<Rightarrow> engine \<Rightarrow> upload_row option" where
  "us_get sid e = map_of (e_rows e) sid"

definition us_create :: "string \<Rightarrow> upload_row \<Rightarrow> engine \<Rightarrow> engine" where
  "us_create sid row e = e\<lparr>e_rows := (sid, row) # e_rows e\<rparr>"

definition us_setState :: "string \<Rightarrow> sessionState \<Rightarrow> engine \<Rightarrow> engine" where
  "us_setState sid st e =
     (case us_get sid e of
        None \<Rightarrow> e
      | Some row \<Rightarrow> e\<lparr>e_rows := AList.update sid (row\<lparr>u_state := st\<rparr>) (e_rows e)\<rparr>)"

definition us_delete :: "string \<Rightarrow> engine \<Rightarrow> engine" where
  "us_delete sid e = e\<lparr>e_rows := AList.delete sid (e_rows e)\<rparr>"

text \<open>\<open>WHERE expires_at <= now ORDER BY expires_at, id\<close>, on the text of the column.\<close>

definition us_listExpired :: "string \<Rightarrow> engine \<Rightarrow> string list" where
  "us_listExpired now e =
     map snd (sort (map (\<lambda>(sid, row). (u_expires row, sid))
       (filter (\<lambda>(sid, row). u_expires row \<le> now) (e_rows e))))"

text \<open>
  The two row writes that ride the busy budget: \<open>Create\<close> fails on an existing key, \<open>SetState\<close> on
  a missing row; otherwise the environment decides each attempt.
\<close>

definition persist_create :: "env \<Rightarrow> string \<Rightarrow> upload_row \<Rightarrow> engine \<Rightarrow> store_res \<times> engine" where
  "persist_create n sid row e =
     (case RetryOnBusy (n_ctxAfter n) (o_retry (e_opts e))
            (\<lambda>k. if n_row n RowCreate sid k = StoreOk \<and> us_get sid e \<noteq> None then StoreErr
                 else n_row n RowCreate sid k) of
        (StoreOk, _) \<Rightarrow> (StoreOk, us_create sid row e)
      | (r, _) \<Rightarrow> (r, e))"

definition persistStateLocked :: "env \<Rightarrow> string \<Rightarrow> sessionState \<Rightarrow> engine \<Rightarrow> store_res \<times> engine" where
  "persistStateLocked n sid st e =
     (if \<not> o_sessions (e_opts e) then (StoreOk, e)
      else case RetryOnBusy (\<lambda>_. False) (o_retry (e_opts e))
            (\<lambda>k. if n_row n RowSetState sid k = StoreOk \<and> us_get sid e = None then StoreErr
                 else n_row n RowSetState sid k) of
        (StoreOk, _) \<Rightarrow> (StoreOk, us_setState sid st e)
      | (r, _) \<Rightarrow> (r, e))"


section \<open>Files\<close>

definition blobKey :: "string \<Rightarrow> string \<times> string" where
  "blobKey sha = (take 2 sha, sha)"

definition blobPath :: "string \<Rightarrow> (string \<times> string) option" where
  "blobPath sha = (if validSha256 sha then Some (blobKey sha) else None)"

definition blob_get :: "string \<Rightarrow> engine \<Rightarrow> os_file option" where
  "blob_get sha e = map_of (e_blobs e) (blobKey sha)"

definition data_file :: "string \<Rightarrow> engine \<Rightarrow> os_file option" where
  "data_file sid e = (case map_of (e_uploads e) sid of Some (Some f) \<Rightarrow> Some f | _ \<Rightarrow> None)"

definition mkdir_upload :: "string \<Rightarrow> engine \<Rightarrow> engine" where
  "mkdir_upload sid e =
     (if map_of (e_uploads e) sid = None then e\<lparr>e_uploads := AList.update sid None (e_uploads e)\<rparr> else e)"

definition put_data :: "string \<Rightarrow> os_file \<Rightarrow> engine \<Rightarrow> engine" where
  "put_data sid f e = e\<lparr>e_uploads := AList.update sid (Some f) (e_uploads e)\<rparr>"

definition remove_dir :: "env \<Rightarrow> string \<Rightarrow> engine \<Rightarrow> engine" where
  "remove_dir n sid e =
     (if n_fail n IoRemoveAll sid then e else e\<lparr>e_uploads := AList.delete sid (e_uploads e)\<rparr>)"

text \<open>A write through the session's descriptor: its position is the number of bytes received.\<close>

definition write_at :: "nat \<Rightarrow> bytes \<Rightarrow> bytes \<Rightarrow> bytes" where
  "write_at pos b c = take pos c @ replicate (pos - length c) (CHR 0x00) @ b @ drop (pos + length b) c"

definition file_write :: "time \<Rightarrow> string \<Rightarrow> nat \<Rightarrow> bytes \<Rightarrow> engine \<Rightarrow> engine" where
  "file_write now sid pos b e =
     (case data_file sid e of
        None \<Rightarrow> e
      | Some f \<Rightarrow> if b = [] then e else put_data sid \<lparr>f_data = write_at pos b (f_data f), f_mtime = now\<rparr> e)"

definition put_session :: "nat \<Rightarrow> uploadSession \<Rightarrow> engine \<Rightarrow> engine" where
  "put_session h s e = e\<lparr>e_heap := (e_heap e)(h \<mapsto> s)\<rparr>"


section \<open>Beginning a session\<close>

definition forgetSession :: "nat \<Rightarrow> string \<Rightarrow> engine \<Rightarrow> engine" where
  "forgetSession h sid e =
     (if map_of (e_sessions e) sid = Some h then e\<lparr>e_sessions := AList.delete sid (e_sessions e)\<rparr> else e)"

definition delete_row :: "env \<Rightarrow> string \<Rightarrow> engine \<Rightarrow> engine" where
  "delete_row n sid e =
     (if o_sessions (e_opts e) \<and> \<not> n_fail n RowDelete sid then us_delete sid e else e)"

definition register_session :: "uploadSession \<Rightarrow> engine \<Rightarrow> nat \<times> engine" where
  "register_session s e =
     (e_next e,
      e\<lparr>e_heap := (e_heap e)(e_next e \<mapsto> s), e_next := e_next e + 1,
        e_sessions := AList.update (s_id s) (e_next e) (e_sessions e)\<rparr>)"

definition begin_register :: "env \<Rightarrow> uploadSession \<Rightarrow> engine \<Rightarrow> (storage_error + nat) \<times> engine" where
  "begin_register n s e =
     (if e_closed e
      then (Inl ErrEngineClosed, remove_dir n (s_id s) (delete_row n (s_id s) e))
      else let (h, e') = register_session s e in (Inr h, e'))"

definition BeginSession :: "env \<Rightarrow> engine \<Rightarrow> (storage_error + nat) \<times> engine" where
  "BeginSession n e =
     (if n_ctx n then (Inl ErrCanceled, e)
      else if e_closed e then (Inl ErrEngineClosed, e)
      else case n_uuid n of
        None \<Rightarrow> (Inl ErrIO, e)
      | Some sid \<Rightarrow>
          if n_fail n IoMkdir sid then (Inl ErrIO, e)
          else
            let e1 = mkdir_upload sid e;
                st = \<lparr>st_version = 1, st_id = sid, st_created = n_now n, st_received = 0\<rparr>;
                row = \<lparr>u_state = st, u_created = format_rfc3339 (n_now n),
                       u_expires = format_rfc3339 (n_now n + session_ttl (e_opts e))\<rparr>;
                (r, e2) = (if o_sessions (e_opts e) then persist_create n sid row e1 else (StoreOk, e1))
            in if r \<noteq> StoreOk then (Inl ErrStore, remove_dir n sid e2)
               else if n_fail n IoOpenFile sid
               then (Inl ErrIO, remove_dir n sid (delete_row n sid e2))
               else begin_register n
                      \<lparr>s_id = sid, s_state = st, s_digests = newDigesters, s_done = False, s_poisoned = False\<rparr>
                      (put_data sid \<lparr>f_data = [], f_mtime = n_now n\<rparr> e2))"


section \<open>Appending\<close>

datatype read_end = ReadMore | ReadEOF | ReadErr

text \<open>
  One turn of the copy loop: whether the context is cancelled before the read, the bytes read,
  how the read ended, and after how many bytes the file write failed, if it did. The end of the
  list is an end of file.
\<close>

record read_ev =
  r_cancel :: bool
  r_data :: bytes
  r_end :: read_end
  r_short :: "nat option"

text \<open>
  The result: the bytes written to the file, the digest state (the file comes first in the
  multi-writer, the hashes are not reached when its write fails), and whether the copy succeeded.
\<close>

fun copyWithCtx :: "read_ev list \<Rightarrow> bytes \<Rightarrow> digesters \<Rightarrow> bytes \<times> digesters \<times> bool" where
  "copyWithCtx [] w d = (w, d, True)"
| "copyWithCtx (ev # evs) w d =
     (if r_cancel ev then (w, d, False)
      else if r_data ev \<noteq> [] \<and> r_short ev \<noteq> None
      then (w @ take (the (r_short ev)) (r_data ev), d, False)
      else case r_end ev of
             ReadMore \<Rightarrow> copyWithCtx evs (w @ r_data ev) (digest_write (r_data ev) d)
           | ReadEOF \<Rightarrow> (w @ r_data ev, digest_write (r_data ev) d, True)
           | ReadErr \<Rightarrow> (w @ r_data ev, digest_write (r_data ev) d, False))"

definition poison :: "uploadSession \<Rightarrow> uploadSession" where
  "poison s = s\<lparr>s_poisoned := True\<rparr>"

definition Append :: "env \<Rightarrow> nat \<Rightarrow> read_ev list \<Rightarrow> engine \<Rightarrow> (storage_error + nat) \<times> engine" where
  "Append n h r e =
     (case e_heap e h of
        None \<Rightarrow> (Inl ErrNilSession, e)
      | Some s \<Rightarrow>
          if s_done s then (Inl ErrFinalized, e)
          else if s_poisoned s then (Inl ErrSessionPoisoned, e)
          else if n_ctx n then (Inl ErrCanceled, put_session h (poison s) e)
          else
            let (written, d, ok) = copyWithCtx r [] (s_digests s);
                e1 = file_write (n_now n) (s_id s) (st_received (s_state s)) written e;
                s1 = s\<lparr>s_digests := d\<rparr>
            in if \<not> ok then (Inl ErrIO, put_session h (poison s1) e1)
               else
                 let st = (s_state s)\<lparr>st_received := st_received (s_state s) + length written\<rparr>;
                     s2 = s1\<lparr>s_state := st\<rparr>;
                     (res, e2) = persistStateLocked n (s_id s) st e1
                 in if res \<noteq> StoreOk then (Inl ErrStore, put_session h (poison s2) e2)
                    else (Inr (st_received st), put_session h s2 e2))"

definition Offset :: "nat \<Rightarrow> engine \<Rightarrow> nat" where
  "Offset h e = (case e_heap e h of None \<Rightarrow> 0 | Some s \<Rightarrow> st_received (s_state s))"


section \<open>Finishing\<close>

definition finishLocked :: "env \<Rightarrow> nat \<Rightarrow> uploadSession \<Rightarrow> engine \<Rightarrow> engine" where
  "finishLocked n h s e =
     forgetSession h (s_id s)
       (delete_row n (s_id s) (remove_dir n (s_id s) (put_session h (s\<lparr>s_done := True\<rparr>) e)))"

definition failLocked :: "env \<Rightarrow> nat \<Rightarrow> uploadSession \<Rightarrow> engine \<Rightarrow> engine" where
  "failLocked n h s e = finishLocked n h (s\<lparr>s_poisoned := True\<rparr>) e"

fun check_digests :: "(string \<times> string \<times> nat) list \<Rightarrow> bool" where
  "check_digests [] = True"
| "check_digests ((got, want, len) # cs) =
     (case normalizeHex want len of
        None \<Rightarrow> False
      | Some w \<Rightarrow> if w \<noteq> [] \<and> w \<noteq> got then False else check_digests cs)"

text \<open>
  The body of the per-checksum flight: stat, mkdir, rename, fsync of the shard. A flight that
  another caller leads has the same result and effect as this caller's own run of the body.
\<close>

definition publish :: "env \<Rightarrow> string \<Rightarrow> string \<Rightarrow> engine \<Rightarrow> bool \<times> engine" where
  "publish n sid sha e =
     (if n_fail n IoStatTarget sha then (False, e)
      else if blob_get sha e \<noteq> None then (True, e)
      else if n_fail n IoMkdirShard sha then (False, e)
      else case data_file sid e of
        None \<Rightarrow> (False, e)
      | Some f \<Rightarrow>
          if n_fail n IoRename sha then (False, e)
          else
            let e1 = e\<lparr>e_blobs := AList.update (blobKey sha) f (e_blobs e),
                       e_uploads := AList.update sid None (e_uploads e)\<rparr>
            in (\<not> n_fail n IoSyncDir sha, e1))"

definition hold_acquire :: "time \<Rightarrow> string \<Rightarrow> engine \<Rightarrow> engine" where
  "hold_acquire now sha e = e\<lparr>e_holds := acquire now sha (e_holds e)\<rparr>"

definition ReleaseGCHold :: "string \<Rightarrow> engine \<Rightarrow> engine" where
  "ReleaseGCHold sha e = e\<lparr>e_holds := release sha (e_holds e)\<rparr>"

definition Commit :: "hash_suite \<Rightarrow> env \<Rightarrow> nat \<Rightarrow> BlobRef \<Rightarrow> engine \<Rightarrow> (storage_error + BlobRef) \<times> engine" where
  "Commit H n h expect e =
     (case e_heap e h of
        None \<Rightarrow> (Inl ErrNilSession, e)
      | Some s \<Rightarrow>
          if s_done s then (Inl ErrFinalized, e)
          else if s_poisoned s then (Inl ErrSessionPoisoned, failLocked n h s e)
          else if n_ctx n then (Inl ErrCanceled, failLocked n h s e)
          else
            let dg = sums H (s_digests s);
                actual = \<lparr>Sha256 = sum_sha256 dg, Sha1 = sum_sha1 dg, Md5 = sum_md5 dg,
                          Size = st_received (s_state s)\<rparr>;
                sha = Sha256 actual
            in if \<not> check_digests
                   [(Sha256 actual, Sha256 expect, sha256HexLen),
                    (Sha1 actual, Sha1 expect, sha1HexLen),
                    (Md5 actual, Md5 expect, md5HexLen)]
               then (Inl ErrChecksumMismatch, failLocked n h s e)
               else
                 let e1 = hold_acquire (n_now n) sha e
                 in if n_fail n IoSync (s_id s)
                    then (Inl ErrIO, ReleaseGCHold sha (failLocked n h s e1))
                    else if blobPath sha = None
                    then (Inl ErrInvalidSha256, ReleaseGCHold sha (failLocked n h s e1))
                    else case publish n (s_id s) sha e1 of
                      (False, e2) \<Rightarrow> (Inl ErrIO, ReleaseGCHold sha (failLocked n h s e2))
                    | (True, e2) \<Rightarrow> (Inr actual, finishLocked n h s e2))"

definition Abort :: "env \<Rightarrow> nat \<Rightarrow> engine \<Rightarrow> engine" where
  "Abort n h e =
     (case e_heap e h of
        None \<Rightarrow> e
      | Some s \<Rightarrow> if s_done s then e else finishLocked n h s e)"

definition detach :: "nat \<Rightarrow> engine \<Rightarrow> engine" where
  "detach h e =
     (case e_heap e h of
        None \<Rightarrow> e
      | Some s \<Rightarrow> if s_done s then e else put_session h (s\<lparr>s_done := True\<rparr>) e)"


section \<open>Resuming, closing, opening\<close>

definition sessionRowExpired :: "upload_row option \<Rightarrow> time \<Rightarrow> bool" where
  "sessionRowExpired row now =
     (case row of
        None \<Rightarrow> True
      | Some r \<Rightarrow>
          if u_expires r = [] then True
          else case parse_rfc3339 (u_expires r) of None \<Rightarrow> True | Some t \<Rightarrow> \<not> now < t)"

definition resume_register :: "uploadSession \<Rightarrow> engine \<Rightarrow> (storage_error + nat) \<times> engine" where
  "resume_register s e =
     (if e_closed e then (Inl ErrEngineClosed, e)
      else
        let old = map_of (e_sessions e) (s_id s);
            (h, e1) = register_session s e
        in (Inr h, case old of None \<Rightarrow> e1 | Some prev \<Rightarrow> detach prev e1))"

definition ResumeSession :: "env \<Rightarrow> string \<Rightarrow> engine \<Rightarrow> (storage_error + nat) \<times> engine" where
  "ResumeSession n sid e =
     (if n_ctx n then (Inl ErrCanceled, e)
      else if e_closed e then (Inl ErrEngineClosed, e)
      else if trim_space sid = [] then (Inl ErrSessionNotFound, e)
      else if \<not> o_sessions (e_opts e) then (Inl ErrSessionNotFound, e)
      else if n_fail n RowGet sid then (Inl ErrStore, e)
      else case us_get sid e of
        None \<Rightarrow> (Inl ErrSessionNotFound, e)
      | Some row \<Rightarrow>
          if sessionRowExpired (Some row) (n_now n) then (Inl ErrSessionNotFound, e)
          else if map_of (e_uploads e) sid = None \<or> n_fail n IoOpenFile sid then (Inl ErrIO, e)
          else
            let f = (case data_file sid e of Some f \<Rightarrow> f | None \<Rightarrow> \<lparr>f_data = [], f_mtime = n_now n\<rparr>);
                e1 = (if data_file sid e = None then put_data sid f e else e)
            in if n_fail n IoStat sid then (Inl ErrIO, e1)
               else if length (f_data f) > 0 \<and> n_fail n IoRead sid then (Inl ErrIO, e1)
               else
                 let created = (if u_created row = [] then n_now n
                                else case parse_rfc3339 (u_created row) of Some t \<Rightarrow> t | None \<Rightarrow> n_now n);
                     st = \<lparr>st_version = 1, st_id = sid, st_created = created,
                           st_received = length (f_data f)\<rparr>
                 in if n_fail n IoSeek sid then (Inl ErrIO, e1)
                    else resume_register
                           \<lparr>s_id = sid, s_state = st, s_digests = digest_write (f_data f) newDigesters,
                            s_done = False, s_poisoned = False\<rparr> e1)"

definition Close :: "engine \<Rightarrow> engine" where
  "Close e =
     (if e_closed e then e
      else fold (\<lambda>(sid, h). detach h) (e_sessions e) (e\<lparr>e_closed := True, e_sessions := []\<rparr>))"

text \<open>\<open>Open\<close> and \<open>Stat\<close> read a blob file; both keep serving after \<open>Close\<close>.\<close>

definition Open :: "env \<Rightarrow> string \<Rightarrow> engine \<Rightarrow> storage_error + (bytes \<times> BlobRef)" where
  "Open n sha e =
     (if n_ctx n then Inl ErrCanceled
      else case blobPath sha of
        None \<Rightarrow> Inl ErrInvalidSha256
      | Some _ \<Rightarrow>
          if n_fail n IoOpenFile sha then Inl ErrIO
          else case blob_get sha e of
            None \<Rightarrow> Inl ErrBlobNotFound
          | Some f \<Rightarrow>
              if n_fail n IoStat sha then Inl ErrIO
              else Inr (f_data f, \<lparr>Sha256 = sha, Sha1 = [], Md5 = [], Size = length (f_data f)\<rparr>))"

definition Stat :: "hash_suite \<Rightarrow> env \<Rightarrow> string \<Rightarrow> engine \<Rightarrow> storage_error + BlobRef" where
  "Stat H n sha e =
     (if n_ctx n then Inl ErrCanceled
      else case blobPath sha of
        None \<Rightarrow> Inl ErrInvalidSha256
      | Some _ \<Rightarrow>
          if n_fail n IoOpenFile sha then Inl ErrIO
          else case blob_get sha e of
            None \<Rightarrow> Inl ErrBlobNotFound
          | Some f \<Rightarrow>
              if n_fail n IoRead sha then Inl ErrIO
              else
                let d = sums H (digest_write (f_data f) newDigesters)
                in if sum_sha256 d \<noteq> sha then Inl ErrBlobCorrupt
                   else Inr \<lparr>Sha256 = sum_sha256 d, Sha1 = sum_sha1 d, Md5 = sum_md5 d,
                             Size = length (f_data f)\<rparr>)"

definition Delete :: "env \<Rightarrow> string \<Rightarrow> engine \<Rightarrow> (storage_error + unit) \<times> engine" where
  "Delete n sha e =
     (if n_ctx n then (Inl ErrCanceled, e)
      else if e_closed e then (Inl ErrEngineClosed, e)
      else case blobPath sha of
        None \<Rightarrow> (Inl ErrInvalidSha256, e)
      | Some p \<Rightarrow>
          if n_fail n IoRemove sha then (Inl ErrIO, e)
          else if blob_get sha e = None then (Inl ErrBlobNotFound, e)
          else
            let e1 = e\<lparr>e_blobs := AList.delete p (e_blobs e)\<rparr>
            in (if n_fail n IoSyncDir sha then Inl ErrIO else Inr (), e1))"


section \<open>Sweeping expired sessions\<close>

fun sweep_orphans :: "env \<Rightarrow> string list \<Rightarrow> bool \<Rightarrow> engine \<Rightarrow> bool \<times> engine" where
  "sweep_orphans n [] err e = (err, e)"
| "sweep_orphans n (sid # ids) err e =
     (if isLiveSession e sid then sweep_orphans n ids err e
      else if o_sessions (e_opts e) \<and> n_fail n RowGet sid then sweep_orphans n ids True e
      else if o_sessions (e_opts e) \<and> us_get sid e \<noteq> None then sweep_orphans n ids err e
      else sweep_orphans n ids (err \<or> n_fail n IoRemoveAll sid) (remove_dir n sid e))"

text \<open>Listed entries are the upload directories in name order; plain files are skipped.\<close>

definition sweepOrphanDirs :: "env \<Rightarrow> engine \<Rightarrow> bool \<times> engine" where
  "sweepOrphanDirs n e =
     (if n_fail n IoReadDir [] then (True, e)
      else sweep_orphans n (sort (map fst (e_uploads e))) False e)"

text \<open>
  The loop over the expired rows, with \<open>firstErr\<close> as a flag: only the first error skips the rest
  of its iteration.
\<close>

fun sweep_rows :: "env \<Rightarrow> string list \<Rightarrow> bool \<Rightarrow> nat \<Rightarrow> engine \<Rightarrow> bool \<times> nat \<times> engine" where
  "sweep_rows n [] err k e = (err, k, e)"
| "sweep_rows n (sid # ids) err k e =
     (if isLiveSession e sid then sweep_rows n ids err k e
      else
        let e1 = remove_dir n sid e
        in if n_fail n IoRemoveAll sid \<and> \<not> err then sweep_rows n ids True k e1
           else
             let bad = n_fail n RowDelete sid \<or> us_get sid e1 = None;
                 e2 = (if bad then e1 else us_delete sid e1)
             in if bad \<and> \<not> err then sweep_rows n ids True k e2
                else sweep_rows n ids err (k + 1) e2)"

definition sweepSessions :: "env \<Rightarrow> time \<Rightarrow> engine \<Rightarrow> bool \<times> nat \<times> engine" where
  "sweepSessions n now e =
     (if o_sessions (e_opts e) then
        if n_fail n RowList [] then (True, 0, e)
        else
          let (err, k, e1) = sweep_rows n (us_listExpired (format_rfc3339 now) e) False 0 e;
              (oerr, e2) = sweepOrphanDirs n e1
          in (err \<or> oerr, k, e2)
      else let (oerr, e2) = sweepOrphanDirs n e in (oerr, 0, e2))"

definition SweepExpiredSessions :: "env \<Rightarrow> engine \<Rightarrow> (storage_error option \<times> nat) \<times> engine" where
  "SweepExpiredSessions n e =
     (if n_ctx n then ((Some ErrCanceled, 0), e)
      else let (err, k, e1) = sweepSessions n (n_now n) e
           in ((if err then Some ErrIO else None, k), e1))"

text \<open>
  Opening a store over the disk another engine left: the in-memory state starts empty, then the
  sweep runs. Only the disk part of \<open>disk\<close> is used.
\<close>

definition fresh_engine :: "Options \<Rightarrow> engine \<Rightarrow> engine" where
  "fresh_engine opts disk =
     disk\<lparr>e_opts := opts, e_closed := False, e_sessions := [], e_holds := newHoldSet (o_holdTTL opts),
          e_heap := (\<lambda>_. None), e_next := 0\<rparr>"

definition OpenEngine :: "env \<Rightarrow> string \<Rightarrow> Options \<Rightarrow> engine \<Rightarrow> (storage_error + unit) \<times> engine" where
  "OpenEngine n root opts disk =
     (if root = [] then (Inl ErrIO, disk)
      else if n_fail n IoMkdir root then (Inl ErrIO, disk)
      else
        let (err, k, e) = sweepSessions n (n_now n) (fresh_engine opts disk)
        in (if err then Inl ErrIO else Inr (), e))"

end
