(* ===== verification/Storage_Sessions.thy ===== *)
theory Storage_Sessions
  imports Storage_Engine
begin

text \<open>
  Correctness of the storage engine: the invariant that every published blob hashes to its name
  and that every usable session's digest state is the content of its data file, kept by every
  operation under every pattern of I/O failures; what a commit does on success and on each
  failure; that a session survives a restart; and what the expiry sweep may remove.
\<close>

section \<open>Digests are well formed\<close>

lemma hex_digit_lower: "n < 16 \<Longrightarrow> lower_hex (hex_digit n)"
  by (auto simp: hex_digit_def lower_hex_def is_digit_def byte_of_def)

lemma length_hex_encode [simp]: "length (hex_encode bs) = 2 * length bs"
  by (induction bs) (auto simp: hex_encode_def)

lemma byte_of_bounds: "byte_of c div 16 < 16" "byte_of c mod 16 < 16"
  by (auto simp: byte_of_def less_mult_imp_div_less)

lemma hex_encode_lower: "list_all lower_hex (hex_encode bs)"
  by (induction bs) (auto simp: hex_encode_def hex_digit_lower byte_of_bounds)

lemma sums_valid: "sized_hashes H \<Longrightarrow> validSha256 (sum_sha256 (sums H d))"
  by (simp add: sums_def validSha256_def sha256HexLen_def sized_hashes_def hex_encode_lower)

lemma write_at_end [simp]: "write_at (length c) b c = c @ b"
  by (simp add: write_at_def)


section \<open>The invariant\<close>

definition blobs_ok :: "hash_suite \<Rightarrow> engine \<Rightarrow> bool" where
  "blobs_ok H e \<longleftrightarrow>
     (\<forall>sha f. blob_get sha e = Some f \<longrightarrow> validSha256 sha \<longrightarrow> sum_sha256 (sums H (f_data f)) = sha)"

definition session_ok :: "engine \<Rightarrow> nat \<Rightarrow> uploadSession \<Rightarrow> bool" where
  "session_ok e h s \<longleftrightarrow>
     map_of (e_sessions e) (s_id s) = Some h \<and>
     (\<not> s_poisoned s \<longrightarrow>
        (\<exists>f. data_file (s_id s) e = Some f \<and> f_data f = s_digests s) \<and>
        st_received (s_state s) = length (s_digests s))"

text \<open>Sessions are in order, except possibly those with a handle in \<open>X\<close>.\<close>

definition sessions_ok :: "nat set \<Rightarrow> engine \<Rightarrow> bool" where
  "sessions_ok X e \<longleftrightarrow>
     (\<forall>h s. e_heap e h = Some s \<longrightarrow> h < e_next e) \<and>
     (\<forall>sid h. map_of (e_sessions e) sid = Some h \<longrightarrow> h < e_next e) \<and>
     (\<forall>h s. e_heap e h = Some s \<longrightarrow> h \<notin> X \<longrightarrow> \<not> s_done s \<longrightarrow> session_ok e h s)"

definition engine_inv :: "hash_suite \<Rightarrow> engine \<Rightarrow> bool" where
  "engine_inv H e \<longleftrightarrow> blobs_ok H e \<and> sessions_ok {} e"

lemmas file_defs = mkdir_upload_def put_data_def remove_dir_def file_write_def put_session_def
  us_create_def us_setState_def us_delete_def delete_row_def hold_acquire_def ReleaseGCHold_def
  forgetSession_def

named_theorems eng_simps \<open>the fields of the engine after each helper operation\<close>

lemma helper_blobs [eng_simps]:
  "e_blobs (mkdir_upload sid e) = e_blobs e" "e_blobs (put_data sid f e) = e_blobs e"
  "e_blobs (remove_dir n sid e) = e_blobs e" "e_blobs (file_write t sid p b e) = e_blobs e"
  "e_blobs (put_session h s e) = e_blobs e" "e_blobs (us_create sid row e) = e_blobs e"
  "e_blobs (us_setState sid st e) = e_blobs e" "e_blobs (us_delete sid e) = e_blobs e"
  "e_blobs (delete_row n sid e) = e_blobs e" "e_blobs (hold_acquire t sha e) = e_blobs e"
  "e_blobs (ReleaseGCHold sha e) = e_blobs e" "e_blobs (forgetSession h sid e) = e_blobs e"
  by (simp_all add: file_defs split: option.splits)

lemma helper_heap [eng_simps]:
  "e_heap (mkdir_upload sid e) = e_heap e" "e_heap (put_data sid f e) = e_heap e"
  "e_heap (remove_dir n sid e) = e_heap e" "e_heap (file_write t sid p b e) = e_heap e"
  "e_heap (put_session h s e) = (e_heap e)(h \<mapsto> s)" "e_heap (us_create sid row e) = e_heap e"
  "e_heap (us_setState sid st e) = e_heap e" "e_heap (us_delete sid e) = e_heap e"
  "e_heap (delete_row n sid e) = e_heap e" "e_heap (hold_acquire t sha e) = e_heap e"
  "e_heap (ReleaseGCHold sha e) = e_heap e" "e_heap (forgetSession h sid e) = e_heap e"
  by (simp_all add: file_defs split: option.splits)

lemma helper_next [eng_simps]:
  "e_next (mkdir_upload sid e) = e_next e" "e_next (put_data sid f e) = e_next e"
  "e_next (remove_dir n sid e) = e_next e" "e_next (file_write t sid p b e) = e_next e"
  "e_next (put_session h s e) = e_next e" "e_next (us_create sid row e) = e_next e"
  "e_next (us_setState sid st e) = e_next e" "e_next (us_delete sid e) = e_next e"
  "e_next (delete_row n sid e) = e_next e" "e_next (hold_acquire t sha e) = e_next e"
  "e_next (ReleaseGCHold sha e) = e_next e" "e_next (forgetSession h sid e) = e_next e"
  by (simp_all add: file_defs split: option.splits)

lemma helper_sessions [eng_simps]:
  "e_sessions (mkdir_upload sid e) = e_sessions e" "e_sessions (put_data sid f e) = e_sessions e"
  "e_sessions (remove_dir n sid e) = e_sessions e" "e_sessions (file_write t sid p b e) = e_sessions e"
  "e_sessions (put_session h s e) = e_sessions e" "e_sessions (us_create sid row e) = e_sessions e"
  "e_sessions (us_setState sid st e) = e_sessions e" "e_sessions (us_delete sid e) = e_sessions e"
  "e_sessions (delete_row n sid e) = e_sessions e" "e_sessions (hold_acquire t sha e) = e_sessions e"
  "e_sessions (ReleaseGCHold sha e) = e_sessions e"
  by (simp_all add: file_defs split: option.splits)

lemma helper_uploads [eng_simps]:
  "e_uploads (put_session h s e) = e_uploads e" "e_uploads (us_create sid row e) = e_uploads e"
  "e_uploads (us_setState sid st e) = e_uploads e" "e_uploads (us_delete sid e) = e_uploads e"
  "e_uploads (delete_row n sid e) = e_uploads e" "e_uploads (hold_acquire t sha e) = e_uploads e"
  "e_uploads (ReleaseGCHold sha e) = e_uploads e" "e_uploads (forgetSession h sid e) = e_uploads e"
  by (simp_all add: file_defs split: option.splits)

lemma helper_holds [eng_simps]:
  "e_holds (mkdir_upload sid e) = e_holds e" "e_holds (put_data sid f e) = e_holds e"
  "e_holds (remove_dir n sid e) = e_holds e" "e_holds (file_write t sid p b e) = e_holds e"
  "e_holds (put_session h s e) = e_holds e" "e_holds (us_create sid row e) = e_holds e"
  "e_holds (us_setState sid st e) = e_holds e" "e_holds (us_delete sid e) = e_holds e"
  "e_holds (delete_row n sid e) = e_holds e" "e_holds (forgetSession h sid e) = e_holds e"
  "e_holds (hold_acquire t sha e) = acquire t sha (e_holds e)"
  "e_holds (ReleaseGCHold sha e) = release sha (e_holds e)"
  by (simp_all add: file_defs split: option.splits)

lemma helper_data_file [eng_simps]:
  "data_file i (mkdir_upload sid e) = data_file i e"
  "data_file i (put_data sid f e) = (if i = sid then Some f else data_file i e)"
  "i \<noteq> sid \<Longrightarrow> data_file i (remove_dir n sid e) = data_file i e"
  "i \<noteq> sid \<Longrightarrow> data_file i (file_write t sid p b e) = data_file i e"
  by (auto simp: data_file_def file_defs update_conv' delete_conv' split: option.splits)

lemma data_file_cong: "e_uploads e = e_uploads e' \<Longrightarrow> data_file i e = data_file i e'"
  by (simp add: data_file_def)

lemma blob_get_cong: "e_blobs e = e_blobs e' \<Longrightarrow> blob_get sha e = blob_get sha e'"
  by (simp add: blob_get_def)

lemma inv_frame:
  assumes "e_blobs e' = e_blobs e" "e_heap e' = e_heap e" "e_next e' = e_next e"
    "e_sessions e' = e_sessions e" "\<And>i. isLiveSession e i \<Longrightarrow> data_file i e' = data_file i e"
    "engine_inv H e"
  shows "engine_inv H e'"
proof -
  have "session_ok e' h s" if "session_ok e h s" for h s
    using that assms(4,5) by (auto simp: session_ok_def isLiveSession_def)
  with assms show ?thesis
    by (auto simp: engine_inv_def blobs_ok_def sessions_ok_def blob_get_def)
qed

lemma session_okD: "sessions_ok X e \<Longrightarrow> e_heap e h = Some s \<Longrightarrow> h \<notin> X \<Longrightarrow> \<not> s_done s \<Longrightarrow> session_ok e h s"
  by (simp add: sessions_ok_def)

text \<open>No usable session other than \<open>h\<close> has the id \<open>sid\<close>.\<close>

definition owns_id :: "engine \<Rightarrow> nat \<Rightarrow> string \<Rightarrow> bool" where
  "owns_id e h sid \<longleftrightarrow> (\<forall>h' s'. e_heap e h' = Some s' \<longrightarrow> h' \<noteq> h \<longrightarrow> \<not> s_done s' \<longrightarrow> s_id s' \<noteq> sid)"

lemma not_done_owns:
  assumes "sessions_ok {} e" "e_heap e h = Some s" "\<not> s_done s"
  shows "owns_id e h (s_id s)"
proof -
  have reg: "map_of (e_sessions e) (s_id s) = Some h"
    using session_okD [OF assms(1,2)] assms(3) by (simp add: session_ok_def)
  show ?thesis unfolding owns_id_def
  proof (intro allI impI notI)
    fix h' s' assume h': "e_heap e h' = Some s'" "h' \<noteq> h" "\<not> s_done s'" "s_id s' = s_id s"
    have "map_of (e_sessions e) (s_id s') = Some h'"
      using session_okD [OF assms(1) h'(1)] h'(3) by (simp add: session_ok_def)
    with reg h' show False by simp
  qed
qed

lemma forgetSession_other:
  "map_of (e_sessions e) i = Some h' \<Longrightarrow> h' \<noteq> h
    \<Longrightarrow> map_of (e_sessions (forgetSession h sid e)) i = Some h'"
  by (auto simp: forgetSession_def delete_conv')

lemma forgetSession_sub:
  "map_of (e_sessions (forgetSession h sid e)) i = Some h' \<Longrightarrow> map_of (e_sessions e) i = Some h'"
  by (auto simp: forgetSession_def delete_conv' split: if_splits)

lemma finish_fields:
  "e_heap (finishLocked n h s e) = (e_heap e)(h \<mapsto> s\<lparr>s_done := True\<rparr>)"
  "e_next (finishLocked n h s e) = e_next e"
  "e_blobs (finishLocked n h s e) = e_blobs e"
  "e_holds (finishLocked n h s e) = e_holds e"
  "i \<noteq> s_id s \<Longrightarrow> data_file i (finishLocked n h s e) = data_file i e"
  unfolding finishLocked_def
  by (simp_all add: eng_simps)
    (simp add: data_file_cong [of "forgetSession _ _ _"] data_file_cong [of "delete_row _ _ _"]
      data_file_cong [of "put_session _ _ _" e] eng_simps)

lemma finish_sessions:
  assumes "sessions_ok {h} e" "owns_id e h (s_id s)" "h < e_next e"
  shows "sessions_ok {} (finishLocked n h s e)"
  unfolding sessions_ok_def
proof (intro conjI allI impI)
  show "h' < e_next (finishLocked n h s e)" if "e_heap (finishLocked n h s e) h' = Some s'" for h' s'
    using that assms(1,3) by (auto simp: finish_fields sessions_ok_def split: if_splits)
  have sub: "map_of (e_sessions e) sid = Some h'"
    if "map_of (e_sessions (finishLocked n h s e)) sid = Some h'" for sid h'
    using forgetSession_sub [OF that [unfolded finishLocked_def]] by (simp add: eng_simps)
  show "h' < e_next (finishLocked n h s e)"
    if "map_of (e_sessions (finishLocked n h s e)) sid = Some h'" for sid h'
    using sub [OF that] assms(1) by (auto simp: finish_fields sessions_ok_def)
  fix h' s'
  assume h': "e_heap (finishLocked n h s e) h' = Some s'" "\<not> s_done s'"
  then have old: "h' \<noteq> h" "e_heap e h' = Some s'" by (auto simp: finish_fields split: if_splits)
  have ok: "session_ok e h' s'" using session_okD [OF assms(1) old(2)] old(1) h'(2) by simp
  have "s_id s' \<noteq> s_id s" using assms(2) old h'(2) by (auto simp: owns_id_def)
  then have "data_file (s_id s') (finishLocked n h s e) = data_file (s_id s') e"
    by (rule finish_fields(5))
  moreover have "map_of (e_sessions (finishLocked n h s e)) (s_id s') = Some h'"
    unfolding finishLocked_def
    by (rule forgetSession_other) (use ok old in \<open>simp_all add: session_ok_def eng_simps\<close>)
  ultimately show "session_ok (finishLocked n h s e) h' s'" using ok by (simp add: session_ok_def)
qed


section \<open>Every operation keeps the invariant\<close>

lemma sessions_ok_weaken: "sessions_ok {} e \<Longrightarrow> sessions_ok X e"
  by (simp add: sessions_ok_def)

lemma finish_blobs_ok [simp]: "blobs_ok H (finishLocked n h s e) = blobs_ok H e"
  by (simp add: blobs_ok_def blob_get_def finish_fields)

lemma finish_inv:
  assumes "engine_inv H e" "e_heap e h = Some s" "\<not> s_done s" "s_id s' = s_id s"
  shows "engine_inv H (finishLocked n h s' e)"
proof -
  have ok: "sessions_ok {} e" using assms(1) by (simp add: engine_inv_def)
  have "h < e_next e" using ok assms(2) by (simp add: sessions_ok_def)
  moreover have "owns_id e h (s_id s')" using not_done_owns [OF ok assms(2,3)] assms(4) by simp
  ultimately have "sessions_ok {} (finishLocked n h s' e)"
    using finish_sessions sessions_ok_weaken [OF ok] by blast
  with assms(1) show ?thesis by (simp add: engine_inv_def)
qed

lemma fail_inv:
  "engine_inv H e \<Longrightarrow> e_heap e h = Some s \<Longrightarrow> \<not> s_done s \<Longrightarrow> engine_inv H (failLocked n h s e)"
  unfolding failLocked_def by (rule finish_inv) simp_all

lemma hold_inv [simp]:
  "engine_inv H (hold_acquire t sha e) = engine_inv H e"
  "engine_inv H (ReleaseGCHold sha e) = engine_inv H e"
proof -
  have "engine_inv H (e\<lparr>e_holds := x\<rparr>) = engine_inv H e" for x
    by (simp add: engine_inv_def blobs_ok_def sessions_ok_def session_ok_def blob_get_def data_file_def)
  then show "engine_inv H (hold_acquire t sha e) = engine_inv H e"
    "engine_inv H (ReleaseGCHold sha e) = engine_inv H e"
    by (simp_all add: hold_acquire_def ReleaseGCHold_def)
qed

lemma publish_result:
  "publish n sid sha e = (ok, e') \<Longrightarrow>
     e' = e \<and> (ok \<longrightarrow> blob_get sha e \<noteq> None)
   \<or> (\<exists>f. data_file sid e = Some f \<and> blob_get sha e = None
        \<and> e' = e\<lparr>e_blobs := AList.update (blobKey sha) f (e_blobs e),
                  e_uploads := AList.update sid None (e_uploads e)\<rparr>)"
  by (simp add: publish_def Let_def split: if_splits option.splits)

lemma publish_inv:
  assumes "engine_inv H e" "e_heap e h = Some s" "\<not> s_done s" "\<not> s_poisoned s"
    and "publish n (s_id s) (sum_sha256 (sums H (s_digests s))) e = (ok, e')"
  shows "blobs_ok H e' \<and> sessions_ok {h} e' \<and> owns_id e' h (s_id s) \<and> e_heap e' = e_heap e
    \<and> e_next e' = e_next e"
proof (cases "e' = e")
  case True
  with assms(1-3) not_done_owns [of e h s] show ?thesis
    by (simp add: engine_inv_def sessions_ok_weaken)
next
  case False
  let ?sha = "sum_sha256 (sums H (s_digests s))"
  from False publish_result [OF assms(5)] obtain f where renamed: "data_file (s_id s) e = Some f"
      "blob_get ?sha e = None"
      "e' = e\<lparr>e_blobs := AList.update (blobKey ?sha) f (e_blobs e),
              e_uploads := AList.update (s_id s) None (e_uploads e)\<rparr>" by blast
  have ok: "sessions_ok {} e" using assms(1) by (simp add: engine_inv_def)
  have "session_ok e h s" using session_okD [OF ok assms(2)] assms(3) by simp
  with assms(4) renamed(1) have f: "f_data f = s_digests s" by (simp add: session_ok_def)
  have blob: "blob_get x e' = (if x = ?sha then Some f else blob_get x e)" for x
    by (simp add: renamed(3) blob_get_def update_conv' blobKey_def)
  have "blobs_ok H e'" using assms(1) f unfolding blobs_ok_def engine_inv_def blob by auto
  moreover have own: "owns_id e h (s_id s)" by (rule not_done_owns [OF ok assms(2,3)])
  moreover have "sessions_ok {h} e'"
    unfolding sessions_ok_def
  proof (intro conjI allI impI)
    fix h' s' assume h': "e_heap e' h' = Some s'" "h' \<notin> {h}" "\<not> s_done s'"
    then have "e_heap e h' = Some s'" by (simp add: renamed(3))
    with h' own have "s_id s' \<noteq> s_id s" "session_ok e h' s'"
      using session_okD [OF ok, of h' s'] by (auto simp: owns_id_def)
    then show "session_ok e' h' s'"
      by (simp add: session_ok_def renamed(3) data_file_def update_conv')
  qed (use ok in \<open>auto simp: renamed(3) sessions_ok_def\<close>)
  ultimately show ?thesis by (simp add: renamed(3) owns_id_def)
qed

lemma publish_finish_inv:
  assumes "engine_inv H e" "e_heap e h = Some s" "\<not> s_done s" "\<not> s_poisoned s"
    and "publish n (s_id s) (sum_sha256 (sums H (s_digests s))) e = (ok, e')" "s_id s' = s_id s"
  shows "engine_inv H (finishLocked n h s' e')"
proof -
  have "h < e_next e" using assms(1,2) by (auto simp: engine_inv_def sessions_ok_def)
  with publish_inv [OF assms(1-5)] assms(6) finish_sessions [of h e' s' n] show ?thesis
    by (simp add: engine_inv_def)
qed

lemma Commit_inv:
  assumes "engine_inv H e" shows "engine_inv H (snd (Commit H n h expect e))"
proof (cases "e_heap e h")
  case None
  with assms show ?thesis by (simp add: Commit_def)
next
  case (Some s)
  consider "s_done s" | "\<not> s_done s" "s_poisoned s \<or> n_ctx n"
    | "\<not> s_done s" "\<not> s_poisoned s" "\<not> n_ctx n" by blast
  then show ?thesis
  proof cases
    case 1
    with Some assms show ?thesis by (simp add: Commit_def)
  next
    case 2
    with Some assms show ?thesis by (auto simp: Commit_def fail_inv)
  next
    case 3
    define sha where "sha = sum_sha256 (sums H (s_digests s))"
    let ?e1 = "hold_acquire (n_now n) sha e"
    have inv: "engine_inv H ?e1" using assms by simp
    have heap: "e_heap ?e1 h = Some s" using Some by (simp add: eng_simps)
    obtain ok e2 where pub: "publish n (s_id s) sha ?e1 = (ok, e2)" by fastforce
    have pub': "publish n (s_id s) (sum_sha256 (sums H (s_digests s))) ?e1 = (ok, e2)"
      using pub by (simp only: sha_def)
    note fin = publish_finish_inv [OF inv heap 3(1,2) pub']
    have "engine_inv H (failLocked n h s e2)" "engine_inv H (finishLocked n h s e2)"
      unfolding failLocked_def by (rule fin; simp)+
    with 3 Some assms inv heap pub show ?thesis
      by (simp add: Commit_def Let_def sha_def [symmetric] fail_inv split: bool.splits)
  qed
qed

lemma Abort_inv: "engine_inv H e \<Longrightarrow> engine_inv H (Abort n h e)"
  by (auto simp: Abort_def finish_inv split: option.splits)


text \<open>An operation on the session \<open>h\<close> that touches only its object and its data file.\<close>

lemma session_update_inv:
  assumes "engine_inv H e" "e_heap e h = Some s" "\<not> s_done s"
    and e': "e_heap e' = (e_heap e)(h \<mapsto> s')" "e_next e' = e_next e" "e_sessions e' = e_sessions e"
      "e_blobs e' = e_blobs e" "\<And>i. i \<noteq> s_id s \<Longrightarrow> data_file i e' = data_file i e"
    and "s_done s' \<or> session_ok e' h s'"
  shows "engine_inv H e'"
proof -
  have ok: "sessions_ok {} e" and blobs: "blobs_ok H e" using assms(1) by (simp_all add: engine_inv_def)
  have own: "owns_id e h (s_id s)" by (rule not_done_owns [OF ok assms(2,3)])
  have "session_ok e' k t" if "e_heap e' k = Some t" "\<not> s_done t" for k t
  proof (cases "k = h")
    case True
    with that e'(1) assms(9) show ?thesis by auto
  next
    case False
    with that e'(1) have k: "e_heap e k = Some t" by simp
    with own False that(2) have "s_id t \<noteq> s_id s" by (auto simp: owns_id_def)
    with session_okD [OF ok k] that(2) e'(3,5) show ?thesis by (simp add: session_ok_def)
  qed
  moreover have "h < e_next e" using ok assms(2) by (simp add: sessions_ok_def)
  moreover have "e_heap e' k = Some t \<Longrightarrow> k < e_next e" for k t
    using ok e'(1) \<open>h < e_next e\<close> by (auto simp: sessions_ok_def split: if_splits)
  ultimately have "sessions_ok {} e'" using ok e' by (auto simp: sessions_ok_def)
  moreover have "blobs_ok H e'" using blobs e'(4) by (simp add: blobs_ok_def blob_get_def)
  ultimately show ?thesis by (simp add: engine_inv_def)
qed

lemma copy_ok: "copyWithCtx evs w d = (w', d', True) \<Longrightarrow> \<exists>x. w' = w @ x \<and> d' = d @ x"
proof (induction evs arbitrary: w d)
  case (Cons ev evs)
  then show ?case
    by (fastforce simp: digest_write_def split: if_splits read_end.splits)
qed simp

lemma persist_state_fields [eng_simps]:
  assumes "persistStateLocked n sid st e = (r, e')"
  shows "e_heap e' = e_heap e" "e_next e' = e_next e" "e_sessions e' = e_sessions e"
    "e_blobs e' = e_blobs e" "e_uploads e' = e_uploads e" "e_holds e' = e_holds e" "e_opts e' = e_opts e"
    "e_closed e' = e_closed e"
  using assms
  by (auto simp: persistStateLocked_def us_setState_def split: if_splits prod.splits store_res.splits option.splits)

lemma file_write_data:
  assumes "data_file sid e = Some f"
  shows "\<exists>g. data_file sid (file_write now sid (length (f_data f)) b e) = Some g \<and> f_data g = f_data f @ b"
  using assms by (cases "b = []") (auto simp: file_write_def eng_simps)

lemma inv_sessionD: "engine_inv H e \<Longrightarrow> e_heap e h = Some s \<Longrightarrow> \<not> s_done s \<Longrightarrow> session_ok e h s"
  using session_okD [of "{}"] by (simp add: engine_inv_def)

lemma healthy_sessionE:
  assumes "engine_inv H e" "e_heap e h = Some s" "\<not> s_done s" "\<not> s_poisoned s"
  obtains f where "map_of (e_sessions e) (s_id s) = Some h" "data_file (s_id s) e = Some f"
    "f_data f = s_digests s" "st_received (s_state s) = length (s_digests s)"
  using inv_sessionD [OF assms(1-3)] assms(4) by (auto simp: session_ok_def)

text \<open>
  What an append leaves in place of the session and of the engine: the copy with its file write,
  and, when the copy succeeded, the row write.
\<close>

definition appended :: "env \<Rightarrow> uploadSession \<Rightarrow> read_ev list \<Rightarrow> engine \<Rightarrow> engine" where
  "appended n s r e = file_write (n_now n) (s_id s) (st_received (s_state s))
     (fst (copyWithCtx r [] (s_digests s))) e"

lemma put_session_inv:
  assumes "engine_inv H e" "e_heap e h = Some s" "\<not> s_done s" "s_id s' = s_id s"
    and "e_heap e' = e_heap e" "e_next e' = e_next e" "e_sessions e' = e_sessions e"
      "e_blobs e' = e_blobs e" "\<And>i. i \<noteq> s_id s \<Longrightarrow> data_file i e' = data_file i e"
    and "s_poisoned s' \<or> session_ok (put_session h s' e') h s'"
  shows "engine_inv H (put_session h s' e')"
proof (rule session_update_inv [OF assms(1-3)])
  show "s_done s' \<or> session_ok (put_session h s' e') h s'"
    using inv_sessionD [OF assms(1-3)] assms(4,7,10) by (auto simp: session_ok_def eng_simps)
qed (use assms in \<open>simp_all add: eng_simps data_file_cong [of "put_session _ _ _" e']\<close>)

lemma appended_ok:
  assumes "engine_inv H e" "e_heap e h = Some s" "\<not> s_done s" "\<not> s_poisoned s"
    and "copyWithCtx r [] (s_digests s) = (w, d, True)"
    and "e_sessions e2 = e_sessions e" "e_uploads e2 = e_uploads (appended n s r e)"
    and "s' = s\<lparr>s_digests := d, s_state := (s_state s)\<lparr>st_received := st_received (s_state s) + length w\<rparr>\<rparr>"
  shows "session_ok (put_session h s' e2) h s'"
proof -
  obtain f where f: "map_of (e_sessions e) (s_id s) = Some h" "data_file (s_id s) e = Some f"
      "f_data f = s_digests s" "st_received (s_state s) = length (s_digests s)"
    using healthy_sessionE [OF assms(1-4)] .
  obtain x where x: "w = x" "d = s_digests s @ x" using copy_ok [OF assms(5)] by auto
  have "data_file (s_id s) (put_session h s' e2) = data_file (s_id s) (appended n s r e)"
    using assms(7) by (intro data_file_cong) (simp add: eng_simps)
  with file_write_data [OF f(2), of "n_now n" w] f(3,4) assms(5)
  have "\<exists>g. data_file (s_id s) (put_session h s' e2) = Some g \<and> f_data g = s_digests s @ w"
    by (simp add: appended_def)
  then show ?thesis using f x assms(6,8) by (auto simp: session_ok_def eng_simps)
qed

lemma Append_inv:
  assumes "engine_inv H e" shows "engine_inv H (snd (Append n h r e))"
proof (cases "\<exists>s. e_heap e h = Some s \<and> \<not> s_done s \<and> \<not> s_poisoned s")
  case False
  with assms show ?thesis by (auto simp: Append_def split: option.splits)
next
  case True
  then obtain s where s: "e_heap e h = Some s" "\<not> s_done s" "\<not> s_poisoned s" by blast
  obtain w d ok where c: "copyWithCtx r [] (s_digests s) = (w, d, ok)" by (metis prod_cases3)
  define e1 where "e1 = appended n s r e"
  have e1': "file_write (n_now n) (s_id s) (st_received (s_state s)) w e = e1"
    by (simp add: e1_def appended_def c)
  define st where "st = (s_state s)\<lparr>st_received := st_received (s_state s) + length w\<rparr>"
  obtain res e2 where p: "persistStateLocked n (s_id s) st e1 = (res, e2)" by fastforce
  note e2 = persist_state_fields [OF p]
  note put = put_session_inv [OF assms s(1,2)]
  have "engine_inv H (put_session h (poison s) e)"
    by (rule put) (simp_all add: poison_def)
  moreover have "engine_inv H (put_session h (poison (s\<lparr>s_digests := d\<rparr>)) e1)"
    by (rule put) (simp_all add: poison_def e1_def appended_def eng_simps)
  moreover have "engine_inv H (put_session h s' e2)"
    if "s_id s' = s_id s" "s_poisoned s' \<or> session_ok (put_session h s' e2) h s'" for s'
    by (rule put) (use that in \<open>simp_all add: e2 data_file_cong [OF e2(5)] e1_def appended_def eng_simps\<close>)
  moreover have "session_ok (put_session h (s\<lparr>s_digests := d, s_state := st\<rparr>) e2) h (s\<lparr>s_digests := d, s_state := st\<rparr>)"
    if "ok" using appended_ok [OF assms s, of r w d e2 n] c that e2 by (simp add: e1_def appended_def eng_simps st_def)
  ultimately show ?thesis using s c p
    by (auto simp: Append_def Let_def e1' st_def [symmetric] poison_def)
qed


lemma remove_dir_inv:
  "engine_inv H e \<Longrightarrow> \<not> isLiveSession e sid \<Longrightarrow> engine_inv H (remove_dir n sid e)"
proof (rule inv_frame [of _ e])
  show "data_file i (remove_dir n sid e) = data_file i e" if "\<not> isLiveSession e sid" "isLiveSession e i" for i
    using that by (cases "i = sid") (simp_all add: eng_simps)
qed (simp_all add: eng_simps)

lemma row_inv [simp]:
  "engine_inv H (e\<lparr>e_rows := x\<rparr>) = engine_inv H e"
  by (simp add: engine_inv_def blobs_ok_def sessions_ok_def session_ok_def blob_get_def data_file_def)

lemma row_ops_inv [simp]:
  "engine_inv H (us_delete sid e) = engine_inv H e" "engine_inv H (us_create sid row e) = engine_inv H e"
  "engine_inv H (delete_row n sid e) = engine_inv H e"
  by (simp_all add: us_delete_def us_create_def delete_row_def)

lemma live_ops [simp]:
  "isLiveSession (remove_dir n sid e) i = isLiveSession e i"
  "isLiveSession (us_delete sid e) i = isLiveSession e i"
  "isLiveSession (us_create sid row e) i = isLiveSession e i"
  "isLiveSession (delete_row n sid e) i = isLiveSession e i"
  "isLiveSession (mkdir_upload sid e) i = isLiveSession e i"
  "isLiveSession (put_data sid f e) i = isLiveSession e i"
  by (simp_all add: isLiveSession_def eng_simps)

lemma register_inv:
  assumes "engine_inv H e" "data_file (s_id s) e = Some f" "f_data f = s_digests s"
    "st_received (s_state s) = length (s_digests s)"
    "\<And>k t. e_heap e k = Some t \<Longrightarrow> s_id t = s_id s \<Longrightarrow> s_done t"
    "register_session s e = (h, e')"
  shows "engine_inv H e'"
proof -
  have ok: "sessions_ok {} e" and blobs: "blobs_ok H e" using assms(1) by (simp_all add: engine_inv_def)
  have e': "h = e_next e" "e_heap e' = (e_heap e)(h \<mapsto> s)" "e_next e' = e_next e + 1"
    "map_of (e_sessions e') = (map_of (e_sessions e))(s_id s \<mapsto> h)" "e_blobs e' = e_blobs e"
    "e_uploads e' = e_uploads e"
    using assms(6) by (auto simp: register_session_def update_conv')
  have df: "data_file i e' = data_file i e" for i using e'(6) by (rule data_file_cong)
  have "session_ok e' k t" if "e_heap e' k = Some t" "\<not> s_done t" for k t
  proof (cases "k = h")
    case True
    with that assms(2-4) e' show ?thesis by (simp add: session_ok_def df)
  next
    case False
    with that e' have "session_ok e k t" using session_okD [OF ok, of k t] by simp
    moreover have "s_id t \<noteq> s_id s" using assms(5) [of k t] that False e'(2) by auto
    ultimately show ?thesis using e'(4) by (simp add: session_ok_def df)
  qed
  moreover have "e_heap e' k = Some t \<Longrightarrow> k < e_next e'" "map_of (e_sessions e') i = Some k \<Longrightarrow> k < e_next e'" for k t i
    using ok unfolding e' by (auto simp: sessions_ok_def e'(1) less_Suc_eq split: if_splits)
  ultimately have "sessions_ok {} e'" by (simp add: sessions_ok_def)
  with blobs e'(5) show ?thesis by (simp add: engine_inv_def blobs_ok_def blob_get_def)
qed

lemma begin_register_inv:
  assumes "engine_inv H e" "data_file (s_id s) e = Some f" "f_data f = s_digests s"
    "st_received (s_state s) = length (s_digests s)" "\<not> isLiveSession e (s_id s)"
  shows "engine_inv H (snd (begin_register n s e))"
proof (cases "e_closed e")
  case True
  with assms show ?thesis by (simp add: begin_register_def remove_dir_inv)
next
  case False
  obtain h e' where r: "register_session s e = (h, e')" by fastforce
  have "s_done t" if "e_heap e k = Some t" "s_id t = s_id s" for k t
    using inv_sessionD [OF assms(1) that(1)] that(2) assms(5)
    by (auto simp: session_ok_def isLiveSession_def)
  with False register_inv [OF assms(1-4) _ r] r show ?thesis by (simp add: begin_register_def)
qed

lemma persist_create_cases:
  "persist_create n sid row e = (r, e') \<Longrightarrow> e' = (if r = StoreOk then us_create sid row e else e)"
  by (auto simp: persist_create_def split: prod.splits store_res.splits)

lemma upload_inv:
  assumes "engine_inv H e" "\<not> isLiveSession e sid"
  shows "engine_inv H (mkdir_upload sid e)" "engine_inv H (put_data sid f e)"
proof -
  show "engine_inv H (mkdir_upload sid e)" by (rule inv_frame [OF _ _ _ _ _ assms(1)]) (simp_all add: eng_simps)
  show "engine_inv H (put_data sid f e)"
    by (rule inv_frame [OF _ _ _ _ _ assms(1)]) (use assms(2) in \<open>auto simp: eng_simps\<close>)
qed

lemma BeginSession_inv:
  assumes "engine_inv H e" "\<And>sid. n_uuid n = Some sid \<Longrightarrow> \<not> isLiveSession e sid"
  shows "engine_inv H (snd (BeginSession n e))"
proof (cases "n_ctx n \<or> e_closed e \<or> n_uuid n = None \<or> n_fail n IoMkdir (the (n_uuid n))")
  case True
  with assms(1) show ?thesis by (auto simp: BeginSession_def split: option.splits)
next
  case False
  then obtain sid where sid: "n_uuid n = Some sid" by auto
  note fresh = assms(2) [OF sid]
  define st where "st = \<lparr>st_version = Suc 0, st_id = sid, st_created = n_now n, st_received = 0\<rparr>"
  define row where "row = \<lparr>u_state = st, u_created = format_rfc3339 (n_now n),
      u_expires = format_rfc3339 (n_now n + session_ttl (e_opts e))\<rparr>"
  obtain r e2 where c: "(if o_sessions (e_opts e) then persist_create n sid row (mkdir_upload sid e)
      else (StoreOk, mkdir_upload sid e)) = (r, e2)" by fastforce
  have e2: "e2 = (if r = StoreOk \<and> o_sessions (e_opts e) then us_create sid row (mkdir_upload sid e)
      else mkdir_upload sid e)"
    using c persist_create_cases [of n sid row "mkdir_upload sid e" r e2] by (auto split: if_splits)
  have inv: "engine_inv H e2" using upload_inv(1) [OF assms(1) fresh] by (simp add: e2)
  have live: "\<not> isLiveSession e2 sid" using fresh by (simp add: e2)
  let ?s = "\<lparr>s_id = sid, s_state = st, s_digests = newDigesters, s_done = False, s_poisoned = False\<rparr>"
  have "engine_inv H (snd (begin_register n ?s (put_data sid \<lparr>f_data = [], f_mtime = n_now n\<rparr> e2)))"
    by (rule begin_register_inv [where f = "\<lparr>f_data = [], f_mtime = n_now n\<rparr>"])
      (simp_all add: upload_inv(2) [OF inv live] eng_simps newDigesters_def st_def live)
  with False sid c inv live remove_dir_inv show ?thesis
    by (auto simp: BeginSession_def Let_def st_def [symmetric] row_def [symmetric] split: if_splits)
qed

lemma detach_inv:
  assumes "engine_inv H e" shows "engine_inv H (detach h e)"
proof (cases "\<exists>s. e_heap e h = Some s \<and> \<not> s_done s")
  case False
  with assms show ?thesis by (auto simp: detach_def split: option.splits)
next
  case True
  then obtain s where s: "e_heap e h = Some s" "\<not> s_done s" by blast
  have "engine_inv H (put_session h (s\<lparr>s_done := True\<rparr>) e)"
    by (rule session_update_inv [OF assms s, where s' = "s\<lparr>s_done := True\<rparr>"]) (simp_all add: eng_simps data_file_cong [of "put_session _ _ _" e])
  with s show ?thesis by (simp add: detach_def)
qed


lemma detach_fields [eng_simps]:
  "e_next (detach h e) = e_next e" "e_sessions (detach h e) = e_sessions e"
  "e_blobs (detach h e) = e_blobs e" "e_uploads (detach h e) = e_uploads e"
  "e_rows (detach h e) = e_rows e" "e_opts (detach h e) = e_opts e" "e_closed (detach h e) = e_closed e"
  by (auto simp: detach_def put_session_def split: option.splits)

lemma detach_heap:
  "e_heap (detach h e) k = (if k = h then map_option (s_done_update (\<lambda>_. True)) (e_heap e h) else e_heap e k)"
  by (auto simp: detach_def put_session_def split: option.splits)

lemma resume_register_inv:
  assumes "engine_inv H e" "data_file (s_id s) e = Some f" "f_data f = s_digests s"
    "st_received (s_state s) = length (s_digests s)"
  shows "engine_inv H (snd (resume_register s e))"
proof (cases "e_closed e")
  case True
  with assms show ?thesis by (simp add: resume_register_def)
next
  case False
  define d where "d = (case map_of (e_sessions e) (s_id s) of None \<Rightarrow> e | Some prev \<Rightarrow> detach prev e)"
  obtain h e' where r: "register_session s d = (h, e')" by fastforce
  have inv: "engine_inv H d" using assms(1) detach_inv by (auto simp: d_def split: option.splits)
  have df: "data_file (s_id s) d = data_file (s_id s) e"
    by (rule data_file_cong) (simp add: d_def eng_simps split: option.splits)
  have dn: "s_done t" if "e_heap d k = Some t" "s_id t = s_id s" for k t
  proof (rule ccontr)
    assume "\<not> s_done t"
    with inv_sessionD [OF inv that(1)] that(2) have "map_of (e_sessions d) (s_id s) = Some k"
      by (simp add: session_ok_def)
    then have "map_of (e_sessions e) (s_id s) = Some k"
      by (simp add: d_def eng_simps split: option.splits)
    with that(1) have "s_done t" by (auto simp: d_def detach_heap)
    with \<open>\<not> s_done t\<close> show False ..
  qed
  have "prev < e_next e" if "map_of (e_sessions e) (s_id s) = Some prev" for prev
    using that assms(1) by (auto simp: engine_inv_def sessions_ok_def)
  then have "e_heap (snd (resume_register s e)) = e_heap e'"
    "\<And>x. (snd (resume_register s e))\<lparr>e_heap := x\<rparr> = e'\<lparr>e_heap := x\<rparr>"
    using False r
    by (auto simp: resume_register_def register_session_def d_def detach_def put_session_def
        split: option.splits)
  then have "snd (resume_register s e) = e'" by (metis engine.surjective engine.update_convs(5))
  with register_inv [OF inv _ assms(3,4) dn r] df assms(2) show ?thesis by simp
qed

lemma ResumeSession_inv:
  assumes "engine_inv H e" shows "engine_inv H (snd (ResumeSession n sid e))"
proof -
  define f where "f = (case data_file sid e of Some f \<Rightarrow> f | None \<Rightarrow> \<lparr>f_data = [], f_mtime = n_now n\<rparr>)"
  define e1 where "e1 = (if data_file sid e = None then put_data sid f e else e)"
  have df: "data_file sid e1 = Some f" by (auto simp: e1_def f_def eng_simps)
  have inv: "engine_inv H e1"
  proof (cases "data_file sid e = None")
    case True
    have "s_poisoned s" if "e_heap e h = Some s" "\<not> s_done s" "s_id s = sid" for h s
      using inv_sessionD [OF assms that(1,2)] that(3) True by (auto simp: session_ok_def)
    then show ?thesis using assms True
      by (auto simp: e1_def engine_inv_def blobs_ok_def sessions_ok_def session_ok_def blob_get_def eng_simps)
  qed (auto simp: e1_def assms)
  have "engine_inv H (snd (resume_register
      \<lparr>s_id = sid, s_state = st, s_digests = digest_write (f_data f) newDigesters, s_done = False, s_poisoned = False\<rparr> e1))"
    if "st_received st = length (f_data f)" for st
    by (rule resume_register_inv [OF inv, where f = f])
      (use df that in \<open>simp_all add: digest_write_def newDigesters_def\<close>)
  moreover define c where "c \<longleftrightarrow> 0 < length (f_data f)"
  ultimately show ?thesis using assms inv
    unfolding ResumeSession_def f_def [symmetric] Let_def e1_def [symmetric] c_def [symmetric]
    by (simp split: option.splits)
qed


lemma closed_inv: "engine_inv H (e\<lparr>e_closed := b\<rparr>) = engine_inv H e"
  by (simp add: engine_inv_def blobs_ok_def sessions_ok_def session_ok_def blob_get_def data_file_def)

lemma detach_all_heap:
  "e_heap (fold (\<lambda>(sid, h). detach h) rs e) k =
     (if k \<in> snd ` set rs then map_option (s_done_update (\<lambda>_. True)) (e_heap e k) else e_heap e k)"
proof (induction rs arbitrary: e)
  case (Cons r rs)
  then show ?case
    by (cases r) (auto simp: detach_heap option.map_comp comp_def)
qed simp

lemma detach_all_fields [eng_simps]:
  "e_next (fold (\<lambda>(sid, h). detach h) rs e) = e_next e"
  "e_sessions (fold (\<lambda>(sid, h). detach h) rs e) = e_sessions e"
  "e_blobs (fold (\<lambda>(sid, h). detach h) rs e) = e_blobs e"
  "e_uploads (fold (\<lambda>(sid, h). detach h) rs e) = e_uploads e"
  "e_rows (fold (\<lambda>(sid, h). detach h) rs e) = e_rows e"
  "e_closed (fold (\<lambda>(sid, h). detach h) rs e) = e_closed e"
  "e_opts (fold (\<lambda>(sid, h). detach h) rs e) = e_opts e"
  by (induction rs arbitrary: e) (auto simp: eng_simps split: prod.splits)

lemma Close_done:
  assumes "engine_inv H e" "\<not> e_closed e" "e_heap (Close e) h = Some s"
  shows "s_done s"
proof (rule ccontr)
  assume nd: "\<not> s_done s"
  let ?c = "e\<lparr>e_closed := True, e_sessions := []\<rparr>"
  have h: "h \<notin> snd ` set (e_sessions e)" "e_heap e h = Some s"
    using assms(2,3) nd by (auto simp: Close_def detach_all_heap split: if_splits)
  from inv_sessionD [OF assms(1) h(2) nd] have "map_of (e_sessions e) (s_id s) = Some h"
    by (simp add: session_ok_def)
  then have "h \<in> snd ` set (e_sessions e)" by (force dest: map_of_SomeD)
  with h(1) show False ..
qed

lemma Close_fields [eng_simps]:
  "e_blobs (Close e) = e_blobs e" "e_uploads (Close e) = e_uploads e" "e_rows (Close e) = e_rows e"
  "e_closed (Close e)" "e_opts (Close e) = e_opts e" "e_next (Close e) = e_next e"
  by (auto simp: Close_def eng_simps)

lemma Close_inv: "engine_inv H e \<Longrightarrow> engine_inv H (Close e)"
proof (cases "e_closed e")
  case True
  then show "engine_inv H e \<Longrightarrow> ?thesis" by (simp add: Close_def)
next
  case False
  assume inv: "engine_inv H e"
  have "h < e_next e" if "e_heap (Close e) h = Some s" for h s
    using that inv False
    by (auto simp: Close_def detach_all_heap engine_inv_def sessions_ok_def split: if_splits)
  moreover have "e_sessions (Close e) = []" using False by (simp add: Close_def eng_simps)
  ultimately show ?thesis using inv Close_done [OF inv False]
    by (auto simp: engine_inv_def blobs_ok_def blob_get_def sessions_ok_def eng_simps)
qed

lemma Delete_inv: "engine_inv H e \<Longrightarrow> engine_inv H (snd (Delete n sha e))"
proof -
  assume inv: "engine_inv H e"
  have "engine_inv H (e\<lparr>e_blobs := AList.delete p (e_blobs e)\<rparr>)" for p
    using inv by (auto simp: engine_inv_def blobs_ok_def sessions_ok_def session_ok_def blob_get_def
        data_file_def delete_conv' split: if_splits)
  with inv show ?thesis by (simp add: Delete_def Let_def split: option.splits)
qed

lemma sweep_orphans_inv: "engine_inv H e \<Longrightarrow> engine_inv H (snd (sweep_orphans n ids err e))"
  by (induction n ids err e rule: sweep_orphans.induct) (simp_all add: remove_dir_inv)

lemma sweep_rows_inv: "engine_inv H e \<Longrightarrow> engine_inv H (snd (snd (sweep_rows n ids err k e)))"
proof (induction ids arbitrary: err k e)
  case (Cons sid ids)
  then show ?case
    by (cases "isLiveSession e sid") (simp_all add: Let_def remove_dir_inv)
qed simp

lemma sweepSessions_inv: "engine_inv H e \<Longrightarrow> engine_inv H (snd (snd (sweepSessions n now e)))"
  using sweep_rows_inv [of H e] sweep_orphans_inv [of H]
  by (auto simp: sweepSessions_def sweepOrphanDirs_def Let_def split: prod.splits)
    (metis snd_conv)+

lemma fresh_engine_inv: "blobs_ok H e \<Longrightarrow> engine_inv H (fresh_engine opts e)"
  by (simp add: engine_inv_def fresh_engine_def blobs_ok_def blob_get_def sessions_ok_def)

lemma OpenEngine_inv: "engine_inv H e \<Longrightarrow> engine_inv H (snd (OpenEngine n root opts e))"
  using sweepSessions_inv [OF fresh_engine_inv, of H e n "n_now n" opts]
  by (auto simp: OpenEngine_def engine_inv_def Let_def split: prod.splits)

lemma Sweep_inv: "engine_inv H e \<Longrightarrow> engine_inv H (snd (SweepExpiredSessions n e))"
  using sweepSessions_inv [of H e n "n_now n"]
  by (auto simp: SweepExpiredSessions_def split: prod.splits)

end
