(* ===== verification/Storage_Contract.thy ===== *)
theory Storage_Contract
  imports Storage_Sessions "HOL-Library.Multiset"
begin

text \<open>
  The promises of the storage engine, stated over its reachable states and over each operation:
  content addressing, the outcome of a commit, preservation of upload sessions across shutdown
  and restart, and the limits of the expiry sweep.
\<close>

section \<open>Reachable states\<close>

definition empty_engine :: "Options \<Rightarrow> engine" where
  "empty_engine opts =
     \<lparr>e_opts = opts, e_closed = False, e_sessions = [], e_holds = newHoldSet (o_holdTTL opts),
      e_heap = (\<lambda>_. None), e_next = 0, e_blobs = [], e_uploads = [], e_rows = []\<rparr>"

text \<open>
  One operation of the engine, under any environment. A new session's uuid is not the id of a
  live one. \<open>reopen\<close> is a restart over the disk the previous process left, at any moment.
\<close>

inductive engine_step :: "hash_suite \<Rightarrow> engine \<Rightarrow> engine \<Rightarrow> bool" for H where
  begin_session: "(\<And>sid. n_uuid n = Some sid \<Longrightarrow> \<not> isLiveSession e sid) \<Longrightarrow> engine_step H e (snd (BeginSession n e))"
| append: "engine_step H e (snd (Append n h r e))"
| commit: "engine_step H e (snd (Commit H n h expect e))"
| abort: "engine_step H e (Abort n h e)"
| resume: "engine_step H e (snd (ResumeSession n sid e))"
| close: "engine_step H e (Close e)"
| delete: "engine_step H e (snd (Delete n sha e))"
| sweep: "engine_step H e (snd (SweepExpiredSessions n e))"
| release_hold: "engine_step H e (ReleaseGCHold sha e)"
| check_hold: "engine_step H e (e\<lparr>e_holds := snd (held now sha (e_holds e))\<rparr>)"
| reopen: "engine_step H e (snd (OpenEngine n root opts e))"

inductive engine_reachable :: "hash_suite \<Rightarrow> engine \<Rightarrow> bool" for H where
  init: "engine_reachable H (empty_engine opts)"
| step: "engine_reachable H e \<Longrightarrow> engine_step H e e' \<Longrightarrow> engine_reachable H e'"

lemma holds_inv [simp]: "engine_inv H (e\<lparr>e_holds := x\<rparr>) = engine_inv H e"
  by (simp add: engine_inv_def blobs_ok_def sessions_ok_def session_ok_def blob_get_def data_file_def)

lemmas op_inv = BeginSession_inv Append_inv Commit_inv Abort_inv ResumeSession_inv Close_inv
  Delete_inv Sweep_inv OpenEngine_inv

lemma step_inv: "engine_step H e e' \<Longrightarrow> engine_inv H e \<Longrightarrow> engine_inv H e'"
  by (induction rule: engine_step.induct) (simp_all add: op_inv)

lemma reachable_inv: "engine_reachable H e \<Longrightarrow> engine_inv H e"
proof (induction rule: engine_reachable.induct)
  case (init opts)
  show ?case
    by (simp add: engine_inv_def blobs_ok_def sessions_ok_def blob_get_def empty_engine_def)
qed (rule step_inv)


section \<open>Commit\<close>

lemma check_digests_Cons:
  "check_digests ((got, want, len) # cs) \<longleftrightarrow>
     (want = [] \<or> (length want = len \<and> list_all lower_hex (to_lower want) \<and> to_lower want = got))
     \<and> check_digests cs" if "got \<noteq> []"
  using that
  by (auto simp: normalizeHex_def Let_def to_lower_def split: option.splits if_splits)

lemma hold_restored:
  "hold_registrations (release sha (acquire t sha h)) s = hold_registrations h s"
  by (simp add: hs.cnt_rel hs.cnt_acq)

lemma publish_blobs:
  assumes "publish n sid sha e = (ok, e')"
  shows "s \<noteq> sha \<Longrightarrow> blob_get s e' = blob_get s e"
    and "blob_get sha e = Some f \<Longrightarrow> blob_get sha e' = Some f"
    and "ok \<Longrightarrow> blob_get sha e = None \<Longrightarrow> blob_get sha e' = data_file sid e \<and> data_file sid e \<noteq> None"
    and "e_holds e' = e_holds e"
  using publish_result [OF assms]
  by (auto simp: blob_get_def update_conv' blobKey_def)

lemma Commit_healthy:
  fixes H :: hash_suite and expect :: BlobRef
  assumes "e_heap e h = Some s" "\<not> s_done s" "\<not> s_poisoned s" "\<not> n_ctx n"
  defines "sha \<equiv> sum_sha256 (sums H (s_digests s))"
  defines "actual \<equiv> \<lparr>Sha256 = sha, Sha1 = sum_sha1 (sums H (s_digests s)),
    Md5 = sum_md5 (sums H (s_digests s)), Size = st_received (s_state s)\<rparr>"
  defines "good \<equiv> check_digests [(sha, Sha256 expect, sha256HexLen),
    (Sha1 actual, Sha1 expect, sha1HexLen), (Md5 actual, Md5 expect, md5HexLen)]"
  defines "p \<equiv> publish n (s_id s) sha (hold_acquire (n_now n) sha e)"
  shows "Commit H n h expect e =
    (if \<not> good then (Inl ErrChecksumMismatch, failLocked n h s e)
     else if n_fail n IoSync (s_id s)
     then (Inl ErrIO, ReleaseGCHold sha (failLocked n h s (hold_acquire (n_now n) sha e)))
     else if blobPath sha = None
     then (Inl ErrInvalidSha256, ReleaseGCHold sha (failLocked n h s (hold_acquire (n_now n) sha e)))
     else if fst p then (Inr actual, finishLocked n h s (snd p))
     else (Inl ErrIO, ReleaseGCHold sha (failLocked n h s (snd p))))"
  using assms(1-4)
  by (simp add: Commit_def Let_def sha_def actual_def good_def p_def
      del: check_digests.simps split: prod.splits bool.splits)

lemma fail_fields:
  "e_blobs (failLocked n h s e) = e_blobs e" "e_holds (failLocked n h s e) = e_holds e"
  "e_heap (failLocked n h s e) h = Some (s\<lparr>s_poisoned := True, s_done := True\<rparr>)"
  by (simp_all add: failLocked_def finish_fields)


lemma blob_get_hold [simp]: "blob_get x (hold_acquire t sha e) = blob_get x e"
  by (simp add: blob_get_def eng_simps)

lemma Commit_unhealthy:
  assumes "\<not> (\<exists>s. e_heap e h = Some s \<and> \<not> s_done s \<and> \<not> s_poisoned s \<and> \<not> n_ctx n)"
  shows "(\<exists>err. Commit H n h expect e = (Inl err, e) \<and> (\<forall>s. e_heap e h = Some s \<longrightarrow> s_done s)) \<or>
    (\<exists>err s. e_heap e h = Some s \<and> err \<noteq> ErrChecksumMismatch \<and> Commit H n h expect e = (Inl err, failLocked n h s e))"
  using assms by (auto simp: Commit_def split: option.splits)


definition actual_ref :: "hash_suite \<Rightarrow> uploadSession \<Rightarrow> BlobRef" where
  "actual_ref H s = \<lparr>Sha256 = sum_sha256 (sums H (s_digests s)), Sha1 = sum_sha1 (sums H (s_digests s)),
     Md5 = sum_md5 (sums H (s_digests s)), Size = length (s_digests s)\<rparr>"

definition digests_match :: "BlobRef \<Rightarrow> BlobRef \<Rightarrow> bool" where
  "digests_match expect ref \<longleftrightarrow>
     (Sha256 expect = [] \<or> to_lower (Sha256 expect) = Sha256 ref)
     \<and> (Sha1 expect = [] \<or> to_lower (Sha1 expect) = Sha1 ref)
     \<and> (Md5 expect = [] \<or> to_lower (Md5 expect) = Md5 ref)"

lemma sums_nonempty:
  assumes "sized_hashes H"
  shows "sum_sha256 (sums H b) \<noteq> []" "sum_sha1 (sums H b) \<noteq> []" "sum_md5 (sums H b) \<noteq> []"
proof -
  have "length (sum_sha256 (sums H b)) = 64" "length (sum_sha1 (sums H b)) = 40"
    "length (sum_md5 (sums H b)) = 32"
    using assms by (simp_all add: sums_def sized_hashes_def)
  then show "sum_sha256 (sums H b) \<noteq> []" "sum_sha1 (sums H b) \<noteq> []" "sum_md5 (sums H b) \<noteq> []"
    by (metis list.size(3) zero_neq_numeral)+
qed

lemma check_digests_match:
  assumes "sized_hashes H" "check_digests [(Sha256 (actual_ref H s), Sha256 expect, a),
    (Sha1 (actual_ref H s), Sha1 expect, b), (Md5 (actual_ref H s), Md5 expect, c)]"
  shows "digests_match expect (actual_ref H s)"
  using assms(2) sums_nonempty [OF assms(1), of "s_digests s"]
  by (auto simp: digests_match_def check_digests_Cons actual_ref_def simp del: check_digests.simps(2))

lemma Commit_successE:
  assumes "engine_reachable H e" "sized_hashes H" "Commit H n h expect e = (Inr ref, e')"
  obtains s f p where "e_heap e h = Some s" "data_file (s_id s) e = Some f" "f_data f = s_digests s"
    "ref = actual_ref H s" "digests_match expect ref"
    "publish n (s_id s) (Sha256 ref) (hold_acquire (n_now n) (Sha256 ref) e) = (True, p)"
    "e' = finishLocked n h s p"
proof -
  obtain s where s: "e_heap e h = Some s" "\<not> s_done s" "\<not> s_poisoned s" "\<not> n_ctx n"
    using Commit_unhealthy [of e h n H expect] assms(3) by fastforce
  obtain f where f: "data_file (s_id s) e = Some f" "f_data f = s_digests s"
      "st_received (s_state s) = length (s_digests s)"
    using healthy_sessionE [OF reachable_inv [OF assms(1)] s(1-3)] by metis
  have ref: "ref = actual_ref H s"
    and good: "check_digests [(Sha256 (actual_ref H s), Sha256 expect, sha256HexLen),
      (Sha1 (actual_ref H s), Sha1 expect, sha1HexLen), (Md5 (actual_ref H s), Md5 expect, md5HexLen)]"
    and ok: "fst (publish n (s_id s) (Sha256 ref) (hold_acquire (n_now n) (Sha256 ref) e))"
      "e' = finishLocked n h s (snd (publish n (s_id s) (Sha256 ref) (hold_acquire (n_now n) (Sha256 ref) e)))"
    using assms(3) Commit_healthy [OF s, of H expect] f(3)
    by (auto split: if_splits simp del: check_digests.simps simp add: actual_ref_def)
  show thesis
    by (rule that [OF s(1) f(1,2) ref _ _ ok(2)])
      (use check_digests_match [OF assms(2) good] ref ok(1) in \<open>simp_all add: prod_eq_iff\<close>)
qed


lemma Commit_failed:
  assumes "Commit H n h expect e = (Inl err, e')"
  shows "(\<forall>sha. hold_registrations (e_holds e') sha = hold_registrations (e_holds e) sha)
    \<and> (\<forall>sha f. blob_get sha e = Some f \<longrightarrow> blob_get sha e' = Some f)
    \<and> (err = ErrChecksumMismatch \<longrightarrow> e_blobs e' = e_blobs e \<and> e_holds e' = e_holds e)
    \<and> (\<forall>s. e_heap e h = Some s \<longrightarrow> (\<exists>s'. e_heap e' h = Some s' \<and> s_done s'))"
proof (cases "\<exists>s. e_heap e h = Some s \<and> \<not> s_done s \<and> \<not> s_poisoned s \<and> \<not> n_ctx n")
  case False
  from Commit_unhealthy [OF this, of H expect] assms show ?thesis
    by (auto simp: fail_fields blob_get_def)
next
  case True
  then obtain s where s: "e_heap e h = Some s" "\<not> s_done s" "\<not> s_poisoned s" "\<not> n_ctx n" by blast
  define sha where "sha = sum_sha256 (sums H (s_digests s))"
  let ?e1 = "hold_acquire (n_now n) sha e"
  obtain ok p where p: "publish n (s_id s) sha ?e1 = (ok, p)" by fastforce
  have P: "e_holds p = acquire (n_now n) sha (e_holds e)"
    "\<And>x f. blob_get x e = Some f \<Longrightarrow> blob_get x p = Some f"
    using publish_blobs [OF p] by (simp add: eng_simps) (metis publish_blobs(1,2) [OF p] blob_get_hold)
  have "e' = failLocked n h s e \<and> err = ErrChecksumMismatch
      \<or> err \<noteq> ErrChecksumMismatch \<and> (\<exists>q. e' = ReleaseGCHold sha (failLocked n h s q) \<and> q \<in> {?e1, p})"
    using assms Commit_healthy [OF s, of H expect, folded sha_def] p
    by (auto split: if_splits simp del: check_digests.simps)
  then show ?thesis
    using P blob_get_hold [of _ "n_now n" sha e] s(1) by (auto simp: fail_fields blob_get_def eng_simps hold_restored)
qed


section \<open>The sweep\<close>

definition protected :: "string \<Rightarrow> engine \<Rightarrow> string \<Rightarrow> bool" where
  "protected now e sid \<longleftrightarrow>
     isLiveSession e sid \<or>
     (o_sessions (e_opts e) \<and> (\<exists>row. us_get sid e = Some row \<and> now < u_expires row))"

text \<open>What a sweep must not change of the session \<open>sid\<close>: its directory with the data, and its row.\<close>

definition same_session :: "string \<Rightarrow> engine \<Rightarrow> engine \<Rightarrow> bool" where
  "same_session sid e e' \<longleftrightarrow>
     map_of (e_uploads e') sid = map_of (e_uploads e) sid \<and> us_get sid e' = us_get sid e"

lemma sweep_frame [simp]:
  "e_opts (remove_dir n sid e) = e_opts e" "e_opts (us_delete sid e) = e_opts e"
  "us_get i (remove_dir n sid e) = us_get i e"
  by (simp_all add: remove_dir_def us_delete_def us_get_def)

lemma us_get_delete [simp]: "us_get i (us_delete sid e) = (if i = sid then None else us_get i e)"
  by (simp add: us_get_def us_delete_def delete_conv')

lemma uploads_remove: "i \<noteq> sid \<Longrightarrow> map_of (e_uploads (remove_dir n sid e)) i = map_of (e_uploads e) i"
  by (simp add: remove_dir_def delete_conv')

lemma uploads_us_delete [simp]: "e_uploads (us_delete sid e) = e_uploads e"
  by (simp add: us_delete_def)

lemma sweep_orphans_safe:
  "isLiveSession e sid \<or> (o_sessions (e_opts e) \<and> us_get sid e \<noteq> None)
   \<Longrightarrow> same_session sid e (snd (sweep_orphans n ids err e))"
proof (induction n ids err e rule: sweep_orphans.induct)
  case (2 n i ids err e)
  show ?case
  proof (cases "isLiveSession e i \<or> o_sessions (e_opts e) \<and> (n_fail n RowGet i \<or> us_get i e \<noteq> None)")
    case True
    with 2 show ?thesis by auto
  next
    case False
    with 2 have "i \<noteq> sid" by auto
    with False 2 show ?thesis by (auto simp: same_session_def uploads_remove)
  qed
qed (simp add: same_session_def)

lemma sweep_rows_safe:
  "isLiveSession e sid \<or> sid \<notin> set ids \<Longrightarrow> same_session sid e (snd (snd (sweep_rows n ids err k e)))"
proof (induction ids arbitrary: err k e)
  case (Cons i ids)
  show ?case
  proof (cases "isLiveSession e i")
    case True
    with Cons show ?thesis by auto
  next
    case False
    with Cons.prems have "i \<noteq> sid" by auto
    with False Cons show ?thesis
      by (auto simp: Let_def same_session_def uploads_remove)
  qed
qed (simp add: same_session_def)

lemma sweep_keeps [simp]:
  "e_opts (snd (snd (sweep_rows n ids err k e))) = e_opts e"
  "isLiveSession (snd (snd (sweep_rows n ids err k e))) sid = isLiveSession e sid"
proof (induction ids arbitrary: err k e)
  case (Cons i ids)
  { case 1 show ?case by (simp add: Let_def Cons) }
  { case 2 show ?case by (simp add: Let_def Cons) }
qed simp_all

lemma not_listed:
  assumes "distinct (map fst (e_rows e))" "us_get sid e = Some row" "now < u_expires row"
  shows "sid \<notin> set (us_listExpired now e)"
proof
  assume "sid \<in> set (us_listExpired now e)"
  then obtain r where "(sid, r) \<in> set (e_rows e)" "u_expires r \<le> now"
    by (auto simp: us_listExpired_def)
  with assms show False by (auto simp: us_get_def map_of_is_SomeI)
qed

lemma same_session_trans: "same_session sid a b \<Longrightarrow> same_session sid b c \<Longrightarrow> same_session sid a c"
  by (simp add: same_session_def)

lemma sweepOrphanDirs_safe:
  "isLiveSession e sid \<or> (o_sessions (e_opts e) \<and> us_get sid e \<noteq> None)
   \<Longrightarrow> same_session sid e (snd (sweepOrphanDirs n e))"
  using sweep_orphans_safe [of e sid n] by (auto simp: sweepOrphanDirs_def same_session_def)

lemma sweepSessions_state:
  "snd (snd (sweepSessions n now e)) =
     (if \<not> o_sessions (e_opts e) then snd (sweepOrphanDirs n e)
      else if n_fail n RowList [] then e
      else snd (sweepOrphanDirs n
             (snd (snd (sweep_rows n (us_listExpired (format_rfc3339 now) e) False 0 e)))))"
  by (simp add: sweepSessions_def Let_def case_prod_unfold)

lemma sweep_safe:
  assumes "distinct (map fst (e_rows e))" "protected (format_rfc3339 now) e sid"
  shows "same_session sid e (snd (snd (sweepSessions n now e)))"
proof (cases "o_sessions (e_opts e)")
  case False
  with assms(2) sweepOrphanDirs_safe [of e sid n] show ?thesis
    by (simp add: sweepSessions_state protected_def)
next
  case True
  define e1 where "e1 = snd (snd (sweep_rows n (us_listExpired (format_rfc3339 now) e) False 0 e))"
  have "isLiveSession e sid \<or> sid \<notin> set (us_listExpired (format_rfc3339 now) e)"
    using assms not_listed [OF assms(1)] by (auto simp: protected_def)
  then have s1: "same_session sid e e1" unfolding e1_def by (rule sweep_rows_safe)
  have "isLiveSession e1 sid \<or> (o_sessions (e_opts e1) \<and> us_get sid e1 \<noteq> None)"
    using assms(2) s1 by (auto simp: e1_def protected_def same_session_def)
  then have "same_session sid e1 (snd (sweepOrphanDirs n e1))" by (rule sweepOrphanDirs_safe)
  with s1 True show ?thesis
    by (simp add: sweepSessions_state e1_def [symmetric] same_session_def)
qed


section \<open>The session ids are a key of the table\<close>

definition rows_ok :: "engine \<Rightarrow> bool" where
  "rows_ok e \<longleftrightarrow> distinct (map fst (e_rows e))"

lemma rows_ok_helpers [simp]:
  "rows_ok (mkdir_upload sid e) = rows_ok e" "rows_ok (put_data sid f e) = rows_ok e"
  "rows_ok (remove_dir n sid e) = rows_ok e" "rows_ok (file_write t sid p b e) = rows_ok e"
  "rows_ok (put_session h s e) = rows_ok e" "rows_ok (hold_acquire t sha e) = rows_ok e"
  "rows_ok (ReleaseGCHold sha e) = rows_ok e" "rows_ok (forgetSession h sid e) = rows_ok e"
  "rows_ok (detach h e) = rows_ok e" "rows_ok (Close e) = rows_ok e"
  by (simp_all add: rows_ok_def file_defs eng_simps split: option.splits)

lemma rows_ok_delete:
  "rows_ok e \<Longrightarrow> rows_ok (us_delete sid e)" "rows_ok e \<Longrightarrow> rows_ok (delete_row n sid e)"
  "rows_ok e \<Longrightarrow> rows_ok (finishLocked n h s e)" "rows_ok e \<Longrightarrow> rows_ok (failLocked n h s e)"
  by (simp_all add: rows_ok_def us_delete_def delete_row_def distinct_delete failLocked_def finishLocked_def
      forgetSession_def remove_dir_def put_session_def)

lemma rows_ok_set: "rows_ok e \<Longrightarrow> rows_ok (snd (persistStateLocked n sid st e))"
  by (auto simp: rows_ok_def persistStateLocked_def us_setState_def distinct_update
      split: prod.splits store_res.splits option.splits)

lemma persist_create_key:
  assumes "persist_create n sid row e = (StoreOk, e')" shows "us_get sid e = None"
proof -
  define fn where "fn = (\<lambda>k. if n_row n RowCreate sid k = StoreOk \<and> us_get sid e \<noteq> None then StoreErr
           else n_row n RowCreate sid k)"
  obtain r k sl where r: "RetryOnBusy (n_ctxAfter n) (o_retry (e_opts e)) fn = (r, k, sl)"
    by (metis prod_cases3)
  with assms have "r = StoreOk"
    by (simp add: persist_create_def fn_def split: store_res.splits)
  with RetryOnBusy_result [OF r] show ?thesis by (auto simp: fn_def split: if_splits)
qed

lemma rows_ok_create: "rows_ok e \<Longrightarrow> rows_ok (snd (persist_create n sid row e))"
proof -
  assume "rows_ok e"
  moreover obtain r e' where p: "persist_create n sid row e = (r, e')" by fastforce
  ultimately show ?thesis
    using persist_create_cases [OF p] persist_create_key [of n sid row e e'] p
    by (cases "r = StoreOk") (auto simp: rows_ok_def us_create_def us_get_def map_of_eq_None_iff)
qed

lemma rows_ok_begin: "rows_ok e \<Longrightarrow> rows_ok (snd (BeginSession n e))"
proof -
  assume ok: "rows_ok e"
  have reg: "rows_ok (snd (begin_register n s e))" if "rows_ok e" for s e
    using that rows_ok_delete(2)
    by (simp add: begin_register_def register_session_def) (simp add: rows_ok_def)
  have "rows_ok (snd (persist_create n sid row (mkdir_upload sid e)))" for sid row
    using ok by (simp add: rows_ok_create)
  then show ?thesis using ok
    by (simp add: BeginSession_def Let_def case_prod_unfold reg rows_ok_delete split: option.splits)
qed

lemma rows_ok_append: "rows_ok e \<Longrightarrow> rows_ok (snd (Append n h r e))"
  by (simp add: Append_def Let_def case_prod_unfold rows_ok_set split: option.splits)

lemma rows_ok_commit: "rows_ok e \<Longrightarrow> rows_ok (snd (Commit H n h expect e))"
proof -
  assume ok: "rows_ok e"
  have "rows_ok (snd (publish n sid sha e))" if "rows_ok e" for sid sha e
    using that by (simp add: publish_def Let_def split: option.splits) (simp add: rows_ok_def)
  with ok show ?thesis
    by (simp add: Commit_def Let_def rows_ok_delete case_prod_unfold split: option.splits bool.splits)
qed

lemma rows_ok_resume: "rows_ok e \<Longrightarrow> rows_ok (snd (ResumeSession n sid e))"
proof -
  assume ok: "rows_ok e"
  have "rows_ok (snd (resume_register s e))" if "rows_ok e" for s e
    using that by (simp add: resume_register_def register_session_def split: option.splits)
      (simp add: rows_ok_def)
  with ok show ?thesis by (simp add: ResumeSession_def Let_def split: option.splits)
qed

lemma rows_ok_sweep: "rows_ok e \<Longrightarrow> rows_ok (snd (snd (sweepSessions n now e)))"
proof -
  assume ok: "rows_ok e"
  have orph: "rows_ok e \<Longrightarrow> rows_ok (snd (sweep_orphans n ids err e))" for ids err e
    by (induction n ids err e rule: sweep_orphans.induct) simp_all
  have "rows_ok e \<Longrightarrow> rows_ok (snd (snd (sweep_rows n ids err k e)))" for ids err k e
    by (induction ids arbitrary: err k e) (simp_all add: Let_def rows_ok_delete)
  with ok orph show ?thesis by (simp add: sweepSessions_state sweepOrphanDirs_def)
qed

lemma step_rows_ok: "engine_step H e e' \<Longrightarrow> rows_ok e \<Longrightarrow> rows_ok e'"
proof (induction rule: engine_step.induct)
  case (delete e n sha)
  then show ?case by (simp add: Delete_def Let_def split: option.splits) (simp add: rows_ok_def)
next
  case (sweep e n)
  then show ?case using rows_ok_sweep [of e n "n_now n"]
    by (simp add: SweepExpiredSessions_def case_prod_unfold Let_def)
next
  case (reopen e n root opts)
  moreover have "rows_ok (fresh_engine opts e) = rows_ok e" by (simp add: fresh_engine_def rows_ok_def)
  ultimately show ?case using rows_ok_sweep [of "fresh_engine opts e" n "n_now n"]
    by (simp add: OpenEngine_def Let_def case_prod_unfold)
next
  case (check_hold e now sha)
  then show ?case by (simp add: rows_ok_def)
qed (simp_all add: rows_ok_begin rows_ok_append rows_ok_commit rows_ok_resume rows_ok_delete Abort_def
    split: option.splits)

lemma reachable_rows_ok: "engine_reachable H e \<Longrightarrow> rows_ok e"
  by (induction rule: engine_reachable.induct) (simp add: rows_ok_def empty_engine_def, rule step_rows_ok)



section \<open>A sweep without faults reclaims everything it may\<close>

definition quiet :: "env \<Rightarrow> bool" where
  "quiet n \<longleftrightarrow> \<not> n_ctx n \<and> (\<forall>c x. \<not> n_fail n c x)"

lemma sweep_rows_quiet:
  assumes "quiet n" "distinct ids" "\<And>sid. sid \<in> set ids \<Longrightarrow> us_get sid e \<noteq> None"
  shows "fst (sweep_rows n ids False k e) = False
    \<and> fst (snd (sweep_rows n ids False k e)) = k + length (filter (\<lambda>i. \<not> isLiveSession e i) ids)
    \<and> (\<forall>sid. us_get sid (snd (snd (sweep_rows n ids False k e)))
          = (if sid \<in> set ids \<and> \<not> isLiveSession e sid then None else us_get sid e))"
  using assms(2,3)
proof (induction ids arbitrary: k e)
  case (Cons i ids)
  let ?e = "us_delete i (remove_dir n i e)"
  have i: "us_get i e \<noteq> None" and d: "distinct ids" "i \<notin> set ids" using Cons.prems by auto
  have q: "\<not> n_fail n c x" for c x using assms(1) by (simp add: quiet_def)
  show ?case
  proof (cases "isLiveSession e i")
    case True
    with Cons.IH [of e k] Cons.prems show ?thesis by auto
  next
    case False
    then have eq: "sweep_rows n (i # ids) False k e = sweep_rows n ids False (k + 1) ?e"
      using i q by (auto simp: Let_def)
    have "us_get sid ?e \<noteq> None" if "sid \<in> set ids" for sid using that Cons.prems d by auto
    from Cons.IH [OF d(1) this] False d show ?thesis unfolding eq by auto
  qed
qed simp

lemma sweep_orphans_quiet:
  assumes "quiet n" "o_sessions (e_opts e)"
  shows "fst (sweep_orphans n ids False e) = False
    \<and> (\<forall>sid\<in>set ids. isLiveSession e sid \<or> us_get sid e \<noteq> None
          \<or> map_of (e_uploads (snd (sweep_orphans n ids False e))) sid = None)
    \<and> (\<forall>sid. map_of (e_uploads e) sid = None \<longrightarrow> map_of (e_uploads (snd (sweep_orphans n ids False e))) sid = None)
    \<and> (\<forall>sid. us_get sid (snd (sweep_orphans n ids False e)) = us_get sid e)"
  using assms(2)
proof (induction ids arbitrary: e)
  case (Cons i ids)
  have gone: "map_of (e_uploads (remove_dir n i e)) i = None"
    using assms(1) by (simp add: remove_dir_def quiet_def delete_conv')
  show ?case
  proof (cases "isLiveSession e i \<or> us_get i e \<noteq> None")
    case True
    with Cons.IH [OF Cons.prems] assms(1) Cons.prems show ?thesis by (auto simp: quiet_def)
  next
    case False
    have none: "map_of (e_uploads e) sid = None \<Longrightarrow> map_of (e_uploads (remove_dir n i e)) sid = None" for sid
      using gone uploads_remove [of sid i n e] by (cases "sid = i") simp_all
    from Cons.IH [of "remove_dir n i e"] Cons.prems gone none False assms(1) show ?thesis
      by (auto simp: quiet_def)
  qed
qed simp

lemma listExpired_keys:
  assumes "rows_ok e"
  shows "distinct (us_listExpired now e)"
    and "sid \<in> set (us_listExpired now e) \<longleftrightarrow> (\<exists>row. us_get sid e = Some row \<and> u_expires row \<le> now)"
proof -
  have inj: "(sid, r) \<in> set (e_rows e) \<longleftrightarrow> us_get sid e = Some r" for sid r
    using assms by (simp add: rows_ok_def us_get_def)
  show "sid \<in> set (us_listExpired now e) \<longleftrightarrow> (\<exists>row. us_get sid e = Some row \<and> u_expires row \<le> now)"
    by (auto simp: us_listExpired_def inj image_iff)
  let ?xs = "filter (\<lambda>(sid, row). u_expires row \<le> now) (e_rows e)"
  have "distinct (map fst ?xs)" using assms by (simp add: rows_ok_def distinct_map_filter)
  moreover have "map snd (map (\<lambda>(sid, row). (u_expires row, sid)) ?xs) = map fst ?xs"
    by (simp add: case_prod_unfold)
  ultimately have d: "distinct (map snd (map (\<lambda>(sid, row). (u_expires row, sid)) ?xs))" by (simp only:)
  have "mset (us_listExpired now e) = mset (map snd (map (\<lambda>(sid, row). (u_expires row, sid)) ?xs))"
    unfolding us_listExpired_def by (simp only: mset_map mset_sort)
  with d show "distinct (us_listExpired now e)" by (metis mset_eq_imp_distinct_iff)
qed

lemma sweep_complete:
  fixes now :: time
  assumes "rows_ok e" "quiet n" "o_sessions (e_opts e)"
  defines "res \<equiv> sweepSessions n now e"
  shows "fst res = False"
    and "us_get sid (snd (snd res)) = Some row \<Longrightarrow> isLiveSession e sid \<or> format_rfc3339 now < u_expires row"
    and "map_of (e_uploads (snd (snd res))) sid \<noteq> None \<Longrightarrow>
      isLiveSession e sid \<or> us_get sid (snd (snd res)) \<noteq> None"
proof -
  let ?ids = "us_listExpired (format_rfc3339 now) e"
  define e1 where "e1 = snd (snd (sweep_rows n ?ids False 0 e))"
  have rows: "fst (sweep_rows n ?ids False 0 e) = False"
    "us_get sid e1 = (if sid \<in> set ?ids \<and> \<not> isLiveSession e sid then None else us_get sid e)" for sid
  proof -
    have "i \<in> set ?ids \<Longrightarrow> us_get i e \<noteq> None" for i
      using listExpired_keys(2) [OF assms(1), of i "format_rfc3339 now"] by auto
    from sweep_rows_quiet [OF assms(2) listExpired_keys(1) [OF assms(1)] this, where k = 0]
    show "fst (sweep_rows n ?ids False 0 e) = False"
      "us_get sid e1 = (if sid \<in> set ?ids \<and> \<not> isLiveSession e sid then None else us_get sid e)"
      unfolding e1_def by blast+
  qed
  have live: "isLiveSession e1 sid = isLiveSession e sid" "o_sessions (e_opts e1)" for sid
    using assms(3) by (simp_all add: e1_def)
  note orph = sweep_orphans_quiet [OF assms(2) live(2), of "sort (map fst (e_uploads e1))"]
  have sd: "sweepOrphanDirs n e1 = sweep_orphans n (sort (map fst (e_uploads e1))) False e1"
    using assms(2) by (simp add: sweepOrphanDirs_def quiet_def)
  have st: "snd (snd res) = snd (sweepOrphanDirs n e1)"
    using assms(2,3) by (simp add: res_def sweepSessions_state e1_def quiet_def)
  have "fst res = (fst (sweep_rows n ?ids False 0 e) \<or> fst (sweepOrphanDirs n e1))"
    using assms(2,3) by (simp add: res_def sweepSessions_def Let_def case_prod_unfold e1_def quiet_def)
  with rows(1) orph sd show "fst res = False" by simp
  show "isLiveSession e sid \<or> format_rfc3339 now < u_expires row" if "us_get sid (snd (snd res)) = Some row"
  proof -
    have "us_get sid e1 = Some row" using that orph by (simp add: st sd)
    then show ?thesis using rows(2) [of sid] listExpired_keys(2) [OF assms(1), of sid]
      by (auto split: if_splits)
  qed
  show "isLiveSession e sid \<or> us_get sid (snd (snd res)) \<noteq> None"
    if "map_of (e_uploads (snd (snd res))) sid \<noteq> None"
  proof -
    have "map_of (e_uploads e1) sid \<noteq> None"
      using that orph [THEN conjunct2, THEN conjunct2, THEN conjunct1, THEN spec, of sid]
      unfolding st sd by argo
    then have mem: "sid \<in> set (sort (map fst (e_uploads e1)))" by (simp add: map_of_eq_None_iff)
    have "isLiveSession e1 sid \<or> us_get sid e1 \<noteq> None"
      using bspec [OF orph [THEN conjunct2, THEN conjunct1] mem] that unfolding st sd by argo
    then show ?thesis unfolding st sd live(1)
      using orph [THEN conjunct2, THEN conjunct2, THEN conjunct2, THEN spec, of sid] by argo
  qed
qed



section \<open>A store to run the properties on\<close>

definition demo_hashes :: hash_suite where
  "demo_hashes = \<lparr>raw_sha256 = (\<lambda>b. take 32 (b @ replicate 32 (CHR ''0''))),
     raw_sha1 = (\<lambda>b. take 20 (b @ replicate 20 (CHR ''0''))),
     raw_md5 = (\<lambda>b. take 16 (b @ replicate 16 (CHR ''0'')))\<rparr>"

definition demo_options :: Options where
  "demo_options = \<lparr>o_ttl = 0, o_holdTTL = 0, o_sessions = True, o_retry = DefaultBusyRetry\<rparr>"

definition demo_env :: "time \<Rightarrow> string \<Rightarrow> env" where
  "demo_env now sid = \<lparr>n_now = now, n_ctx = False, n_uuid = Some sid, n_fail = (\<lambda>_ _. False),
     n_row = (\<lambda>_ _ _. StoreOk), n_ctxAfter = (\<lambda>_. False)\<rparr>"

definition demo_chunk :: "bytes \<Rightarrow> read_ev" where
  "demo_chunk b = \<lparr>r_cancel = False, r_data = b, r_end = ReadMore, r_short = None\<rparr>"

definition demo_expect :: BlobRef where
  "demo_expect = \<lparr>Sha256 = [], Sha1 = [], Md5 = [], Size = 0\<rparr>"

definition demo_uploading :: engine where
  "demo_uploading =
     snd (Append (demo_env 5 ''s1'') 0 [demo_chunk ''ab'', demo_chunk ''c'']
       (snd (BeginSession (demo_env 0 ''s1'') (empty_engine demo_options))))"

lemma demo_hashes_sized: "sized_hashes demo_hashes"
  by (auto simp: sized_hashes_def demo_hashes_def)

lemma demo_uploading_reachable: "engine_reachable H demo_uploading"
  unfolding demo_uploading_def
  by (rule engine_reachable.step [OF engine_reachable.step [OF engine_reachable.init] engine_step.append])
    (rule engine_step.begin_session, simp add: demo_env_def isLiveSession_def empty_engine_def)

lemma demo_retry: "RetryOnBusy ctx p (\<lambda>_. StoreOk) = (StoreOk, 1, [])"
  by (simp add: RetryOnBusy_def busy_loop.simps Let_def)

lemma demo_begin:
  "BeginSession (demo_env 0 ''s1'') (empty_engine demo_options) =
     (Inr 0, (empty_engine demo_options)\<lparr>
        e_uploads := [(''s1'', Some \<lparr>f_data = [], f_mtime = 0\<rparr>)],
        e_rows := [(''s1'', \<lparr>u_state = \<lparr>st_version = 1, st_id = ''s1'', st_created = 0, st_received = 0\<rparr>,
           u_created = format_rfc3339 0, u_expires = format_rfc3339 (24 * hour)\<rparr>)],
        e_heap := [0 \<mapsto> \<lparr>s_id = ''s1'',
           s_state = \<lparr>st_version = 1, st_id = ''s1'', st_created = 0, st_received = 0\<rparr>,
           s_digests = [], s_done = False, s_poisoned = False\<rparr>],
        e_next := 1, e_sessions := [(''s1'', 0)]\<rparr>)"
  by (simp add: BeginSession_def Let_def demo_env_def empty_engine_def demo_options_def session_ttl_def
      DefaultSessionTTL_def persist_create_def us_get_def us_create_def mkdir_upload_def demo_retry
      put_data_def begin_register_def register_session_def newDigesters_def)

lemma demo_uploading_eq:
  "demo_uploading = (empty_engine demo_options)\<lparr>
     e_uploads := [(''s1'', Some \<lparr>f_data = ''abc'', f_mtime = 5\<rparr>)],
     e_rows := [(''s1'', \<lparr>u_state = \<lparr>st_version = 1, st_id = ''s1'', st_created = 0, st_received = 3\<rparr>,
        u_created = format_rfc3339 0, u_expires = format_rfc3339 (24 * hour)\<rparr>)],
     e_heap := [0 \<mapsto> \<lparr>s_id = ''s1'',
        s_state = \<lparr>st_version = 1, st_id = ''s1'', st_created = 0, st_received = 3\<rparr>,
        s_digests = ''abc'', s_done = False, s_poisoned = False\<rparr>],
     e_next := 1, e_sessions := [(''s1'', 0)]\<rparr>"
  unfolding demo_uploading_def demo_begin
  by (simp add: Append_def Let_def demo_chunk_def digest_write_def demo_env_def empty_engine_def
      file_write_def data_file_def write_at_def put_data_def persistStateLocked_def demo_options_def
      us_get_def us_setState_def demo_retry put_session_def numeral_3_eq_3)


definition demo_sha :: string where
  "demo_sha = sum_sha256 (sums demo_hashes ''abc'')"

definition demo_stored :: engine where
  "demo_stored = snd (Commit demo_hashes (demo_env 6 ''s1'') 0 demo_expect demo_uploading)"

lemma demo_sha_valid: "validSha256 demo_sha" "demo_sha \<noteq> []"
proof -
  show "validSha256 demo_sha" unfolding demo_sha_def by (rule sums_valid [OF demo_hashes_sized])
  then show "demo_sha \<noteq> []" by (auto simp: validSha256_def sha256HexLen_def)
qed

lemma demo_commit:
  "fst (Commit demo_hashes (demo_env 6 ''s1'') 0 demo_expect demo_uploading) =
     Inr \<lparr>Sha256 = demo_sha, Sha1 = sum_sha1 (sums demo_hashes ''abc''),
          Md5 = sum_md5 (sums demo_hashes ''abc''), Size = 3\<rparr>"
  "blob_get demo_sha demo_stored = Some \<lparr>f_data = ''abc'', f_mtime = 5\<rparr>"
proof -
  let ?s = "\<lparr>s_id = ''s1'', s_state = \<lparr>st_version = 1, st_id = ''s1'', st_created = 0, st_received = 3\<rparr>,
        s_digests = ''abc'', s_done = False, s_poisoned = False\<rparr>"
  let ?n = "demo_env 6 ''s1''"
  have h: "e_heap demo_uploading 0 = Some ?s" "\<not> s_done ?s" "\<not> s_poisoned ?s" "\<not> n_ctx ?n"
    by (simp_all add: demo_uploading_eq demo_env_def)
  have q: "\<not> n_fail ?n c x" for c x by (simp add: demo_env_def)
  have b: "blob_get demo_sha (hold_acquire 6 demo_sha demo_uploading) = None"
    "data_file ''s1'' (hold_acquire 6 demo_sha demo_uploading) = Some \<lparr>f_data = ''abc'', f_mtime = 5\<rparr>"
    by (simp_all add: blob_get_def data_file_def hold_acquire_def demo_uploading_eq empty_engine_def)
  let ?p = "publish ?n ''s1'' demo_sha (hold_acquire 6 demo_sha demo_uploading)"
  have p: "fst ?p" "blob_get demo_sha (snd ?p) = Some \<lparr>f_data = ''abc'', f_mtime = 5\<rparr>"
    using b q by (simp_all add: publish_def Let_def) (simp add: blob_get_def update_conv')
  have c: "Commit demo_hashes ?n 0 demo_expect demo_uploading =
     (Inr \<lparr>Sha256 = demo_sha, Sha1 = sum_sha1 (sums demo_hashes ''abc''),
          Md5 = sum_md5 (sums demo_hashes ''abc''), Size = 3\<rparr>, finishLocked ?n 0 ?s (snd ?p))"
    using p(1) demo_sha_valid(1)
    unfolding Commit_healthy [OF h]
    by (simp add: demo_sha_def [symmetric] q demo_expect_def normalizeHex_def blobPath_def)
      (simp add: demo_env_def)
  show "fst (Commit demo_hashes ?n 0 demo_expect demo_uploading) =
     Inr \<lparr>Sha256 = demo_sha, Sha1 = sum_sha1 (sums demo_hashes ''abc''),
          Md5 = sum_md5 (sums demo_hashes ''abc''), Size = 3\<rparr>" by (simp add: c)
  show "blob_get demo_sha demo_stored = Some \<lparr>f_data = ''abc'', f_mtime = 5\<rparr>"
    using p(2) unfolding demo_stored_def c by (simp add: blob_get_def finish_fields)
qed



section \<open>Properties\<close>

text \<open>
  C1: Content addressing. In every state the engine can reach, through any sequence of
  operations, restarts and I/O failures, a blob that \<open>Open\<close> serves hashes to the digest it was
  asked by and has the size reported, and \<open>Stat\<close> never finds a corrupt blob: no failed, resumed,
  replaced or concurrent upload session ever publishes bytes under a name they do not hash to.
\<close>

theorem content_addressed:
  assumes "engine_reachable H e"
  shows "(\<forall>data ref. Open n sha e = Inr (data, ref) \<longrightarrow>
      sum_sha256 (sums H data) = sha \<and> Sha256 ref = sha \<and> Size ref = length data)
    \<and> Stat H n sha e \<noteq> Inl ErrBlobCorrupt"
proof -
  have "blobs_ok H e" using reachable_inv [OF assms] by (simp add: engine_inv_def)
  then have *: "sum_sha256 (sums H (f_data f)) = sha" if "blobPath sha \<noteq> None" "blob_get sha e = Some f" for f
    using that by (auto simp: blobs_ok_def blobPath_def split: if_splits)
  show ?thesis
  proof (intro conjI allI impI)
    fix data ref assume "Open n sha e = Inr (data, ref)"
    with * show "sum_sha256 (sums H data) = sha" "Sha256 ref = sha" "Size ref = length data"
      by (auto simp: Open_def split: if_splits option.splits)
  next
    show "Stat H n sha e \<noteq> Inl ErrBlobCorrupt"
      using * by (auto simp: Stat_def digest_write_def newDigesters_def Let_def split: if_splits option.splits)
  qed
qed

theorem content_addressed_witness:
  "engine_reachable demo_hashes demo_stored \<and>
   (\<exists>ref. Open (demo_env 7 []) demo_sha demo_stored = Inr (''abc'', ref) \<and> Sha256 ref = demo_sha)
   \<and> Stat demo_hashes (demo_env 7 []) demo_sha demo_stored \<noteq> Inl ErrBlobCorrupt"
proof -
  have r: "engine_reachable demo_hashes demo_stored"
    unfolding demo_stored_def
    by (rule engine_reachable.step [OF demo_uploading_reachable engine_step.commit])
  have "Open (demo_env 7 []) demo_sha demo_stored =
      Inr (''abc'', \<lparr>Sha256 = demo_sha, Sha1 = [], Md5 = [], Size = 3\<rparr>)"
    using demo_commit(2) demo_sha_valid(1) by (simp add: Open_def demo_env_def blobPath_def)
  with content_addressed [OF r, of "demo_env 7 []" demo_sha] r show ?thesis by simp
qed

text \<open>
  C18: A successful commit. When \<open>Commit\<close> returns a reference, it is the triple of digests and the
  length of the bytes received, every digest the client supplied equals it (letter case aside), a
  blob with that content hash is stored under the sha256, exactly the received bytes if none was
  there before and the untouched old file otherwise, no other blob changed, one more hold on the
  sha is registered, and the session is finished.
\<close>

theorem commit_success:
  assumes "engine_reachable H e" "sized_hashes H" "Commit H n h expect e = (Inr ref, e')"
  shows "\<exists>s. e_heap e h = Some s
    \<and> ref = \<lparr>Sha256 = sum_sha256 (sums H (s_digests s)), Sha1 = sum_sha1 (sums H (s_digests s)),
             Md5 = sum_md5 (sums H (s_digests s)), Size = length (s_digests s)\<rparr>
    \<and> Sha256 expect \<in> {[]} \<union> {x. to_lower x = Sha256 ref}
    \<and> Sha1 expect \<in> {[]} \<union> {x. to_lower x = Sha1 ref}
    \<and> Md5 expect \<in> {[]} \<union> {x. to_lower x = Md5 ref}
    \<and> (\<exists>f. blob_get (Sha256 ref) e' = Some f
          \<and> (case blob_get (Sha256 ref) e of None \<Rightarrow> f_data f = s_digests s | Some g \<Rightarrow> f = g))
    \<and> (\<forall>sha. sha \<noteq> Sha256 ref \<longrightarrow> blob_get sha e' = blob_get sha e)
    \<and> (\<forall>sha. hold_registrations (e_holds e') sha
          = hold_registrations (e_holds e) sha + (if sha = Sha256 ref then 1 else 0))
    \<and> (\<exists>s'. e_heap e' h = Some s' \<and> s_done s')"
proof -
  obtain s f p where s: "e_heap e h = Some s"
    and f: "data_file (s_id s) e = Some f" "f_data f = s_digests s"
    and ref: "ref = actual_ref H s" and good: "digests_match expect ref"
    and pub: "publish n (s_id s) (Sha256 ref) (hold_acquire (n_now n) (Sha256 ref) e) = (True, p)"
    and e': "e' = finishLocked n h s p"
    using Commit_successE [OF assms] .
  let ?e1 = "hold_acquire (n_now n) (Sha256 ref) e"
  have df1: "data_file (s_id s) ?e1 = Some f" using f(1) data_file_cong [of ?e1 e] by (simp add: eng_simps)
  note P = publish_blobs [OF pub]
  have "blob_get x e' = blob_get x p" for x by (simp add: e' blob_get_def finish_fields)
  moreover have "\<exists>g. blob_get (Sha256 ref) p = Some g \<and>
      (case blob_get (Sha256 ref) e of None \<Rightarrow> f_data g = s_digests s | Some k \<Rightarrow> g = k)"
    using P(2,3) df1 f(2) by (cases "blob_get (Sha256 ref) e") auto
  moreover have "hold_registrations (e_holds e') x
      = hold_registrations (e_holds e) x + (if x = Sha256 ref then 1 else 0)" for x
    by (simp add: e' finish_fields P(4) eng_simps hs.cnt_acq)
  moreover have "e_heap e' h = Some (s\<lparr>s_done := True\<rparr>)" by (simp add: e' finish_fields)
  ultimately show ?thesis
    using s ref good P(1) by (auto simp: digests_match_def actual_ref_def)
qed

theorem commit_success_witness:
  "\<exists>ref e'. Commit demo_hashes (demo_env 6 ''s1'') 0 demo_expect demo_uploading = (Inr ref, e')
     \<and> hold_registrations (e_holds e') (Sha256 ref) = hold_registrations (e_holds demo_uploading) (Sha256 ref) + 1"
proof -
  obtain ref where c: "Commit demo_hashes (demo_env 6 ''s1'') 0 demo_expect demo_uploading = (Inr ref, demo_stored)"
    using demo_commit(1) by (metis demo_stored_def prod.collapse)
  with commit_success [OF demo_uploading_reachable demo_hashes_sized c] show ?thesis by force
qed

text \<open>
  C19: A failed commit. When \<open>Commit\<close> returns an error, the count of holds on every sha is what it
  was, every blob that was stored still is, a digest mismatch (or a malformed digest) leaves the
  blob store and the hold set entirely unchanged, and a session that was open is finished.
\<close>

theorem commit_failure:
  assumes "Commit H n h expect e = (Inl err, e')"
  shows "(\<forall>sha. hold_registrations (e_holds e') sha = hold_registrations (e_holds e) sha)
    \<and> (\<forall>sha f. blob_get sha e = Some f \<longrightarrow> blob_get sha e' = Some f)
    \<and> (err = ErrChecksumMismatch \<longrightarrow> e_blobs e' = e_blobs e \<and> e_holds e' = e_holds e)
    \<and> (\<forall>s. e_heap e h = Some s \<longrightarrow> (\<exists>s'. e_heap e' h = Some s' \<and> s_done s'))"
  using Commit_failed [OF assms] .

theorem commit_failure_witness:
  "\<exists>e'. Commit demo_hashes (demo_env 6 ''s1'') 0 (demo_expect\<lparr>Sha256 := ''00''\<rparr>) demo_uploading
       = (Inl ErrChecksumMismatch, e') \<and> e_blobs e' = e_blobs demo_uploading"
proof -
  have "fst (Commit demo_hashes (demo_env 6 ''s1'') 0 (demo_expect\<lparr>Sha256 := ''00''\<rparr>) demo_uploading)
      = Inl ErrChecksumMismatch"
    by (simp add: Commit_def demo_uploading_eq empty_engine_def demo_env_def Let_def demo_expect_def
        normalizeHex_def sha256HexLen_def)
  then obtain e' where "Commit demo_hashes (demo_env 6 ''s1'') 0 (demo_expect\<lparr>Sha256 := ''00''\<rparr>) demo_uploading
      = (Inl ErrChecksumMismatch, e')" by (metis prod.collapse)
  with commit_failure [OF this] show ?thesis by blast
qed


text \<open>
  The two expiry tests agree. For a row whose expiry was written by the engine, the sweep's
  text comparison \<open>expires_at <= now\<close> selects it exactly when \<open>sessionRowExpired\<close> refuses to
  resume it, at every instant of the years 1 to 9999, fractions of seconds included: a resume and
  a sweep never disagree about a session.
\<close>

theorem expiry_tests_agree:
  assumes "rows_ok e" "us_get sid e = Some row" "u_expires row = format_rfc3339 x"
    and "printable_time x" "printable_time now"
  shows "sid \<in> set (us_listExpired (format_rfc3339 now) e) \<longleftrightarrow> sessionRowExpired (us_get sid e) now"
proof -
  have "sid \<in> set (us_listExpired (format_rfc3339 now) e) \<longleftrightarrow> x div second \<le> now div second"
    using assms listExpired_keys(2) [OF assms(1), of sid] by (simp add: format_rfc3339_le)
  also have "\<dots> \<longleftrightarrow> x div second * second \<le> now"
    unfolding second_def by linarith
  also have "\<dots> \<longleftrightarrow> sessionRowExpired (us_get sid e) now"
    using assms by (simp add: sessionRowExpired_def parse_format_rfc3339 not_less)
  finally show ?thesis .
qed

lemma demo_printable: "printable_time 5" "printable_time (24 * hour)" "printable_time (24 * hour + 7)"
  by (simp_all add: printable_time_def abs_seconds_def unix_to_internal_def duration_defs)

theorem expiry_tests_agree_witness:
  "''s1'' \<in> set (us_listExpired (format_rfc3339 (24 * hour + 7)) demo_uploading)
     \<longleftrightarrow> sessionRowExpired (us_get ''s1'' demo_uploading) (24 * hour + 7)"
proof -
  obtain row where row: "us_get ''s1'' demo_uploading = Some row" "u_expires row = format_rfc3339 (24 * hour)"
    by (simp add: demo_uploading_eq us_get_def)
  show ?thesis
    by (rule expiry_tests_agree [OF reachable_rows_ok [OF demo_uploading_reachable [of demo_hashes]] row demo_printable(2,3)])
qed

text \<open>
  C21: What the sweep may take. In every reachable state, under any I/O failures, a sweep leaves
  the directory, the data and the row of a session alone if the session is live in this process
  or its row has not expired; and a sweep that meets no failure reports none and leaves only rows
  that are live or unexpired, and only directories that are live or have such a row.
\<close>

theorem sweep_exact:
  assumes "engine_reachable H e" "o_sessions (e_opts e)" "sweepSessions n now e = (err, k, e')"
  shows "(isLiveSession e sid \<or> (\<exists>row. us_get sid e = Some row \<and> format_rfc3339 now < u_expires row)
            \<longrightarrow> map_of (e_uploads e') sid = map_of (e_uploads e) sid \<and> us_get sid e' = us_get sid e)
    \<and> (quiet n \<longrightarrow> err = False
          \<and> (\<forall>row. us_get sid e' = Some row \<longrightarrow> isLiveSession e sid \<or> format_rfc3339 now < u_expires row)
          \<and> (map_of (e_uploads e') sid \<noteq> None \<longrightarrow> isLiveSession e sid \<or> us_get sid e' \<noteq> None))"
  using sweep_safe [of e now sid n] sweep_complete [OF reachable_rows_ok [OF assms(1)] _ assms(2), where n = n and now = now]
    reachable_rows_ok [OF assms(1)] assms(2,3)
  by (simp add: protected_def same_session_def rows_ok_def)

theorem sweep_exact_witness:
  "\<exists>err k e'. sweepSessions (demo_env 5 []) 5 demo_uploading = (err, k, e')
     \<and> us_get ''s1'' e' = us_get ''s1'' demo_uploading"
proof -
  obtain err k e' where r: "sweepSessions (demo_env 5 []) 5 demo_uploading = (err, k, e')" by (metis prod_cases3)
  have "isLiveSession demo_uploading ''s1''" "o_sessions (e_opts demo_uploading)"
    by (simp_all add: demo_uploading_eq empty_engine_def demo_options_def isLiveSession_def)
  with sweep_exact [OF demo_uploading_reachable [of demo_hashes] _ r, of "''s1''"] r show ?thesis by blast
qed

lemma quiet_resume:
  assumes "quiet n" "\<not> e_closed e" "trim_space sid \<noteq> []" "o_sessions (e_opts e)"
    and "us_get sid e = Some row" "\<not> sessionRowExpired (Some row) (n_now n)"
    and "data_file sid e = Some f" "e_sessions e = []"
  shows "\<exists>h' e2 s'. ResumeSession n sid e = (Inr h', e2) \<and> e_heap e2 h' = Some s'
    \<and> \<not> s_done s' \<and> \<not> s_poisoned s' \<and> s_digests s' = f_data f \<and> Offset h' e2 = length (f_data f)"
proof -
  have "map_of (e_uploads e) sid \<noteq> None" using assms(7) by (auto simp: data_file_def split: option.splits)
  with assms show ?thesis
    by (simp add: ResumeSession_def quiet_def resume_register_def register_session_def Offset_def
        digest_write_def newDigesters_def Let_def)
qed

lemma sweep_registry:
  "e_sessions (snd (snd (sweepSessions n now e))) = e_sessions e"
  "e_opts (snd (snd (sweepSessions n now e))) = e_opts e"
  "e_closed (snd (snd (sweepSessions n now e))) = e_closed e"
proof -
  have o: "e_sessions (snd (sweep_orphans n ids err e)) = e_sessions e"
    "e_opts (snd (sweep_orphans n ids err e)) = e_opts e"
    "e_closed (snd (sweep_orphans n ids err e)) = e_closed e" for ids err e
    by (induction n ids err e rule: sweep_orphans.induct) (simp_all add: remove_dir_def)
  have r: "e_sessions (snd (snd (sweep_rows n ids err k e))) = e_sessions e"
    "e_opts (snd (snd (sweep_rows n ids err k e))) = e_opts e"
    "e_closed (snd (snd (sweep_rows n ids err k e))) = e_closed e" for ids err k e
    by (induction ids arbitrary: err k e) (simp_all add: Let_def remove_dir_def us_delete_def)
  show "e_sessions (snd (snd (sweepSessions n now e))) = e_sessions e"
    "e_opts (snd (snd (sweepSessions n now e))) = e_opts e"
    "e_closed (snd (snd (sweepSessions n now e))) = e_closed e"
    by (simp_all add: sweepSessions_state sweepOrphanDirs_def o r)
qed

text \<open>
  C20: Uploads survive a restart. Take any reachable state with a usable session whose row has not
  expired. After a clean \<open>Close\<close> or a crash, once the store is opened again (whatever failures
  the opening sweep met), a resume that meets no failure succeeds, and the resumed session has the
  same digest state and the same offset, so that appending the rest and committing it goes on as
  if nothing had happened.
\<close>

theorem restart_resumes:
  assumes "engine_reachable H e" "e_heap e h = Some s" "\<not> s_done s" "\<not> s_poisoned s"
    and "us_get (s_id s) e = Some row" "u_expires row = format_rfc3339 x" "printable_time x"
    and "disk \<in> {e, Close e}" "o_sessions opts" "trim_space (s_id s) \<noteq> []"
    and "OpenEngine n root opts disk = (Inr (), e1)" "printable_time (n_now n)"
    and "quiet n'" "n_now n < x div second * second" "n_now n' < x div second * second"
  shows "\<exists>h' e2 s'. ResumeSession n' (s_id s) e1 = (Inr h', e2) \<and> e_heap e2 h' = Some s'
    \<and> \<not> s_done s' \<and> \<not> s_poisoned s' \<and> s_digests s' = s_digests s \<and> Offset h' e2 = Offset h e"
proof -
  let ?f = "fresh_engine opts disk"
  have e1: "e1 = snd (snd (sweepSessions n (n_now n) ?f))"
    using assms(11) by (auto simp: OpenEngine_def Let_def case_prod_unfold split: if_splits)
  have disk: "e_uploads ?f = e_uploads e" "e_rows ?f = e_rows e" "o_sessions (e_opts ?f)" "e_sessions ?f = []"
    using assms(8,9) by (auto simp: fresh_engine_def eng_simps)
  obtain f where f: "data_file (s_id s) e = Some f" "f_data f = s_digests s"
      "st_received (s_state s) = length (s_digests s)"
    using healthy_sessionE [OF reachable_inv [OF assms(1)] assms(2-4)] by metis
  have "n_now n div second < x div second"
    using assms(14) by (simp add: second_def)
  then have "format_rfc3339 (n_now n) < u_expires row" using assms by (simp add: format_rfc3339_less)
  then have "protected (format_rfc3339 (n_now n)) ?f (s_id s)"
    using assms(5) disk by (auto simp: protected_def us_get_def)
  moreover have "distinct (map fst (e_rows ?f))"
    using reachable_rows_ok [OF assms(1)] disk(2) by (simp add: rows_ok_def)
  ultimately have same: "same_session (s_id s) ?f e1" unfolding e1 by (intro sweep_safe)
  have "data_file (s_id s) e1 = Some f" "us_get (s_id s) e1 = Some row"
    using same f(1) assms(5) disk by (simp_all add: same_session_def data_file_def us_get_def)
  moreover have "\<not> e_closed e1" "o_sessions (e_opts e1)" "e_sessions e1 = []"
    using disk by (simp_all add: e1 sweep_registry fresh_engine_def)
  moreover have "\<not> sessionRowExpired (Some row) (n_now n')"
    using assms(6,7,15) by (simp add: sessionRowExpired_def parse_format_rfc3339)
  ultimately show ?thesis
    using quiet_resume [OF assms(13), of e1 "s_id s" row f] assms(2,10) f by (simp add: Offset_def)
qed

theorem restart_resumes_witness:
  "\<exists>e1 h' e2. OpenEngine (demo_env 5 []) ''/data'' demo_options (Close demo_uploading) = (Inr (), e1)
     \<and> ResumeSession (demo_env 6 []) ''s1'' e1 = (Inr h', e2) \<and> Offset h' e2 = 3"
proof -
  let ?s = "\<lparr>s_id = ''s1'', s_state = \<lparr>st_version = 1, st_id = ''s1'', st_created = 0, st_received = 3\<rparr>,
        s_digests = ''abc'', s_done = False, s_poisoned = False\<rparr>"
  have h: "e_heap demo_uploading 0 = Some ?s" "\<not> s_done ?s" "\<not> s_poisoned ?s"
    by (simp_all add: demo_uploading_eq)
  have q: "quiet (demo_env t [])" for t by (simp add: quiet_def demo_env_def)
  obtain row where row: "us_get (s_id ?s) demo_uploading = Some row" "u_expires row = format_rfc3339 (24 * hour)"
    by (simp add: demo_uploading_eq us_get_def)
  let ?f = "fresh_engine demo_options (Close demo_uploading)"
  have "rows_ok ?f" using reachable_rows_ok [OF demo_uploading_reachable [of demo_hashes]]
    by (simp add: fresh_engine_def rows_ok_def eng_simps)
  then have "fst (sweepSessions (demo_env 5 []) 5 ?f) = False"
    by (rule sweep_complete(1) [OF _ q]) (simp add: fresh_engine_def demo_options_def)
  then obtain e1 where o: "OpenEngine (demo_env 5 []) ''/data'' demo_options (Close demo_uploading) = (Inr (), e1)"
    by (simp add: OpenEngine_def Let_def case_prod_unfold demo_env_def)
  have "\<exists>h' e2 s'. ResumeSession (demo_env 6 []) (s_id ?s) e1 = (Inr h', e2) \<and> e_heap e2 h' = Some s'
    \<and> \<not> s_done s' \<and> \<not> s_poisoned s' \<and> s_digests s' = s_digests ?s \<and> Offset h' e2 = Offset 0 demo_uploading"
    by (rule restart_resumes [OF demo_uploading_reachable h row demo_printable(2) _ _ _ o _ q])
      (simp_all add: demo_options_def demo_env_def demo_printable trim_space_def is_space_def byte_of_def duration_defs)
  with o h(1) show ?thesis by (force simp: Offset_def)
qed

end
