(* ===== verification/Storage_GC.thy ===== *)
theory Storage_GC
  imports Storage_Contract
begin

text \<open>
  The garbage collector (\<open>storage/gc.go\<close>): the sequential sweep over the blob directory with its
  gates, and the concurrent argument for deleting while uploads run.

  The marker (\<open>GCMarker\<close>) is what the callers pass in, so its answers are the parameter
  \<open>gc_marker\<close>: the first \<open>Mark\<close> snapshot, the refreshed one, and the single-point \<open>Live\<close>; \<open>None\<close> is
  an error. The order of the two delete gates is one definition, \<open>gcDeleteGate_order\<close>, that both
  the sequential sweep and the interleaving model run through.

  The sequential sweep reads the clock once (\<open>n_now\<close>) for the grace period and every held check,
  where the source reads it at each check: it is the view of a sweep that takes no time. In the
  interleaving model every held check has its own instant.
\<close>

section \<open>The delete gates\<close>

datatype gate = HoldGate | LiveGate

definition gcDeleteGate_order :: "gate list" where
  "gcDeleteGate_order = [HoldGate, LiveGate]"

record gc_marker =
  m_legacy :: bool
  m_mark :: "string list option"
  m_remark :: "string list option"
  m_live :: "string \<Rightarrow> bool option"

text \<open>
  The sweep's variables: whether an error was recorded, the candidates and deleted shas in the
  order they were found, the refreshed snapshot of the legacy recheck once it is fetched, and the
  engine.
\<close>

record gc_state =
  g_err :: bool
  g_cand :: "string list"
  g_del :: "string list"
  g_snap :: "string list option option"
  g_eng :: engine

definition gcRecheck_live :: "gc_marker \<Rightarrow> string \<Rightarrow> gc_state \<Rightarrow> bool option \<times> gc_state" where
  "gcRecheck_live m sha g =
     (if \<not> m_legacy m then (m_live m sha, g)
      else
        let snap = (case g_snap g of Some s \<Rightarrow> s | None \<Rightarrow> m_remark m);
            g' = g\<lparr>g_snap := Some snap\<rparr>
        in (case snap of None \<Rightarrow> (None, g') | Some refs \<Rightarrow> (Some (sha \<in> set refs), g')))"

definition hold_check :: "env \<Rightarrow> string \<Rightarrow> gc_state \<Rightarrow> bool \<times> gc_state" where
  "hold_check n sha g =
     (let (b, h) = held (n_now n) sha (e_holds (g_eng g))
      in (b, g\<lparr>g_eng := (g_eng g)\<lparr>e_holds := h\<rparr>\<rparr>))"

text \<open>Run the gates: \<open>Some True\<close> skips the candidate, \<open>None\<close> is a recheck error.\<close>

fun run_gates :: "gate list \<Rightarrow> env \<Rightarrow> gc_marker \<Rightarrow> string \<Rightarrow> gc_state \<Rightarrow> bool option \<times> gc_state" where
  "run_gates [] n m sha g = (Some False, g)"
| "run_gates (HoldGate # gs) n m sha g =
     (case hold_check n sha g of
        (True, g') \<Rightarrow> (Some True, g')
      | (False, g') \<Rightarrow> run_gates gs n m sha g')"
| "run_gates (LiveGate # gs) n m sha g =
     (case gcRecheck_live m sha g of
        (None, g') \<Rightarrow> (None, g')
      | (Some True, g') \<Rightarrow> (Some True, g')
      | (Some False, g') \<Rightarrow> run_gates gs n m sha g')"

definition gcDeleteGate_skip :: "env \<Rightarrow> gc_marker \<Rightarrow> string \<Rightarrow> gc_state \<Rightarrow> bool option \<times> gc_state" where
  "gcDeleteGate_skip n m sha g = run_gates gcDeleteGate_order n m sha g"


section \<open>The sweep\<close>

definition validShardName :: "string \<Rightarrow> bool" where
  "validShardName s \<longleftrightarrow> length s = 2 \<and> list_all lower_hex s"

definition DefaultGCGrace :: duration where "DefaultGCGrace = 24 * hour"

definition gc_delete :: "env \<Rightarrow> gc_marker \<Rightarrow> string \<Rightarrow> gc_state \<Rightarrow> gc_state" where
  "gc_delete n m sha g =
     (case gcDeleteGate_skip n m sha g of
        (None, g') \<Rightarrow> g'\<lparr>g_err := True\<rparr>
      | (Some True, g') \<Rightarrow> g'
      | (Some False, g') \<Rightarrow>
          (case Delete n sha (g_eng g') of
             (Inl _, e) \<Rightarrow> g'\<lparr>g_err := True, g_eng := e\<rparr>
           | (Inr _, e) \<Rightarrow> g'\<lparr>g_del := g_del g' @ [sha], g_eng := e\<rparr>))"

definition gc_blob :: "env \<Rightarrow> string list \<Rightarrow> gc_marker \<Rightarrow> duration \<Rightarrow> bool \<Rightarrow> bool \<Rightarrow> string \<Rightarrow> string
    \<Rightarrow> gc_state \<Rightarrow> gc_state" where
  "gc_blob n refs m grace apply countHolds shard name g =
     (if \<not> validSha256 name \<or> take 2 name \<noteq> shard then g
      else if name \<in> set refs then g
      else
        case (if countHolds then hold_check n name g else (False, g)) of
          (True, g1) \<Rightarrow> g1
        | (False, g1) \<Rightarrow>
            if n_fail n IoStat name then g1\<lparr>g_err := True\<rparr>
            else case map_of (e_blobs (g_eng g1)) (shard, name) of
              None \<Rightarrow> g1\<lparr>g_err := True\<rparr>
            | Some f \<Rightarrow>
                if n_now n - f_mtime f \<le> grace then g1
                else
                  let g2 = g1\<lparr>g_cand := g_cand g1 @ [name]\<rparr>
                  in if apply then gc_delete n m name g2 else g2)"

definition shard_names :: "string \<Rightarrow> engine \<Rightarrow> string list" where
  "shard_names shard e = sort (remdups (map snd (filter (\<lambda>k. fst k = shard) (map fst (e_blobs e)))))"

definition shard_list :: "engine \<Rightarrow> string list" where
  "shard_list e = sort (remdups (map fst (map fst (e_blobs e))))"

text \<open>
  The outer loop; the result's flag tells whether the context was cancelled before the end, asked
  from the environment before each shard (\<open>k\<close> counts them).
\<close>

fun gc_shards :: "env \<Rightarrow> string list \<Rightarrow> gc_marker \<Rightarrow> duration \<Rightarrow> bool \<Rightarrow> bool \<Rightarrow> nat \<Rightarrow> string list
    \<Rightarrow> gc_state \<Rightarrow> bool \<times> gc_state" where
  "gc_shards n refs m grace apply countHolds k [] g = (False, g)"
| "gc_shards n refs m grace apply countHolds k (shard # shards) g =
     (if n_ctxAfter n k then (True, g)
      else if \<not> validShardName shard then gc_shards n refs m grace apply countHolds (k + 1) shards g
      else if n_fail n IoReadDir shard
      then gc_shards n refs m grace apply countHolds (k + 1) shards (g\<lparr>g_err := True\<rparr>)
      else gc_shards n refs m grace apply countHolds (k + 1) shards
             (fold (gc_blob n refs m grace apply countHolds shard) (shard_names shard (g_eng g)) g))"

text \<open>The list and whether an error is returned with it, and the engine after the sweep.\<close>

definition gcSweep :: "env \<Rightarrow> gc_marker \<Rightarrow> duration \<Rightarrow> bool \<Rightarrow> bool \<Rightarrow> engine
    \<Rightarrow> (string list \<times> bool) \<times> engine" where
  "gcSweep n m grace0 apply countHolds e =
     (let grace = (if grace0 \<le> 0 then DefaultGCGrace else grace0)
      in if n_ctx n then (([], True), e)
         else if e_closed e then (([], True), e)
         else case m_mark m of
           None \<Rightarrow> (([], True), e)
         | Some refs \<Rightarrow>
             if n_fail n IoReadDir [] then (([], True), e)
             else
               let (cancelled, g) = gc_shards n refs m grace apply countHolds 0 (shard_list e)
                     \<lparr>g_err = False, g_cand = [], g_del = [], g_snap = None, g_eng = e\<rparr>
               in if cancelled then ((g_cand g, True), g_eng g)
                  else if g_err g then ((sort (g_cand g), True), g_eng g)
                  else if apply then ((sort (g_del g), False), g_eng g)
                  else ((sort (g_cand g), False), g_eng g))"

definition GCSweep :: "env \<Rightarrow> gc_marker \<Rightarrow> duration \<Rightarrow> bool \<Rightarrow> engine \<Rightarrow> (string list \<times> bool) \<times> engine" where
  "GCSweep n m grace apply e = gcSweep n m grace apply True e"

text \<open>The legacy face: the callback's first and second answers, no single-point recheck.\<close>

definition GC :: "env \<Rightarrow> (nat \<Rightarrow> string list option) \<Rightarrow> duration \<Rightarrow> bool \<Rightarrow> engine
    \<Rightarrow> (string list \<times> bool) \<times> engine" where
  "GC n referenced grace apply e =
     GCSweep n \<lparr>m_legacy = True, m_mark = referenced 0, m_remark = referenced 1, m_live = (\<lambda>_. None)\<rparr>
       grace apply e"

definition emptyMarker :: gc_marker where
  "emptyMarker = \<lparr>m_legacy = False, m_mark = Some [], m_remark = Some [], m_live = (\<lambda>_. Some False)\<rparr>"

definition gcList :: "env \<Rightarrow> engine \<Rightarrow> (string list \<times> bool) \<times> engine" where
  "gcList n e = gcSweep n emptyMarker nanosecond False False e"


section \<open>What one candidate goes through\<close>

text \<open>The sha is protected by a hold at the time of the sweep.\<close>

definition held_now :: "env \<Rightarrow> string \<Rightarrow> engine \<Rightarrow> bool" where
  "held_now n sha e \<longleftrightarrow> fst (held (n_now n) sha (e_holds e))"

lemma held_now_iff:
  "held_now n sha e \<longleftrightarrow> 0 < hold_registrations (e_holds e) sha
     \<and> n_now n - hold_since (e_holds e) sha < hold_ttl (e_holds e)"
  by (simp add: held_now_def hs.chk_iff)

lemma held_stable:
  "fst (held t s (snd (held t s' h))) \<longleftrightarrow> fst (held t s h)"
  by (auto simp: held_def split: option.splits if_splits)

lemma hold_check_simps:
  "fst (hold_check n sha g) \<longleftrightarrow> held_now n sha (g_eng g)"
  "g_cand (snd (hold_check n sha g)) = g_cand g" "g_del (snd (hold_check n sha g)) = g_del g"
  "g_err (snd (hold_check n sha g)) = g_err g" "g_snap (snd (hold_check n sha g)) = g_snap g"
  "e_blobs (g_eng (snd (hold_check n sha g))) = e_blobs (g_eng g)"
  "e_closed (g_eng (snd (hold_check n sha g))) = e_closed (g_eng g)"
  "held_now n s (g_eng (snd (hold_check n sha g))) = held_now n s (g_eng g)"
  by (simp_all add: hold_check_def held_now_def case_prod_unfold Let_def held_stable)


definition recheck_dead :: "gc_marker \<Rightarrow> string \<Rightarrow> bool" where
  "recheck_dead m sha \<longleftrightarrow>
     (if m_legacy m then \<exists>refs. m_remark m = Some refs \<and> sha \<notin> set refs else m_live m sha = Some False)"

definition recheck_total :: "gc_marker \<Rightarrow> bool" where
  "recheck_total m \<longleftrightarrow> (if m_legacy m then m_remark m \<noteq> None else \<forall>sha. m_live m sha \<noteq> None)"

text \<open>
  Collectable: a well-named blob file, outside the mark snapshot, with no hold, older than the
  grace period, and not live at the recheck.
\<close>

definition collectable :: "env \<Rightarrow> string list \<Rightarrow> gc_marker \<Rightarrow> duration \<Rightarrow> engine \<Rightarrow> string \<Rightarrow> os_file \<Rightarrow> bool" where
  "collectable n refs m grace e sha f \<longleftrightarrow>
     validSha256 sha \<and> sha \<notin> set refs \<and> \<not> held_now n sha e \<and> grace < n_now n - f_mtime f \<and> recheck_dead m sha"

text \<open>What stays the same of the sweep's surroundings while it runs.\<close>

definition gc_same :: "env \<Rightarrow> gc_marker \<Rightarrow> engine \<Rightarrow> gc_state \<Rightarrow> bool" where
  "gc_same n m e g \<longleftrightarrow>
     g_snap g \<in> {None, Some (m_remark m)} \<and> e_closed (g_eng g) = e_closed e
     \<and> (\<forall>s. held_now n s (g_eng g) = held_now n s e)"

lemma recheck_simps:
  assumes "gc_same n m e g"
  shows "fst (gcRecheck_live m sha g) = Some False \<longleftrightarrow> recheck_dead m sha"
    "recheck_total m \<Longrightarrow> fst (gcRecheck_live m sha g) \<noteq> None"
    "gc_same n m e (snd (gcRecheck_live m sha g))"
    "g_cand (snd (gcRecheck_live m sha g)) = g_cand g" "g_del (snd (gcRecheck_live m sha g)) = g_del g"
    "g_err (snd (gcRecheck_live m sha g)) = g_err g" "g_eng (snd (gcRecheck_live m sha g)) = g_eng g"
  using assms
  by (auto simp: gcRecheck_live_def recheck_dead_def recheck_total_def gc_same_def Let_def split: option.splits)

lemma hold_check_same: "gc_same n m e g \<Longrightarrow> gc_same n m e (snd (hold_check n sha g))"
  by (simp add: gc_same_def hold_check_simps)

lemma skip_spec:
  assumes "gc_same n m e g" "gcDeleteGate_skip n m sha g = (r, g')"
  shows "gc_same n m e g'" "g_cand g' = g_cand g" "g_del g' = g_del g" "g_err g' = g_err g"
    "e_blobs (g_eng g') = e_blobs (g_eng g)"
    "r = Some False \<longleftrightarrow> \<not> held_now n sha e \<and> recheck_dead m sha"
    "recheck_total m \<Longrightarrow> r \<noteq> None"
proof -
  obtain b g1 where h: "hold_check n sha g = (b, g1)" by fastforce
  obtain l g2 where l: "gcRecheck_live m sha g1 = (l, g2)" by fastforce
  have s1: "gc_same n m e g1" using hold_check_same [OF assms(1), of sha] h by simp
  note H = hold_check_simps [where n = n and sha = sha and g = g, unfolded h fst_conv snd_conv]
  note L = recheck_simps [OF s1, where sha = sha, unfolded l fst_conv snd_conv]
  have hb: "b \<longleftrightarrow> held_now n sha e" using H(1) assms(1) by (simp add: gc_same_def)
  have r: "(r, g') = (if b then (Some True, g1) else (l, g2))"
    using assms(2) h l by (cases l) (auto simp: gcDeleteGate_skip_def gcDeleteGate_order_def split: bool.splits)
  show "gc_same n m e g'" "g_cand g' = g_cand g" "g_del g' = g_del g" "g_err g' = g_err g"
    "e_blobs (g_eng g') = e_blobs (g_eng g)"
    "r = Some False \<longleftrightarrow> \<not> held_now n sha e \<and> recheck_dead m sha" "recheck_total m \<Longrightarrow> r \<noteq> None"
    using r s1 H L hb by (auto split: if_splits)
qed

lemma Delete_blobs:
  assumes "Delete n sha e = (r, e')"
  shows "e_closed e' = e_closed e" "e_holds e' = e_holds e"
    "e_blobs e' = e_blobs e \<or> (validSha256 sha \<and> e_blobs e' = AList.delete (blobKey sha) (e_blobs e))"
    "quiet n \<Longrightarrow> \<not> e_closed e \<Longrightarrow> validSha256 sha \<Longrightarrow> blob_get sha e \<noteq> None \<Longrightarrow>
       r = Inr () \<and> e_blobs e' = AList.delete (blobKey sha) (e_blobs e)"
  using assms by (auto simp: Delete_def blobPath_def Let_def quiet_def split: if_splits)

lemma gc_delete_spec:
  assumes "gc_same n m e g" "validSha256 sha"
  shows "gc_same n m e (gc_delete n m sha g)" "g_cand (gc_delete n m sha g) = g_cand g"
    and "e_blobs (g_eng (gc_delete n m sha g)) = e_blobs (g_eng g)
      \<or> (\<not> held_now n sha e \<and> recheck_dead m sha
          \<and> e_blobs (g_eng (gc_delete n m sha g)) = AList.delete (blobKey sha) (e_blobs (g_eng g)))"
    and "quiet n \<Longrightarrow> recheck_total m \<Longrightarrow> \<not> e_closed e \<Longrightarrow> blob_get sha (g_eng g) \<noteq> None \<Longrightarrow>
      g_err (gc_delete n m sha g) = g_err g
      \<and> (if \<not> held_now n sha e \<and> recheck_dead m sha
         then g_del (gc_delete n m sha g) = g_del g @ [sha]
           \<and> e_blobs (g_eng (gc_delete n m sha g)) = AList.delete (blobKey sha) (e_blobs (g_eng g))
         else g_del (gc_delete n m sha g) = g_del g
           \<and> e_blobs (g_eng (gc_delete n m sha g)) = e_blobs (g_eng g))"
proof -
  obtain r g1 where sk: "gcDeleteGate_skip n m sha g = (r, g1)" by fastforce
  obtain d e2 where del: "Delete n sha (g_eng g1) = (d, e2)" by fastforce
  note S = skip_spec [OF assms(1) sk]
  note D = Delete_blobs [OF del]
  have same2: "gc_same n m e (g1\<lparr>g_eng := e2\<rparr>)"
    using S(1) D(1,2) by (simp add: gc_same_def held_now_def)
  have eq: "gc_delete n m sha g = (case r of None \<Rightarrow> g1\<lparr>g_err := True\<rparr> | Some True \<Rightarrow> g1
      | Some False \<Rightarrow> (case d of Inl _ \<Rightarrow> g1\<lparr>g_err := True, g_eng := e2\<rparr>
           | Inr _ \<Rightarrow> g1\<lparr>g_del := g_del g1 @ [sha], g_eng := e2\<rparr>))"
    by (simp add: gc_delete_def sk del split: option.splits bool.splits sum.splits)
  show "gc_same n m e (gc_delete n m sha g)" "g_cand (gc_delete n m sha g) = g_cand g"
    using S(1,2) same2 unfolding eq by (auto simp: gc_same_def split: option.splits bool.splits sum.splits)
  show "e_blobs (g_eng (gc_delete n m sha g)) = e_blobs (g_eng g)
      \<or> (\<not> held_now n sha e \<and> recheck_dead m sha
          \<and> e_blobs (g_eng (gc_delete n m sha g)) = AList.delete (blobKey sha) (e_blobs (g_eng g)))"
    using S(5,6) D(3) unfolding eq by (auto split: option.splits bool.splits sum.splits)
  assume q: "quiet n" "recheck_total m" "\<not> e_closed e" "blob_get sha (g_eng g) \<noteq> None"
  have "\<not> e_closed (g_eng g1)" "blob_get sha (g_eng g1) \<noteq> None"
    using S(1,5) q(3,4) by (auto simp: gc_same_def blob_get_def)
  from D(4) [OF q(1) this(1) assms(2) this(2)] have d: "d = Inr ()"
    "e_blobs e2 = AList.delete (blobKey sha) (e_blobs (g_eng g1))" by simp_all
  show "g_err (gc_delete n m sha g) = g_err g
      \<and> (if \<not> held_now n sha e \<and> recheck_dead m sha
         then g_del (gc_delete n m sha g) = g_del g @ [sha]
           \<and> e_blobs (g_eng (gc_delete n m sha g)) = AList.delete (blobKey sha) (e_blobs (g_eng g))
         else g_del (gc_delete n m sha g) = g_del g
           \<and> e_blobs (g_eng (gc_delete n m sha g)) = e_blobs (g_eng g))"
    using S(3-6) S(7) [OF q(2)] d unfolding eq by (auto split: option.splits bool.splits)
qed


section \<open>The sweep removes nothing else\<close>

definition effective_grace :: "duration \<Rightarrow> duration" where
  "effective_grace grace = (if grace \<le> 0 then DefaultGCGrace else grace)"

text \<open>The blobs of the sweep are those of \<open>e\<close>, minus collectable ones when it applies.\<close>

definition only_collected :: "env \<Rightarrow> string list \<Rightarrow> gc_marker \<Rightarrow> duration \<Rightarrow> bool \<Rightarrow> engine \<Rightarrow> engine \<Rightarrow> bool" where
  "only_collected n refs m grace apply e e' \<longleftrightarrow>
     (\<forall>k. map_of (e_blobs e') k = map_of (e_blobs e) k
       \<or> (apply \<and> map_of (e_blobs e') k = None \<and>
          (\<exists>f. map_of (e_blobs e) k = Some f \<and> k = blobKey (snd k) \<and> collectable n refs m grace e (snd k) f)))"

lemma gc_blob_safe:
  assumes "gc_same n m e g" "only_collected n refs m grace apply e (g_eng g)"
  shows "gc_same n m e (gc_blob n refs m grace apply ch shard name g)
    \<and> only_collected n refs m grace apply e (g_eng (gc_blob n refs m grace apply ch shard name g))"
proof (cases "validSha256 name \<and> take 2 name = shard \<and> name \<notin> set refs")
  case False
  then show ?thesis using assms by (auto simp: gc_blob_def)
next
  case True
  obtain b g1 where h: "(if ch then hold_check n name g else (False, g)) = (b, g1)" by fastforce
  have s1: "gc_same n m e g1" "e_blobs (g_eng g1) = e_blobs (g_eng g)"
    using h assms(1) hold_check_same [OF assms(1), of name] hold_check_simps [where n = n and sha = name and g = g]
    by (auto split: if_splits)
  let ?d = "gc_delete n m name (g1\<lparr>g_cand := g_cand g1 @ [name]\<rparr>)"
  have s2: "gc_same n m e (g1\<lparr>g_cand := g_cand g1 @ [name]\<rparr>)" "gc_same n m e (g1\<lparr>g_err := True\<rparr>)"
    using s1(1) by (simp_all add: gc_same_def)
  note D = gc_delete_spec [OF s2(1), of name]
  have key: "blobKey name = (shard, name)" using True by (simp add: blobKey_def)
  have "only_collected n refs m grace apply e (g_eng ?d)"
    if "map_of (e_blobs (g_eng g1)) (shard, name) = Some f" "grace < n_now n - f_mtime f" "apply" for f
    unfolding only_collected_def
  proof
    fix k
    have old: "map_of (e_blobs (g_eng g)) k = map_of (e_blobs e) k \<or>
        (apply \<and> map_of (e_blobs (g_eng g)) k = None \<and>
          (\<exists>f. map_of (e_blobs e) k = Some f \<and> k = blobKey (snd k) \<and> collectable n refs m grace e (snd k) f))"
      using assms(2) unfolding only_collected_def by blast
    show "map_of (e_blobs (g_eng ?d)) k = map_of (e_blobs e) k \<or>
        (apply \<and> map_of (e_blobs (g_eng ?d)) k = None \<and>
          (\<exists>f. map_of (e_blobs e) k = Some f \<and> k = blobKey (snd k) \<and> collectable n refs m grace e (snd k) f))"
    proof (cases "k = (shard, name)")
      case k: True
      have "map_of (e_blobs e) k = Some f" using old that(1) s1(2) k by auto
      moreover from this have "\<not> held_now n name e \<and> recheck_dead m name \<Longrightarrow> ?thesis"
        using D(3) k that True s1(2) key by (auto simp: delete_conv' collectable_def)
      ultimately show ?thesis using D(3) True old s1(2) by auto
    next
      case False
      with old D(3) True s1(2) key show ?thesis by (auto simp: delete_conv')
    qed
  qed
  moreover have "only_collected n refs m grace apply e (g_eng g1)"
    using assms(2) s1(2) by (simp add: only_collected_def)
  ultimately show ?thesis
    using True h s1(1) s2 D(1)
    by (cases "apply") (simp_all add: gc_blob_def Let_def split: bool.splits option.splits)
qed

lemma gc_fold_safe:
  "gc_same n m e g \<Longrightarrow> only_collected n refs m grace apply e (g_eng g) \<Longrightarrow>
    gc_same n m e (fold (gc_blob n refs m grace apply ch shard) names g)
    \<and> only_collected n refs m grace apply e (g_eng (fold (gc_blob n refs m grace apply ch shard) names g))"
  by (induction names arbitrary: g) (simp_all add: gc_blob_safe)

lemma gc_shards_safe:
  "gc_same n m e g \<Longrightarrow> only_collected n refs m grace apply e (g_eng g) \<Longrightarrow>
    only_collected n refs m grace apply e (g_eng (snd (gc_shards n refs m grace apply ch k shards g)))"
proof (induction shards arbitrary: k g)
  case (Cons shard shards)
  have "gc_same n m e (g\<lparr>g_err := True\<rparr>)" using Cons.prems(1) by (simp add: gc_same_def)
  with Cons gc_fold_safe [OF Cons.prems] show ?case by simp
qed simp

lemma gcSweep_safe:
  assumes "gcSweep n m grace apply ch e = (out, e')"
  shows "e' = e \<or> (\<exists>refs. m_mark m = Some refs \<and> only_collected n refs m (effective_grace grace) apply e e')"
proof -
  let ?g = "\<lparr>g_err = False, g_cand = [], g_del = [], g_snap = None, g_eng = e\<rparr>"
  have "only_collected n refs m (effective_grace grace) apply e
      (g_eng (snd (gc_shards n refs m (effective_grace grace) apply ch 0 (shard_list e) ?g)))" for refs
    by (rule gc_shards_safe) (simp_all add: gc_same_def only_collected_def)
  with assms show ?thesis
    by (auto simp: gcSweep_def effective_grace_def [symmetric] Let_def case_prod_unfold
        split: if_splits option.splits)
qed


section \<open>A sweep without faults collects everything collectable\<close>

definition collected_key :: "env \<Rightarrow> string list \<Rightarrow> gc_marker \<Rightarrow> duration \<Rightarrow> engine \<Rightarrow> string \<times> string \<Rightarrow> bool" where
  "collected_key n refs m grace e k \<longleftrightarrow>
     (\<exists>f. map_of (e_blobs e) k = Some f \<and> k = blobKey (snd k) \<and> collectable n refs m grace e (snd k) f)"

text \<open>The applying sweep has dealt with the keys in \<open>P\<close>, and with no others.\<close>

definition swept :: "env \<Rightarrow> string list \<Rightarrow> gc_marker \<Rightarrow> duration \<Rightarrow> engine \<Rightarrow> (string \<times> string) set \<Rightarrow> gc_state \<Rightarrow> bool" where
  "swept n refs m grace e P g \<longleftrightarrow>
     gc_same n m e g \<and> \<not> g_err g
     \<and> map_of (e_blobs (g_eng g)) = (\<lambda>k. if k \<in> P \<and> collected_key n refs m grace e k then None else map_of (e_blobs e) k)
     \<and> set (g_del g) = {s. blobKey s \<in> P \<and> collected_key n refs m grace e (blobKey s)} \<and> distinct (g_del g)"

lemma swept_grow:
  assumes "swept n refs m grace e P g" "\<And>k. k \<in> Q \<Longrightarrow> \<not> collected_key n refs m grace e k"
  shows "swept n refs m grace e (P \<union> Q) g"
proof -
  have "(blobKey s \<in> P \<union> Q \<and> collected_key n refs m grace e (blobKey s)) =
      (blobKey s \<in> P \<and> collected_key n refs m grace e (blobKey s))" for s
    using assms(2) [of "blobKey s"] by blast
  moreover have "(k \<in> P \<union> Q \<and> collected_key n refs m grace e k) = (k \<in> P \<and> collected_key n refs m grace e k)" for k
    using assms(2) [of k] by blast
  ultimately show ?thesis using assms(1) by (simp add: swept_def)
qed

lemma gc_blob_quiet:
  fixes refs :: "string list" and grace :: duration
  assumes calm: "quiet n" "recheck_total m" "\<not> e_closed e" and "gc_same n m e g"
    and f: "map_of (e_blobs (g_eng g)) (shard, name) = Some f"
  defines "g' \<equiv> gc_blob n refs m grace True True shard name g"
  shows "gc_same n m e g' \<and> g_err g' = g_err g \<and>
    (if take 2 name = shard \<and> collectable n refs m grace e name f
     then g_del g' = g_del g @ [name] \<and> e_blobs (g_eng g') = AList.delete (shard, name) (e_blobs (g_eng g))
     else g_del g' = g_del g \<and> e_blobs (g_eng g') = e_blobs (g_eng g))"
proof (cases "validSha256 name \<and> take 2 name = shard \<and> name \<notin> set refs")
  case False
  then have "g' = g" by (auto simp: g'_def gc_blob_def)
  with False assms(4) show ?thesis by (simp add: collectable_def)
next
  case True
  obtain b g1 where h: "hold_check n name g = (b, g1)" by fastforce
  note H = hold_check_simps [where n = n and sha = name and g = g, unfolded h fst_conv snd_conv]
  have s1: "gc_same n m e g1" using hold_check_same [OF assms(4), of name] h by simp
  have hb: "b \<longleftrightarrow> held_now n name e" using H(1) assms(4) by (simp add: gc_same_def)
  let ?g2 = "g1\<lparr>g_cand := g_cand g1 @ [name]\<rparr>"
  have s2: "gc_same n m e ?g2" using s1 by (simp add: gc_same_def)
  have key: "blobKey name = (shard, name)" using True by (simp add: blobKey_def)
  have "blob_get name (g_eng ?g2) \<noteq> None" using f H(6) by (simp add: blob_get_def key)
  note D = gc_delete_spec(1) [OF s2] gc_delete_spec(4) [OF s2 _ calm this]
  have "g' = (if b then g1 else if n_now n - f_mtime f \<le> grace then g1 else gc_delete n m name ?g2)"
    using True h f H(6) calm(1) by (simp add: g'_def gc_blob_def Let_def quiet_def split: bool.splits)
  with D True s1 H hb key show ?thesis by (auto simp: collectable_def)
qed

lemma gc_blob_exact:
  assumes calm: "quiet n" "recheck_total m" "\<not> e_closed e"
    and g: "swept n refs m grace e P g" "(shard, name) \<notin> P" "map_of (e_blobs e) (shard, name) = Some f"
  shows "swept n refs m grace e (insert (shard, name) P) (gc_blob n refs m grace True True shard name g)"
proof -
  let ?g = "gc_blob n refs m grace True True shard name g"
  have same: "gc_same n m e g" and b: "map_of (e_blobs (g_eng g)) (shard, name) = Some f"
    using g by (simp_all add: swept_def)
  note Q = gc_blob_quiet [OF calm same b, of refs grace]
  have c: "collected_key n refs m grace e (shard, name) \<longleftrightarrow> take 2 name = shard \<and> collectable n refs m grace e name f"
    using g(3) by (auto simp: collected_key_def blobKey_def)
  show ?thesis
  proof (cases "collected_key n refs m grace e (shard, name)")
    case False
    then show ?thesis using swept_grow [of n refs m grace e P ?g "{(shard, name)}"] Q c g(1)
      by (simp add: swept_def)
  next
    case True
    then have key: "blobKey name = (shard, name)" using c by (simp add: blobKey_def)
    have "name \<notin> set (g_del g)" using g(1,2) key by (simp add: swept_def)
    then show ?thesis using True Q c g(1)
      by (auto simp: swept_def delete_conv' fun_eq_iff blobKey_def)
  qed
qed

lemma gc_fold_exact:
  assumes calm: "quiet n" "recheck_total m" "\<not> e_closed e"
  shows "swept n refs m grace e P g \<Longrightarrow> distinct names \<Longrightarrow>
    (\<And>x. x \<in> set names \<Longrightarrow> (shard, x) \<notin> P \<and> map_of (e_blobs e) (shard, x) \<noteq> None) \<Longrightarrow>
    swept n refs m grace e (P \<union> Pair shard ` set names) (fold (gc_blob n refs m grace True True shard) names g)"
proof (induction names arbitrary: P g)
  case (Cons x xs)
  then obtain f where "(shard, x) \<notin> P" "map_of (e_blobs e) (shard, x) = Some f" by fastforce
  from gc_blob_exact [OF calm Cons.prems(1) this]
  have "swept n refs m grace e (insert (shard, x) P) (gc_blob n refs m grace True True shard x g)" .
  from Cons.IH [OF this] Cons.prems(2,3) show ?case by auto
qed simp

lemma set_shard_names: "x \<in> set (shard_names shard e) \<longleftrightarrow> map_of (e_blobs e) (shard, x) \<noteq> None"
  by (force simp: shard_names_def map_of_eq_None_iff image_iff)

lemma collected_shard:
  assumes "collected_key n refs m grace e (shard, x)" shows "validShardName shard"
proof -
  have "shard = take 2 x" "validSha256 x" using assms by (auto simp: collected_key_def blobKey_def collectable_def)
  then show ?thesis
    by (auto simp: validShardName_def validSha256_def sha256HexLen_def list_all_iff dest: in_set_takeD)
qed

lemma gc_shards_exact:
  assumes calm: "quiet n" "recheck_total m" "\<not> e_closed e" "\<And>k. \<not> n_ctxAfter n k"
  shows "swept n refs m grace e {k. fst k \<in> S} g \<Longrightarrow> distinct shards \<Longrightarrow> S \<inter> set shards = {} \<Longrightarrow>
    fst (gc_shards n refs m grace True True i shards g) = False
    \<and> swept n refs m grace e {k. fst k \<in> S \<union> set shards} (snd (gc_shards n refs m grace True True i shards g))"
proof (induction shards arbitrary: S i g)
  case (Cons shard shards)
  let ?P = "{k. fst k \<in> S}" and ?g = "fold (gc_blob n refs m grace True True shard) (shard_names shard (g_eng g)) g"
  have names: "x \<in> set (shard_names shard (g_eng g)) \<longleftrightarrow> map_of (e_blobs e) (shard, x) \<noteq> None" for x
    using Cons.prems by (simp add: set_shard_names swept_def)
  have "swept n refs m grace e (?P \<union> Pair shard ` set (shard_names shard (g_eng g))) ?g"
    by (rule gc_fold_exact [OF calm(1-3) Cons.prems(1)])
      (use Cons.prems names in \<open>auto simp: shard_names_def\<close>)
  from swept_grow [OF this, of "{k. fst k = shard \<and> map_of (e_blobs e) k = None}"]
  have "swept n refs m grace e (?P \<union> Pair shard ` set (shard_names shard (g_eng g))
      \<union> {k. fst k = shard \<and> map_of (e_blobs e) k = None}) ?g"
    by (simp add: collected_key_def)
  moreover have "?P \<union> Pair shard ` set (shard_names shard (g_eng g)) \<union> {k. fst k = shard \<and> map_of (e_blobs e) k = None}
      = ?P \<union> {k. fst k = shard}"
    using names by auto
  ultimately have "swept n refs m grace e (?P \<union> {k. fst k = shard}) ?g" by simp
  moreover have "swept n refs m grace e (?P \<union> {k. fst k = shard}) g" if "\<not> validShardName shard"
    using that collected_shard by (intro swept_grow [OF Cons.prems(1)]) force
  ultimately have "swept n refs m grace e (?P \<union> {k. fst k = shard}) (if validShardName shard then ?g else g)"
    by simp
  moreover have "?P \<union> {k. fst k = shard} = {k. fst k \<in> insert shard S}" by auto
  ultimately have next_g: "swept n refs m grace e {k. fst k \<in> insert shard S} (if validShardName shard then ?g else g)"
    by metis
  have eq: "gc_shards n refs m grace True True i (shard # shards) g
      = gc_shards n refs m grace True True (i + 1) shards (if validShardName shard then ?g else g)"
    using calm(1,4) by (simp add: quiet_def)
  have "{k. fst k \<in> insert shard S \<union> set shards} = {k. fst k \<in> S \<union> set (shard # shards)}" by auto
  with Cons.IH [OF next_g, of "i + 1"] Cons.prems(2,3) show ?case unfolding eq by simp
qed simp


lemma gcSweep_exact:
  assumes calm: "quiet n" "recheck_total m" "\<not> e_closed e" "\<And>k. \<not> n_ctxAfter n k"
    and refs: "m_mark m = Some refs"
  shows "\<exists>del e'. gcSweep n m grace True True e = ((del, False), e') \<and> sorted del \<and> distinct del
    \<and> (\<forall>sha. sha \<in> set del \<longleftrightarrow> collected_key n refs m (effective_grace grace) e (blobKey sha))
    \<and> (\<forall>k. map_of (e_blobs e') k
          = (if collected_key n refs m (effective_grace grace) e k then None else map_of (e_blobs e) k))"
proof -
  let ?g = "\<lparr>g_err = False, g_cand = [], g_del = [], g_snap = None, g_eng = e\<rparr>"
  define r where "r = gc_shards n refs m (effective_grace grace) True True 0 (shard_list e) ?g"
  have "swept n refs m (effective_grace grace) e {k. fst k \<in> {}} ?g"
    by (simp add: swept_def gc_same_def fun_eq_iff)
  from gc_shards_exact [OF calm this, of "shard_list e" 0]
  have r: "fst r = False" "swept n refs m (effective_grace grace) e {k. fst k \<in> set (shard_list e)} (snd r)"
    unfolding r_def by (simp_all add: shard_list_def)
  have dom: "fst k \<in> set (shard_list e)" if ck: "collected_key n refs m (effective_grace grace) e k" for k
  proof -
    obtain f where "map_of (e_blobs e) k = Some f" using ck unfolding collected_key_def by blast
    then have "(k, f) \<in> set (e_blobs e)" by (rule map_of_SomeD)
    then show ?thesis by (force simp: shard_list_def)
  qed
  have "gcSweep n m grace True True e = ((sort (g_del (snd r)), False), g_eng (snd r))"
    using calm(1,3) refs r by (simp add: gcSweep_def effective_grace_def [symmetric] r_def [symmetric] Let_def
        case_prod_unfold quiet_def swept_def)
  moreover have "sha \<in> set (g_del (snd r)) \<longleftrightarrow> collected_key n refs m (effective_grace grace) e (blobKey sha)" for sha
    using r(2) dom [of "blobKey sha"] by (auto simp: swept_def)
  moreover have "map_of (e_blobs (g_eng (snd r))) k
      = (if collected_key n refs m (effective_grace grace) e k then None else map_of (e_blobs e) k)" for k
    using r(2) dom [of k] by (auto simp: swept_def)
  ultimately show ?thesis using r(2) by (auto simp: swept_def)
qed


section \<open>Collecting while uploads run\<close>

text \<open>
  Publishers and the sweep interleave. A publisher of a blob registers a hold (\<open>Commit\<close>, before
  the rename), publishes the file, commits its metadata reference, and releases the hold; it may
  fail before publishing, or stop for good without releasing. References can be deleted at any
  time. The clock advances, but an upload in flight commits and releases within the hold TTL. The
  sweep scans a visible blob, runs the gates in the order of \<open>gcDeleteGate_order\<close>, each at some
  later moment, and deletes. \<open>Scanned\<close> remembers which publishers of the blob had registered when
  the scan saw it.
\<close>

datatype phase = Idle | Holding time | Published time | Committed time | Finished

datatype sweeper = Resting | Gating string "nat set" "gate list"

record gc_world =
  w_clock :: time
  w_holds :: holdSet
  w_blobs :: "string set"
  w_refs :: "(nat \<times> string) set"
  w_phase :: "nat \<Rightarrow> phase"
  w_sweeper :: sweeper

fun in_flight_since :: "phase \<Rightarrow> time option" where
  "in_flight_since (Holding t) = Some t"
| "in_flight_since (Published t) = Some t"
| "in_flight_since (Committed t) = Some t"
| "in_flight_since p = None"

definition in_flight :: "gc_world \<Rightarrow> (nat \<Rightarrow> string) \<Rightarrow> string \<Rightarrow> nat set" where
  "in_flight w sha_of sha = {p. sha_of p = sha \<and> in_flight_since (w_phase w p) \<noteq> None}"

inductive gc_step :: "(nat \<Rightarrow> string) \<Rightarrow> gc_world \<Rightarrow> gc_world \<Rightarrow> bool" for sha_of where
  register: "w_phase w p = Idle \<Longrightarrow>
    gc_step sha_of w (w\<lparr>w_holds := acquire (w_clock w) (sha_of p) (w_holds w),
      w_phase := (w_phase w)(p := Holding (w_clock w))\<rparr>)"
| publish: "w_phase w p = Holding t \<Longrightarrow>
    gc_step sha_of w (w\<lparr>w_blobs := insert (sha_of p) (w_blobs w), w_phase := (w_phase w)(p := Published t)\<rparr>)"
| fail: "w_phase w p = Holding t \<Longrightarrow>
    gc_step sha_of w (w\<lparr>w_holds := release (sha_of p) (w_holds w), w_phase := (w_phase w)(p := Finished)\<rparr>)"
| reference: "w_phase w p = Published t \<Longrightarrow>
    gc_step sha_of w (w\<lparr>w_refs := insert (p, sha_of p) (w_refs w), w_phase := (w_phase w)(p := Committed t)\<rparr>)"
| unhold: "w_phase w p = Committed t \<Longrightarrow>
    gc_step sha_of w (w\<lparr>w_holds := release (sha_of p) (w_holds w), w_phase := (w_phase w)(p := Finished)\<rparr>)"
| stop: "w_phase w p \<noteq> Idle \<Longrightarrow> gc_step sha_of w (w\<lparr>w_phase := (w_phase w)(p := Finished)\<rparr>)"
| unreference: "gc_step sha_of w (w\<lparr>w_refs := w_refs w - {r}\<rparr>)"
| tick: "w_clock w \<le> t \<Longrightarrow>
    (\<And>p t0. in_flight_since (w_phase w p) = Some t0 \<Longrightarrow> t < t0 + hold_ttl (w_holds w)) \<Longrightarrow>
    gc_step sha_of w (w\<lparr>w_clock := t\<rparr>)"
| scan: "w_sweeper w = Resting \<Longrightarrow> sha \<in> w_blobs w \<Longrightarrow>
    gc_step sha_of w (w\<lparr>w_sweeper := Gating sha {p. sha_of p = sha \<and> w_phase w p \<noteq> Idle} gcDeleteGate_order\<rparr>)"
| hold_gate: "w_sweeper w = Gating sha A (HoldGate # gs) \<Longrightarrow> held (w_clock w) sha (w_holds w) = (b, h) \<Longrightarrow>
    gc_step sha_of w (w\<lparr>w_holds := h, w_sweeper := (if b then Resting else Gating sha A gs)\<rparr>)"
| live_gate: "w_sweeper w = Gating sha A (LiveGate # gs) \<Longrightarrow>
    gc_step sha_of w (w\<lparr>w_sweeper := (if \<exists>p. (p, sha) \<in> w_refs w then Resting else Gating sha A gs)\<rparr>)"
| collect: "w_sweeper w = Gating sha A [] \<Longrightarrow>
    gc_step sha_of w (w\<lparr>w_blobs := w_blobs w - {sha}, w_sweeper := Resting\<rparr>)"

inductive gc_reachable :: "(nat \<Rightarrow> string) \<Rightarrow> gc_world \<Rightarrow> bool" for sha_of where
  init: "w_clock w = 0 \<Longrightarrow> w_holds w = newHoldSet ttl \<Longrightarrow> w_refs w = {} \<Longrightarrow> (\<And>p. w_phase w p = Idle)
    \<Longrightarrow> w_sweeper w = Resting \<Longrightarrow> gc_reachable sha_of w"
| step: "gc_reachable sha_of w \<Longrightarrow> gc_step sha_of w w' \<Longrightarrow> gc_reachable sha_of w'"

inductive_cases gc_stepE: "gc_step sha_of w w'"


definition gates_passed :: "(nat \<Rightarrow> string) \<Rightarrow> gc_world \<Rightarrow> string \<Rightarrow> nat set \<Rightarrow> gate list \<Rightarrow> bool" where
  "gates_passed sha_of w sha A gs \<longleftrightarrow>
     (\<forall>p\<in>A. sha_of p = sha \<and> w_phase w p \<noteq> Idle) \<and>
     (gs = [HoldGate, LiveGate]
      \<or> gs = [LiveGate] \<and> (\<forall>p\<in>A. w_phase w p = Finished)
      \<or> gs = [] \<and> (\<forall>p\<in>A. w_phase w p = Finished \<and> (p, sha) \<notin> w_refs w))"

definition holds_cover :: "(nat \<Rightarrow> string) \<Rightarrow> gc_world \<Rightarrow> bool" where
  "holds_cover sha_of w \<longleftrightarrow>
     (\<forall>sha. finite (in_flight w sha_of sha)
        \<and> card (in_flight w sha_of sha) \<le> hold_registrations (w_holds w) sha) \<and>
     (\<forall>p t. in_flight_since (w_phase w p) = Some t \<longrightarrow>
        t \<le> hold_since (w_holds w) (sha_of p) \<and> t \<le> w_clock w \<and> w_clock w < t + hold_ttl (w_holds w))"

definition sweeper_ok :: "(nat \<Rightarrow> string) \<Rightarrow> gc_world \<Rightarrow> bool" where
  "sweeper_ok sha_of w \<longleftrightarrow>
     (case w_sweeper w of Resting \<Rightarrow> True | Gating sha A gs \<Rightarrow> gates_passed sha_of w sha A gs)"

definition gc_inv :: "(nat \<Rightarrow> string) \<Rightarrow> gc_world \<Rightarrow> bool" where
  "gc_inv sha_of w \<longleftrightarrow>
     holds_cover sha_of w \<and> 0 < hold_ttl (w_holds w)
     \<and> (\<forall>p sha. (p, sha) \<in> w_refs w \<longrightarrow> sha = sha_of p \<and> w_phase w p \<noteq> Idle)
     \<and> sweeper_ok sha_of w"

text \<open>An upload in flight holds its blob: the registrations of its sha count it, and none of them has expired.\<close>

lemma in_flight_held:
  assumes "holds_cover sha_of w" "in_flight_since (w_phase w p) = Some t"
  shows "fst (held (w_clock w) (sha_of p) (w_holds w))"
proof -
  have "p \<in> in_flight w sha_of (sha_of p)" using assms(2) by (simp add: in_flight_def)
  moreover have "finite (in_flight w sha_of (sha_of p))"
    "card (in_flight w sha_of (sha_of p)) \<le> hold_registrations (w_holds w) (sha_of p)"
    using assms(1) by (simp_all add: holds_cover_def)
  ultimately have "0 < hold_registrations (w_holds w) (sha_of p)"
    by (metis card_gt_0_iff empty_iff gr0I leD)
  moreover have "w_clock w - hold_since (w_holds w) (sha_of p) < hold_ttl (w_holds w)"
  proof -
    have "t \<le> hold_since (w_holds w) (sha_of p)" "w_clock w < t + hold_ttl (w_holds w)"
      using assms unfolding holds_cover_def by blast+
    then show ?thesis by linarith
  qed
  ultimately show ?thesis by (simp add: hs.chk_iff)
qed

text \<open>A publisher leaves the flight: the others keep their cover when it gives its registration back.\<close>

lemma cover_leave:
  assumes "holds_cover sha_of w" "in_flight_since (w_phase w p) = Some t"
    and "h = release (sha_of p) (w_holds w)"
  shows "holds_cover sha_of (w\<lparr>w_holds := h, w_phase := (w_phase w)(p := Finished)\<rparr>)"
proof -
  let ?w = "w\<lparr>w_holds := h, w_phase := (w_phase w)(p := Finished)\<rparr>"
  have fl: "in_flight ?w sha_of sha = in_flight w sha_of sha - {p}" for sha
    by (auto simp: in_flight_def)
  have c: "finite (in_flight w sha_of sha)" "card (in_flight w sha_of sha) \<le> hold_registrations (w_holds w) sha" for sha
    using assms(1) by (simp_all add: holds_cover_def)
  have cnt: "card (in_flight ?w sha_of sha) \<le> hold_registrations h sha" for sha
  proof (cases "sha = sha_of p")
    case True
    then have "p \<in> in_flight w sha_of sha" using assms(2) by (simp add: in_flight_def)
    with c [of sha] True show ?thesis unfolding fl by (simp add: assms(3) hs.cnt_rel)
  next
    case False
    then have "p \<notin> in_flight w sha_of sha" by (simp add: in_flight_def)
    with c [of sha] False show ?thesis unfolding fl by (simp add: assms(3) hs.cnt_rel)
  qed
  have "t0 \<le> hold_since h (sha_of q) \<and> t0 \<le> w_clock w \<and> w_clock w < t0 + hold_ttl h"
    if q: "in_flight_since (w_phase ?w q) = Some t0" for q t0
  proof -
    have q': "q \<noteq> p" "in_flight_since (w_phase w q) = Some t0" using q by (auto split: if_splits)
    have "q \<in> in_flight ?w sha_of (sha_of q)" using q by (simp add: in_flight_def)
    moreover have "finite (in_flight ?w sha_of (sha_of q))" using c unfolding fl by simp
    ultimately have "0 < hold_registrations h (sha_of q)"
      using cnt [of "sha_of q"] by (metis card_gt_0_iff empty_iff gr0I leD)
    then have "hold_since h (sha_of q) = hold_since (w_holds w) (sha_of q)"
      unfolding assms(3) by (rule hs.since_rel)
    with assms(1) q'(2) show ?thesis unfolding holds_cover_def assms(3) by (simp add: hs.ttl_rel)
  qed
  with cnt c show ?thesis unfolding holds_cover_def fl by simp
qed

lemma cover_join:
  assumes "holds_cover sha_of w" "w_phase w p = Idle" "0 < hold_ttl (w_holds w)"
  shows "holds_cover sha_of (w\<lparr>w_holds := acquire (w_clock w) (sha_of p) (w_holds w),
      w_phase := (w_phase w)(p := Holding (w_clock w))\<rparr>)" (is "holds_cover sha_of ?w")
proof -
  have fl: "in_flight ?w sha_of sha = (if sha = sha_of p then insert p (in_flight w sha_of sha) else in_flight w sha_of sha)" for sha
    using assms(2) by (auto simp: in_flight_def)
  have np: "p \<notin> in_flight w sha_of sha" for sha using assms(2) by (simp add: in_flight_def)
  have c: "finite (in_flight w sha_of sha)" "card (in_flight w sha_of sha) \<le> hold_registrations (w_holds w) sha" for sha
    using assms(1) by (simp_all add: holds_cover_def)
  have "t0 \<le> hold_since (w_holds ?w) (sha_of q) \<and> t0 \<le> w_clock w \<and> w_clock w < t0 + hold_ttl (w_holds w)"
    if "in_flight_since (w_phase ?w q) = Some t0" for q t0
    using that assms(1,3) unfolding holds_cover_def by (force simp: hs.since_acq split: if_splits)
  with c np show ?thesis unfolding holds_cover_def fl by (simp add: hs.cnt_acq hs.ttl_acq)
qed

lemma cover_phase:
  assumes "holds_cover sha_of w" "w_holds w' = w_holds w" "w_clock w' = w_clock w"
    and "\<And>q. in_flight_since (w_phase w' q) \<in> {None, in_flight_since (w_phase w q)}"
  shows "holds_cover sha_of w'"
proof -
  have sub: "in_flight w' sha_of sha \<subseteq> in_flight w sha_of sha" for sha
  proof
    fix q assume "q \<in> in_flight w' sha_of sha"
    with assms(4) [of q] show "q \<in> in_flight w sha_of sha" by (auto simp: in_flight_def)
  qed
  have fin: "finite (in_flight w sha_of sha)" for sha using assms(1) by (simp add: holds_cover_def)
  have "card (in_flight w' sha_of sha) \<le> hold_registrations (w_holds w) sha" for sha
    using card_mono [OF fin sub, of sha] assms(1) by (meson holds_cover_def le_trans)
  moreover have "in_flight_since (w_phase w q) = Some t" if "in_flight_since (w_phase w' q) = Some t" for q t
    using assms(4) [of q] that by auto
  ultimately show ?thesis
    using assms(1-3) finite_subset [OF sub fin] unfolding holds_cover_def by metis
qed

lemma cover_check:
  assumes "holds_cover sha_of w" "held (w_clock w) sha (w_holds w) = (b, h)"
  shows "holds_cover sha_of (w\<lparr>w_holds := h, w_sweeper := x\<rparr>)"
proof -
  let ?w = "w\<lparr>w_holds := h, w_sweeper := x\<rparr>"
  have h: "h = snd (held (w_clock w) sha (w_holds w))" using assms(2) by simp
  have fl: "in_flight ?w sha_of s = in_flight w sha_of s" for s by (simp add: in_flight_def)
  have c: "finite (in_flight w sha_of s)" "card (in_flight w sha_of s) \<le> hold_registrations (w_holds w) s" for s
    using assms(1) by (simp_all add: holds_cover_def)
  have cnt: "card (in_flight w sha_of s) \<le> hold_registrations h s" for s
  proof (cases "in_flight w sha_of s = {}")
    case False
    then obtain p t where "sha_of p = s" "in_flight_since (w_phase w p) = Some t" by (auto simp: in_flight_def)
    with in_flight_held [OF assms(1)] have "fst (held (w_clock w) s (w_holds w))" by blast
    then show ?thesis using c [of s] by (auto simp: h hs.cnt_chk hs.chk_iff)
  qed simp
  have "t \<le> hold_since h (sha_of p)" if "in_flight_since (w_phase w p) = Some t" for p t
  proof -
    have "p \<in> in_flight w sha_of (sha_of p)" using that by (simp add: in_flight_def)
    with cnt c have "0 < hold_registrations h (sha_of p)" by (metis card_gt_0_iff empty_iff gr0I leD)
    then have "hold_since h (sha_of p) = hold_since (w_holds w) (sha_of p)" unfolding h by (rule hs.since_chk)
    with assms(1) that show ?thesis by (simp add: holds_cover_def)
  qed
  with c cnt assms(1) show ?thesis unfolding holds_cover_def fl by (simp add: h hs.ttl_chk)
qed


lemma gates_frame:
  assumes "gates_passed sha_of w sha A gs" "w_refs w' \<subseteq> w_refs w"
    and "\<And>q. w_phase w q \<noteq> Idle \<Longrightarrow> w_phase w' q \<noteq> Idle \<and> (w_phase w q = Finished \<longrightarrow> w_phase w' q = Finished)"
  shows "gates_passed sha_of w' sha A gs"
proof -
  have A: "sha_of p = sha" "w_phase w p \<noteq> Idle" "w_phase w' p \<noteq> Idle" if "p \<in> A" for p
    using that assms(1) assms(3) [of p] by (auto simp: gates_passed_def)
  have fin: "w_phase w' p = Finished" if "p \<in> A" "w_phase w p = Finished" for p
    using that assms(3) [of p] by simp
  have base: "\<forall>p\<in>A. sha_of p = sha \<and> w_phase w' p \<noteq> Idle" using A by blast
  consider "gs = [HoldGate, LiveGate]" | "gs = [LiveGate]" "\<forall>p\<in>A. w_phase w p = Finished"
    | "gs = []" "\<forall>p\<in>A. w_phase w p = Finished \<and> (p, sha) \<notin> w_refs w"
    using assms(1) unfolding gates_passed_def by argo
  then show ?thesis
  proof cases
    case 1
    with base show ?thesis by (simp add: gates_passed_def)
  next
    case 2
    with base fin show ?thesis by (simp add: gates_passed_def)
  next
    case 3
    have "w_phase w' p = Finished \<and> (p, sha) \<notin> w_refs w'" if p: "p \<in> A" for p
    proof -
      have "w_phase w p = Finished" "(p, sha) \<notin> w_refs w" using 3(2) p by simp_all
      with fin [OF p] assms(2) show ?thesis by auto
    qed
    with 3(1) base show ?thesis by (simp add: gates_passed_def)
  qed
qed

lemma gates_reference:
  assumes "gates_passed sha_of w sha A gs" "w_phase w p = Published t"
  shows "gates_passed sha_of (w\<lparr>w_refs := insert (p, sha_of p) (w_refs w), w_phase := (w_phase w)(p := Committed t)\<rparr>) sha A gs"
  using assms by (auto simp: gates_passed_def)

lemma sweeper_frame:
  assumes "sweeper_ok sha_of w" "w_sweeper w' = w_sweeper w" "w_refs w' \<subseteq> w_refs w"
    and "\<And>q. w_phase w q \<noteq> Idle \<Longrightarrow> w_phase w' q \<noteq> Idle \<and> (w_phase w q = Finished \<longrightarrow> w_phase w' q = Finished)"
  shows "sweeper_ok sha_of w'"
  using assms(1,2) gates_frame [OF _ assms(3,4)] by (auto simp: sweeper_ok_def split: sweeper.splits)

lemma gc_step_inv: "gc_step sha_of w w' \<Longrightarrow> gc_inv sha_of w \<Longrightarrow> gc_inv sha_of w'"
proof (induction rule: gc_step.induct)
  case (register w p)
  have "sweeper_ok sha_of (w\<lparr>w_holds := acquire (w_clock w) (sha_of p) (w_holds w), w_phase := (w_phase w)(p := Holding (w_clock w))\<rparr>)"
    by (rule sweeper_frame [of sha_of w]) (use register in \<open>auto simp: gc_inv_def\<close>)
  with register cover_join [of sha_of w p] show ?case by (auto simp: gc_inv_def)
next
  case (publish w p t)
  have "sweeper_ok sha_of (w\<lparr>w_blobs := insert (sha_of p) (w_blobs w), w_phase := (w_phase w)(p := Published t)\<rparr>)"
    by (rule sweeper_frame [of sha_of w]) (use publish in \<open>auto simp: gc_inv_def\<close>)
  moreover have "holds_cover sha_of (w\<lparr>w_blobs := insert (sha_of p) (w_blobs w), w_phase := (w_phase w)(p := Published t)\<rparr>)"
    by (rule cover_phase [of sha_of w]) (use publish in \<open>auto simp: gc_inv_def\<close>)
  ultimately show ?case using publish by (auto simp: gc_inv_def)
next
  case (fail w p t)
  have "sweeper_ok sha_of (w\<lparr>w_holds := release (sha_of p) (w_holds w), w_phase := (w_phase w)(p := Finished)\<rparr>)"
    by (rule sweeper_frame [of sha_of w]) (use fail in \<open>auto simp: gc_inv_def\<close>)
  with fail cover_leave [of sha_of w p t, OF _ _ refl] show ?case by (auto simp: gc_inv_def)
next
  case (reference w p t)
  have "sweeper_ok sha_of (w\<lparr>w_refs := insert (p, sha_of p) (w_refs w), w_phase := (w_phase w)(p := Committed t)\<rparr>)"
    using reference by (auto simp: gc_inv_def sweeper_ok_def gates_reference split: sweeper.splits)
  moreover have "holds_cover sha_of (w\<lparr>w_refs := insert (p, sha_of p) (w_refs w), w_phase := (w_phase w)(p := Committed t)\<rparr>)"
    by (rule cover_phase [of sha_of w]) (use reference in \<open>auto simp: gc_inv_def\<close>)
  ultimately show ?case using reference by (auto simp: gc_inv_def)
next
  case (unhold w p t)
  have "sweeper_ok sha_of (w\<lparr>w_holds := release (sha_of p) (w_holds w), w_phase := (w_phase w)(p := Finished)\<rparr>)"
    by (rule sweeper_frame [of sha_of w]) (use unhold in \<open>auto simp: gc_inv_def\<close>)
  with unhold cover_leave [of sha_of w p t, OF _ _ refl] show ?case by (auto simp: gc_inv_def)
next
  case (stop w p)
  have "sweeper_ok sha_of (w\<lparr>w_phase := (w_phase w)(p := Finished)\<rparr>)"
    by (rule sweeper_frame [of sha_of w]) (use stop in \<open>auto simp: gc_inv_def\<close>)
  moreover have "holds_cover sha_of (w\<lparr>w_phase := (w_phase w)(p := Finished)\<rparr>)"
    by (rule cover_phase [of sha_of w]) (use stop in \<open>auto simp: gc_inv_def\<close>)
  ultimately show ?case using stop by (auto simp: gc_inv_def)
next
  case (unreference w r)
  have "sweeper_ok sha_of (w\<lparr>w_refs := w_refs w - {r}\<rparr>)"
    by (rule sweeper_frame [of sha_of w]) (use unreference in \<open>auto simp: gc_inv_def\<close>)
  moreover have "holds_cover sha_of (w\<lparr>w_refs := w_refs w - {r}\<rparr>)"
    by (rule cover_phase [of sha_of w]) (use unreference in \<open>auto simp: gc_inv_def\<close>)
  ultimately show ?case using unreference by (auto simp: gc_inv_def)
next
  case (tick w t)
  have "sweeper_ok sha_of (w\<lparr>w_clock := t\<rparr>)"
    by (rule sweeper_frame [of sha_of w]) (use tick in \<open>auto simp: gc_inv_def\<close>)
  moreover have "holds_cover sha_of (w\<lparr>w_clock := t\<rparr>)"
  proof -
    have cov: "holds_cover sha_of w" using tick(3) by (simp add: gc_inv_def)
    have "t0 \<le> t" if "in_flight_since (w_phase w p) = Some t0" for p t0
    proof -
      have "t0 \<le> w_clock w" using cov that unfolding holds_cover_def by blast
      with tick(1) show ?thesis by linarith
    qed
    with cov tick(2) show ?thesis by (simp add: holds_cover_def in_flight_def)
  qed
  ultimately show ?case using tick(3) by (simp add: gc_inv_def)
next
  case (scan w sha)
  have "holds_cover sha_of (w\<lparr>w_sweeper := x\<rparr>)" for x
    by (rule cover_phase [of sha_of w]) (use scan in \<open>auto simp: gc_inv_def\<close>)
  with scan show ?case by (auto simp: gc_inv_def sweeper_ok_def gates_passed_def gcDeleteGate_order_def)
next
  case (hold_gate w sha A gs b h)
  then have cov: "holds_cover sha_of w" and g: "gates_passed sha_of w sha A (HoldGate # gs)"
    by (simp_all add: gc_inv_def sweeper_ok_def)
  have "w_phase w p = Finished" if "p \<in> A" "\<not> b" for p
    using that g in_flight_held [OF cov, of p] hold_gate(2)
    by (cases "w_phase w p") (auto simp: gates_passed_def)
  moreover have "hold_ttl h = hold_ttl (w_holds w)" using hs.ttl_chk hold_gate(2) by (metis snd_conv)
  ultimately show ?case using hold_gate cover_check [OF cov hold_gate(2)] g
    by (auto simp: gc_inv_def sweeper_ok_def gates_passed_def)
next
  case (live_gate w sha A gs)
  have "holds_cover sha_of (w\<lparr>w_sweeper := x\<rparr>)" for x
    by (rule cover_phase [of sha_of w]) (use live_gate in \<open>auto simp: gc_inv_def\<close>)
  with live_gate show ?case by (auto simp: gc_inv_def sweeper_ok_def gates_passed_def)
next
  case (collect w sha A)
  have "holds_cover sha_of (w\<lparr>w_blobs := w_blobs w - {sha}, w_sweeper := Resting\<rparr>)"
    by (rule cover_phase [of sha_of w]) (use collect in \<open>auto simp: gc_inv_def\<close>)
  with collect show ?case by (simp add: gc_inv_def sweeper_ok_def)
qed

lemma gc_reachable_inv: "gc_reachable sha_of w \<Longrightarrow> gc_inv sha_of w"
proof (induction rule: gc_reachable.induct)
  case (init w ttl)
  then have "in_flight w sha_of sha = {}" for sha by (simp add: in_flight_def)
  moreover have "0 < hold_ttl (w_holds w)"
    using init(2) newHoldSet_wf [of ttl] by (simp add: hold_wf_def MinGCHoldTTL_def second_def)
  ultimately show ?case using init by (simp add: gc_inv_def sweeper_ok_def holds_cover_def)
qed (rule gc_step_inv)



section \<open>Properties\<close>

text \<open>
  C16: The sweep never collects what it must keep. Whatever errors the marker, the directory
  scans, the stats and the deletes return, a blob file that a sweep removed was removed by an
  applying sweep, had a valid name in its own shard, was outside the \<open>Mark\<close> snapshot, was not held,
  was older than the effective grace period, and was not live at the recheck; every other file is
  untouched. A dry run removes nothing.
\<close>

theorem gc_removes_only_garbage:
  assumes "GCSweep n m grace apply e = (out, e')"
  shows "map_of (e_blobs e') (shard, name) = map_of (e_blobs e) (shard, name) \<or>
    (apply \<and> map_of (e_blobs e') (shard, name) = None \<and>
     (\<exists>f refs. map_of (e_blobs e) (shard, name) = Some f \<and> m_mark m = Some refs
        \<and> validSha256 name \<and> shard = take 2 name \<and> name \<notin> set refs
        \<and> \<not> fst (held (n_now n) name (e_holds e))
        \<and> (if grace \<le> 0 then DefaultGCGrace else grace) < n_now n - f_mtime f
        \<and> (if m_legacy m then \<exists>snap. m_remark m = Some snap \<and> name \<notin> set snap
           else m_live m name = Some False)))"
proof -
  from gcSweep_safe [OF assms [unfolded GCSweep_def]]
  consider "e' = e" | refs where "m_mark m = Some refs" "only_collected n refs m (effective_grace grace) apply e e'"
    by blast
  then show ?thesis
  proof cases
    case 2
    from 2(2) have "map_of (e_blobs e') (shard, name) = map_of (e_blobs e) (shard, name) \<or>
      (apply \<and> map_of (e_blobs e') (shard, name) = None \<and> (\<exists>f. map_of (e_blobs e) (shard, name) = Some f \<and>
        (shard, name) = blobKey (snd (shard, name)) \<and> collectable n refs m (effective_grace grace) e (snd (shard, name)) f))"
      unfolding only_collected_def by blast
    with 2(1) show ?thesis
      by (auto simp: collectable_def blobKey_def held_now_def recheck_dead_def effective_grace_def)
  qed simp
qed

theorem gc_removes_only_garbage_witness:
  "\<exists>out e'. GCSweep (demo_env hour []) emptyMarker 0 True
       ((empty_engine demo_options)\<lparr>e_blobs := [(blobKey demo_sha, \<lparr>f_data = ''abc'', f_mtime = 0\<rparr>)]\<rparr>) = (out, e')
     \<and> map_of (e_blobs e') (blobKey demo_sha) = Some \<lparr>f_data = ''abc'', f_mtime = 0\<rparr>"
proof -
  let ?f = "\<lparr>f_data = ''abc'', f_mtime = 0\<rparr>"
  let ?e = "(empty_engine demo_options)\<lparr>e_blobs := [(blobKey demo_sha, ?f)]\<rparr>"
  obtain out e' where r: "GCSweep (demo_env hour []) emptyMarker 0 True ?e = (out, e')" by fastforce
  have k: "blobKey demo_sha = (take 2 demo_sha, demo_sha)" by (simp add: blobKey_def)
  have young: "\<not> DefaultGCGrace < n_now (demo_env hour []) - f_mtime ?f"
    by (simp add: DefaultGCGrace_def demo_env_def duration_defs)
  show ?thesis using gc_removes_only_garbage [OF r, of "take 2 demo_sha" demo_sha] r young by (auto simp: k)
qed

text \<open>
  C17: A sweep that meets no error collects exactly the garbage. The list it returns is sorted,
  has no duplicates and names precisely the collectable blobs (well named, unmarked, not held,
  older than the grace period, dead at the recheck); these files are gone and all others are
  still there.
\<close>

theorem gc_collects_exactly:
  assumes "quiet n" "recheck_total m" "\<not> e_closed e" "\<And>k. \<not> n_ctxAfter n k" "m_mark m = Some refs"
  shows "\<exists>del e'. GCSweep n m grace True e = ((del, False), e') \<and> sorted del \<and> distinct del
    \<and> (\<forall>sha. (sha \<in> set del \<longleftrightarrow>
             (\<exists>f. blob_get sha e = Some f \<and> collectable n refs m (effective_grace grace) e sha f))
          \<and> blob_get sha e' = (if sha \<in> set del then None else blob_get sha e))"
proof -
  have key: "collected_key n refs m g e (blobKey sha) \<longleftrightarrow>
      (\<exists>f. blob_get sha e = Some f \<and> collectable n refs m g e sha f)" for g sha
    by (auto simp: collected_key_def blob_get_def blobKey_def)
  obtain del e' where r: "gcSweep n m grace True True e = ((del, False), e')" "sorted del" "distinct del"
    "\<And>sha. sha \<in> set del \<longleftrightarrow> collected_key n refs m (effective_grace grace) e (blobKey sha)"
    "\<And>k. map_of (e_blobs e') k
          = (if collected_key n refs m (effective_grace grace) e k then None else map_of (e_blobs e) k)"
    using gcSweep_exact [OF assms, of grace] by blast
  have "blob_get sha e' = (if sha \<in> set del then None else blob_get sha e)" for sha
    unfolding r(4) by (simp add: blob_get_def r(5))
  with r(1-3) r(4) [unfolded key] show ?thesis unfolding GCSweep_def by blast
qed

theorem gc_collects_exactly_witness:
  "\<exists>del e'. GCSweep (demo_env (25 * hour) []) emptyMarker 0 True
       ((empty_engine demo_options)\<lparr>e_blobs := [(blobKey demo_sha, \<lparr>f_data = ''abc'', f_mtime = 0\<rparr>)]\<rparr>)
     = ((del, False), e') \<and> demo_sha \<in> set del"
proof -
  let ?n = "demo_env (25 * hour) []"
  let ?e = "(empty_engine demo_options)\<lparr>e_blobs := [(blobKey demo_sha, \<lparr>f_data = ''abc'', f_mtime = 0\<rparr>)]\<rparr>"
  have "collectable ?n [] emptyMarker (effective_grace 0) ?e demo_sha \<lparr>f_data = ''abc'', f_mtime = 0\<rparr>"
    using demo_sha_valid(1)
    by (simp add: collectable_def held_now_def held_def empty_engine_def newHoldSet_def recheck_dead_def
        emptyMarker_def effective_grace_def DefaultGCGrace_def demo_env_def duration_defs)
  moreover have "blob_get demo_sha ?e = Some \<lparr>f_data = ''abc'', f_mtime = 0\<rparr>" by (simp add: blob_get_def)
  moreover have "\<exists>del e'. GCSweep ?n emptyMarker 0 True ?e = ((del, False), e') \<and> sorted del \<and> distinct del
    \<and> (\<forall>sha. (sha \<in> set del \<longleftrightarrow>
             (\<exists>f. blob_get sha ?e = Some f \<and> collectable ?n [] emptyMarker (effective_grace 0) ?e sha f))
          \<and> blob_get sha e' = (if sha \<in> set del then None else blob_get sha ?e))"
    by (rule gc_collects_exactly)
      (simp_all add: quiet_def demo_env_def recheck_total_def emptyMarker_def empty_engine_def)
  ultimately show ?thesis by blast
qed

text \<open>
  C2: Collecting while uploads run is safe. In every interleaving of publishers, reference
  deletions, clock ticks and the sweep, when the sweep has passed both gates for a blob, no
  publisher that had registered for it when the scan saw the file is still in flight, and none of
  them has a reference to it any more: a fresh upload never loses its blob between the rename and
  the metadata commit, nor after it. The argument needs the hold gate to come before the live
  gate.
\<close>

theorem gc_concurrent_safe:
  assumes "gc_reachable sha_of w" "w_sweeper w = Gating sha A []"
  shows "\<forall>p\<in>A. sha_of p = sha \<and> w_phase w p = Finished \<and> (p, sha) \<notin> w_refs w"
  using gc_reachable_inv [OF assms(1)] assms(2) by (simp add: gc_inv_def sweeper_ok_def gates_passed_def)

definition demo_world :: gc_world where
  "demo_world = \<lparr>w_clock = 0, w_holds = newHoldSet 0, w_blobs = {}, w_refs = {}, w_phase = (\<lambda>_. Idle),
     w_sweeper = Resting\<rparr>"

theorem gc_concurrent_safe_witness:
  "\<exists>w A. gc_reachable (\<lambda>_. ''aa'') w \<and> w_sweeper w = Gating ''aa'' A [] \<and> A = {0} \<and> (0, ''aa'') \<notin> w_refs w"
proof -
  let ?f = "\<lambda>_::nat. ''aa''"
  let ?h1 = "acquire 0 ''aa'' (newHoldSet 0)"
  let ?w1 = "demo_world\<lparr>w_holds := ?h1, w_phase := (\<lambda>_. Idle)(0 := Holding 0)\<rparr>"
  let ?w2 = "?w1\<lparr>w_blobs := {''aa''}, w_phase := (\<lambda>_. Idle)(0 := Published 0)\<rparr>"
  let ?w3 = "?w2\<lparr>w_phase := (\<lambda>_. Idle)(0 := Finished), w_clock := 0\<rparr>"
  let ?w4 = "?w3\<lparr>w_clock := 600 * second\<rparr>"
  let ?w5 = "?w4\<lparr>w_sweeper := Gating ''aa'' {0} [HoldGate, LiveGate]\<rparr>"
  let ?w6 = "?w5\<lparr>w_holds := snd (held (600 * second) ''aa'' ?h1), w_sweeper := Gating ''aa'' {0} [LiveGate]\<rparr>"
  let ?w7 = "?w6\<lparr>w_sweeper := Gating ''aa'' {0} []\<rparr>"
  have r0: "gc_reachable ?f demo_world" by (rule gc_reachable.init) (simp_all add: demo_world_def)
  have "gc_step ?f demo_world ?w1" using gc_step.register [of demo_world 0 ?f] by (simp add: demo_world_def)
  from gc_reachable.step [OF r0 this] have r1: "gc_reachable ?f ?w1" .
  have "gc_step ?f ?w1 ?w2" using gc_step.publish [of ?w1 0 0 ?f] by (simp add: demo_world_def)
  from gc_reachable.step [OF r1 this] have r2: "gc_reachable ?f ?w2" .
  have "gc_step ?f ?w2 ?w3" using gc_step.stop [of ?w2 0 ?f] by (simp add: demo_world_def)
  from gc_reachable.step [OF r2 this] have r3: "gc_reachable ?f ?w3" .
  have "gc_step ?f ?w3 ?w4" by (rule gc_step.tick) (auto simp: demo_world_def second_def split: if_splits)
  from gc_reachable.step [OF r3 this] have r4: "gc_reachable ?f ?w4" .
  have "{p. ?f p = ''aa'' \<and> w_phase ?w4 p \<noteq> Idle} = {0}" by auto
  then have "gc_step ?f ?w4 ?w5" using gc_step.scan [of ?w4 "''aa''" ?f]
    by (simp add: demo_world_def gcDeleteGate_order_def)
  from gc_reachable.step [OF r4 this] have r5: "gc_reachable ?f ?w5" .
  have "\<not> fst (held (600 * second) ''aa'' ?h1)"
    by (simp add: hs.chk_iff hs.cnt_acq hs.since_acq hs.ttl_acq newHoldSet_def resolveGCHoldTTL_def DefaultGCHoldTTL_def)
  then have "held (w_clock ?w5) ''aa'' (w_holds ?w5) = (False, snd (held (600 * second) ''aa'' ?h1))"
    by (simp add: prod_eq_iff)
  then have "gc_step ?f ?w5 ?w6" using gc_step.hold_gate [of ?w5 "''aa''" "{0}" "[LiveGate]" False _ ?f]
    by (simp add: demo_world_def)
  from gc_reachable.step [OF r5 this] have r6: "gc_reachable ?f ?w6" .
  have "gc_step ?f ?w6 ?w7" using gc_step.live_gate [of ?w6 "''aa''" "{0}" "[]" ?f] by (simp add: demo_world_def)
  from gc_reachable.step [OF r6 this] have r7: "gc_reachable ?f ?w7" .
  have "\<forall>p\<in>{0}. ?f p = ''aa'' \<and> w_phase ?w7 p = Finished \<and> (p, ''aa'') \<notin> w_refs ?w7"
    by (rule gc_concurrent_safe [OF r7]) simp
  then have "(0, ''aa'') \<notin> w_refs ?w7" by blast
  with r7 show ?thesis by (intro exI [of _ ?w7] exI [of _ "{0}"]) simp
qed

end
