(* ===== verification/Auth_Paths.thy ===== *)
theory Auth_Paths
  imports GoPrelude
begin

text \<open>
  The Ant-style patterns of permission targets (\<open>internal/auth/pathmatch.go\<close>): one segment with
  \<open>*\<close> (\<open>wildcardEqual\<close>), a list of segments with \<open>**\<close> (\<open>segsMatch\<close>, which backtracks), and a
  pattern against a path (\<open>match\<close>), where a path that ends in a slash is a folder.

  The specification says what a pattern means without saying how to look for a match:
  \<open>glob\<close> splits a segment at will at every star, \<open>ant\<close> lets \<open>**\<close> stand for any list of segments,
  and a folder may moreover extend a match whose last pattern segment is a plain name. The code
  looks for the literals from the left without backtracking inside a segment and with
  backtracking across segments; the theorems show that both find a match exactly when there is
  one.
\<close>


section \<open>One segment\<close>

definition star :: char where
  "star = CHR ''*''"

definition contains_star :: "string \<Rightarrow> bool" where
  "contains_star s \<longleftrightarrow> star \<in> set s"

text \<open>The loop over the middle literals: each is looked for to the right of the one before.\<close>

fun midLiterals :: "string list \<Rightarrow> string \<Rightarrow> bool" where
  "midLiterals [] s = True"
| "midLiterals (mid # mids) s =
     (if mid = [] then midLiterals mids s
      else (case str_index s mid of
              None \<Rightarrow> False
            | Some idx \<Rightarrow> midLiterals mids (drop (idx + length mid) s)))"

definition wildcardEqual :: "string \<Rightarrow> string \<Rightarrow> bool" where
  "wildcardEqual pattern s =
     (let parts = split_on star pattern in
      if length parts = 1 then pattern = s
      else if \<not> has_prefix s (hd parts) then False
      else
        (let s1 = drop (length (hd parts)) s; final = last parts in
         if \<not> has_suffix s1 final then False
         else midLiterals (butlast (tl parts)) (take (length s1 - length final) s1)))"

definition segmentMatch :: "string \<Rightarrow> string \<Rightarrow> bool" where
  "segmentMatch pattern segment =
     (if \<not> contains_star pattern then pattern = segment else wildcardEqual pattern segment)"


section \<open>Lists of segments\<close>

text \<open>
  \<open>segsMatch\<close>: the remaining pattern and path segments stand for the indices \<open>pi\<close> and \<open>ti\<close>;
  \<open>advanced\<close> is \<open>pi > 0\<close>. The recursive call of the \<open>**\<close> case starts afresh on the rest.
\<close>

fun segsLoop :: "string list \<Rightarrow> string list \<Rightarrow> bool \<Rightarrow> bool \<Rightarrow> bool \<Rightarrow> bool" where
  "segsLoop [] tSegs isFolder lastPlain advanced =
     (if tSegs = [] then True else isFolder \<and> lastPlain \<and> advanced)"
| "segsLoop (seg # rest) tSegs isFolder lastPlain advanced =
     (if seg = ''**'' then
        list_ex (\<lambda>skip. segsLoop rest (drop skip tSegs) isFolder False False) [0..<Suc (length tSegs)]
      else (case tSegs of
              [] \<Rightarrow> False
            | t # ts \<Rightarrow>
                if \<not> segmentMatch seg t then False
                else segsLoop rest ts isFolder (\<not> contains_star seg) True))"

definition segsMatch :: "string list \<Rightarrow> string list \<Rightarrow> bool \<Rightarrow> bool" where
  "segsMatch pSegs tSegs isFolder = segsLoop pSegs tSegs isFolder False False"

definition splitSegments :: "string \<Rightarrow> string list" where
  "splitSegments s = filter (\<lambda>seg. seg \<noteq> []) (map trim_space (split_on (CHR ''/'') s))"

definition matchPath :: "string \<Rightarrow> string \<Rightarrow> bool" where
  "matchPath pattern path0 =
     (if pattern = [] \<or> pattern = ''**'' \<or> pattern = ''**/*'' then True
      else
        (let path = trim_space path0 in
         if path = [] then False
         else segsMatch (splitSegments pattern) (splitSegments path) (has_suffix path ''/'')))"

definition matchesAny :: "string list \<Rightarrow> string \<Rightarrow> bool" where
  "matchesAny patterns path = list_ex (\<lambda>p. matchPath p path) patterns"


section \<open>What the patterns mean\<close>

fun glob :: "string \<Rightarrow> string \<Rightarrow> bool" where
  "glob [] s \<longleftrightarrow> s = []"
| "glob (c # p) s \<longleftrightarrow>
     (if c = star then \<exists>a b. s = a @ b \<and> glob p b
      else (case s of [] \<Rightarrow> False | x # xs \<Rightarrow> x = c \<and> glob p xs))"

inductive ant :: "string list \<Rightarrow> string list \<Rightarrow> bool" where
  ant_Nil: "ant [] []"
| ant_seg: "seg \<noteq> ''**'' \<Longrightarrow> glob seg t \<Longrightarrow> ant ps ts \<Longrightarrow> ant (seg # ps) (t # ts)"
| ant_any: "ant ps ts \<Longrightarrow> ant (''**'' # ps) (skipped @ ts)"

inductive_simps ant_Nil_iff [simp]: "ant [] ts"
inductive_cases ant_ConsE: "ant (seg # ps) ts"

definition plain_end :: "string list \<Rightarrow> bool" where
  "plain_end ps \<longleftrightarrow> ps \<noteq> [] \<and> \<not> contains_star (last ps)"

definition covers_segments :: "string list \<Rightarrow> string list \<Rightarrow> bool \<Rightarrow> bool" where
  "covers_segments ps ts folder \<longleftrightarrow>
     ant ps ts \<or> (folder \<and> plain_end ps \<and> (\<exists>above below. ts = above @ below \<and> ant ps above))"


section \<open>The search inside a segment\<close>

fun in_order :: "string list \<Rightarrow> string \<Rightarrow> bool" where
  "in_order [] s \<longleftrightarrow> True"
| "in_order (m # ms) s \<longleftrightarrow> (\<exists>a b. s = a @ m @ b \<and> in_order ms b)"

lemma in_order_extend: "in_order ms s \<Longrightarrow> in_order ms (a @ s)"
proof (cases ms)
  case (Cons m ms')
  assume "in_order ms s"
  with Cons obtain u b where "s = u @ m @ b" "in_order ms' b" by auto
  then have "a @ s = (a @ u) @ m @ b \<and> in_order ms' b" by simp
  with Cons show ?thesis by (metis in_order.simps(2))
qed simp

lemma str_index_Some:
  "str_index s p = Some i \<Longrightarrow> \<exists>t. s = take i s @ p @ t \<and> i + length p \<le> length s"
proof (induction s arbitrary: i)
  case (Cons x xs)
  show ?case
  proof (cases "has_prefix (x # xs) p")
    case True
    then obtain t where t: "x # xs = p @ t" by (auto simp: has_prefix_iff)
    have "i = 0" using True Cons.prems by simp
    moreover have "length p \<le> length (x # xs)" unfolding t by simp
    ultimately show ?thesis using t by simp
  next
    case False
    with Cons.prems obtain j where "str_index xs p = Some j" "i = Suc j" by auto
    with Cons.IH [of j] show ?thesis by auto
  qed
qed (auto split: if_splits)

lemma str_index_first: "s = a @ p @ b \<Longrightarrow> \<exists>i. str_index s p = Some i \<and> i \<le> length a"
proof (induction s arbitrary: a)
  case (Cons x xs)
  show ?case
  proof (cases "has_prefix (x # xs) p")
    case False
    with Cons.prems have "a \<noteq> []" by (auto simp: has_prefix_iff)
    with Cons.prems obtain a' where "a = x # a'" "xs = a' @ p @ b" by (cases a) auto
    with Cons.IH [of a'] False show ?thesis by auto
  qed simp
qed simp

text \<open>Looking for each literal at its first place loses no match: what is left is longest.\<close>

lemma midLiterals_in_order: "midLiterals ms s \<longleftrightarrow> in_order ms s"
proof (induction ms arbitrary: s)
  case (Cons m ms)
  show ?case
  proof (cases "m = []")
    case True
    have "in_order ms s \<Longrightarrow> in_order (m # ms) s"
      unfolding True in_order.simps by (metis append_Nil)
    moreover have "in_order (m # ms) s \<Longrightarrow> in_order ms s"
      using True by (auto intro: in_order_extend)
    ultimately have "in_order (m # ms) s \<longleftrightarrow> midLiterals ms s" using Cons.IH [of s] by blast
    with True show ?thesis by simp
  next
    case m: False
    show ?thesis
    proof
      assume "midLiterals (m # ms) s"
      with m obtain i where i: "str_index s m = Some i" "midLiterals ms (drop (i + length m) s)"
        by (auto split: option.splits)
      obtain t where t: "s = take i s @ m @ t" "i + length m \<le> length s"
        using str_index_Some [OF i(1)] by blast
      have "drop (i + length m) (take i s @ m @ t) = t" using t(2) by simp
      then have "drop (i + length m) s = t" using t(1) by metis
      with t i(2) Cons.IH show "in_order (m # ms) s" by (metis in_order.simps(2))
    next
      assume "in_order (m # ms) s"
      then obtain a b where ab: "s = a @ m @ b" "in_order ms b" by auto
      obtain i where i: "str_index s m = Some i" "i \<le> length a"
        using str_index_first [OF ab(1)] by blast
      have "drop (i + length m) s = drop (i + length m) (a @ m) @ b" using ab(1) i(2) by simp
      with ab(2) have "in_order ms (drop (i + length m) s)"
        using in_order_extend by metis
      with i(1) m Cons.IH show "midLiterals (m # ms) s" by simp
    qed
  qed
qed simp

lemma glob_literal:
  "star \<notin> set l \<Longrightarrow> glob (l @ p) s \<longleftrightarrow> (\<exists>t. s = l @ t \<and> glob p t)"
proof (induction l arbitrary: s)
  case (Cons c l)
  then show ?case by (cases s) auto
qed simp

lemma glob_plain: "star \<notin> set l \<Longrightarrow> glob l s \<longleftrightarrow> s = l"
  using glob_literal [of l "[]" s] by simp

lemma glob_after_star:
  assumes "\<forall>m\<in>set (ms @ [l]). star \<notin> set m"
  shows "glob (star # join_with star (ms @ [l])) s \<longleftrightarrow> (\<exists>u. s = u @ l \<and> in_order ms u)"
  using assms
proof (induction ms arbitrary: s)
  case Nil
  then show ?case by (auto simp: glob_plain)
next
  case (Cons m ms)
  obtain x xs where x: "ms @ [l] = x # xs" by (cases "ms @ [l]") auto
  have j: "join_with star ((m # ms) @ [l]) = m @ star # join_with star (ms @ [l])"
    using x by simp
  have IH: "glob (star # join_with star (ms @ [l])) t \<longleftrightarrow> (\<exists>u. t = u @ l \<and> in_order ms u)" for t
    using Cons by simp
  have "glob (star # join_with star ((m # ms) @ [l])) s \<longleftrightarrow>
      (\<exists>a b. s = a @ b \<and> (\<exists>t. b = m @ t \<and> (\<exists>u. t = u @ l \<and> in_order ms u)))"
    unfolding j using Cons.prems IH
    by (subst glob.simps) (simp add: glob_literal del: glob.simps)
  also have "\<dots> \<longleftrightarrow> (\<exists>a u. s = a @ m @ u @ l \<and> in_order ms u)" by blast
  also have "\<dots> \<longleftrightarrow> (\<exists>u. s = u @ l \<and> in_order (m # ms) u)" by fastforce
  finally show ?case .
qed

lemma split_star_parts:
  obtains "split_on star p = [p]" "star \<notin> set p"
  | first mids final where "split_on star p = first # mids @ [final]"
      "star \<notin> set first" "\<forall>m\<in>set (mids @ [final]). star \<notin> set m"
      "p = first @ star # join_with star (mids @ [final])"
proof (cases "split_on star p")
  case (Cons first more)
  have parts: "\<forall>q\<in>set (split_on star p). star \<notin> set q" by (rule split_on_parts)
  show thesis
  proof (cases more rule: rev_cases)
    case Nil
    then have "split_on star p = [p]" using Cons join_split [of star p] by simp
    with parts show thesis using that(1) by simp
  next
    case (snoc mids final)
    have "p = join_with star (first # mids @ [final])"
      using Cons snoc join_split [of star p] by simp
    also have "\<dots> = first @ star # join_with star (mids @ [final])" by (cases mids) auto
    finally have "p = first @ star # join_with star (mids @ [final])" .
    with parts Cons snoc show thesis using that(2) [of first mids final] by simp
  qed
qed simp

lemma wildcardEqual_glob: "wildcardEqual p s \<longleftrightarrow> glob p s"
proof (rule split_star_parts [of p])
  assume "split_on star p = [p]" "star \<notin> set p"
  then show ?thesis by (auto simp: wildcardEqual_def glob_plain)
next
  fix first mids final
  assume s: "split_on star p = first # mids @ [final]" and first: "star \<notin> set first"
    and rest: "\<forall>m\<in>set (mids @ [final]). star \<notin> set m"
    and p: "p = first @ star # join_with star (mids @ [final])"
  have "glob p s \<longleftrightarrow> (\<exists>t. s = first @ t \<and> (\<exists>u. t = u @ final \<and> in_order mids u))"
    using p glob_literal [OF first] glob_after_star [OF rest] by simp
  also have "\<dots> \<longleftrightarrow> wildcardEqual p s"
    by (auto simp: wildcardEqual_def s has_prefix_iff has_suffix_iff midLiterals_in_order)
  finally show ?thesis by simp
qed

lemma segmentMatch_glob: "segmentMatch p s \<longleftrightarrow> glob p s"
  by (auto simp: segmentMatch_def contains_star_def wildcardEqual_glob glob_plain)


section \<open>The search across segments\<close>

lemma ant_seg_iff:
  "seg \<noteq> ''**'' \<Longrightarrow> ant (seg # ps) ts \<longleftrightarrow> (\<exists>t us. ts = t # us \<and> glob seg t \<and> ant ps us)"
  by (auto elim: ant_ConsE intro: ant.intros)

lemma ant_any_iff: "ant (''**'' # ps) ts \<longleftrightarrow> (\<exists>k\<le>length ts. ant ps (drop k ts))"
proof
  assume "ant (''**'' # ps) ts"
  then obtain skipped us where "ts = skipped @ us" "ant ps us" by (auto elim: ant_ConsE)
  then have "length skipped \<le> length ts \<and> ant ps (drop (length skipped) ts)" by simp
  then show "\<exists>k\<le>length ts. ant ps (drop k ts)" by blast
next
  assume "\<exists>k\<le>length ts. ant ps (drop k ts)"
  then show "ant (''**'' # ps) ts" by (metis ant_any append_take_drop_id)
qed

lemma plain_end_Cons [simp]:
  "ps \<noteq> [] \<Longrightarrow> plain_end (seg # ps) = plain_end ps"
  "plain_end [seg] \<longleftrightarrow> \<not> contains_star seg"
  by (simp_all add: plain_end_def)

lemma ant_any_prefix:
  "(\<exists>above below. ts = above @ below \<and> ant (''**'' # ps) above) \<longleftrightarrow>
     (\<exists>k\<le>length ts. \<exists>above below. drop k ts = above @ below \<and> ant ps above)"
proof
  assume "\<exists>above below. ts = above @ below \<and> ant (''**'' # ps) above"
  then obtain skipped us below where "ts = skipped @ us @ below" "ant ps us"
    by (auto elim: ant_ConsE)
  then have "length skipped \<le> length ts \<and> drop (length skipped) ts = us @ below" by simp
  with \<open>ant ps us\<close> show "\<exists>k\<le>length ts. \<exists>above below. drop k ts = above @ below \<and> ant ps above"
    by blast
next
  assume "\<exists>k\<le>length ts. \<exists>above below. drop k ts = above @ below \<and> ant ps above"
  then obtain k above below where "drop k ts = above @ below" "ant ps above" by blast
  then have "ts = (take k ts @ above) @ below" "ant (''**'' # ps) (take k ts @ above)"
    by (metis append.assoc append_take_drop_id) (rule ant_any [OF \<open>ant ps above\<close>])
  then show "\<exists>above below. ts = above @ below \<and> ant (''**'' # ps) above" by blast
qed

lemma covers_any:
  assumes "ps \<noteq> []"
  shows "covers_segments (''**'' # ps) ts folder \<longleftrightarrow>
           (\<exists>k\<le>length ts. covers_segments ps (drop k ts) folder)"
proof -
  have ex: "(\<exists>k\<le>n. A k) \<or> (f \<and> p \<and> (\<exists>k\<le>n. B k)) \<longleftrightarrow> (\<exists>k\<le>n. A k \<or> (f \<and> p \<and> B k))"
    for A B :: "nat \<Rightarrow> bool" and f p n by blast
  have "covers_segments (''**'' # ps) ts folder \<longleftrightarrow> (\<exists>k\<le>length ts. ant ps (drop k ts)) \<or>
      (folder \<and> plain_end ps \<and>
       (\<exists>k\<le>length ts. \<exists>above below. drop k ts = above @ below \<and> ant ps above))"
    unfolding covers_segments_def
    using ant_any_iff [of ps ts] ant_any_prefix [of ts ps] plain_end_Cons(1) [OF assms] by simp
  then show ?thesis unfolding covers_segments_def ex .
qed

lemma covers_any_last: "covers_segments [''**''] ts folder"
  by (simp add: covers_segments_def ant_any_iff) (metis drop_all order_refl)

lemma covers_seg:
  assumes "ps \<noteq> []" "seg \<noteq> ''**''"
  shows "covers_segments (seg # ps) ts folder \<longleftrightarrow>
           (\<exists>t us. ts = t # us \<and> glob seg t \<and> covers_segments ps us folder)"
proof -
  have "(\<exists>above below. ts = above @ below \<and> ant (seg # ps) above) \<longleftrightarrow>
      (\<exists>t us. ts = t # us \<and> glob seg t \<and> (\<exists>above below. us = above @ below \<and> ant ps above))"
    using assms(2) by (simp add: ant_seg_iff) (metis Cons_eq_append_conv append_Cons list.distinct(1))
  then show ?thesis
    unfolding covers_segments_def plain_end_Cons(1) [OF assms(1)] ant_seg_iff [OF assms(2)] by blast
qed

lemma covers_seg_last:
  assumes "seg \<noteq> ''**''"
  shows "covers_segments [seg] ts folder \<longleftrightarrow>
           (\<exists>t us. ts = t # us \<and> glob seg t \<and> (us = [] \<or> (folder \<and> \<not> contains_star seg)))"
proof -
  have "(\<exists>above below. ts = above @ below \<and> ant [seg] above) \<longleftrightarrow> (\<exists>t us. ts = t # us \<and> glob seg t)"
    using assms by (simp add: ant_seg_iff) (metis append_Cons append_Nil)
  then show ?thesis
    using assms by (auto simp: covers_segments_def ant_seg_iff)
qed

text \<open>What is left of the loop, whatever it has seen: the state matters only when no pattern is left.\<close>

lemma segsLoop_covers:
  "segsLoop ps ts folder lp adv \<longleftrightarrow>
     (if ps = [] then ts = [] \<or> (folder \<and> lp \<and> adv) else covers_segments ps ts folder)"
proof (induction ps arbitrary: ts lp adv)
  case (Cons seg rest)
  show ?case
  proof (cases "seg = ''**''")
    case True
    have "segsLoop (seg # rest) ts folder lp adv \<longleftrightarrow>
        (\<exists>k\<le>length ts. segsLoop rest (drop k ts) folder False False)"
      using True by (simp add: list_ex_iff atLeast0LessThan less_Suc_eq_le Bex_def
          del: upt_Suc)
    also have "\<dots> \<longleftrightarrow> covers_segments (seg # rest) ts folder"
      unfolding Cons.IH using True covers_any [of rest] covers_any_last
      by (cases "rest = []") (auto intro: exI [of _ "length ts"])
    finally show ?thesis by simp
  next
    case False
    then show ?thesis
      using Cons.IH covers_seg [of rest seg ts folder] covers_seg_last [of seg ts folder]
      by (cases ts; cases "rest = []") (auto simp: segmentMatch_glob)
  qed
qed simp

lemma covers_no_pattern: "covers_segments [] ts folder \<longleftrightarrow> ts = []"
  by (auto simp: covers_segments_def plain_end_def)

lemma segsMatch_covers: "segsMatch ps ts folder \<longleftrightarrow> covers_segments ps ts folder"
  by (simp add: segsMatch_def segsLoop_covers covers_no_pattern)


section \<open>Patterns and paths\<close>

definition covers_everything :: "string \<Rightarrow> bool" where
  "covers_everything pattern \<longleftrightarrow> pattern = [] \<or> pattern = ''**'' \<or> pattern = ''**/*''"

lemma matchPath_iff:
  "matchPath pattern path \<longleftrightarrow>
     covers_everything pattern \<or>
     (trim_space path \<noteq> [] \<and>
      covers_segments (splitSegments pattern) (splitSegments (trim_space path))
        (has_suffix (trim_space path) ''/''))"
  by (auto simp: matchPath_def covers_everything_def segsMatch_covers Let_def)

text \<open>
  C24: A pattern matches a path exactly when it is one of the three spellings of "everything", or
  the trimmed path is not empty and its segments are what the pattern's segments describe: each
  plain or starred segment stands for one segment it globs, each \<open>**\<close> for any number of segments,
  and only a folder (a path with a trailing slash) may continue below the match, and only when the
  pattern ends in a plain name. So the left-to-right search inside a segment and the backtracking
  across segments neither miss a match nor invent one, and a file is never covered by a pattern
  that merely names one of its ancestors.
\<close>

theorem matchPath_meaning:
  "matchPath pattern path \<longleftrightarrow>
     covers_everything pattern \<or>
     (trim_space path \<noteq> [] \<and>
      covers_segments (splitSegments pattern) (splitSegments (trim_space path))
        (has_suffix (trim_space path) ''/''))"
  by (rule matchPath_iff)

lemma matchesAny_ex: "matchesAny patterns path \<longleftrightarrow> (\<exists>p\<in>set patterns. matchPath p path)"
  by (simp add: matchesAny_def list_ex_iff)

lemma splitSegments_append:
  "splitSegments (s @ CHR ''/'' # t) = splitSegments s @ splitSegments t"
  by (simp add: splitSegments_def split_on_append_any)

lemma ant_append: "ant (ps @ qs) ts \<longleftrightarrow> (\<exists>us vs. ts = us @ vs \<and> ant ps us \<and> ant qs vs)"
proof (induction ps arbitrary: ts)
  case (Cons seg ps)
  show ?case
  proof (cases "seg = ''**''")
    case True
    show ?thesis
    proof
      assume "ant ((seg # ps) @ qs) ts"
      with True obtain sk rest where "ts = sk @ rest" "ant (ps @ qs) rest"
        by (auto elim: ant_ConsE)
      with Cons.IH obtain us vs where "ts = (sk @ us) @ vs" "ant ps us" "ant qs vs" by auto
      then show "\<exists>us vs. ts = us @ vs \<and> ant (seg # ps) us \<and> ant qs vs"
        using True ant_any by blast
    next
      assume "\<exists>us vs. ts = us @ vs \<and> ant (seg # ps) us \<and> ant qs vs"
      with True obtain sk us vs where "ts = sk @ us @ vs" "ant ps us" "ant qs vs"
        by (auto elim: ant_ConsE)
      with Cons.IH [of "us @ vs"] True show "ant ((seg # ps) @ qs) ts" by (auto intro: ant_any)
    qed
  next
    case False
    then show ?thesis using Cons.IH by (simp add: ant_seg_iff) (metis append_Cons)
  qed
qed simp

lemma ant_trailing_any: "ant (ps @ [''**'']) ts \<longleftrightarrow> (\<exists>us vs. ts = us @ vs \<and> ant ps us)"
  unfolding ant_append ant_any_iff by (metis ant_Nil_iff drop_all order_refl)

lemma splitSegments_any: "splitSegments ''**'' = [''**'']"
  by (simp add: splitSegments_def trim_space_def char_class_defs)

text \<open>
  A pattern that ends in \<open>/**\<close> covers the directory it names and everything below it, files
  and folders alike: it matches a non-empty path exactly when some leading part of the path's
  segments is described by the directory pattern.
\<close>

theorem subtree_pattern:
  "matchPath (dir @ ''/**'') path \<longleftrightarrow>
     trim_space path \<noteq> [] \<and>
     (\<exists>above below. splitSegments (trim_space path) = above @ below \<and> ant (splitSegments dir) above)"
proof -
  have segs: "splitSegments (dir @ ''/**'') = splitSegments dir @ [''**'']"
    using splitSegments_append [of dir "''**''"] splitSegments_any by simp
  have "dir @ ''/**'' \<noteq> ''**''" "dir @ ''/**'' \<noteq> ''**/*''"
    by (auto simp: append_eq_Cons_conv)
  then have "\<not> covers_everything (dir @ ''/**'')" by (simp add: covers_everything_def)
  moreover have "\<not> plain_end (splitSegments dir @ [''**''])"
    by (simp add: plain_end_def contains_star_def star_def)
  ultimately show ?thesis
    unfolding matchPath_iff segs covers_segments_def ant_trailing_any by simp
qed

end
