(* ===== verification/GoJson.thy ===== *)
theory GoJson
  imports GoPrelude
begin

text \<open>
  \<open>encoding/json\<close> at the types the sources decode into: \<open>[]string\<close> and structs of strings and
  string slices. \<open>json_parse\<close> is the decoder's own scanner (RFC 8259 values between white space,
  nesting at most 10000), with Go's unquoting: \<open>\\u\<close> escapes become UTF-8, unpaired surrogates and
  invalid UTF-8 become U+FFFD. Recursion is bounded by fuel: of any two
  nested calls one has consumed a byte, so twice the length of the input is enough and
  \<open>json_parse\<close> supplies one more.

  Decoding keeps Go's reading of \<open>null\<close>: it leaves the zero value, so a null array is the empty
  slice and a null element the empty string. Errors are one value: the callers only test for them.
\<close>

datatype json =
    JNull
  | JBool bool
  | JNumber string
  | JString string
  | JArray "json list"
  | JObject "(string \<times> json) list"


section \<open>Runes\<close>

definition byte :: "nat \<Rightarrow> char" where
  "byte n = char_of n"

definition utf8_encode :: "nat \<Rightarrow> string" where
  "utf8_encode r =
     (if r < 0x80 then [byte r]
      else if r < 0x800 then [byte (0xC0 + r div 64), byte (0x80 + r mod 64)]
      else if r < 0x10000 then
        [byte (0xE0 + r div 4096), byte (0x80 + r div 64 mod 64), byte (0x80 + r mod 64)]
      else
        [byte (0xF0 + r div 262144), byte (0x80 + r div 4096 mod 64),
         byte (0x80 + r div 64 mod 64), byte (0x80 + r mod 64)])"

definition rune_error :: string where
  "rune_error = utf8_encode 0xFFFD"

definition cont_byte :: "char \<Rightarrow> bool" where
  "cont_byte c \<longleftrightarrow> 0x80 \<le> byte_of c \<and> byte_of c \<le> 0xBF"

text \<open>The range of the second byte of a well-formed sequence, by its first byte.\<close>

definition second_range :: "nat \<Rightarrow> nat \<times> nat" where
  "second_range b =
     (if b = 0xE0 then (0xA0, 0xBF) else if b = 0xED then (0x80, 0x9F)
      else if b = 0xF0 then (0x90, 0xBF) else if b = 0xF4 then (0x80, 0x8F) else (0x80, 0xBF))"

definition second_ok :: "char \<Rightarrow> char \<Rightarrow> bool" where
  "second_ok a b = (case second_range (byte_of a) of (lo, hi) \<Rightarrow> lo \<le> byte_of b \<and> byte_of b \<le> hi)"

text \<open>The length of the well-formed UTF-8 sequence at the head of a string, 0 when there is none.\<close>

fun utf8_len :: "string \<Rightarrow> nat" where
  "utf8_len [] = 0"
| "utf8_len (a # s) =
     (let n = byte_of a in
      if n < 0x80 then 1
      else if 0xC2 \<le> n \<and> n \<le> 0xDF then
        (case s of b # _ \<Rightarrow> if cont_byte b then 2 else 0 | [] \<Rightarrow> 0)
      else if 0xE0 \<le> n \<and> n \<le> 0xEF then
        (case s of b # c # _ \<Rightarrow> if second_ok a b \<and> cont_byte c then 3 else 0 | _ \<Rightarrow> 0)
      else if 0xF0 \<le> n \<and> n \<le> 0xF4 then
        (case s of b # c # d # _ \<Rightarrow> if second_ok a b \<and> cont_byte c \<and> cont_byte d then 4 else 0 | _ \<Rightarrow> 0)
      else 0)"

definition hex_val :: "char \<Rightarrow> nat option" where
  "hex_val c =
     (let n = byte_of c in
      if is_digit c then Some (n - 48)
      else if 97 \<le> n \<and> n \<le> 102 then Some (n - 87)
      else if 65 \<le> n \<and> n \<le> 70 then Some (n - 55)
      else None)"

fun hex4 :: "string \<Rightarrow> (nat \<times> string) option" where
  "hex4 (a # b # c # d # s) =
     (case (hex_val a, hex_val b, hex_val c, hex_val d) of
        (Some w, Some x, Some y, Some z) \<Rightarrow> Some (((w * 16 + x) * 16 + y) * 16 + z, s)
      | _ \<Rightarrow> None)"
| "hex4 _ = None"

definition surrogate :: "nat \<Rightarrow> bool" where
  "surrogate r \<longleftrightarrow> 0xD800 \<le> r \<and> r < 0xE000"

text \<open>\<open>utf16.DecodeRune\<close> on a surrogate pair.\<close>

definition pair_rune :: "nat \<Rightarrow> nat \<Rightarrow> nat option" where
  "pair_rune hi lo =
     (if 0xD800 \<le> hi \<and> hi < 0xDC00 \<and> 0xDC00 \<le> lo \<and> lo < 0xE000
      then Some ((hi - 0xD800) * 1024 + (lo - 0xDC00) + 0x10000) else None)"


section \<open>The scanner\<close>

definition json_space :: "char \<Rightarrow> bool" where
  "json_space c \<longleftrightarrow> byte_of c \<in> {9, 10, 13, 32}"

definition skip_ws :: "string \<Rightarrow> string" where
  "skip_ws s = dropWhile json_space s"

definition simple_escape :: "char \<Rightarrow> char option" where
  "simple_escape c =
     (if c = CHR 0x22 \<or> c = CHR 0x5C \<or> c = CHR ''/'' then Some c
      else if c = CHR ''b'' then Some (byte 8) else if c = CHR ''f'' then Some (byte 12)
      else if c = CHR ''n'' then Some (byte 10) else if c = CHR ''r'' then Some (byte 13)
      else if c = CHR ''t'' then Some (byte 9) else None)"

text \<open>A string literal after its opening quote: its value and what follows the closing one.\<close>

fun json_chars :: "nat \<Rightarrow> string \<Rightarrow> (string \<times> string) option" where
  "json_chars 0 s = None"
| "json_chars (Suc n) [] = None"
| "json_chars (Suc n) (c # s) =
     (if c = CHR 0x22 then Some ([], s)
      else if byte_of c < 0x20 then None
      else if c = CHR 0x5C then
        (case s of
           [] \<Rightarrow> None
         | e # t \<Rightarrow>
             if e = CHR ''u'' then
               (case hex4 t of
                  None \<Rightarrow> None
                | Some (r, u) \<Rightarrow>
                    if surrogate r then
                      (case u of
                         b # v # w \<Rightarrow>
                           (case (if b = CHR 0x5C \<and> v = CHR ''u'' then hex4 w else None) of
                              Some (q, x) \<Rightarrow>
                                (case pair_rune r q of
                                   Some p \<Rightarrow> map_option (apfst ((@) (utf8_encode p))) (json_chars n x)
                                 | None \<Rightarrow> map_option (apfst ((@) rune_error)) (json_chars n u))
                            | None \<Rightarrow> map_option (apfst ((@) rune_error)) (json_chars n u))
                       | _ \<Rightarrow> map_option (apfst ((@) rune_error)) (json_chars n u))
                    else map_option (apfst ((@) (utf8_encode r))) (json_chars n u))
             else (case simple_escape e of
                     None \<Rightarrow> None
                   | Some x \<Rightarrow> map_option (apfst ((#) x)) (json_chars n t)))
      else if utf8_len (c # s) = 0 then map_option (apfst ((@) rune_error)) (json_chars n s)
      else map_option (apfst ((@) (take (utf8_len (c # s)) (c # s))))
             (json_chars n (drop (utf8_len (c # s)) (c # s))))"

definition span_digits :: "string \<Rightarrow> string \<times> string" where
  "span_digits s = (takeWhile is_digit s, dropWhile is_digit s)"

text \<open>A number literal: its spelling and the rest.\<close>

definition json_number :: "string \<Rightarrow> (string \<times> string) option" where
  "json_number s =
     (let (sign, s1) = (case s of c # t \<Rightarrow> if c = CHR ''-'' then ([c], t) else ([], s) | [] \<Rightarrow> ([], s));
          (whole, s2) = span_digits s1
      in if whole = [] then None
         else
           (let (lead, s2) = (if hd whole = CHR ''0'' then ([hd whole], tl s1) else (whole, s2));
                frac = (case s2 of c # t \<Rightarrow> if c = CHR ''.'' then Some (span_digits t) else None | [] \<Rightarrow> None)
            in if (case frac of Some (d, _) \<Rightarrow> d = [] | None \<Rightarrow> False) then None
               else
                 (let (f, s3) = (case frac of Some (d, t) \<Rightarrow> (CHR ''.'' # d, t) | None \<Rightarrow> ([], s2)) in
                  case s3 of
                    c # t \<Rightarrow>
                      if c = CHR ''e'' \<or> c = CHR ''E'' then
                        (let (g, u) = (case t of x # y \<Rightarrow> if x = CHR ''+'' \<or> x = CHR ''-'' then ([x], y) else ([], t)
                                       | [] \<Rightarrow> ([], t));
                             (d, v) = span_digits u
                         in if d = [] then None else Some (sign @ lead @ f @ c # g @ d, v))
                      else Some (sign @ lead @ f, s3)
                  | [] \<Rightarrow> Some (sign @ lead @ f, s3))))"

definition max_nesting :: nat where
  "max_nesting = 10000"

fun json_value :: "nat \<Rightarrow> nat \<Rightarrow> string \<Rightarrow> (json \<times> string) option"
  and json_elems :: "nat \<Rightarrow> nat \<Rightarrow> string \<Rightarrow> (json list \<times> string) option"
  and json_members :: "nat \<Rightarrow> nat \<Rightarrow> string \<Rightarrow> ((string \<times> json) list \<times> string) option" where
  "json_value 0 d s = None"
| "json_value (Suc n) d s =
     (case s of
        [] \<Rightarrow> None
      | c # t \<Rightarrow>
          if c = CHR 0x22 then map_option (apfst JString) (json_chars (length s) t)
          else if c = CHR ''['' then
            (if d \<ge> max_nesting then None
             else (case skip_ws t of
                     e # u \<Rightarrow> if e = CHR '']'' then Some (JArray [], u)
                              else map_option (apfst JArray) (json_elems n (Suc d) (e # u))
                   | [] \<Rightarrow> None))
          else if c = CHR ''{'' then
            (if d \<ge> max_nesting then None
             else (case skip_ws t of
                     e # u \<Rightarrow> if e = CHR ''}'' then Some (JObject [], u)
                              else map_option (apfst JObject) (json_members n (Suc d) (e # u))
                   | [] \<Rightarrow> None))
          else if has_prefix s ''null'' then Some (JNull, drop 4 s)
          else if has_prefix s ''true'' then Some (JBool True, drop 4 s)
          else if has_prefix s ''false'' then Some (JBool False, drop 5 s)
          else map_option (apfst JNumber) (json_number s))"
| "json_elems 0 d s = None"
| "json_elems (Suc n) d s =
     (case json_value n d s of
        None \<Rightarrow> None
      | Some (v, t) \<Rightarrow>
          (case skip_ws t of
             c # u \<Rightarrow>
               if c = CHR '']'' then Some ([v], u)
               else if c = CHR '','' then map_option (apfst ((#) v)) (json_elems n d (skip_ws u))
               else None
           | [] \<Rightarrow> None))"
| "json_members 0 d s = None"
| "json_members (Suc n) d s =
     (case s of
        [] \<Rightarrow> None
      | q # t \<Rightarrow>
          if q \<noteq> CHR 0x22 then None
          else (case json_chars (length s) t of
                  None \<Rightarrow> None
                | Some (k, u) \<Rightarrow>
                    (case skip_ws u of
                       c # v \<Rightarrow>
                         if c \<noteq> CHR '':'' then None
                         else (case json_value n d (skip_ws v) of
                                 None \<Rightarrow> None
                               | Some (x, w) \<Rightarrow>
                                   (case skip_ws w of
                                      e # y \<Rightarrow>
                                        if e = CHR ''}'' then Some ([(k, x)], y)
                                        else if e = CHR '','' then
                                          map_option (apfst ((#) (k, x))) (json_members n d (skip_ws y))
                                        else None
                                    | [] \<Rightarrow> None))
                     | [] \<Rightarrow> None)))"

declare json_value.simps(2) [simp del] json_elems.simps(2) [simp del] json_members.simps(2) [simp del]

definition json_parse :: "string \<Rightarrow> json option" where
  "json_parse s =
     (case json_value (Suc (2 * length s)) 0 (skip_ws s) of
        Some (v, t) \<Rightarrow> if skip_ws t = [] then Some v else None
      | None \<Rightarrow> None)"


section \<open>Decoding\<close>

fun json_as_string :: "json \<Rightarrow> string option" where
  "json_as_string JNull = Some []"
| "json_as_string (JString s) = Some s"
| "json_as_string _ = None"

fun map_opt :: "('a \<Rightarrow> 'b option) \<Rightarrow> 'a list \<Rightarrow> 'b list option" where
  "map_opt f [] = Some []"
| "map_opt f (x # xs) =
     (case f x of None \<Rightarrow> None | Some y \<Rightarrow> map_option ((#) y) (map_opt f xs))"

fun json_as_strings :: "json \<Rightarrow> string list option" where
  "json_as_strings JNull = Some []"
| "json_as_strings (JArray vs) = map_opt json_as_string vs"
| "json_as_strings _ = None"

text \<open>\<open>json.Unmarshal\<close> into a \<open>[]string\<close>.\<close>

definition unmarshal_strings :: "string \<Rightarrow> string list option" where
  "unmarshal_strings s = Option.bind (json_parse s) json_as_strings"

text \<open>
  A struct field of type \<open>string\<close> or \<open>[]string\<close>: the members of its name, matched without regard to
  case, one after the other; a null leaves a string as it is and empties a slice, and a value of
  another type fails the decoding. (A slice given twice is read as if the first were absent.)
\<close>

definition members_of :: "string \<Rightarrow> (string \<times> json) list \<Rightarrow> json list" where
  "members_of name ms = map snd (filter (\<lambda>m. equal_fold (fst m) name) ms)"

fun string_field :: "string \<Rightarrow> json list \<Rightarrow> string option" where
  "string_field acc [] = Some acc"
| "string_field acc (v # vs) =
     (case v of JNull \<Rightarrow> string_field acc vs | JString s \<Rightarrow> string_field s vs | _ \<Rightarrow> None)"

fun strings_field :: "string list \<Rightarrow> json list \<Rightarrow> string list option" where
  "strings_field acc [] = Some acc"
| "strings_field acc (v # vs) =
     (case json_as_strings v of None \<Rightarrow> None | Some ss \<Rightarrow> strings_field ss vs)"


section \<open>Encoding\<close>

text \<open>
  \<open>json.Marshal\<close> of strings and string slices: quotes, backslashes, control characters and the three
  HTML characters are escaped, invalid UTF-8 becomes \<open>\\ufffd\<close>, the line separators U+2028 and
  U+2029 their escapes. Plain keys (printable ASCII without the escaped characters) are copied.
\<close>

definition hex_char :: "nat \<Rightarrow> char" where
  "hex_char n = (if n < 10 then char_of (48 + n) else char_of (87 + n))"

definition quote_char :: "char \<Rightarrow> string" where
  "quote_char c =
     (let n = byte_of c in
      if c = CHR 0x22 \<or> c = CHR 0x5C then [CHR 0x5C, c]
      else if n = 8 then [CHR 0x5C, CHR ''b''] else if n = 12 then [CHR 0x5C, CHR ''f'']
      else if n = 10 then [CHR 0x5C, CHR ''n''] else if n = 13 then [CHR 0x5C, CHR ''r'']
      else if n = 9 then [CHR 0x5C, CHR ''t'']
      else if n < 0x20 \<or> c = CHR ''<'' \<or> c = CHR ''>'' \<or> c = CHR ''&'' then
        CHR 0x5C # ''u00'' @ [hex_char (n div 16), hex_char (n mod 16)]
      else [c])"

definition line_separator :: "string \<Rightarrow> string option" where
  "line_separator s =
     (if s = utf8_encode 0x2028 then Some (CHR 0x5C # ''u2028'')
      else if s = utf8_encode 0x2029 then Some (CHR 0x5C # ''u2029'') else None)"

fun quote_chars :: "string \<Rightarrow> string" where
  "quote_chars [] = []"
| "quote_chars (c # s) =
     (let n = utf8_len (c # s) in
      if n = 0 then (CHR 0x5C # ''ufffd'') @ quote_chars s
      else if n = 1 then quote_char c @ quote_chars s
      else (case line_separator (take n (c # s)) of Some e \<Rightarrow> e | None \<Rightarrow> take n (c # s))
           @ quote_chars (drop (n - 1) s))"

definition marshal_string :: "string \<Rightarrow> string" where
  "marshal_string s = CHR 0x22 # quote_chars s @ [CHR 0x22]"

definition plain_char :: "char \<Rightarrow> bool" where
  "plain_char c \<longleftrightarrow>
     0x20 \<le> byte_of c \<and> byte_of c < 0x7F \<and>
     c \<notin> {CHR 0x22, CHR 0x5C, CHR ''<'', CHR ''>'', CHR ''&''}"

definition plain_key :: "string \<Rightarrow> bool" where
  "plain_key s \<longleftrightarrow> list_all plain_char s"

fun marshal_tail :: "string list \<Rightarrow> string" where
  "marshal_tail [] = '']''"
| "marshal_tail (s # ss) = CHR '','' # marshal_string s @ marshal_tail ss"

fun marshal_strings :: "string list \<Rightarrow> string" where
  "marshal_strings [] = ''[]''"
| "marshal_strings (s # ss) = CHR ''['' # marshal_string s @ marshal_tail ss"

lemma utf8_len_ascii: "byte_of c < 0x80 \<Longrightarrow> utf8_len (c # s) = 1"
  by simp

lemma quote_chars_plain: "plain_key s \<Longrightarrow> quote_chars s = s"
proof (induction s)
  case (Cons c s)
  then have c: "plain_char c" and s: "quote_chars s = s" by (auto simp: plain_key_def)
  have "quote_char c = [c]" using c by (auto simp: quote_char_def plain_char_def Let_def)
  moreover have "utf8_len (c # s) = 1" using c by (intro utf8_len_ascii) (simp add: plain_char_def)
  ultimately show ?case using s by (simp add: Let_def del: utf8_len.simps)
qed simp

lemma marshal_string_plain: "plain_key s \<Longrightarrow> marshal_string s = CHR 0x22 # s @ [CHR 0x22]"
  by (simp add: marshal_string_def quote_chars_plain)

lemma json_chars_plain:
  "plain_key s \<Longrightarrow> length s < n \<Longrightarrow> json_chars n (s @ CHR 0x22 # t) = Some (s, t)"
proof (induction s arbitrary: n)
  case Nil
  then show ?case by (cases n) auto
next
  case (Cons c s)
  obtain m where m: "n = Suc m" using Cons.prems by (cases n) auto
  have c: "c \<noteq> CHR 0x22" "c \<noteq> CHR 0x5C" "\<not> byte_of c < 0x20" "byte_of c < 0x80"
    using Cons.prems by (auto simp: plain_key_def plain_char_def)
  have IH: "json_chars m (s @ CHR 0x22 # t) = Some (s, t)"
    using Cons by (simp add: m plain_key_def)
  show ?case using c IH utf8_len_ascii [OF c(4), of "s @ CHR 0x22 # t"]
    by (simp add: m del: utf8_len.simps)
qed

lemma json_value_string:
  "plain_key s \<Longrightarrow> json_value (Suc n) d (marshal_string s @ t) = Some (JString s, t)"
  using json_chars_plain [of s "length (marshal_string s @ t)" t]
  by (simp add: marshal_string_plain json_value.simps)

lemma skip_ws_Nil [simp]: "skip_ws [] = []"
  by (simp add: skip_ws_def)

lemma skip_ws_id: "\<not> json_space c \<Longrightarrow> skip_ws (c # s) = c # s"
  by (simp add: skip_ws_def)

lemma not_space [simp]:
  "\<not> json_space (CHR 0x22)" "\<not> json_space (CHR '']'')" "\<not> json_space (CHR '','')"
  "\<not> json_space (CHR ''['')"
  by (simp_all add: json_space_def byte_of_def)

lemma skip_ws_marshal [simp]: "skip_ws (marshal_string s @ t) = marshal_string s @ t"
  by (simp add: marshal_string_def skip_ws_id)

lemma json_elems_last:
  "json_value n d s = Some (v, t) \<Longrightarrow> skip_ws t = CHR '']'' # u \<Longrightarrow> json_elems (Suc n) d s = Some ([v], u)"
  by (simp add: json_elems.simps)

lemma json_elems_more:
  "json_value n d s = Some (v, t) \<Longrightarrow> skip_ws t = CHR '','' # u \<Longrightarrow>
     json_elems (Suc n) d s = map_option (apfst ((#) v)) (json_elems n d (skip_ws u))"
  by (simp add: json_elems.simps)

lemma json_elems_marshal:
  "\<forall>s\<in>set (s # ss). plain_key s \<Longrightarrow> length ss < n \<Longrightarrow>
     json_elems (Suc n) d (marshal_string s @ marshal_tail ss @ t) = Some (map JString (s # ss), t)"
proof (induction ss arbitrary: s n)
  case Nil
  then obtain m where "n = Suc m" by (cases n) auto
  with Nil show ?case by (simp add: json_elems_last [OF json_value_string] skip_ws_id)
next
  case (Cons r ss)
  obtain m where m: "n = Suc m" using Cons.prems by (cases n) auto
  have IH: "json_elems (Suc m) d (marshal_string r @ marshal_tail ss @ t) = Some (map JString (r # ss), t)"
    using Cons.prems by (intro Cons.IH) (auto simp: m)
  have v: "json_value n d (marshal_string s @ marshal_tail (r # ss) @ t) = Some (JString s, marshal_tail (r # ss) @ t)"
    using Cons.prems unfolding m by (intro json_value_string) simp
  show ?case
    using json_elems_more [OF v, of "marshal_string r @ marshal_tail ss @ t"] IH by (simp add: skip_ws_id m)
qed

lemma map_opt_strings [simp]: "map_opt json_as_string (map JString ss) = Some ss"
  by (induction ss) auto

lemma length_marshal_tail: "length ss < length (marshal_tail ss)"
  by (induction ss) (auto simp: marshal_string_def)

lemma json_value_array:
  assumes "d < max_nesting" "skip_ws t = e # u" "e \<noteq> CHR '']''"
  shows "json_value (Suc n) d (CHR ''['' # t) = map_option (apfst JArray) (json_elems n (Suc d) (e # u))"
  using assms by (simp add: json_value.simps)

text \<open>What the encoder writes for a list of plain strings is read back as that list.\<close>

lemma unmarshal_marshal:
  assumes "\<forall>s\<in>set ss. plain_key s"
  shows "unmarshal_strings (marshal_strings ss) = Some ss"
proof (cases ss)
  case Nil
  then show ?thesis
    by (simp add: unmarshal_strings_def json_parse_def skip_ws_id max_nesting_def json_value.simps eval_nat_numeral)
next
  case (Cons s rest)
  let ?body = "marshal_string s @ marshal_tail rest"
  have e: "json_elems (Suc (2 * length ?body + 1)) 1 ?body = Some (map JString ss, [])"
    using assms Cons length_marshal_tail [of rest]
      json_elems_marshal [of s rest "2 * length ?body + 1" 1 "[]"] by simp
  obtain u where u: "?body = CHR 0x22 # u" by (simp add: marshal_string_def)
  have "json_value (Suc (2 * length (CHR ''['' # ?body))) 0 (CHR ''['' # ?body) = Some (JArray (map JString ss), [])"
    using json_value_array [of 0 ?body "CHR 0x22" u "2 * length (CHR ''['' # ?body)"] e u
    by (simp add: max_nesting_def skip_ws_id)
  then show ?thesis
    using Cons by (simp add: unmarshal_strings_def json_parse_def skip_ws_id)
qed


lemma json_value_strings:
  assumes "\<forall>s\<in>set ss. plain_key s" "d < max_nesting" "length ss + 1 < n"
  shows "json_value (Suc n) d (marshal_strings ss @ t) = Some (JArray (map JString ss), t)"
proof (cases ss)
  case Nil
  with assms(2) show ?thesis by (simp add: json_value.simps skip_ws_id)
next
  case (Cons s rest)
  obtain m where m: "n = Suc m" using assms(3) by (cases n) auto
  have e: "json_elems n (Suc d) (marshal_string s @ marshal_tail rest @ t) = Some (map JString ss, t)"
    using assms(1,3) Cons json_elems_marshal [of s rest m "Suc d" t] m by simp
  obtain u where u: "marshal_string s @ marshal_tail rest @ t = CHR 0x22 # u" by (simp add: marshal_string_def)
  show ?thesis
    using json_value_array [OF assms(2), of "marshal_string s @ marshal_tail rest @ t" "CHR 0x22" u n] e u Cons
    by (simp add: skip_ws_id)
qed

lemma json_members_start:
  assumes "plain_key k" "\<not> json_space c" "json_value n d (c # v) = Some (x, w)"
  shows "json_members (Suc n) d (marshal_string k @ CHR '':'' # c # v) =
    (case skip_ws w of
       e # y \<Rightarrow> if e = CHR ''}'' then Some ([(k, x)], y)
                else if e = CHR '','' then map_option (apfst ((#) (k, x))) (json_members n d (skip_ws y)) else None
     | [] \<Rightarrow> None)"
proof -
  let ?s = "marshal_string k @ CHR '':'' # c # v"
  have s: "?s = CHR 0x22 # k @ CHR 0x22 # CHR '':'' # c # v" using assms(1) by (simp add: marshal_string_plain)
  have j: "json_chars (length ?s) (k @ CHR 0x22 # CHR '':'' # c # v) = Some (k, CHR '':'' # c # v)"
    by (rule json_chars_plain [OF assms(1)]) (simp add: s)
  have "\<not> json_space (CHR '':'')" by (simp add: json_space_def byte_of_def)
  then show ?thesis
    using j assms(2,3) unfolding s by (simp add: json_members.simps skip_ws_id)
qed

end
