(* ===== verification/Meta_Auth.thy ===== *)
theory Meta_Auth
  imports GoTime GoJson
begin

text \<open>
  The security tables of the metadata store (\<open>internal/metadata/substores_auth.go\<close> and
  \<open>substores_console.go\<close>): users, API tokens, permission targets with their principal rows, groups
  with their memberships, and browser sessions. A table is the list of its rows in insertion
  order; a statement is a function on the tables, a transaction that fails leaves them as they
  were. Keys, uniqueness and foreign keys are those of the schema: an insert that would break one
  answers \<open>ErrConstraint\<close>, and deleting a user or a group takes its dependent rows along. These
  guards and cascades are SQLite's, declared in the migrations and not visible in the Go of a
  statement, so the invariant \<open>db_inv\<close> they keep is a fact about the schema; it serves as
  the premise of what the Go code decides on top of it. An
  \<open>INTEGER PRIMARY KEY\<close> takes the largest id in the table plus one. \<open>db_down\<close> stands for a driver
  error: while it is set every call answers \<open>ErrDriver\<close> and changes nothing. The time stamps a
  statement writes are arguments.

  The store connects with \<open>case_sensitive_like\<close>, so \<open>LIKE\<close> compares bytes. The lemmas show that
  every operation keeps the table invariant, what deleting a user removes, that the last
  administrator survives every guarded delete, and that the \<open>LIKE\<close> selection of
  \<open>PrincipalsFor\<close> finds every row of a target that lists the key.
\<close>

datatype db_error =
    ErrUserNotFound
  | ErrTokenNotFound
  | ErrGroupNotFound
  | ErrWebSessionNotFound
  | ErrNotFound
  | ErrLastAdmin
  | ErrConstraint
  | ErrDriver


section \<open>Rows and tables\<close>

record User =
  usr_Username :: string
  usr_PasswordHash :: string
  usr_IsAdmin :: bool
  usr_Enabled :: bool
  usr_CreatedAt :: string
  usr_UpdatedAt :: string
  usr_Email :: string
  usr_Provider :: string
  usr_ProviderID :: string
  usr_Role :: string

record Token =
  tok_ID :: nat
  tok_Username :: string
  tok_TokenSHA256 :: string
  tok_ExpiresAt :: string
  tok_CreatedAt :: string
  tok_LastUsedAt :: string
  tok_DeployScope :: string

record PermissionTarget =
  tgt_Name :: string
  tgt_Repos :: string
  tgt_Includes :: string
  tgt_Excludes :: string
  tgt_CreatedAt :: string
  tgt_UpdatedAt :: string

record PermissionPrincipal =
  prn_ID :: nat
  prn_TargetName :: string
  prn_Principal :: string
  prn_PrincipalType :: string
  prn_CanRead :: bool
  prn_CanWrite :: bool
  prn_CanDelete :: bool
  prn_CanManage :: bool
  prn_CanAnnotate :: bool

record Group =
  grp_ID :: nat
  grp_Name :: string
  grp_Description :: string
  grp_CreatedAt :: string
  grp_UpdatedAt :: string

record WebSession =
  ses_IDHash :: string
  ses_Username :: string
  ses_CreatedAt :: string
  ses_ExpiresAt :: string
  ses_LastUsedAt :: string
  ses_RevokedAt :: string

record auth_db =
  db_down :: bool
  db_users :: "User list"
  db_tokens :: "Token list"
  db_targets :: "PermissionTarget list"
  db_principals :: "PermissionPrincipal list"
  db_groups :: "Group list"
  db_user_groups :: "(nat \<times> string) list"
  db_sessions :: "WebSession list"

type_synonym 'a db_result = "db_error + 'a"

definition meta_RoleAdmin :: string where "meta_RoleAdmin = ''admin''"
definition meta_RoleUser :: string where "meta_RoleUser = ''user''"
definition NeverExpires :: string where "NeverExpires = ''9999-12-31T00:00:00Z''"

definition exec :: "auth_db \<Rightarrow> 'a db_result \<Rightarrow> 'a db_result" where
  "exec db r = (if db_down db then Inl ErrDriver else r)"

definition next_id :: "nat list \<Rightarrow> nat" where
  "next_id ids = Suc (foldr max ids 0)"

definition user_names :: "auth_db \<Rightarrow> string list" where
  "user_names db = map usr_Username (db_users db)"


section \<open>Users\<close>

definition deriveRole :: "string \<Rightarrow> bool \<Rightarrow> string" where
  "deriveRole role isAdmin =
     (if role \<noteq> [] then role else if isAdmin then meta_RoleAdmin else meta_RoleUser)"

definition userStore_Create :: "auth_db \<Rightarrow> User \<Rightarrow> auth_db db_result" where
  "userStore_Create db u = exec db
     (if usr_Username u \<in> set (user_names db) then Inl ErrConstraint
      else Inr (db\<lparr>db_users := db_users db
                   @ [u\<lparr>usr_Role := deriveRole (usr_Role u) (usr_IsAdmin u)\<rparr>]\<rparr>))"

definition scanUser :: "User list \<Rightarrow> User db_result" where
  "scanUser rows = (case rows of [] \<Rightarrow> Inl ErrUserNotFound | u # _ \<Rightarrow> Inr u)"

definition userStore_Get :: "auth_db \<Rightarrow> string \<Rightarrow> User db_result" where
  "userStore_Get db username = exec db
     (scanUser (filter (\<lambda>u. usr_Username u = username) (db_users db)))"

definition userStore_GetByPasswordHash :: "auth_db \<Rightarrow> string \<Rightarrow> User db_result" where
  "userStore_GetByPasswordHash db h = exec db
     (scanUser (filter (\<lambda>u. usr_PasswordHash u = h) (db_users db)))"

text \<open>\<open>UPDATE users SET ... WHERE username = ?\<close>, and the test of the affected rows.\<close>

definition update_user :: "auth_db \<Rightarrow> string \<Rightarrow> (User \<Rightarrow> User) \<Rightarrow> auth_db db_result" where
  "update_user db username f = exec db
     (if username \<notin> set (user_names db) then Inl ErrUserNotFound
      else Inr (db\<lparr>db_users :=
                    map (\<lambda>u. if usr_Username u = username then f u else u) (db_users db)\<rparr>))"

definition userStore_UpdatePassword :: "auth_db \<Rightarrow> string \<Rightarrow> string \<Rightarrow> string \<Rightarrow> auth_db db_result" where
  "userStore_UpdatePassword db now username h =
     update_user db username (\<lambda>u. u\<lparr>usr_PasswordHash := h, usr_UpdatedAt := now\<rparr>)"

definition userStore_UpdateEmail :: "auth_db \<Rightarrow> string \<Rightarrow> string \<Rightarrow> string \<Rightarrow> auth_db db_result" where
  "userStore_UpdateEmail db now username email =
     update_user db username (\<lambda>u. u\<lparr>usr_Email := email, usr_UpdatedAt := now\<rparr>)"

definition userStore_UpdateProfile ::
    "auth_db \<Rightarrow> string \<Rightarrow> string \<Rightarrow> string \<Rightarrow> bool \<Rightarrow> auth_db db_result" where
  "userStore_UpdateProfile db now username email isAdmin =
     update_user db username
       (\<lambda>u. u\<lparr>usr_Email := email, usr_IsAdmin := isAdmin,
              usr_Role := (if isAdmin then ''admin''
                           else if usr_Role u = ''admin'' then ''user'' else usr_Role u),
              usr_UpdatedAt := now\<rparr>)"

definition userStore_SetRole :: "auth_db \<Rightarrow> string \<Rightarrow> string \<Rightarrow> string \<Rightarrow> auth_db db_result" where
  "userStore_SetRole db now username role =
     update_user db username
       (\<lambda>u. u\<lparr>usr_Role := role, usr_IsAdmin := (role = ''admin''), usr_UpdatedAt := now\<rparr>)"

definition userStore_SetEnabled :: "auth_db \<Rightarrow> string \<Rightarrow> string \<Rightarrow> bool \<Rightarrow> auth_db db_result" where
  "userStore_SetEnabled db now username on =
     update_user db username (\<lambda>u. u\<lparr>usr_Enabled := on, usr_UpdatedAt := now\<rparr>)"

text \<open>Dropping users rows, with the foreign keys that cascade from \<open>users(username)\<close>.\<close>

definition drop_user :: "auth_db \<Rightarrow> string \<Rightarrow> auth_db" where
  "drop_user db username =
     db\<lparr>db_users := filter (\<lambda>u. usr_Username u \<noteq> username) (db_users db),
        db_tokens := filter (\<lambda>t. tok_Username t \<noteq> username) (db_tokens db),
        db_user_groups := filter (\<lambda>m. snd m \<noteq> username) (db_user_groups db),
        db_sessions := filter (\<lambda>s. ses_Username s \<noteq> username) (db_sessions db)\<rparr>"

text \<open>The predicate of the census-guarded delete: what one users row needs to be removed.\<close>

definition deletable :: "auth_db \<Rightarrow> string \<Rightarrow> User \<Rightarrow> bool" where
  "deletable db username u \<longleftrightarrow>
     usr_Username u = username \<and>
     (usr_Role u \<noteq> ''admin'' \<or>
      list_ex (\<lambda>s. usr_Role s = ''admin'' \<and> usr_Username s \<noteq> username) (db_users db))"

definition userStore_DeleteCascade :: "auth_db \<Rightarrow> string \<Rightarrow> auth_db db_result" where
  "userStore_DeleteCascade db username = exec db
     (let stripped = db\<lparr>db_principals :=
            filter (\<lambda>p. \<not> (prn_PrincipalType p = ''user'' \<and> prn_Principal p = username))
              (db_principals db)\<rparr>
      in if list_ex (deletable db username) (db_users db) then Inr (drop_user stripped username)
         else (case scanUser (filter (\<lambda>u. usr_Username u = username) (db_users db)) of
                 Inl _ \<Rightarrow> Inl ErrUserNotFound
               | Inr u \<Rightarrow> if usr_Role u = meta_RoleAdmin then Inl ErrLastAdmin else Inl ErrConstraint))"

definition userStore_Delete :: "auth_db \<Rightarrow> string \<Rightarrow> auth_db db_result" where
  "userStore_Delete db username = exec db
     (if username \<notin> set (user_names db) then Inl ErrUserNotFound else Inr (drop_user db username))"

definition userStore_List :: "auth_db \<Rightarrow> User list db_result" where
  "userStore_List db = exec db (Inr (sort_key usr_Username (db_users db)))"


section \<open>Tokens\<close>

definition tokenStore_Create :: "auth_db \<Rightarrow> Token \<Rightarrow> (nat \<times> auth_db) db_result" where
  "tokenStore_Create db t = exec db
     (if tok_Username t \<notin> set (user_names db)
         \<or> tok_TokenSHA256 t \<in> set (map tok_TokenSHA256 (db_tokens db)) then Inl ErrConstraint
      else let i = next_id (map tok_ID (db_tokens db))
           in Inr (i, db\<lparr>db_tokens := db_tokens db @ [t\<lparr>tok_ID := i\<rparr>]\<rparr>))"

definition scanToken :: "Token list \<Rightarrow> Token db_result" where
  "scanToken rows = (case rows of [] \<Rightarrow> Inl ErrTokenNotFound | t # _ \<Rightarrow> Inr t)"

definition tokenStore_Get :: "auth_db \<Rightarrow> nat \<Rightarrow> Token db_result" where
  "tokenStore_Get db i = exec db (scanToken (filter (\<lambda>t. tok_ID t = i) (db_tokens db)))"

definition tokenStore_GetBySHA256 :: "auth_db \<Rightarrow> string \<Rightarrow> Token db_result" where
  "tokenStore_GetBySHA256 db h = exec db
     (scanToken (filter (\<lambda>t. tok_TokenSHA256 t = h) (db_tokens db)))"

definition tokenStore_Touch :: "auth_db \<Rightarrow> nat \<Rightarrow> string \<Rightarrow> auth_db db_result" where
  "tokenStore_Touch db i lastUsedAt = exec db
     (if i \<notin> set (map tok_ID (db_tokens db)) then Inl ErrTokenNotFound
      else Inr (db\<lparr>db_tokens :=
             map (\<lambda>t. if tok_ID t = i then t\<lparr>tok_LastUsedAt := lastUsedAt\<rparr> else t) (db_tokens db)\<rparr>))"

definition tokenStore_Delete :: "auth_db \<Rightarrow> nat \<Rightarrow> auth_db db_result" where
  "tokenStore_Delete db i = exec db
     (if i \<notin> set (map tok_ID (db_tokens db)) then Inl ErrTokenNotFound
      else Inr (db\<lparr>db_tokens := filter (\<lambda>t. tok_ID t \<noteq> i) (db_tokens db)\<rparr>))"

text \<open>The listing does not select the deploy scope: its rows carry the empty string there.\<close>

definition tokenStore_ListByUsername :: "auth_db \<Rightarrow> string \<Rightarrow> Token list db_result" where
  "tokenStore_ListByUsername db username = exec db
     (Inr (map (\<lambda>t. t\<lparr>tok_DeployScope := []\<rparr>)
        (sort_key tok_ID (filter (\<lambda>t. tok_Username t = username) (db_tokens db)))))"


section \<open>Permission targets\<close>

text \<open>The principal rows of one target, inserted one by one; a duplicate principal aborts.\<close>

definition principal_key :: "PermissionPrincipal \<Rightarrow> string \<times> string \<times> string" where
  "principal_key p = (prn_TargetName p, prn_Principal p, prn_PrincipalType p)"

fun insert_principals ::
    "string \<Rightarrow> PermissionPrincipal list \<Rightarrow> PermissionPrincipal list \<Rightarrow> PermissionPrincipal list option" where
  "insert_principals name rows [] = Some rows"
| "insert_principals name rows (p # ps) =
     (let r = p\<lparr>prn_ID := next_id (map prn_ID rows), prn_TargetName := name\<rparr>
      in if principal_key r \<in> set (map principal_key rows) then None
         else insert_principals name (rows @ [r]) ps)"

definition upsert_target :: "PermissionTarget \<Rightarrow> PermissionTarget list \<Rightarrow> PermissionTarget list" where
  "upsert_target t ts =
     (if tgt_Name t \<in> set (map tgt_Name ts) then
        map (\<lambda>o'. if tgt_Name o' = tgt_Name t
                  then o'\<lparr>tgt_Repos := tgt_Repos t, tgt_Includes := tgt_Includes t,
                          tgt_Excludes := tgt_Excludes t, tgt_UpdatedAt := tgt_UpdatedAt t\<rparr>
                  else o') ts
      else ts @ [t])"

definition permissionStore_PutTarget ::
    "auth_db \<Rightarrow> PermissionTarget \<Rightarrow> PermissionPrincipal list \<Rightarrow> auth_db db_result" where
  "permissionStore_PutTarget db t principals = exec db
     (case insert_principals (tgt_Name t)
             (filter (\<lambda>p. prn_TargetName p \<noteq> tgt_Name t) (db_principals db)) principals of
        None \<Rightarrow> Inl ErrConstraint
      | Some rows \<Rightarrow> Inr (db\<lparr>db_targets := upsert_target t (db_targets db), db_principals := rows\<rparr>))"

definition permissionStore_GetTarget ::
    "auth_db \<Rightarrow> string \<Rightarrow> (PermissionTarget \<times> PermissionPrincipal list) db_result" where
  "permissionStore_GetTarget db name = exec db
     (case filter (\<lambda>t. tgt_Name t = name) (db_targets db) of
        [] \<Rightarrow> Inl ErrNotFound
      | t # _ \<Rightarrow> Inr (t, sort_key prn_Principal
                         (filter (\<lambda>p. prn_TargetName p = name) (db_principals db))))"

definition permissionStore_DeleteTarget :: "auth_db \<Rightarrow> string \<Rightarrow> auth_db db_result" where
  "permissionStore_DeleteTarget db name = exec db
     (Inr (db\<lparr>db_targets := filter (\<lambda>t. tgt_Name t \<noteq> name) (db_targets db),
              db_principals := filter (\<lambda>p. prn_TargetName p \<noteq> name) (db_principals db)\<rparr>))"

definition permissionStore_ListTargets :: "auth_db \<Rightarrow> PermissionTarget list db_result" where
  "permissionStore_ListTargets db = exec db (Inr (sort_key tgt_Name (db_targets db)))"

definition escapeLike :: "string \<Rightarrow> string" where
  "escapeLike s =
     concat (map (\<lambda>c. if c = CHR 0x5C \<or> c = CHR ''%'' \<or> c = CHR ''_'' then [CHR 0x5C, c] else [c]) s)"

text \<open>SQL \<open>LIKE ... ESCAPE '\'\<close>.\<close>

fun sql_like :: "string \<Rightarrow> string \<Rightarrow> bool" where
  "sql_like [] s \<longleftrightarrow> s = []"
| "sql_like (c # p) s \<longleftrightarrow>
     (if c = CHR ''%'' then
        sql_like p s \<or> (case s of [] \<Rightarrow> False | x # xs \<Rightarrow> sql_like (c # p) xs)
      else if c = CHR ''_'' then (case s of [] \<Rightarrow> False | x # xs \<Rightarrow> sql_like p xs)
      else if c = CHR 0x5C then
        (case p of
           [] \<Rightarrow> False
         | e # q \<Rightarrow> (case s of [] \<Rightarrow> False | x # xs \<Rightarrow> x = e \<and> sql_like q xs))
      else (case s of [] \<Rightarrow> False | x # xs \<Rightarrow> x = c \<and> sql_like p xs))"

definition repos_pattern :: "string \<Rightarrow> string" where
  "repos_pattern repoKey = CHR ''%'' # CHR 0x22 # escapeLike repoKey @ [CHR 0x22, CHR ''%'']"

definition row_order :: "PermissionPrincipal \<Rightarrow> string \<times> string" where
  "row_order p = (prn_TargetName p, prn_Principal p)"

definition permissionStore_PrincipalsFor :: "auth_db \<Rightarrow> string \<Rightarrow> PermissionPrincipal list db_result" where
  "permissionStore_PrincipalsFor db repoKey = exec db
     (Inr (sort_key row_order
        (filter (\<lambda>p. list_ex (\<lambda>t. tgt_Name t = prn_TargetName p \<and> sql_like (repos_pattern repoKey) (tgt_Repos t))
                        (db_targets db)) (db_principals db))))"

definition permissionStore_Principals :: "auth_db \<Rightarrow> PermissionPrincipal list db_result" where
  "permissionStore_Principals db = exec db
     (Inr (sort_key row_order
        (filter (\<lambda>p. list_ex (\<lambda>t. tgt_Name t = prn_TargetName p) (db_targets db)) (db_principals db))))"

definition permissionStore_GroupReferences :: "auth_db \<Rightarrow> string \<Rightarrow> string list db_result" where
  "permissionStore_GroupReferences db grp = exec db
     (Inr (sort
        (concat (map (\<lambda>t. map (\<lambda>_. tgt_Name t)
           (filter (\<lambda>p. prn_TargetName p = tgt_Name t \<and> prn_PrincipalType p = ''group'' \<and> prn_Principal p = grp)
              (db_principals db))) (db_targets db)))))"


section \<open>Groups\<close>

definition groupStore_Create :: "auth_db \<Rightarrow> Group \<Rightarrow> auth_db db_result" where
  "groupStore_Create db g = exec db
     (if grp_Name g \<in> set (map grp_Name (db_groups db)) then Inl ErrConstraint
      else Inr (db\<lparr>db_groups := db_groups db @ [g\<lparr>grp_ID := next_id (map grp_ID (db_groups db))\<rparr>]\<rparr>))"

definition groupStore_Update :: "auth_db \<Rightarrow> Group \<Rightarrow> auth_db db_result" where
  "groupStore_Update db g = exec db
     (if grp_Name g \<notin> set (map grp_Name (db_groups db)) then Inl ErrGroupNotFound
      else Inr (db\<lparr>db_groups :=
             map (\<lambda>h. if grp_Name h = grp_Name g
                      then h\<lparr>grp_Description := grp_Description g, grp_UpdatedAt := grp_UpdatedAt g\<rparr>
                      else h) (db_groups db)\<rparr>))"

definition scanGroup :: "Group list \<Rightarrow> Group db_result" where
  "scanGroup rows = (case rows of [] \<Rightarrow> Inl ErrGroupNotFound | g # _ \<Rightarrow> Inr g)"

definition groupStore_Get :: "auth_db \<Rightarrow> string \<Rightarrow> Group db_result" where
  "groupStore_Get db name = exec db (scanGroup (filter (\<lambda>g. grp_Name g = name) (db_groups db)))"

definition groupStore_Delete :: "auth_db \<Rightarrow> string \<Rightarrow> auth_db db_result" where
  "groupStore_Delete db name = exec db
     (let gone = map grp_ID (filter (\<lambda>g. grp_Name g = name) (db_groups db)) in
      if gone = [] then Inl ErrGroupNotFound
      else Inr (db\<lparr>db_groups := filter (\<lambda>g. grp_Name g \<noteq> name) (db_groups db),
                   db_user_groups := filter (\<lambda>m. fst m \<notin> set gone) (db_user_groups db)\<rparr>))"

definition groupStore_List :: "auth_db \<Rightarrow> Group list db_result" where
  "groupStore_List db = exec db (Inr (sort_key grp_Name (db_groups db)))"

fun resolve_names :: "(string \<times> nat) list \<Rightarrow> string list \<Rightarrow> string list \<Rightarrow> nat list db_result" where
  "resolve_names idByName seen [] = Inr []"
| "resolve_names idByName seen (name # names) =
     (if name \<in> set seen then resolve_names idByName seen names
      else (case map_of idByName name of
              None \<Rightarrow> Inl ErrGroupNotFound
            | Some i \<Rightarrow>
                (case resolve_names idByName (name # seen) names of
                   Inl e \<Rightarrow> Inl e
                 | Inr ids \<Rightarrow> Inr (i # ids))))"

definition resolveGroupIDs :: "auth_db \<Rightarrow> string list \<Rightarrow> nat list db_result" where
  "resolveGroupIDs db names =
     (if names = [] then Inr []
      else exec db (resolve_names (rev (map (\<lambda>g. (grp_Name g, grp_ID g)) (db_groups db))) [] names))"

definition groupStore_SetUserGroups :: "auth_db \<Rightarrow> string \<Rightarrow> string list \<Rightarrow> auth_db db_result" where
  "groupStore_SetUserGroups db username groupNames =
     (case resolveGroupIDs db groupNames of
        Inl e \<Rightarrow> Inl e
      | Inr ids \<Rightarrow> exec db
          (if ids \<noteq> [] \<and> username \<notin> set (user_names db) then Inl ErrConstraint
           else Inr (db\<lparr>db_user_groups :=
                  filter (\<lambda>m. snd m \<noteq> username) (db_user_groups db) @ map (\<lambda>i. (i, username)) ids\<rparr>)))"

definition groupStore_GroupsOfUser :: "auth_db \<Rightarrow> string \<Rightarrow> Group list db_result" where
  "groupStore_GroupsOfUser db username = exec db
     (Inr (sort_key grp_Name
        (concat (map (\<lambda>g. map (\<lambda>_. g)
           (filter (\<lambda>m. fst m = grp_ID g \<and> snd m = username) (db_user_groups db))) (db_groups db)))))"

definition groupStore_MembershipsByGroup :: "auth_db \<Rightarrow> string \<Rightarrow> string list db_result" where
  "groupStore_MembershipsByGroup db grp = exec db
     (Inr (sort (concat (map (\<lambda>m. map (\<lambda>_. snd m)
        (filter (\<lambda>g. grp_ID g = fst m \<and> grp_Name g = grp) (db_groups db))) (db_user_groups db)))))"


section \<open>Browser sessions\<close>

definition webSessionStore_Create :: "auth_db \<Rightarrow> WebSession \<Rightarrow> auth_db db_result" where
  "webSessionStore_Create db w = exec db
     (if ses_Username w \<notin> set (user_names db)
         \<or> ses_IDHash w \<in> set (map ses_IDHash (db_sessions db)) then Inl ErrConstraint
      else Inr (db\<lparr>db_sessions := db_sessions db @ [w\<lparr>ses_RevokedAt := []\<rparr>]\<rparr>))"

definition webSessionStore_GetBySHA256 :: "auth_db \<Rightarrow> string \<Rightarrow> WebSession db_result" where
  "webSessionStore_GetBySHA256 db h = exec db
     (case filter (\<lambda>s. ses_IDHash s = h) (db_sessions db) of [] \<Rightarrow> Inl ErrWebSessionNotFound | s # _ \<Rightarrow> Inr s)"

definition update_session :: "auth_db \<Rightarrow> string \<Rightarrow> (WebSession \<Rightarrow> WebSession) \<Rightarrow> auth_db db_result" where
  "update_session db h f = exec db
     (if h \<notin> set (map ses_IDHash (db_sessions db)) then Inl ErrWebSessionNotFound
      else Inr (db\<lparr>db_sessions := map (\<lambda>s. if ses_IDHash s = h then f s else s) (db_sessions db)\<rparr>))"

definition webSessionStore_Touch :: "auth_db \<Rightarrow> string \<Rightarrow> string \<Rightarrow> auth_db db_result" where
  "webSessionStore_Touch db h lastUsedAt = update_session db h (\<lambda>s. s\<lparr>ses_LastUsedAt := lastUsedAt\<rparr>)"

definition webSessionStore_Revoke :: "auth_db \<Rightarrow> string \<Rightarrow> string \<Rightarrow> auth_db db_result" where
  "webSessionStore_Revoke db h revokedAt = update_session db h (\<lambda>s. s\<lparr>ses_RevokedAt := revokedAt\<rparr>)"

definition webSessionStore_ListSweepable :: "auth_db \<Rightarrow> string \<Rightarrow> int \<Rightarrow> WebSession list db_result" where
  "webSessionStore_ListSweepable db now limit = exec db
     (let rows = sort_key (\<lambda>s. (ses_ExpiresAt s, ses_IDHash s))
            (filter (\<lambda>s. ses_ExpiresAt s \<le> now \<or> ses_RevokedAt s \<noteq> []) (db_sessions db))
      in Inr (if limit > 0 then take (nat limit) rows else rows))"

definition webSessionStore_Delete :: "auth_db \<Rightarrow> string \<Rightarrow> auth_db db_result" where
  "webSessionStore_Delete db h = exec db
     (if h \<notin> set (map ses_IDHash (db_sessions db)) then Inl ErrWebSessionNotFound
      else Inr (db\<lparr>db_sessions := filter (\<lambda>s. ses_IDHash s \<noteq> h) (db_sessions db)\<rparr>))"


section \<open>The table invariant\<close>

definition users_ok :: "auth_db \<Rightarrow> bool" where
  "users_ok db \<longleftrightarrow> distinct (user_names db) \<and> (\<forall>u\<in>set (db_users db). usr_Role u \<noteq> [])"

definition tokens_ok :: "auth_db \<Rightarrow> bool" where
  "tokens_ok db \<longleftrightarrow>
     distinct (map tok_ID (db_tokens db)) \<and> distinct (map tok_TokenSHA256 (db_tokens db)) \<and>
     (\<forall>t\<in>set (db_tokens db). tok_Username t \<in> set (user_names db))"

definition perms_ok :: "auth_db \<Rightarrow> bool" where
  "perms_ok db \<longleftrightarrow>
     distinct (map tgt_Name (db_targets db)) \<and>
     distinct (map prn_ID (db_principals db)) \<and> distinct (map principal_key (db_principals db)) \<and>
     (\<forall>p\<in>set (db_principals db). prn_TargetName p \<in> tgt_Name ` set (db_targets db))"

definition groups_ok :: "auth_db \<Rightarrow> bool" where
  "groups_ok db \<longleftrightarrow>
     distinct (map grp_ID (db_groups db)) \<and> distinct (map grp_Name (db_groups db)) \<and>
     distinct (db_user_groups db) \<and>
     (\<forall>i n. (i, n) \<in> set (db_user_groups db) \<longrightarrow>
        i \<in> grp_ID ` set (db_groups db) \<and> n \<in> set (user_names db))"

definition sessions_ok :: "auth_db \<Rightarrow> bool" where
  "sessions_ok db \<longleftrightarrow>
     distinct (map ses_IDHash (db_sessions db)) \<and>
     (\<forall>s\<in>set (db_sessions db). ses_Username s \<in> set (user_names db))"

definition db_inv :: "auth_db \<Rightarrow> bool" where
  "db_inv db \<longleftrightarrow> users_ok db \<and> tokens_ok db \<and> perms_ok db \<and> groups_ok db \<and> sessions_ok db"

lemmas db_inv_defs = db_inv_def users_ok_def tokens_ok_def perms_ok_def groups_ok_def sessions_ok_def

definition empty_db :: auth_db where
  "empty_db = \<lparr>db_down = False, db_users = [], db_tokens = [], db_targets = [], db_principals = [],
                db_groups = [], db_user_groups = [], db_sessions = []\<rparr>"

inductive db_step :: "auth_db \<Rightarrow> auth_db \<Rightarrow> bool" where
  "userStore_Create db u = Inr db' \<Longrightarrow> db_step db db'"
| "userStore_UpdatePassword db now n h = Inr db' \<Longrightarrow> db_step db db'"
| "userStore_UpdateEmail db now n h = Inr db' \<Longrightarrow> db_step db db'"
| "userStore_UpdateProfile db now n e b = Inr db' \<Longrightarrow> db_step db db'"
| "r \<noteq> [] \<Longrightarrow> userStore_SetRole db now n r = Inr db' \<Longrightarrow> db_step db db'"
| "userStore_SetEnabled db now n b = Inr db' \<Longrightarrow> db_step db db'"
| "userStore_DeleteCascade db n = Inr db' \<Longrightarrow> db_step db db'"
| "userStore_Delete db n = Inr db' \<Longrightarrow> db_step db db'"
| "tokenStore_Create db t = Inr (i, db') \<Longrightarrow> db_step db db'"
| "tokenStore_Touch db i s = Inr db' \<Longrightarrow> db_step db db'"
| "tokenStore_Delete db i = Inr db' \<Longrightarrow> db_step db db'"
| "permissionStore_PutTarget db tg ps = Inr db' \<Longrightarrow> db_step db db'"
| "permissionStore_DeleteTarget db n = Inr db' \<Longrightarrow> db_step db db'"
| "groupStore_Create db g = Inr db' \<Longrightarrow> db_step db db'"
| "groupStore_Update db g = Inr db' \<Longrightarrow> db_step db db'"
| "groupStore_Delete db n = Inr db' \<Longrightarrow> db_step db db'"
| "groupStore_SetUserGroups db n gs = Inr db' \<Longrightarrow> db_step db db'"
| "webSessionStore_Create db w = Inr db' \<Longrightarrow> db_step db db'"
| "webSessionStore_Touch db h s = Inr db' \<Longrightarrow> db_step db db'"
| "webSessionStore_Revoke db h s = Inr db' \<Longrightarrow> db_step db db'"
| "webSessionStore_Delete db h = Inr db' \<Longrightarrow> db_step db db'"
| "db_step db (db\<lparr>db_down := b\<rparr>)"

inductive db_reachable :: "auth_db \<Rightarrow> bool" where
  db_init: "db_reachable empty_db"
| db_next: "db_reachable db \<Longrightarrow> db_step db db' \<Longrightarrow> db_reachable db'"

lemma exec_Inr [simp]: "exec db r = Inr x \<longleftrightarrow> \<not> db_down db \<and> r = Inr x"
  by (auto simp: exec_def)

lemma next_id_fresh: "next_id ids \<notin> set ids"
proof -
  have "\<forall>i\<in>set ids. i \<le> foldr max ids 0" by (induction ids) auto
  then show ?thesis by (auto simp: next_id_def)
qed

text \<open>An operation that touches one table keeps the invariants of the others.\<close>

lemma users_ok_frame [simp]:
  "users_ok (db\<lparr>db_tokens := a\<rparr>) = users_ok db" "users_ok (db\<lparr>db_principals := b\<rparr>) = users_ok db"
  "users_ok (db\<lparr>db_targets := c\<rparr>) = users_ok db" "users_ok (db\<lparr>db_groups := d\<rparr>) = users_ok db"
  "users_ok (db\<lparr>db_user_groups := e\<rparr>) = users_ok db" "users_ok (db\<lparr>db_sessions := f\<rparr>) = users_ok db"
  "users_ok (db\<lparr>db_down := g\<rparr>) = users_ok db"
  by (simp_all add: users_ok_def user_names_def)

lemma tokens_ok_frame [simp]:
  "tokens_ok (db\<lparr>db_principals := b\<rparr>) = tokens_ok db"
  "tokens_ok (db\<lparr>db_targets := c\<rparr>) = tokens_ok db" "tokens_ok (db\<lparr>db_groups := d\<rparr>) = tokens_ok db"
  "tokens_ok (db\<lparr>db_user_groups := e\<rparr>) = tokens_ok db" "tokens_ok (db\<lparr>db_sessions := f\<rparr>) = tokens_ok db"
  "tokens_ok (db\<lparr>db_down := g\<rparr>) = tokens_ok db"
  by (simp_all add: tokens_ok_def user_names_def)

lemma perms_ok_frame [simp]:
  "perms_ok (db\<lparr>db_users := a\<rparr>) = perms_ok db" "perms_ok (db\<lparr>db_tokens := b\<rparr>) = perms_ok db"
  "perms_ok (db\<lparr>db_groups := d\<rparr>) = perms_ok db"
  "perms_ok (db\<lparr>db_user_groups := e\<rparr>) = perms_ok db" "perms_ok (db\<lparr>db_sessions := f\<rparr>) = perms_ok db"
  "perms_ok (db\<lparr>db_down := g\<rparr>) = perms_ok db"
  by (simp_all add: perms_ok_def)

lemma groups_ok_frame [simp]:
  "groups_ok (db\<lparr>db_tokens := a\<rparr>) = groups_ok db" "groups_ok (db\<lparr>db_principals := b\<rparr>) = groups_ok db"
  "groups_ok (db\<lparr>db_targets := c\<rparr>) = groups_ok db" "groups_ok (db\<lparr>db_sessions := f\<rparr>) = groups_ok db"
  "groups_ok (db\<lparr>db_down := g\<rparr>) = groups_ok db"
  by (simp_all add: groups_ok_def user_names_def)

lemma sessions_ok_frame [simp]:
  "sessions_ok (db\<lparr>db_tokens := a\<rparr>) = sessions_ok db" "sessions_ok (db\<lparr>db_principals := b\<rparr>) = sessions_ok db"
  "sessions_ok (db\<lparr>db_targets := c\<rparr>) = sessions_ok db" "sessions_ok (db\<lparr>db_groups := d\<rparr>) = sessions_ok db"
  "sessions_ok (db\<lparr>db_user_groups := e\<rparr>) = sessions_ok db" "sessions_ok (db\<lparr>db_down := g\<rparr>) = sessions_ok db"
  by (simp_all add: sessions_ok_def user_names_def)

lemma names_map_update:
  "(\<And>u. usr_Username (f u) = usr_Username u) \<Longrightarrow>
     user_names (db\<lparr>db_users := map (\<lambda>u. if usr_Username u = n then f u else u) (db_users db)\<rparr>) = user_names db"
  by (auto simp: user_names_def)

lemma users_table_inv:
  assumes "db_inv db" "distinct (map usr_Username us)" "\<forall>u\<in>set us. usr_Role u \<noteq> []"
    and "set (user_names db) \<subseteq> usr_Username ` set us"
  shows "db_inv (db\<lparr>db_users := us\<rparr>)"
proof -
  let ?db = "db\<lparr>db_users := us\<rparr>"
  have names: "set (user_names db) \<subseteq> set (user_names ?db)" using assms(4) by (simp add: user_names_def)
  have "users_ok ?db" using assms(2,3) by (simp add: users_ok_def user_names_def)
  moreover have "tokens_ok ?db" using assms(1) names by (auto simp: db_inv_def tokens_ok_def)
  moreover have "perms_ok ?db" using assms(1) by (simp add: db_inv_def)
  moreover have "groups_ok ?db" using assms(1) names by (auto simp: db_inv_def groups_ok_def)
  moreover have "sessions_ok ?db" using assms(1) names by (auto simp: db_inv_def sessions_ok_def)
  ultimately show ?thesis by (simp add: db_inv_def)
qed

lemma userStore_Create_inv:
  assumes "userStore_Create db u = Inr db'" "db_inv db"
  shows "db_inv db'"
proof -
  let ?u = "u\<lparr>usr_Role := deriveRole (usr_Role u) (usr_IsAdmin u)\<rparr>"
  have new: "usr_Username u \<notin> set (user_names db)" and db': "db' = db\<lparr>db_users := db_users db @ [?u]\<rparr>"
    using assms(1) by (auto simp: userStore_Create_def split: if_splits)
  have "deriveRole (usr_Role u) (usr_IsAdmin u) \<noteq> []"
    by (simp add: deriveRole_def meta_RoleAdmin_def meta_RoleUser_def)
  moreover have "distinct (map usr_Username (db_users db))" "\<forall>v\<in>set (db_users db). usr_Role v \<noteq> []"
    using assms(2) by (simp_all add: db_inv_def users_ok_def user_names_def)
  ultimately show ?thesis
    unfolding db' using new by (intro users_table_inv [OF assms(2)]) (auto simp: user_names_def)
qed

lemma update_user_inv:
  assumes "update_user db n f = Inr db'" "db_inv db"
    and "\<And>u. usr_Username (f u) = usr_Username u" "\<And>u. usr_Role u \<noteq> [] \<Longrightarrow> usr_Role (f u) \<noteq> []"
  shows "db_inv db'"
proof -
  let ?m = "map (\<lambda>u. if usr_Username u = n then f u else u) (db_users db)"
  have db': "db' = db\<lparr>db_users := ?m\<rparr>" using assms(1) by (auto simp: update_user_def split: if_splits)
  have names: "user_names db' = user_names db" unfolding db' by (rule names_map_update) (rule assms(3))
  have "\<forall>u\<in>set (db_users db'). usr_Role u \<noteq> []"
    using assms(2,4) by (auto simp: db' db_inv_defs)
  with assms(2) names show ?thesis by (simp add: db_inv_defs) (simp add: db')
qed

lemma drop_user_names: "user_names (drop_user db n) = filter (\<lambda>m. m \<noteq> n) (user_names db)"
  by (simp add: user_names_def drop_user_def filter_map comp_def)

lemma distinct_map_filter': "distinct (map f xs) \<Longrightarrow> distinct (map f (filter P xs))"
  by (simp add: distinct_map inj_on_def)

lemma drop_user_inv: "db_inv db \<Longrightarrow> db_inv (drop_user db n)"
  unfolding db_inv_defs drop_user_names
  by (auto simp: drop_user_def distinct_map_filter' distinct_filter)

lemma principals_filter_inv:
  "db_inv db \<Longrightarrow> db_inv (db\<lparr>db_principals := filter P (db_principals db)\<rparr>)"
  by (auto simp: db_inv_def perms_ok_def distinct_map_filter')

lemma insert_principals_keys:
  assumes "insert_principals name rows ps = Some rows'"
    and "distinct (map prn_ID rows)" "distinct (map principal_key rows)"
    and "\<forall>p\<in>set rows. prn_TargetName p \<in> N" "name \<in> N"
  shows "distinct (map prn_ID rows') \<and> distinct (map principal_key rows')
           \<and> (\<forall>p\<in>set rows'. prn_TargetName p \<in> N)"
  using assms
proof (induction ps arbitrary: rows)
  case (Cons p ps)
  let ?r = "p\<lparr>prn_ID := next_id (map prn_ID rows), prn_TargetName := name\<rparr>"
  from Cons.prems(1) have k: "principal_key ?r \<notin> set (map principal_key rows)"
    and rest: "insert_principals name (rows @ [?r]) ps = Some rows'"
    by (auto simp: Let_def split: if_splits)
  show ?case
    using Cons.prems k next_id_fresh [of "map prn_ID rows"] by (intro Cons.IH [OF rest]) auto
qed simp

lemma upsert_names: "tgt_Name ` set (upsert_target t ts) = insert (tgt_Name t) (tgt_Name ` set ts)"
proof (cases "tgt_Name t \<in> set (map tgt_Name ts)")
  case True
  then have "map tgt_Name (upsert_target t ts) = map tgt_Name ts" by (auto simp: upsert_target_def)
  then have "tgt_Name ` set (upsert_target t ts) = tgt_Name ` set ts" by (metis set_map)
  with True show ?thesis by auto
qed (auto simp: upsert_target_def)

lemma upsert_distinct:
  assumes "distinct (map tgt_Name ts)"
  shows "distinct (map tgt_Name (upsert_target t ts))"
proof (cases "tgt_Name t \<in> set (map tgt_Name ts)")
  case True
  then have "map tgt_Name (upsert_target t ts) = map tgt_Name ts" by (auto simp: upsert_target_def)
  with assms show ?thesis by simp
qed (use assms in \<open>auto simp: upsert_target_def\<close>)

lemma PutTarget_inv:
  assumes "permissionStore_PutTarget db t ps = Inr db'" "db_inv db"
  shows "db_inv db'"
proof -
  let ?old = "filter (\<lambda>p. prn_TargetName p \<noteq> tgt_Name t) (db_principals db)"
  obtain rows where rows: "insert_principals (tgt_Name t) ?old ps = Some rows"
    and db': "db' = db\<lparr>db_targets := upsert_target t (db_targets db), db_principals := rows\<rparr>"
    using assms(1) by (auto simp: permissionStore_PutTarget_def split: option.splits)
  have "distinct (map prn_ID rows) \<and> distinct (map principal_key rows)
      \<and> (\<forall>p\<in>set rows. prn_TargetName p \<in> insert (tgt_Name t) (tgt_Name ` set (db_targets db)))"
    using assms(2) by (intro insert_principals_keys [OF rows]) (auto simp: db_inv_defs distinct_map_filter')
  then have "perms_ok db'"
    using assms(2) by (simp add: db' db_inv_defs upsert_names upsert_distinct)
  with assms(2) show ?thesis by (simp add: db' db_inv_def)
qed

lemma resolve_names_ids:
  "resolve_names m seen ns = Inr ids \<Longrightarrow> (\<And>a b i. map_of m a = Some i \<Longrightarrow> map_of m b = Some i \<Longrightarrow> a = b) \<Longrightarrow>
     set ids \<subseteq> ran (map_of m) \<and> distinct ids \<and> (\<forall>n\<in>set seen. \<forall>i. map_of m n = Some i \<longrightarrow> i \<notin> set ids)"
proof (induction m seen ns arbitrary: ids rule: resolve_names.induct)
  case (2 m seen n ns)
  show ?case
  proof (cases "n \<in> set seen")
    case False
    with "2.prems"(1) obtain i js where i: "map_of m n = Some i"
      and rest: "resolve_names m (n # seen) ns = Inr js" and ids: "ids = i # js"
      by (auto split: option.splits sum.splits)
    have IH: "set js \<subseteq> ran (map_of m)" "distinct js"
        "\<forall>k\<in>set (n # seen). \<forall>j. map_of m k = Some j \<longrightarrow> j \<notin> set js"
      using "2.IH"(2) [OF False i rest "2.prems"(2)] by auto
    have "j \<noteq> i" if "k \<in> set seen" "map_of m k = Some j" for k j
    proof
      assume "j = i"
      with that i "2.prems"(2) [of k i n] have "k = n" by simp
      with that False show False by simp
    qed
    with IH i ids show ?thesis by (auto intro: ranI)
  qed (use 2 in auto)
qed simp

lemma SetUserGroups_inv:
  assumes "groupStore_SetUserGroups db n gs = Inr db'" "db_inv db"
  shows "db_inv db'"
proof -
  let ?m = "rev (map (\<lambda>g. (grp_Name g, grp_ID g)) (db_groups db))"
  obtain ids where ids: "resolveGroupIDs db gs = Inr ids" and n: "ids \<noteq> [] \<Longrightarrow> n \<in> set (user_names db)"
    and db': "db' = db\<lparr>db_user_groups :=
          filter (\<lambda>m. snd m \<noteq> n) (db_user_groups db) @ map (\<lambda>i. (i, n)) ids\<rparr>"
    using assms(1) by (auto simp: groupStore_SetUserGroups_def split: sum.splits if_splits)
  have g: "distinct (map grp_ID (db_groups db))" "distinct (map grp_Name (db_groups db))"
    using assms(2) by (auto simp: db_inv_defs)
  have mo: "map_of ?m x = Some i \<longleftrightarrow> (\<exists>g\<in>set (db_groups db). grp_Name g = x \<and> grp_ID g = i)" for x i
    using g(2) by (subst map_of_eq_Some_iff) (auto simp: rev_map [symmetric] comp_def)
  have inj: "a = b" if "map_of ?m a = Some i" "map_of ?m b = Some i" for a b i
    using that g(1) unfolding mo by (auto simp: distinct_map inj_on_def)
  have ran: "ran (map_of ?m) = grp_ID ` set (db_groups db)" by (auto simp: ran_def mo)
  have "set ids \<subseteq> ran (map_of ?m) \<and> distinct ids" if "resolve_names ?m [] gs = Inr ids"
    using resolve_names_ids [OF that] inj by blast
  moreover have "ids = [] \<or> resolve_names ?m [] gs = Inr ids"
    using ids by (auto simp: resolveGroupIDs_def split: if_splits)
  ultimately have "set ids \<subseteq> grp_ID ` set (db_groups db) \<and> distinct ids" unfolding ran by auto
  moreover have "n \<in> set (user_names db)" if "i \<in> set ids" for i using n that by (cases ids) auto
  ultimately have "groups_ok db'"
    using assms(2) by (auto simp: db' db_inv_def groups_ok_def user_names_def distinct_map inj_on_def)
  with assms(2) show ?thesis by (simp add: db' db_inv_def)
qed

lemma groupStore_Delete_inv:
  assumes "groupStore_Delete db n = Inr db'" "db_inv db"
  shows "db_inv db'"
proof -
  let ?gone = "map grp_ID (filter (\<lambda>g. grp_Name g = n) (db_groups db))"
  have db': "db' = db\<lparr>db_groups := filter (\<lambda>g. grp_Name g \<noteq> n) (db_groups db),
      db_user_groups := filter (\<lambda>m. fst m \<notin> set ?gone) (db_user_groups db)\<rparr>"
    using assms(1) by (auto simp: groupStore_Delete_def Let_def split: if_splits)
  have "i \<in> grp_ID ` set (filter (\<lambda>g. grp_Name g \<noteq> n) (db_groups db))"
    if "i \<in> grp_ID ` set (db_groups db)" "i \<notin> set ?gone" for i using that by auto
  then have "groups_ok db'"
    using assms(2) by (auto simp: db' db_inv_def groups_ok_def user_names_def distinct_map_filter')
  with assms(2) show ?thesis by (simp add: db' db_inv_def)
qed

lemma update_session_inv:
  assumes "update_session db h f = Inr db'" "db_inv db"
    and "\<And>s. ses_IDHash (f s) = ses_IDHash s" "\<And>s. ses_Username (f s) = ses_Username s"
  shows "db_inv db'"
proof -
  let ?m = "map (\<lambda>s. if ses_IDHash s = h then f s else s) (db_sessions db)"
  have db': "db' = db\<lparr>db_sessions := ?m\<rparr>"
    using assms(1) by (auto simp: update_session_def split: if_splits)
  have "map ses_IDHash ?m = map ses_IDHash (db_sessions db)" using assms(3) by simp
  then have "sessions_ok db'"
    using assms(2,4) by (auto simp: db' db_inv_def sessions_ok_def user_names_def simp del: map_map)
  with assms(2) show ?thesis by (simp add: db' db_inv_def)
qed

lemma db_step_inv: "db_step db db' \<Longrightarrow> db_inv db \<Longrightarrow> db_inv db'"
proof (induction rule: db_step.induct)
  case 1
  then show ?case by (rule userStore_Create_inv)
next
  case 2
  then show ?case by (auto simp: userStore_UpdatePassword_def elim!: update_user_inv)
next
  case 3
  then show ?case by (auto simp: userStore_UpdateEmail_def elim!: update_user_inv)
next
  case 4
  then show ?case by (auto simp: userStore_UpdateProfile_def elim!: update_user_inv split: if_splits)
next
  case 5
  then show ?case by (auto simp: userStore_SetRole_def elim!: update_user_inv)
next
  case 6
  then show ?case by (auto simp: userStore_SetEnabled_def elim!: update_user_inv)
next
  case 7
  then show ?case
    by (auto simp: userStore_DeleteCascade_def Let_def intro!: drop_user_inv principals_filter_inv
        split: if_splits sum.splits)
next
  case 8
  then show ?case by (auto simp: userStore_Delete_def intro: drop_user_inv split: if_splits)
next
  case (9 db t i db')
  then show ?case
    using next_id_fresh [of "map tok_ID (db_tokens db)"]
    by (auto simp: tokenStore_Create_def Let_def db_inv_def tokens_ok_def user_names_def split: if_splits)
next
  case (10 db i s db')
  have "map tok_ID (map (\<lambda>t. if tok_ID t = i then t\<lparr>tok_LastUsedAt := s\<rparr> else t) (db_tokens db)) = map tok_ID (db_tokens db)"
    "map tok_TokenSHA256 (map (\<lambda>t. if tok_ID t = i then t\<lparr>tok_LastUsedAt := s\<rparr> else t) (db_tokens db)) = map tok_TokenSHA256 (db_tokens db)"
    by simp_all
  with 10 show ?case
    by (auto simp: tokenStore_Touch_def db_inv_def tokens_ok_def user_names_def simp del: map_map split: if_splits)
next
  case 11
  then show ?case
    by (auto simp: tokenStore_Delete_def db_inv_def tokens_ok_def user_names_def distinct_map_filter' split: if_splits)
next
  case 12
  then show ?case by (rule PutTarget_inv)
next
  case 13
  then show ?case
    by (force simp: permissionStore_DeleteTarget_def db_inv_def perms_ok_def distinct_map_filter')
next
  case (14 db g db')
  then show ?case
    using next_id_fresh [of "map grp_ID (db_groups db)"]
    by (auto simp: groupStore_Create_def db_inv_def groups_ok_def user_names_def split: if_splits)
next
  case (15 db g db')
  let ?f = "\<lambda>h. if grp_Name h = grp_Name g then h\<lparr>grp_Description := grp_Description g, grp_UpdatedAt := grp_UpdatedAt g\<rparr> else h"
  have "map grp_ID (map ?f (db_groups db)) = map grp_ID (db_groups db)"
    "map grp_Name (map ?f (db_groups db)) = map grp_Name (db_groups db)" by simp_all
  moreover from this(1) have "grp_ID ` set (map ?f (db_groups db)) = grp_ID ` set (db_groups db)"
    by (metis set_map)
  ultimately show ?case using 15
    by (auto simp: groupStore_Update_def db_inv_def groups_ok_def user_names_def simp del: map_map set_map split: if_splits)
next
  case 16
  then show ?case by (rule groupStore_Delete_inv)
next
  case 17
  then show ?case by (rule SetUserGroups_inv)
next
  case 18
  then show ?case
    by (auto simp: webSessionStore_Create_def db_inv_def sessions_ok_def user_names_def split: if_splits)
next
  case 19
  then show ?case by (auto simp: webSessionStore_Touch_def elim!: update_session_inv)
next
  case 20
  then show ?case by (auto simp: webSessionStore_Revoke_def elim!: update_session_inv)
next
  case 21
  then show ?case
    by (auto simp: webSessionStore_Delete_def db_inv_def sessions_ok_def user_names_def distinct_map_filter' split: if_splits)
next
  case 22
  then show ?case by (simp add: db_inv_def)
qed


lemma db_reachable_inv: "db_reachable db \<Longrightarrow> db_inv db"
proof (induction rule: db_reachable.induct)
  case db_init
  show ?case by (simp add: empty_db_def db_inv_defs user_names_def)
next
  case (db_next db db')
  then show ?case by (blast intro: db_step_inv)
qed

definition seed_admin :: User where
  "seed_admin = \<lparr>usr_Username = ''admin'', usr_PasswordHash = ''h'', usr_IsAdmin = True, usr_Enabled = True,
     usr_CreatedAt = [], usr_UpdatedAt = [], usr_Email = [], usr_Provider = ''local'', usr_ProviderID = [],
     usr_Role = []\<rparr>"

definition seeded_db :: auth_db where
  "seeded_db = empty_db\<lparr>db_users := [seed_admin\<lparr>usr_Role := ''admin''\<rparr>]\<rparr>"

lemma seeded_reachable: "db_reachable seeded_db"
proof -
  have "userStore_Create empty_db seed_admin = Inr seeded_db"
    by (simp add: userStore_Create_def seeded_db_def empty_db_def seed_admin_def user_names_def
        deriveRole_def meta_RoleAdmin_def)
  then show ?thesis by (blast intro: db_next [OF db_init] db_step.intros)
qed


section \<open>Deleting a user\<close>

definition has_admin :: "auth_db \<Rightarrow> bool" where
  "has_admin db \<longleftrightarrow> (\<exists>u\<in>set (db_users db). usr_Role u = ''admin'')"

definition sole_admin :: "auth_db \<Rightarrow> string \<Rightarrow> bool" where
  "sole_admin db n \<longleftrightarrow>
     (\<exists>u\<in>set (db_users db). usr_Username u = n \<and> usr_Role u = ''admin'') \<and>
     (\<forall>u\<in>set (db_users db). usr_Role u = ''admin'' \<longrightarrow> usr_Username u = n)"

definition user_aces :: "auth_db \<Rightarrow> string \<Rightarrow> PermissionPrincipal set" where
  "user_aces db n = {p \<in> set (db_principals db). prn_PrincipalType p = ''user'' \<and> prn_Principal p = n}"

definition no_trace :: "auth_db \<Rightarrow> string \<Rightarrow> bool" where
  "no_trace db n \<longleftrightarrow>
     n \<notin> set (user_names db) \<and> n \<notin> tok_Username ` set (db_tokens db) \<and>
     n \<notin> ses_Username ` set (db_sessions db) \<and> n \<notin> snd ` set (db_user_groups db) \<and> user_aces db n = {}"

definition others_kept :: "auth_db \<Rightarrow> auth_db \<Rightarrow> string \<Rightarrow> bool" where
  "others_kept db db' n \<longleftrightarrow>
     db_targets db' = db_targets db \<and> db_groups db' = db_groups db \<and>
     set (db_users db') = {u \<in> set (db_users db). usr_Username u \<noteq> n} \<and>
     set (db_tokens db') = {t \<in> set (db_tokens db). tok_Username t \<noteq> n} \<and>
     set (db_sessions db') = {s \<in> set (db_sessions db). ses_Username s \<noteq> n} \<and>
     set (db_user_groups db') = {m \<in> set (db_user_groups db). snd m \<noteq> n} \<and>
     set (db_principals db') = set (db_principals db) - user_aces db n"

lemma deletable_iff:
  assumes "db_inv db"
  shows "list_ex (deletable db n) (db_users db) \<longleftrightarrow> n \<in> set (user_names db) \<and> \<not> sole_admin db n"
proof -
  have uniq: "u = v" if "u \<in> set (db_users db)" "v \<in> set (db_users db)" "usr_Username u = usr_Username v" for u v
    using assms that by (auto simp: db_inv_def users_ok_def user_names_def distinct_map inj_on_def)
  show ?thesis
    by (auto simp: list_ex_iff deletable_def sole_admin_def user_names_def Bex_def dest: uniq)
qed

lemma scanUser_found:
  assumes "u \<in> set (db_users db)" "usr_Username u = n" "db_inv db"
  shows "scanUser (filter (\<lambda>u. usr_Username u = n) (db_users db)) = Inr u"
proof -
  have "v = u" if "v \<in> set (filter (\<lambda>u. usr_Username u = n) (db_users db))" for v
    using assms that by (auto simp: db_inv_def users_ok_def user_names_def distinct_map inj_on_def)
  moreover have "filter (\<lambda>u. usr_Username u = n) (db_users db) \<noteq> []"
    using assms by (auto simp: filter_empty_conv)
  ultimately show ?thesis by (cases "filter (\<lambda>u. usr_Username u = n) (db_users db)") (auto simp: scanUser_def)
qed

lemma scanUser_missing:
  "n \<notin> set (user_names db) \<Longrightarrow> scanUser (filter (\<lambda>u. usr_Username u = n) (db_users db)) = Inl ErrUserNotFound"
  by (subst filter_False) (auto simp: scanUser_def user_names_def)

lemma DeleteCascade_result:
  assumes "userStore_DeleteCascade db n = Inr db'"
  shows "no_trace db' n" "others_kept db db' n"
  using assms
  by (auto simp: userStore_DeleteCascade_def Let_def drop_user_def no_trace_def others_kept_def user_names_def
      user_aces_def split: if_splits sum.splits)

lemma DeleteCascade_admin:
  assumes "userStore_DeleteCascade db n = Inr db'" "db_inv db" "has_admin db"
  shows "has_admin db'"
proof -
  have "list_ex (deletable db n) (db_users db)"
    using assms(1) by (auto simp: userStore_DeleteCascade_def Let_def split: if_splits sum.splits)
  then have "\<not> sole_admin db n" using deletable_iff [OF assms(2)] by blast
  with assms(3) obtain v where "v \<in> set (db_users db)" "usr_Role v = ''admin''" "usr_Username v \<noteq> n"
    by (auto simp: sole_admin_def has_admin_def)
  with DeleteCascade_result(2) [OF assms(1)] show ?thesis
    by (auto simp: has_admin_def others_kept_def)
qed

text \<open>
  C6: Deleting a user is all or nothing. An unknown name answers \<open>ErrUserNotFound\<close> and the only
  administrator \<open>ErrLastAdmin\<close>, whatever check the caller made before; in every other case the
  user, its tokens, sessions, memberships and its own grants are gone, every other row of every
  table is still there, and an instance that had an administrator still has one.
\<close>

theorem delete_cascade_exact:
  assumes "db_inv db" "\<not> db_down db"
  shows "(n \<notin> set (user_names db) \<longrightarrow> userStore_DeleteCascade db n = Inl ErrUserNotFound) \<and>
    (sole_admin db n \<longrightarrow> userStore_DeleteCascade db n = Inl ErrLastAdmin) \<and>
    (n \<in> set (user_names db) \<and> \<not> sole_admin db n \<longrightarrow>
      (\<exists>db'. userStore_DeleteCascade db n = Inr db' \<and> no_trace db' n \<and> others_kept db db' n
             \<and> (has_admin db \<longrightarrow> has_admin db')))"
proof (intro conjI impI)
  note del = deletable_iff [OF assms(1), of n]
  show "userStore_DeleteCascade db n = Inl ErrUserNotFound" if "n \<notin> set (user_names db)"
    using that del assms(2) by (simp add: userStore_DeleteCascade_def exec_def scanUser_missing)
  show "userStore_DeleteCascade db n = Inl ErrLastAdmin" if sole: "sole_admin db n"
  proof -
    obtain u where u: "u \<in> set (db_users db)" "usr_Username u = n" "usr_Role u = ''admin''"
      using sole by (auto simp: sole_admin_def)
    show ?thesis
      using sole del assms(2) u(3) scanUser_found [OF u(1,2) assms(1)]
      by (simp add: userStore_DeleteCascade_def exec_def meta_RoleAdmin_def)
  qed
  assume "n \<in> set (user_names db) \<and> \<not> sole_admin db n"
  then obtain db' where db': "userStore_DeleteCascade db n = Inr db'"
    using del assms(2) by (simp add: userStore_DeleteCascade_def exec_def Let_def)
  with DeleteCascade_result [OF db'] DeleteCascade_admin [OF db' assms(1)]
  show "\<exists>db'. userStore_DeleteCascade db n = Inr db' \<and> no_trace db' n \<and> others_kept db db' n
      \<and> (has_admin db \<longrightarrow> has_admin db')" by blast
qed

theorem delete_cascade_exact_witness:
  "userStore_DeleteCascade seeded_db ''admin'' = Inl ErrLastAdmin
   \<and> userStore_DeleteCascade seeded_db ''bob'' = Inl ErrUserNotFound"
proof -
  have "\<not> db_down seeded_db" by (simp add: seeded_db_def empty_db_def)
  note * = delete_cascade_exact [OF db_reachable_inv [OF seeded_reachable] this]
  have "sole_admin seeded_db ''admin''" "''bob'' \<notin> set (user_names seeded_db)"
    by (simp_all add: sole_admin_def seeded_db_def empty_db_def seed_admin_def user_names_def)
  with * show ?thesis by blast
qed


section \<open>The selection of \<open>PrincipalsFor\<close>\<close>

lemma sql_like_percent: "sql_like (CHR ''%'' # p) s \<longleftrightarrow> (\<exists>a b. s = a @ b \<and> sql_like p b)"
proof (induction s)
  case (Cons x xs)
  have "(\<exists>a b. x # xs = a @ b \<and> sql_like p b) \<longleftrightarrow> sql_like p (x # xs) \<or> (\<exists>a b. xs = a @ b \<and> sql_like p b)"
    by (metis append_Cons append_Nil append_eq_Cons_conv)
  with Cons show ?case by simp
qed simp

lemma sql_like_literal:
  "sql_like (escapeLike k @ p) s \<longleftrightarrow> (\<exists>t. s = k @ t \<and> sql_like p t)"
proof (induction k arbitrary: s)
  case (Cons c k)
  have [simp]: "escapeLike (c # k) = (if c = CHR 0x5C \<or> c = CHR ''%'' \<or> c = CHR ''_'' then [CHR 0x5C, c] else [c]) @ escapeLike k"
    by (simp add: escapeLike_def)
  show ?case using Cons by (cases s) auto
qed (simp add: escapeLike_def)

definition quoted_in :: "string \<Rightarrow> string \<Rightarrow> bool" where
  "quoted_in k s \<longleftrightarrow> (\<exists>a b. s = a @ CHR 0x22 # k @ CHR 0x22 # b)"

lemma repos_pattern_quoted: "sql_like (repos_pattern k) s \<longleftrightarrow> quoted_in k s"
proof -
  have tail: "sql_like [CHR 0x22, CHR ''%''] t \<longleftrightarrow> (\<exists>b. t = CHR 0x22 # b)" for t
    using sql_like_percent [of "[]"] by (cases t) (auto simp del: sql_like.simps(2) simp: sql_like.simps(2) [of "CHR 0x22"])
  have quote: "sql_like (CHR 0x22 # p) b \<longleftrightarrow> (\<exists>t. b = CHR 0x22 # t \<and> sql_like p t)" for p b
    by (cases b) auto
  have "sql_like (repos_pattern k) s \<longleftrightarrow> (\<exists>a b. s = a @ b \<and> sql_like (CHR 0x22 # escapeLike k @ [CHR 0x22, CHR ''%'']) b)"
    unfolding repos_pattern_def by (rule sql_like_percent)
  also have "\<dots> \<longleftrightarrow> (\<exists>a b t. s = a @ b \<and> b = CHR 0x22 # t \<and> sql_like (escapeLike k @ [CHR 0x22, CHR ''%'']) t)"
    unfolding quote by blast
  also have "\<dots> \<longleftrightarrow> quoted_in k s"
    unfolding sql_like_literal tail quoted_in_def by blast
  finally show ?thesis .
qed

lemma join_with_append:
  "xs \<noteq> [] \<Longrightarrow> ys \<noteq> [] \<Longrightarrow> join_with c (xs @ ys) = join_with c xs @ c # join_with c ys"
  by (induction c xs rule: join_with.induct) (auto simp: neq_Nil_conv)

text \<open>A key without quotes stands between two quotes exactly when it is an inner part of the text.\<close>

lemma quoted_in_split:
  assumes "CHR 0x22 \<notin> set k"
  shows "quoted_in k s \<longleftrightarrow> k \<in> set (butlast (tl (split_on (CHR 0x22) s)))"
proof
  assume "quoted_in k s"
  then obtain a b where s: "s = a @ CHR 0x22 # k @ CHR 0x22 # b" by (auto simp: quoted_in_def)
  have "split_on (CHR 0x22) s = split_on (CHR 0x22) a @ k # split_on (CHR 0x22) b"
    unfolding s split_on_append_any using assms by (simp add: split_on_noc)
  moreover obtain x xs where "split_on (CHR 0x22) a = x # xs" using split_on_nonempty by (cases "split_on (CHR 0x22) a") auto
  ultimately show "k \<in> set (butlast (tl (split_on (CHR 0x22) s)))" by (simp add: butlast_append)
next
  assume "k \<in> set (butlast (tl (split_on (CHR 0x22) s)))"
  moreover obtain p ps where p: "split_on (CHR 0x22) s = p # ps" by (cases "split_on (CHR 0x22) s") auto
  ultimately have k: "k \<in> set (butlast ps)" by simp
  then obtain us vs where uv: "butlast ps = us @ k # vs" by (auto simp: in_set_conv_decomp)
  from k have "ps \<noteq> []" by auto
  then have ps: "ps = us @ k # (vs @ [last ps])" using uv append_butlast_last_id [of ps] by simp
  let ?c = "CHR 0x22 :: char"
  have "s = join_with ?c ((p # us) @ k # (vs @ [last ps]))" using p ps join_split [of ?c s] by simp
  also have "\<dots> = join_with ?c (p # us) @ ?c # join_with ?c (k # (vs @ [last ps]))" by (rule join_with_append) auto
  also have "join_with ?c (k # (vs @ [last ps])) = k @ ?c # join_with ?c (vs @ [last ps])"
    using join_with_append [of "[k]" "vs @ [last ps]" ?c] by simp
  finally show "quoted_in k s" by (auto simp: quoted_in_def)
qed

lemma plain_no_quote: "plain_key s \<Longrightarrow> CHR 0x22 \<notin> set s"
  by (auto simp: plain_key_def plain_char_def list_all_iff)

lemma split_marshal_tail:
  "\<forall>s\<in>set ss. plain_key s \<Longrightarrow>
     split_on (CHR 0x22) (marshal_tail ss) = concat (map (\<lambda>s. ['','', s]) ss) @ ['']'']"
  by (induction ss) (auto simp: marshal_string_plain plain_no_quote split_on_append)

lemma quoted_in_marshal:
  assumes "plain_key k" "k \<noteq> '',''" "\<forall>s\<in>set ss. plain_key s"
  shows "quoted_in k (marshal_strings ss) \<longleftrightarrow> k \<in> set ss"
proof (cases ss)
  case Nil
  with assms(1) show ?thesis by (simp add: quoted_in_split plain_no_quote)
next
  case (Cons s rest)
  have q: "\<forall>r\<in>set ss. CHR 0x22 \<notin> set r" using assms(3) plain_no_quote by blast
  have "split_on (CHR 0x22) (marshal_strings ss) = ''['' # s # concat (map (\<lambda>s. ['','', s]) rest) @ ['']'']"
    using Cons q assms(3) split_marshal_tail [of rest] by (simp add: marshal_string_plain split_on_append)
  then have "butlast (tl (split_on (CHR 0x22) (marshal_strings ss))) = s # concat (map (\<lambda>s. ['','', s]) rest)"
    by (simp add: butlast_append)
  with assms(1,2) Cons show ?thesis by (auto simp: quoted_in_split plain_no_quote)
qed

text \<open>The targets whose \<open>repos\<close> column is the encoding of a list of plain keys, as the writers store it.\<close>

definition target_lists :: "PermissionTarget \<Rightarrow> string \<Rightarrow> bool" where
  "target_lists t k = (case unmarshal_strings (tgt_Repos t) of None \<Rightarrow> False | Some ks \<Rightarrow> k \<in> set ks)"

definition encoded_target :: "PermissionTarget \<Rightarrow> bool" where
  "encoded_target t \<longleftrightarrow> (\<exists>ks. list_all plain_key ks \<and> tgt_Repos t = marshal_strings ks)"

lemma like_lists:
  assumes "plain_key k" "k \<noteq> '',''" "encoded_target t"
  shows "sql_like (repos_pattern k) (tgt_Repos t) \<longleftrightarrow> target_lists t k"
  using assms by (auto simp: encoded_target_def repos_pattern_quoted target_lists_def list_all_iff quoted_in_marshal unmarshal_marshal)

text \<open>
  On targets whose repository lists were written as JSON arrays of plain keys, the textual
  \<open>LIKE '%"key"%'\<close> selection of \<open>PrincipalsFor\<close> is exact for every plain key but the comma: it
  returns the principal rows of precisely the targets whose decoded list contains the key.
\<close>

theorem principalsFor_exact:
  assumes "\<not> db_down db" "\<forall>t\<in>set (db_targets db). encoded_target t"
    and "plain_key k" "k \<noteq> '',''"
  shows "\<exists>rows. permissionStore_PrincipalsFor db k = Inr rows \<and>
    set rows = {p \<in> set (db_principals db). \<exists>t\<in>set (db_targets db). tgt_Name t = prn_TargetName p \<and> target_lists t k}"
  using assms(1,2) like_lists [OF assms(3,4)]
  by (auto simp: permissionStore_PrincipalsFor_def exec_def list_ex_iff)

definition demo_target :: PermissionTarget where
  "demo_target = \<lparr>tgt_Name = ''ci'', tgt_Repos = marshal_strings [''libs'', ''ANY LOCAL''], tgt_Includes = marshal_strings [''out/**''],
     tgt_Excludes = marshal_strings [''out/secret/*''], tgt_CreatedAt = [], tgt_UpdatedAt = []\<rparr>"

definition demo_row :: PermissionPrincipal where
  "demo_row = \<lparr>prn_ID = 1, prn_TargetName = ''ci'', prn_Principal = ''bob'', prn_PrincipalType = ''user'',
     prn_CanRead = True, prn_CanWrite = False, prn_CanDelete = False, prn_CanManage = True, prn_CanAnnotate = False\<rparr>"

definition demo_db :: auth_db where
  "demo_db = seeded_db\<lparr>db_targets := [demo_target], db_principals := [demo_row]\<rparr>"

lemma demo_plain: "plain_key ''libs''" "plain_key ''ANY LOCAL''"
  by (simp_all add: plain_key_def plain_char_def byte_of_def)

lemma demo_encoded: "encoded_target demo_target"
  by (auto simp: encoded_target_def demo_target_def demo_plain intro!: exI [of _ "[''libs'', ''ANY LOCAL'']"])

theorem principalsFor_exact_witness:
  "\<exists>rows. permissionStore_PrincipalsFor demo_db ''libs'' = Inr rows \<and> set rows = {demo_row}"
proof -
  have lists: "target_lists demo_target ''libs''"
    using unmarshal_marshal [of "[''libs'', ''ANY LOCAL'']"] demo_plain
    by (simp add: target_lists_def demo_target_def del: marshal_strings.simps)
  have "\<not> db_down demo_db" "\<forall>t\<in>set (db_targets demo_db). encoded_target t"
    by (simp_all add: demo_db_def seeded_db_def empty_db_def demo_encoded)
  then have "\<exists>rows. permissionStore_PrincipalsFor demo_db ''libs'' = Inr rows \<and>
      set rows = {p \<in> set (db_principals demo_db). \<exists>t\<in>set (db_targets demo_db).
        tgt_Name t = prn_TargetName p \<and> target_lists t ''libs''}"
    by (rule principalsFor_exact) (simp_all add: demo_plain)
  moreover have "{p \<in> set (db_principals demo_db). \<exists>t\<in>set (db_targets demo_db).
        tgt_Name t = prn_TargetName p \<and> target_lists t ''libs''} = {demo_row}"
    using lists by (auto simp: demo_db_def demo_row_def demo_target_def)
  ultimately show ?thesis by simp
qed

end
