(* ===== verification/Auth_Rbac.thy ===== *)
theory Auth_Rbac
  imports Auth_Paths Meta_Auth
begin

text \<open>
  The authorization decision of \<open>internal/auth\<close>: roles and capabilities (\<open>rbac.go\<close>), the preset
  wildcard buckets (\<open>wildcard.go\<close>), the decision itself (\<open>authorizer.go\<close>), group memberships and
  the effective-permission view (\<open>groups.go\<close>), and the adapters that put the metadata store below
  them (\<open>deps.go\<close>). The service is the record \<open>authz\<close> of the sources it was built with: the
  permission source (a result \<open>None\<close> is a store error; the rows facet may be missing), the
  repository classes, the group source and the anonymous flag. A nil pointer is \<open>None\<close>. Log lines
  are not modelled.

  The lemmas show what a decision depends on: the exact grant condition, that a failing store
  denies, that the roles short-circuit, and that \<open>Can\<close>, the \<open>?permissions\<close> view and the manage
  coverage answer alike.
\<close>


section \<open>Actions, roles, capabilities\<close>

definition ActionRead :: string where "ActionRead = ''r''"
definition ActionWrite :: string where "ActionWrite = ''w''"
definition ActionDelete :: string where "ActionDelete = ''d''"
definition ActionManage :: string where "ActionManage = ''m''"
definition ActionAnnotate :: string where "ActionAnnotate = ''a''"

lemmas action_defs = ActionRead_def ActionWrite_def ActionDelete_def ActionManage_def ActionAnnotate_def

definition RoleAdmin :: string where "RoleAdmin = ''admin''"
definition RoleReadOnlyAdmin :: string where "RoleReadOnlyAdmin = ''readonly_admin''"
definition RoleUser :: string where "RoleUser = ''user''"

lemmas role_defs = RoleAdmin_def RoleReadOnlyAdmin_def RoleUser_def

definition ParseRole :: "string \<Rightarrow> string option" where
  "ParseRole s = (if s = RoleAdmin \<or> s = RoleReadOnlyAdmin \<or> s = RoleUser then Some s else None)"

record DeployScope =
  ds_Kind :: string
  ds_Repos :: "string list"
  ds_Path :: string

record Principal =
  p_Name :: string
  p_Role :: string
  p_Admin :: bool
  p_TokenID :: nat
  p_Groups :: "string list"
  p_ViaSession :: bool
  p_SessionHash :: string
  p_Source :: string
  p_DeployScope :: "DeployScope option"

definition EffectiveRole :: "Principal option \<Rightarrow> string" where
  "EffectiveRole po =
     (case po of
        None \<Rightarrow> RoleUser
      | Some p \<Rightarrow>
          (case ParseRole (p_Role p) of
             Some r \<Rightarrow> r
           | None \<Rightarrow> if p_Admin p then RoleAdmin else RoleUser))"

definition principalRole :: "string \<Rightarrow> string" where
  "principalRole role = (case ParseRole role of Some r \<Rightarrow> r | None \<Rightarrow> RoleUser)"

definition newPrincipal :: "string \<Rightarrow> string \<Rightarrow> string \<Rightarrow> Principal" where
  "newPrincipal name role source =
     \<lparr>p_Name = name, p_Role = role, p_Admin = (role = RoleAdmin), p_TokenID = 0, p_Groups = [],
      p_ViaSession = False, p_SessionHash = [], p_Source = source, p_DeployScope = None\<rparr>"

definition CapSystemRead :: string where "CapSystemRead = ''system:read''"
definition CapSystemWrite :: string where "CapSystemWrite = ''system:write''"
definition CapSecurityRead :: string where "CapSecurityRead = ''security:read''"
definition CapSecurityWrite :: string where "CapSecurityWrite = ''security:write''"
definition CapRepoRead :: string where "CapRepoRead = ''repo:read''"
definition CapRepoWrite :: string where "CapRepoWrite = ''repo:write''"

lemmas cap_defs = CapSystemRead_def CapSystemWrite_def CapSecurityRead_def CapSecurityWrite_def
  CapRepoRead_def CapRepoWrite_def

definition ManagementCapabilities :: "string list" where
  "ManagementCapabilities =
     [CapSystemRead, CapSystemWrite, CapSecurityRead, CapSecurityWrite, CapRepoRead, CapRepoWrite]"

definition validCapability :: "string \<Rightarrow> bool" where
  "validCapability capability = list_ex (\<lambda>c. c = capability) ManagementCapabilities"

definition CanManage :: "Principal option \<Rightarrow> string \<Rightarrow> bool" where
  "CanManage po capability =
     (if po = None \<or> \<not> validCapability capability then False
      else if EffectiveRole po = RoleAdmin then True
      else if EffectiveRole po = RoleReadOnlyAdmin then
        capability = CapSystemRead \<or> capability = CapSecurityRead \<or> capability = CapRepoRead
      else False)"

text \<open>The claims an identity provider resolved, and the role they carry.\<close>

record Claims =
  cl_Name :: string
  cl_Groups :: "string list"
  cl_Admin :: bool
  cl_Role :: string
  cl_ProviderID :: string

definition claimsRole :: "Claims option \<Rightarrow> string" where
  "claimsRole co =
     (case co of
        None \<Rightarrow> RoleUser
      | Some c \<Rightarrow>
          (case ParseRole (cl_Role c) of
             Some r \<Rightarrow> r
           | None \<Rightarrow> if cl_Admin c then RoleAdmin else RoleUser))"


section \<open>Wildcard buckets\<close>

definition BucketAnyLocal :: string where "BucketAnyLocal = ''ANY LOCAL''"
definition BucketAnyRemote :: string where "BucketAnyRemote = ''ANY REMOTE''"
definition BucketAnyDistribution :: string where "BucketAnyDistribution = ''ANY DISTRIBUTION''"

lemmas bucket_defs = BucketAnyLocal_def BucketAnyRemote_def BucketAnyDistribution_def

definition WildcardBuckets :: "string list" where
  "WildcardBuckets = [BucketAnyLocal, BucketAnyRemote, BucketAnyDistribution]"

definition IsWildcardBucket :: "string \<Rightarrow> bool" where
  "IsWildcardBucket repoKey \<longleftrightarrow>
     repoKey = BucketAnyLocal \<or> repoKey = BucketAnyRemote \<or> repoKey = BucketAnyDistribution"

definition RepoClassLocal :: string where "RepoClassLocal = ''local''"
definition RepoClassRemote :: string where "RepoClassRemote = ''remote''"

definition BucketForClass :: "string \<Rightarrow> string" where
  "BucketForClass class' =
     (if class' = RepoClassLocal then BucketAnyLocal
      else if class' = RepoClassRemote then BucketAnyRemote
      else [])"

definition repoListed :: "string list \<Rightarrow> string \<Rightarrow> string \<Rightarrow> bool" where
  "repoListed repos repoKey bucket =
     (if repoKey \<in> set repos then True else bucket \<noteq> [] \<and> bucket \<in> set repos)"


section \<open>Targets and rows\<close>

record Target =
  at_Name :: string
  at_Repos :: string
  at_Includes :: string
  at_Excludes :: string

record PermissionRow =
  row_ID :: nat
  row_TargetName :: string
  row_Principal :: string
  row_PrincipalType :: string
  row_CanRead :: bool
  row_CanWrite :: bool
  row_CanDelete :: bool
  row_CanManage :: bool
  row_CanAnnotate :: bool

record permissionSource =
  ps_ListTargets :: "Target list option"
  ps_PrincipalsFor :: "string \<Rightarrow> PermissionRow list option"
  ps_Principals :: "PermissionRow list option option"

record authz =
  az_permissions :: permissionSource
  az_anonymousRead :: bool
  az_repoClass :: "(string \<Rightarrow> string option) option"
  az_groups :: "(string \<Rightarrow> string list option) option"

definition decodeTarget :: "Target \<Rightarrow> (string list \<times> string list \<times> string list) option" where
  "decodeTarget t =
     (case unmarshal_strings (at_Repos t) of
        None \<Rightarrow> None
      | Some repos \<Rightarrow>
          (case unmarshal_strings (at_Includes t) of
             None \<Rightarrow> None
           | Some includes \<Rightarrow>
               (case unmarshal_strings (at_Excludes t) of
                  None \<Rightarrow> None
                | Some excludes \<Rightarrow> Some (repos, includes, excludes))))"

definition targetCovers :: "Target \<Rightarrow> string \<Rightarrow> string \<Rightarrow> string \<Rightarrow> bool option" where
  "targetCovers t repoKey bucket path =
     (case decodeTarget t of
        None \<Rightarrow> None
      | Some (repos, includes, excludes) \<Rightarrow>
          if \<not> repoListed repos repoKey bucket then Some False
          else if includes \<noteq> [] \<and> \<not> matchesAny includes path then Some False
          else if matchesAny excludes path then Some False
          else Some True)"

definition targetListsRepo :: "Target \<Rightarrow> string \<Rightarrow> string \<Rightarrow> bool option" where
  "targetListsRepo t repoKey bucket =
     (case decodeTarget t of
        None \<Rightarrow> None
      | Some (repos, _, _) \<Rightarrow> Some (repoListed repos repoKey bucket))"

definition rowAllows :: "PermissionRow \<Rightarrow> string \<Rightarrow> bool" where
  "rowAllows row action =
     (if action = ActionRead then row_CanRead row
      else if action = ActionWrite then row_CanWrite row
      else if action = ActionDelete then row_CanDelete row
      else if action = ActionManage then row_CanManage row
      else if action = ActionAnnotate then row_CanAnnotate row
      else False)"

definition rowCoversPrincipal :: "PermissionRow \<Rightarrow> Principal \<Rightarrow> bool" where
  "rowCoversPrincipal row p =
     (if row_PrincipalType row = ''user'' then equal_fold (row_Principal row) (p_Name p)
      else if row_PrincipalType row = ''group'' then row_Principal row \<in> set (p_Groups p)
      else False)"

definition bucketFor :: "authz \<Rightarrow> string \<Rightarrow> string" where
  "bucketFor s repoKey =
     (case az_repoClass s of
        None \<Rightarrow> []
      | Some classOf \<Rightarrow>
          if repoKey = [] \<or> IsWildcardBucket repoKey then []
          else (case classOf repoKey of None \<Rightarrow> [] | Some c \<Rightarrow> BucketForClass c))"

fun targetByName :: "(string \<Rightarrow> Target option) \<Rightarrow> Target list \<Rightarrow> string \<Rightarrow> Target option" where
  "targetByName m [] = m"
| "targetByName m (t # ts) = targetByName (m(at_Name t \<mapsto> t)) ts"


section \<open>The decision\<close>

fun canRows ::
    "Principal \<Rightarrow> string \<Rightarrow> string \<Rightarrow> string \<Rightarrow> string \<Rightarrow> (string \<Rightarrow> Target option) \<Rightarrow> PermissionRow list \<Rightarrow> bool" where
  "canRows p repoKey bucket path action byName [] = False"
| "canRows p repoKey bucket path action byName (row # rows) =
     (if \<not> rowCoversPrincipal row p then canRows p repoKey bucket path action byName rows
      else if \<not> rowAllows row action then canRows p repoKey bucket path action byName rows
      else (case byName (row_TargetName row) of
              None \<Rightarrow> canRows p repoKey bucket path action byName rows
            | Some t \<Rightarrow>
                (case (if action = ActionManage then targetListsRepo t repoKey bucket
                       else targetCovers t repoKey bucket path) of
                   None \<Rightarrow> canRows p repoKey bucket path action byName rows
                 | Some covers \<Rightarrow>
                     if covers then True else canRows p repoKey bucket path action byName rows)))"

text \<open>The rows of one evaluation: those of the key and, when a bucket covers it, the bucket's.\<close>

definition evaluationRows :: "authz \<Rightarrow> string \<Rightarrow> PermissionRow list option" where
  "evaluationRows s repoKey =
     (let bucket = bucketFor s repoKey in
      case ps_PrincipalsFor (az_permissions s) repoKey of
        None \<Rightarrow> None
      | Some rows \<Rightarrow>
          if bucket \<noteq> [] then
            (case ps_PrincipalsFor (az_permissions s) bucket of
               None \<Rightarrow> None
             | Some brows \<Rightarrow> Some (rows @ brows))
          else Some rows)"

definition Can :: "authz \<Rightarrow> Principal option \<Rightarrow> string \<Rightarrow> string \<Rightarrow> string \<Rightarrow> bool" where
  "Can s po repoKey path action =
     (case po of
        None \<Rightarrow> az_anonymousRead s \<and> action = ActionRead
      | Some p \<Rightarrow>
          if EffectiveRole po = RoleAdmin then True
          else if EffectiveRole po = RoleReadOnlyAdmin then action = ActionRead
          else
            (case evaluationRows s repoKey of
               None \<Rightarrow> False
             | Some rows \<Rightarrow>
                 if rows = [] then False
                 else (case ps_ListTargets (az_permissions s) of
                         None \<Rightarrow> False
                       | Some targets \<Rightarrow>
                           canRows p repoKey (bucketFor s repoKey) path action
                             (targetByName Map.empty targets) rows)))"

definition CanManageRepo :: "authz \<Rightarrow> Principal option \<Rightarrow> string \<Rightarrow> bool \<Rightarrow> bool" where
  "CanManageRepo s po repoKey write =
     (if po = None then False
      else if EffectiveRole po = RoleAdmin then True
      else if EffectiveRole po = RoleReadOnlyAdmin then \<not> write
      else Can s po repoKey [] ActionManage)"

text \<open>
  \<open>ManageCoverage\<close>: the set of listed keys, or \<open>None\<close> with the flag set for an administrator, whose
  coverage has no bound.
\<close>

definition holdsManage :: "PermissionRow list \<Rightarrow> Principal \<Rightarrow> string \<Rightarrow> bool" where
  "holdsManage rows p name =
     list_ex (\<lambda>row. row_CanManage row \<and> rowCoversPrincipal row p \<and> row_TargetName row = name) rows"

fun coverageLoop :: "(string \<Rightarrow> bool) \<Rightarrow> string set \<Rightarrow> Target list \<Rightarrow> string set" where
  "coverageLoop holds coverage [] = coverage"
| "coverageLoop holds coverage (t # ts) =
     (if \<not> holds (at_Name t) then coverageLoop holds coverage ts
      else (case decodeTarget t of
              None \<Rightarrow> coverageLoop holds coverage ts
            | Some (repos, _, _) \<Rightarrow> coverageLoop holds (coverage \<union> set repos) ts))"

definition ManageCoverage :: "authz \<Rightarrow> Principal option \<Rightarrow> string set option \<times> bool" where
  "ManageCoverage s po =
     (case po of
        None \<Rightarrow> (Some {}, False)
      | Some p \<Rightarrow>
          if EffectiveRole po = RoleAdmin then (None, True)
          else if EffectiveRole po = RoleReadOnlyAdmin then (Some {}, False)
          else
            (case ps_Principals (az_permissions s) of
               None \<Rightarrow> (Some {}, False)
             | Some None \<Rightarrow> (Some {}, False)
             | Some (Some rows) \<Rightarrow>
                 (case ps_ListTargets (az_permissions s) of
                    None \<Rightarrow> (Some {}, False)
                  | Some targets \<Rightarrow> (Some (coverageLoop (holdsManage rows p) {} targets), False))))"


section \<open>Groups and the permission view\<close>

fun unionGroups :: "string list \<Rightarrow> string list \<Rightarrow> string list" where
  "unionGroups gs [] = gs"
| "unionGroups gs (g # names) =
     (if g \<in> set gs then unionGroups gs names else unionGroups (gs @ [g]) names)"

definition fillGroups :: "authz \<Rightarrow> bool \<Rightarrow> Principal option \<Rightarrow> Principal option" where
  "fillGroups s ctxErr po =
     (case po of
        None \<Rightarrow> None
      | Some p \<Rightarrow>
          (case az_groups s of
             None \<Rightarrow> Some p
           | Some groupsOf \<Rightarrow>
               if ctxErr then Some p
               else (case groupsOf (p_Name p) of
                       None \<Rightarrow> Some p
                     | Some names \<Rightarrow> Some (p\<lparr>p_Groups := unionGroups (p_Groups p) names\<rparr>))))"

record PrincipalBits =
  pb_Read :: bool
  pb_Write :: bool
  pb_Delete :: bool
  pb_Manage :: bool
  pb_Annotate :: bool

definition no_bits :: PrincipalBits where
  "no_bits = \<lparr>pb_Read = False, pb_Write = False, pb_Delete = False, pb_Manage = False, pb_Annotate = False\<rparr>"

type_synonym permission_view = "string \<Rightarrow> PrincipalBits option"

definition bits_of :: "permission_view \<Rightarrow> string \<Rightarrow> PrincipalBits" where
  "bits_of m k = (case m k of None \<Rightarrow> no_bits | Some b \<Rightarrow> b)"

definition mergeRow :: "permission_view \<Rightarrow> PermissionRow \<Rightarrow> permission_view" where
  "mergeRow m row =
     (let b = bits_of m (row_Principal row) in
      m(row_Principal row \<mapsto>
          b\<lparr>pb_Read := pb_Read b \<or> row_CanRead row, pb_Write := pb_Write b \<or> row_CanWrite row,
            pb_Delete := pb_Delete b \<or> row_CanDelete row, pb_Annotate := pb_Annotate b \<or> row_CanAnnotate row\<rparr>))"

definition mergeManage :: "permission_view \<Rightarrow> PermissionRow \<Rightarrow> permission_view" where
  "mergeManage m row = m(row_Principal row \<mapsto> (bits_of m (row_Principal row))\<lparr>pb_Manage := True\<rparr>)"

definition viewRow ::
    "string \<Rightarrow> string \<Rightarrow> string \<Rightarrow> Target \<Rightarrow> PermissionRow \<Rightarrow> permission_view \<Rightarrow> permission_view" where
  "viewRow repoKey bucket path t row m =
     (case targetCovers t repoKey bucket path of
        None \<Rightarrow> m
      | Some covers \<Rightarrow>
          (let m1 = (if covers then mergeRow m row else m) in
           if row_CanManage row then
             (case targetListsRepo t repoKey bucket of
                None \<Rightarrow> m1
              | Some listed \<Rightarrow> if listed then mergeManage m1 row else m1)
           else m1))"

fun viewRows ::
    "string \<Rightarrow> string \<Rightarrow> string \<Rightarrow> (string \<Rightarrow> Target option) \<Rightarrow> PermissionRow list \<Rightarrow>
     permission_view \<times> permission_view \<Rightarrow> permission_view \<times> permission_view" where
  "viewRows repoKey bucket path byName [] v = v"
| "viewRows repoKey bucket path byName (row # rows) (users, groups) =
     (if row_PrincipalType row \<noteq> ''user'' \<and> row_PrincipalType row \<noteq> ''group'' then
        viewRows repoKey bucket path byName rows (users, groups)
      else (case byName (row_TargetName row) of
              None \<Rightarrow> viewRows repoKey bucket path byName rows (users, groups)
            | Some t \<Rightarrow>
                if row_PrincipalType row = ''group'' then
                  viewRows repoKey bucket path byName rows (users, viewRow repoKey bucket path t row groups)
                else
                  viewRows repoKey bucket path byName rows (viewRow repoKey bucket path t row users, groups)))"

definition ItemPrincipals :: "authz \<Rightarrow> string \<Rightarrow> string \<Rightarrow> (permission_view \<times> permission_view) option" where
  "ItemPrincipals s repoKey path =
     (case evaluationRows s repoKey of
        None \<Rightarrow> None
      | Some rows \<Rightarrow>
          if rows = [] then Some (Map.empty, Map.empty)
          else (case ps_ListTargets (az_permissions s) of
                  None \<Rightarrow> None
                | Some targets \<Rightarrow>
                    Some (viewRows repoKey (bucketFor s repoKey) path
                            (targetByName Map.empty targets) rows (Map.empty, Map.empty))))"


section \<open>Over the metadata store\<close>

definition adaptTarget :: "PermissionTarget \<Rightarrow> Target" where
  "adaptTarget t = \<lparr>at_Name = tgt_Name t, at_Repos = tgt_Repos t, at_Includes = tgt_Includes t, at_Excludes = tgt_Excludes t\<rparr>"

definition adaptRow :: "PermissionPrincipal \<Rightarrow> PermissionRow" where
  "adaptRow p =
     \<lparr>row_ID = prn_ID p, row_TargetName = prn_TargetName p, row_Principal = prn_Principal p,
      row_PrincipalType = prn_PrincipalType p, row_CanRead = prn_CanRead p, row_CanWrite = prn_CanWrite p,
      row_CanDelete = prn_CanDelete p, row_CanManage = prn_CanManage p, row_CanAnnotate = prn_CanAnnotate p\<rparr>"

definition answer :: "'a db_result \<Rightarrow> 'a option" where
  "answer r = (case r of Inl _ \<Rightarrow> None | Inr x \<Rightarrow> Some x)"

definition permissionStoreAdapter :: "auth_db \<Rightarrow> permissionSource" where
  "permissionStoreAdapter db =
     \<lparr>ps_ListTargets = map_option (map adaptTarget) (answer (permissionStore_ListTargets db)),
      ps_PrincipalsFor = (\<lambda>k. map_option (map adaptRow) (answer (permissionStore_PrincipalsFor db k))),
      ps_Principals = Some (map_option (map adaptRow) (answer (permissionStore_Principals db)))\<rparr>"

definition groupStoreAdapter :: "auth_db \<Rightarrow> string \<Rightarrow> string list option" where
  "groupStoreAdapter db username = map_option (map grp_Name) (answer (groupStore_GroupsOfUser db username))"

text \<open>The repositories table answers the class; virtual and unknown classes have none.\<close>

definition repoClassAdapter :: "(string \<Rightarrow> string option) \<Rightarrow> string \<Rightarrow> string option" where
  "repoClassAdapter typeOf repoKey =
     (case typeOf repoKey of
        None \<Rightarrow> None
      | Some c \<Rightarrow> if c = RepoClassLocal \<or> c = RepoClassRemote then Some c else None)"

definition NewFromStore :: "auth_db \<Rightarrow> (string \<Rightarrow> string option) \<Rightarrow> bool \<Rightarrow> authz" where
  "NewFromStore db typeOf anonymousRead =
     \<lparr>az_permissions = permissionStoreAdapter db, az_anonymousRead = anonymousRead,
      az_repoClass = Some (repoClassAdapter typeOf), az_groups = Some (groupStoreAdapter db)\<rparr>"


section \<open>What a grant is\<close>

definition target_grants :: "Target \<Rightarrow> string \<Rightarrow> string \<Rightarrow> string \<Rightarrow> string \<Rightarrow> bool" where
  "target_grants t repoKey bucket path action \<longleftrightarrow>
     (\<exists>repos includes excludes. decodeTarget t = Some (repos, includes, excludes) \<and>
        (repoKey \<in> set repos \<or> (bucket \<noteq> [] \<and> bucket \<in> set repos)) \<and>
        (action = ActionManage \<or>
         ((includes = [] \<or> (\<exists>i\<in>set includes. matchPath i path)) \<and> \<not> (\<exists>e\<in>set excludes. matchPath e path))))"

definition granted :: "authz \<Rightarrow> Principal \<Rightarrow> string \<Rightarrow> string \<Rightarrow> string \<Rightarrow> bool" where
  "granted s p repoKey path action \<longleftrightarrow>
     (\<exists>rows targets row t. evaluationRows s repoKey = Some rows \<and>
        ps_ListTargets (az_permissions s) = Some targets \<and> row \<in> set rows \<and>
        rowCoversPrincipal row p \<and> rowAllows row action \<and>
        targetByName Map.empty targets (row_TargetName row) = Some t \<and>
        target_grants t repoKey (bucketFor s repoKey) path action)"

lemma targetCovers_grants:
  "action \<noteq> ActionManage \<Longrightarrow> targetCovers t repoKey bucket path = Some True \<longleftrightarrow> target_grants t repoKey bucket path action"
  by (auto simp: targetCovers_def target_grants_def repoListed_def matchesAny_ex split: option.splits)

lemma targetListsRepo_grants:
  "targetListsRepo t repoKey bucket = Some True \<longleftrightarrow> target_grants t repoKey bucket path ActionManage"
  by (auto simp: targetListsRepo_def target_grants_def repoListed_def split: option.splits)

lemma coverage_test_grants:
  "(if action = ActionManage then targetListsRepo t repoKey bucket else targetCovers t repoKey bucket path) = Some True
     \<longleftrightarrow> target_grants t repoKey bucket path action"
  using targetCovers_grants [of action] targetListsRepo_grants by auto

lemma canRows_iff:
  "canRows p repoKey bucket path action byName rows \<longleftrightarrow>
     (\<exists>row\<in>set rows. \<exists>t. rowCoversPrincipal row p \<and> rowAllows row action \<and>
        byName (row_TargetName row) = Some t \<and> target_grants t repoKey bucket path action)"
proof (induction rows)
  case (Cons row rows)
  show ?case
  proof (cases "byName (row_TargetName row)")
    case (Some t)
    show ?thesis
      using Cons Some coverage_test_grants [of action t repoKey bucket path]
      by (cases "if action = ActionManage then targetListsRepo t repoKey bucket else targetCovers t repoKey bucket path")
        auto
  qed (use Cons in auto)
qed simp

lemma EffectiveRole_cases: "EffectiveRole po \<in> {RoleAdmin, RoleReadOnlyAdmin, RoleUser}"
  by (auto simp: EffectiveRole_def ParseRole_def split: option.splits if_splits)

lemma role_distinct [simp]:
  "RoleUser \<noteq> RoleAdmin" "RoleUser \<noteq> RoleReadOnlyAdmin" "RoleReadOnlyAdmin \<noteq> RoleAdmin" "RoleAdmin \<noteq> RoleReadOnlyAdmin"
  "RoleAdmin \<noteq> RoleUser" "RoleReadOnlyAdmin \<noteq> RoleUser"
  by (simp_all add: role_defs)

lemma Can_user:
  assumes "EffectiveRole (Some p) = RoleUser"
  shows "Can s (Some p) repoKey path action \<longleftrightarrow> granted s p repoKey path action"
  using assms by (auto simp: Can_def granted_def canRows_iff split: option.splits)

text \<open>
  C3: The whole decision of \<open>Can\<close>. Nobody: read, and only with the anonymous flag. An
  administrator: everything. A read-only administrator: read and nothing else, on any store. A
  user: exactly what some principal row in the evaluation grants, that is a row of the key or of
  the bucket covering it which addresses the user or one of its groups, carries the action, and
  belongs to a readable target that lists the key or the bucket and, for every action but manage,
  includes the path (no include pattern means every path) and does not exclude it.
\<close>

theorem can_exact:
  "Can s po repoKey path action \<longleftrightarrow>
     (case po of
        None \<Rightarrow> az_anonymousRead s \<and> action = ActionRead
      | Some p \<Rightarrow>
          EffectiveRole po = RoleAdmin \<or>
          (EffectiveRole po = RoleReadOnlyAdmin \<and> action = ActionRead) \<or>
          (EffectiveRole po = RoleUser \<and> granted s p repoKey path action))"
proof (cases po)
  case (Some p)
  consider "EffectiveRole po = RoleAdmin" | "EffectiveRole po = RoleReadOnlyAdmin" | "EffectiveRole po = RoleUser"
    using EffectiveRole_cases [of po] by auto
  then show ?thesis using Some Can_user [of p s] by cases (auto simp: Can_def)
qed (simp add: Can_def)

lemma union_groups_grow: "set gs \<subseteq> set (unionGroups gs names)"
  by (induction gs names rule: unionGroups.induct) auto

lemma granted_groups:
  assumes "granted s p repoKey path action"
  shows "granted s (p\<lparr>p_Groups := unionGroups (p_Groups p) names\<rparr>) repoKey path action"
proof -
  have "rowCoversPrincipal row p \<Longrightarrow> rowCoversPrincipal row (p\<lparr>p_Groups := unionGroups (p_Groups p) names\<rparr>)" for row
    using union_groups_grow [of "p_Groups p" names] by (auto simp: rowCoversPrincipal_def split: if_splits)
  then show ?thesis using assms unfolding granted_def by blast
qed

text \<open>
  C23: A broken store never opens access. For a principal of the user role: when reading the rows
  of the key or of its bucket fails, or listing the targets fails, every action on every path is
  denied, management included; when the rows of all principals cannot be read, or the targets
  cannot be listed, the manage coverage is empty; and when the group store fails, or the request
  is cancelled before it is asked, the principal goes on without groups of the store, so that it
  is allowed nothing that any answer of the group store would not have allowed it.
\<close>

theorem store_errors_deny:
  assumes "EffectiveRole (Some p) = RoleUser"
  shows "(ps_PrincipalsFor (az_permissions s) repoKey = None \<or>
      bucketFor s repoKey \<noteq> [] \<and> ps_PrincipalsFor (az_permissions s) (bucketFor s repoKey) = None \<or>
      ps_ListTargets (az_permissions s) = None \<longrightarrow>
        \<not> Can s (Some p) repoKey path action \<and> \<not> CanManageRepo s (Some p) repoKey write) \<and>
    (ps_Principals (az_permissions s) \<in> {None, Some None} \<or> ps_ListTargets (az_permissions s) = None \<longrightarrow>
        ManageCoverage s (Some p) = (Some {}, False)) \<and>
    (ctxErr \<or> (\<exists>groupsOf. az_groups s = Some groupsOf \<and> groupsOf (p_Name p) = None) \<longrightarrow>
        fillGroups s ctxErr (Some p) = Some p \<and>
        (\<forall>names. Can s (fillGroups s ctxErr (Some p)) repoKey path action \<longrightarrow>
           Can s (Some (p\<lparr>p_Groups := unionGroups (p_Groups p) names\<rparr>)) repoKey path action))"
proof (intro conjI impI allI)
  assume a: "ps_PrincipalsFor (az_permissions s) repoKey = None \<or>
      bucketFor s repoKey \<noteq> [] \<and> ps_PrincipalsFor (az_permissions s) (bucketFor s repoKey) = None \<or> ps_ListTargets (az_permissions s) = None"
  then have "evaluationRows s repoKey = None \<or> ps_ListTargets (az_permissions s) = None"
    by (auto simp: evaluationRows_def Let_def split: option.split)
  then have "\<not> granted s p repoKey path' action'" for path' action' by (auto simp: granted_def)
  then show "\<not> Can s (Some p) repoKey path action" "\<not> CanManageRepo s (Some p) repoKey write"
    using assms Can_user [of p s] by (auto simp: CanManageRepo_def)
next
  assume "ps_Principals (az_permissions s) \<in> {None, Some None} \<or> ps_ListTargets (az_permissions s) = None"
  then show "ManageCoverage s (Some p) = (Some {}, False)"
    using assms by (auto simp: ManageCoverage_def split: option.splits)
next
  assume "ctxErr \<or> (\<exists>groupsOf. az_groups s = Some groupsOf \<and> groupsOf (p_Name p) = None)"
  then show f: "fillGroups s ctxErr (Some p) = Some p" by (auto simp: fillGroups_def split: option.splits)
  fix names assume "Can s (fillGroups s ctxErr (Some p)) repoKey path action"
  then have "granted s p repoKey path action" using f assms Can_user [of p s] by simp
  moreover have "EffectiveRole (Some (p\<lparr>p_Groups := unionGroups (p_Groups p) names\<rparr>)) = RoleUser"
    using assms by (auto simp: EffectiveRole_def split: option.splits)
  ultimately show "Can s (Some (p\<lparr>p_Groups := unionGroups (p_Groups p) names\<rparr>)) repoKey path action"
    using granted_groups Can_user by blast
qed

definition demo_user :: Principal where
  "demo_user = newPrincipal ''Bob'' RoleUser ''local''"

definition demo_class :: "string \<Rightarrow> string option" where
  "demo_class = [''libs'' \<mapsto> ''virtual'', ''apps'' \<mapsto> ''local'']"

definition demo_service :: authz where
  "demo_service = NewFromStore demo_db demo_class False"

lemma demo_user_role: "EffectiveRole (Some demo_user) = RoleUser"
  by (simp add: demo_user_def newPrincipal_def EffectiveRole_def ParseRole_def)

theorem store_errors_deny_witness:
  "\<not> Can (NewFromStore (demo_db\<lparr>db_down := True\<rparr>) demo_class True) (Some demo_user) ''libs'' ''out/a'' ActionRead \<and>
   ManageCoverage (NewFromStore (demo_db\<lparr>db_down := True\<rparr>) demo_class True) (Some demo_user) = (Some {}, False) \<and>
   fillGroups (NewFromStore (demo_db\<lparr>db_down := True\<rparr>) demo_class True) False (Some demo_user) = Some demo_user"
proof -
  let ?s = "NewFromStore (demo_db\<lparr>db_down := True\<rparr>) demo_class True"
  have "ps_ListTargets (az_permissions ?s) = None"
    by (simp add: NewFromStore_def permissionStoreAdapter_def permissionStore_ListTargets_def exec_def answer_def)
  moreover have "\<exists>groupsOf. az_groups ?s = Some groupsOf \<and> groupsOf (p_Name demo_user) = None"
    by (simp add: NewFromStore_def groupStoreAdapter_def groupStore_GroupsOfUser_def exec_def answer_def)
  ultimately show ?thesis using store_errors_deny [OF demo_user_role] by blast
qed


section \<open>The permission view\<close>

definition bit_of :: "PrincipalBits \<Rightarrow> string \<Rightarrow> bool" where
  "bit_of b action =
     (if action = ActionRead then pb_Read b
      else if action = ActionWrite then pb_Write b
      else if action = ActionDelete then pb_Delete b
      else if action = ActionManage then pb_Manage b
      else if action = ActionAnnotate then pb_Annotate b
      else False)"

lemma mergeRow_bits:
  "bit_of (bits_of (mergeRow m row) n) action \<longleftrightarrow>
     bit_of (bits_of m n) action \<or> (n = row_Principal row \<and> action \<noteq> ActionManage \<and> rowAllows row action)"
  by (auto simp: mergeRow_def bits_of_def bit_of_def rowAllows_def Let_def action_defs)

lemma mergeManage_bits:
  "bit_of (bits_of (mergeManage m row) n) action \<longleftrightarrow>
     bit_of (bits_of m n) action \<or> (n = row_Principal row \<and> action = ActionManage)"
  by (auto simp: mergeManage_def bits_of_def bit_of_def action_defs)

lemma viewRow_bits:
  "bit_of (bits_of (viewRow repoKey bucket path t row m) n) action \<longleftrightarrow>
     bit_of (bits_of m n) action \<or>
     (n = row_Principal row \<and> rowAllows row action \<and> target_grants t repoKey bucket path action)"
proof (cases "decodeTarget t")
  case None
  then show ?thesis by (simp add: viewRow_def targetCovers_def target_grants_def)
next
  case (Some d)
  obtain c where c: "targetCovers t repoKey bucket path = Some c"
    using Some by (cases d) (simp add: targetCovers_def, metis)
  obtain l where l: "targetListsRepo t repoKey bucket = Some l"
    using Some by (cases d) (auto simp: targetListsRepo_def)
  have g: "target_grants t repoKey bucket path action \<longleftrightarrow> (if action = ActionManage then l else c)"
    using coverage_test_grants [of action t repoKey bucket path] c l by auto
  have "rowAllows row ActionManage = row_CanManage row" by (simp add: rowAllows_def action_defs)
  then show ?thesis
    unfolding g using c l by (auto simp: viewRow_def Let_def mergeRow_bits mergeManage_bits)
qed

lemma viewRows_bits:
  "bit_of (bits_of (fst (viewRows repoKey bucket path byName rows (u, g))) n) action \<longleftrightarrow>
     bit_of (bits_of u n) action \<or>
     (\<exists>row\<in>set rows. \<exists>t. row_PrincipalType row = ''user'' \<and> n = row_Principal row \<and> rowAllows row action \<and>
        byName (row_TargetName row) = Some t \<and> target_grants t repoKey bucket path action)"
  "bit_of (bits_of (snd (viewRows repoKey bucket path byName rows (u, g))) n) action \<longleftrightarrow>
     bit_of (bits_of g n) action \<or>
     (\<exists>row\<in>set rows. \<exists>t. row_PrincipalType row = ''group'' \<and> n = row_Principal row \<and> rowAllows row action \<and>
        byName (row_TargetName row) = Some t \<and> target_grants t repoKey bucket path action)"
proof (induction rows arbitrary: u g)
  case (Cons row rows)
  {
    case 1
    show ?case using Cons by (cases "byName (row_TargetName row)") (auto simp: viewRow_bits)
  next
    case 2
    show ?case using Cons by (cases "byName (row_TargetName row)") (auto simp: viewRow_bits)
  }
qed simp_all

lemma no_view_bits [simp]: "\<not> bit_of (bits_of Map.empty n) action"
  by (simp add: bit_of_def bits_of_def no_bits_def)

text \<open>
  C22: The \<open>?permissions\<close> view never disagrees with the decision. For a user, \<open>Can\<close> allows an
  action on an item exactly when the view of that item shows the action's bit at a user entry
  that is the user's name up to case, or at a group entry that is one of the user's groups; where
  the view fails with a store error, \<open>Can\<close> denies.
\<close>

theorem view_agrees:
  assumes "EffectiveRole (Some p) = RoleUser"
  shows "Can s (Some p) repoKey path action \<longleftrightarrow>
    (case ItemPrincipals s repoKey path of
       None \<Rightarrow> False
     | Some (users, groups) \<Rightarrow>
         (\<exists>n. equal_fold n (p_Name p) \<and> bit_of (bits_of users n) action) \<or>
         (\<exists>n\<in>set (p_Groups p). bit_of (bits_of groups n) action))"
proof (cases "evaluationRows s repoKey")
  case None
  then show ?thesis by (simp add: Can_user [OF assms] granted_def ItemPrincipals_def)
next
  case (Some rows)
  show ?thesis
  proof (cases "rows = [] \<or> ps_ListTargets (az_permissions s) = None")
    case True
    with Some show ?thesis
      by (auto simp: Can_user [OF assms] granted_def ItemPrincipals_def)
  next
    case False
    then obtain targets where ts: "ps_ListTargets (az_permissions s) = Some targets" by auto
    obtain users groups where v: "viewRows repoKey (bucketFor s repoKey) path (targetByName Map.empty targets) rows
        (Map.empty, Map.empty) = (users, groups)" by (rule prod.exhaust)
    have "ItemPrincipals s repoKey path = Some (users, groups)" using Some False ts v by (simp add: ItemPrincipals_def)
    then show ?thesis
      using viewRows_bits [of repoKey "bucketFor s repoKey" path "targetByName Map.empty targets" rows
          Map.empty Map.empty _ action] v Some ts
      by (auto simp: Can_user [OF assms] granted_def rowCoversPrincipal_def split: if_splits)
  qed
qed

text \<open>The demonstration target decodes, lists the key and includes what is under \<open>out\<close>.\<close>

lemma demo_decode:
  "decodeTarget (adaptTarget demo_target) = Some ([''libs'', ''ANY LOCAL''], [''out/**''], [''out/secret/*''])"
proof -
  have "plain_key ''out/**''" "plain_key ''out/secret/*''"
    by (simp_all add: plain_key_def plain_char_def byte_of_def)
  then show ?thesis
    using unmarshal_marshal [of "[''libs'', ''ANY LOCAL'']"] unmarshal_marshal [of "[''out/**'']"]
      unmarshal_marshal [of "[''out/secret/*'']"] demo_plain
    by (simp add: decodeTarget_def adaptTarget_def demo_target_def del: marshal_strings.simps)
qed

lemma demo_rows:
  "evaluationRows demo_service ''libs'' = Some [adaptRow demo_row]"
  "ps_ListTargets (az_permissions demo_service) = Some [adaptTarget demo_target]"
proof -
  have bucket: "bucketFor demo_service ''libs'' = []"
    by (simp add: bucketFor_def demo_service_def NewFromStore_def repoClassAdapter_def demo_class_def
        IsWildcardBucket_def bucket_defs RepoClassLocal_def RepoClassRemote_def)
  have "sql_like (repos_pattern ''libs'') (tgt_Repos demo_target)"
    using like_lists [OF demo_plain(1) _ demo_encoded] demo_decode
    by (simp add: target_lists_def decodeTarget_def adaptTarget_def split: option.splits)
  then have "permissionStore_PrincipalsFor demo_db ''libs'' = Inr [demo_row]"
    by (simp add: permissionStore_PrincipalsFor_def exec_def demo_db_def seeded_db_def empty_db_def
        demo_row_def) (simp add: demo_target_def)
  then show "evaluationRows demo_service ''libs'' = Some [adaptRow demo_row]"
    using bucket by (simp add: evaluationRows_def demo_service_def NewFromStore_def permissionStoreAdapter_def answer_def)
  show "ps_ListTargets (az_permissions demo_service) = Some [adaptTarget demo_target]"
    by (simp add: demo_service_def NewFromStore_def permissionStoreAdapter_def permissionStore_ListTargets_def
        exec_def answer_def demo_db_def seeded_db_def empty_db_def)
qed

theorem view_agrees_witness:
  "Can demo_service (Some demo_user) ''libs'' ''out/a.bin'' ActionRead \<longleftrightarrow>
    (case ItemPrincipals demo_service ''libs'' ''out/a.bin'' of
       None \<Rightarrow> False
     | Some (users, groups) \<Rightarrow>
         (\<exists>n. equal_fold n (p_Name demo_user) \<and> bit_of (bits_of users n) ActionRead) \<or>
         (\<exists>n\<in>set (p_Groups demo_user). bit_of (bits_of groups n) ActionRead))"
  by (rule view_agrees [OF demo_user_role])


section \<open>Roles\<close>

definition read_capability :: "string \<Rightarrow> bool" where
  "read_capability c \<longleftrightarrow> c \<in> {CapSystemRead, CapSecurityRead, CapRepoRead}"

text \<open>
  The management plane is closed under roles. An unknown capability is denied to everybody, an
  administrator holds the six capabilities, a read-only administrator the three read ones, a user
  none, whatever its grants; and a read-only administrator changes nothing: it is denied every
  action but read, the write arm of repository management, and it covers no repository.
\<close>

theorem management_matrix:
  "(CanManage (Some p) c \<longleftrightarrow>
     c \<in> set ManagementCapabilities \<and>
     (EffectiveRole (Some p) = RoleAdmin \<or> (EffectiveRole (Some p) = RoleReadOnlyAdmin \<and> read_capability c))) \<and>
   \<not> CanManage None c \<and>
   (EffectiveRole (Some p) = RoleReadOnlyAdmin \<longrightarrow>
     (Can s (Some p) repoKey path action \<longleftrightarrow> action = ActionRead) \<and>
     \<not> CanManageRepo s (Some p) repoKey True \<and> ManageCoverage s (Some p) = (Some {}, False))"
  by (auto simp: CanManage_def validCapability_def list_ex_iff read_capability_def Can_def CanManageRepo_def
      ManageCoverage_def)

definition demo_auditor :: Principal where
  "demo_auditor = newPrincipal ''eve'' RoleReadOnlyAdmin ''local''"

theorem management_matrix_witness:
  "EffectiveRole (Some demo_auditor) = RoleReadOnlyAdmin \<and>
   \<not> Can demo_service (Some demo_auditor) ''libs'' ''out/a.bin'' ActionWrite \<and> CanManage (Some demo_auditor) CapSystemRead"
proof -
  have r: "EffectiveRole (Some demo_auditor) = RoleReadOnlyAdmin"
    by (simp add: demo_auditor_def newPrincipal_def EffectiveRole_def ParseRole_def)
  have "ActionWrite \<noteq> ActionRead" "CapSystemRead \<in> set ManagementCapabilities" "read_capability CapSystemRead"
    by (simp_all add: action_defs ManagementCapabilities_def read_capability_def)
  then show ?thesis
    using management_matrix [of demo_auditor CapSystemRead demo_service "''libs''" "''out/a.bin''" ActionWrite] r by blast
qed


section \<open>Loops over targets\<close>

lemma coverageLoop_iff:
  "k \<in> coverageLoop holds c ts \<longleftrightarrow>
     k \<in> c \<or> (\<exists>t\<in>set ts. \<exists>repos i e. holds (at_Name t) \<and> decodeTarget t = Some (repos, i, e) \<and> k \<in> set repos)"
  by (induction ts arbitrary: c) (auto split: option.splits)

lemma targetByName_distinct:
  "distinct (map at_Name ts) \<Longrightarrow> \<forall>t\<in>set ts. at_Name t \<notin> dom m \<Longrightarrow>
     targetByName m ts n = Some t \<longleftrightarrow> m n = Some t \<or> (t \<in> set ts \<and> at_Name t = n)"
proof (induction ts arbitrary: m)
  case (Cons a ts)
  have fresh: "\<forall>t\<in>set ts. at_Name t \<notin> dom (m(at_Name a \<mapsto> a))"
    using Cons.prems by (auto simp: image_iff)
  have "targetByName (m(at_Name a \<mapsto> a)) ts n = Some t \<longleftrightarrow>
      (m(at_Name a \<mapsto> a)) n = Some t \<or> (t \<in> set ts \<and> at_Name t = n)"
    using Cons.prems fresh by (intro Cons.IH) auto
  with Cons.prems show ?case by (auto split: if_splits)
qed simp

section \<open>What the service relies on in a permission source\<close>

text \<open>
  The contract of a permission source over a state: on usable states it lists every target once,
  returns all rows that belong to a target, and for a key it can be asked about exactly the rows
  of the targets whose list contains the key.
\<close>

definition lists_key :: "Target \<Rightarrow> string \<Rightarrow> bool" where
  "lists_key t k = (case unmarshal_strings (at_Repos t) of None \<Rightarrow> False | Some ks \<Rightarrow> k \<in> set ks)"

locale permission_store =
  fixes usable :: "'db \<Rightarrow> bool" and source :: "'db \<Rightarrow> permissionSource"
    and rows :: "'db \<Rightarrow> PermissionRow set" and targets :: "'db \<Rightarrow> Target set" and key :: "string \<Rightarrow> bool"
  assumes list_targets: "usable db \<Longrightarrow>
      \<exists>ts. ps_ListTargets (source db) = Some ts \<and> distinct (map at_Name ts) \<and> set ts = targets db"
    and all_rows: "usable db \<Longrightarrow>
      \<exists>rs. ps_Principals (source db) = Some (Some rs) \<and>
           set rs = {r \<in> rows db. \<exists>t\<in>targets db. at_Name t = row_TargetName r}"
    and rows_for: "usable db \<Longrightarrow> key k \<Longrightarrow>
      \<exists>rs. ps_PrincipalsFor (source db) k = Some rs \<and>
           set rs = {r \<in> rows db. \<exists>t\<in>targets db. at_Name t = row_TargetName r \<and> lists_key t k}"
    and bucket_keys: "key BucketAnyLocal" "key BucketAnyRemote"
begin

text \<open>A manage row of the user on a readable target that lists the key.\<close>

definition manages :: "'db \<Rightarrow> Principal \<Rightarrow> string \<Rightarrow> bool" where
  "manages db p k \<longleftrightarrow>
     (\<exists>r\<in>rows db. \<exists>t\<in>targets db. \<exists>repos i e.
        row_CanManage r \<and> rowCoversPrincipal r p \<and> at_Name t = row_TargetName r \<and>
        decodeTarget t = Some (repos, i, e) \<and> k \<in> set repos)"

lemma coverage_manages:
  assumes "usable db" "az_permissions s = source db" "EffectiveRole (Some p) = RoleUser"
  shows "\<exists>cov. ManageCoverage s (Some p) = (Some cov, False) \<and> (\<forall>k. k \<in> cov \<longleftrightarrow> manages db p k)"
proof -
  obtain ts where ts: "ps_ListTargets (source db) = Some ts" "set ts = targets db"
    using list_targets [OF assms(1)] by blast
  obtain rs where rs: "ps_Principals (source db) = Some (Some rs)"
      "set rs = {r \<in> rows db. \<exists>t\<in>targets db. at_Name t = row_TargetName r}"
    using all_rows [OF assms(1)] by blast
  have "ManageCoverage s (Some p) = (Some (coverageLoop (holdsManage rs p) {} ts), False)"
    using assms(2,3) ts(1) rs(1) by (simp add: ManageCoverage_def)
  moreover have "k \<in> coverageLoop (holdsManage rs p) {} ts \<longleftrightarrow> manages db p k" for k
    unfolding coverageLoop_iff manages_def holdsManage_def list_ex_iff ts(2) rs(2) by force
  ultimately show ?thesis by blast
qed

lemma bucketFor_key: "bucketFor s k = [] \<or> key (bucketFor s k)"
  using bucket_keys by (auto simp: bucketFor_def BucketForClass_def split: option.splits)

lemma evaluation_rows:
  assumes "usable db" "az_permissions s = source db" "key k"
  shows "\<exists>rs. evaluationRows s k = Some rs \<and>
    set rs = {r \<in> rows db. \<exists>t\<in>targets db. at_Name t = row_TargetName r \<and>
      (lists_key t k \<or> (bucketFor s k \<noteq> [] \<and> lists_key t (bucketFor s k)))}"
proof -
  obtain rs where r: "ps_PrincipalsFor (source db) k = Some rs"
    "set rs = {r \<in> rows db. \<exists>t\<in>targets db. at_Name t = row_TargetName r \<and> lists_key t k}"
    using rows_for [OF assms(1,3)] by blast
  show ?thesis
  proof (cases "bucketFor s k = []")
    case True
    with r assms(2) show ?thesis by (intro exI [of _ rs]) (auto simp: evaluationRows_def)
  next
    case False
    then have "key (bucketFor s k)" using bucketFor_key by blast
    then obtain bs where "ps_PrincipalsFor (source db) (bucketFor s k) = Some bs"
      "set bs = {r \<in> rows db. \<exists>t\<in>targets db. at_Name t = row_TargetName r \<and> lists_key t (bucketFor s k)}"
      using rows_for [OF assms(1)] by blast
    with r assms(2) False show ?thesis by (intro exI [of _ "rs @ bs"]) (auto simp: evaluationRows_def)
  qed
qed

lemma lists_decoded: "decodeTarget t = Some (repos, i, e) \<Longrightarrow> lists_key t k \<longleftrightarrow> k \<in> set repos"
  by (auto simp: decodeTarget_def lists_key_def split: option.splits)

lemma granted_iff:
  assumes "usable db" "az_permissions s = source db" "key k"
  shows "granted s p k path action \<longleftrightarrow>
    (\<exists>r\<in>rows db. \<exists>t\<in>targets db. rowCoversPrincipal r p \<and> rowAllows r action \<and> at_Name t = row_TargetName r \<and>
       target_grants t k (bucketFor s k) path action)"
    (is "_ \<longleftrightarrow> ?R")
proof -
  obtain ts where ts: "ps_ListTargets (source db) = Some ts" "distinct (map at_Name ts)" "set ts = targets db"
    using list_targets [OF assms(1)] by blast
  have by_name: "targetByName Map.empty ts n = Some t \<longleftrightarrow> t \<in> targets db \<and> at_Name t = n" for n t
    using targetByName_distinct [OF ts(2), of Map.empty n t] ts(3) by simp
  obtain rs where rs: "evaluationRows s k = Some rs"
    "set rs = {r \<in> rows db. \<exists>t\<in>targets db. at_Name t = row_TargetName r \<and>
       (lists_key t k \<or> (bucketFor s k \<noteq> [] \<and> lists_key t (bucketFor s k)))}"
    using evaluation_rows [OF assms] by blast
  have listed: "lists_key t k \<or> (bucketFor s k \<noteq> [] \<and> lists_key t (bucketFor s k))"
    if "target_grants t k (bucketFor s k) path action" for t
    using that lists_decoded [of t] by (auto simp: target_grants_def)
  have g: "granted s p k path action \<longleftrightarrow> (\<exists>r\<in>set rs. \<exists>t. rowCoversPrincipal r p \<and> rowAllows r action \<and>
      t \<in> targets db \<and> at_Name t = row_TargetName r \<and> target_grants t k (bucketFor s k) path action)"
    unfolding granted_def using rs(1) ts(1) assms(2) by (auto simp: by_name)
  show ?thesis unfolding g rs(2) using listed by blast
qed

lemma manage_agrees:
  assumes "usable db" "az_permissions s = source db" "key k"
  shows "granted s p k path ActionManage \<longleftrightarrow>
    manages db p k \<or> (bucketFor s k \<noteq> [] \<and> manages db p (bucketFor s k))"
proof -
  have "rowAllows r ActionManage = row_CanManage r" for r by (simp add: rowAllows_def action_defs)
  then show ?thesis
    unfolding granted_iff [OF assms] manages_def target_grants_def by blast
qed

end

text \<open>The metadata store keeps the contract on consistent tables that can be read.\<close>

definition readable_db :: "auth_db \<Rightarrow> bool" where
  "readable_db db \<longleftrightarrow> db_inv db \<and> \<not> db_down db \<and> (\<forall>t\<in>set (db_targets db). encoded_target t)"

definition query_key :: "string \<Rightarrow> bool" where
  "query_key k \<longleftrightarrow> plain_key k \<and> k \<noteq> '',''"

lemma adapt_simps [simp]:
  "at_Name (adaptTarget t) = tgt_Name t" "at_Repos (adaptTarget t) = tgt_Repos t"
  "row_TargetName (adaptRow q) = prn_TargetName q" "row_CanManage (adaptRow q) = prn_CanManage q"
  by (simp_all add: adaptTarget_def adaptRow_def)

lemma store_lists_targets:
  assumes "readable_db db"
  shows "\<exists>ts. ps_ListTargets (permissionStoreAdapter db) = Some ts \<and> distinct (map at_Name ts)
    \<and> set ts = adaptTarget ` set (db_targets db)"
proof -
  let ?ts = "map adaptTarget (sort_key tgt_Name (db_targets db))"
  have "ps_ListTargets (permissionStoreAdapter db) = Some ?ts"
    using assms by (simp add: permissionStoreAdapter_def permissionStore_ListTargets_def exec_def answer_def readable_db_def)
  moreover have "distinct (map tgt_Name (sort_key tgt_Name (db_targets db)))"
    using assms by (simp add: readable_db_def db_inv_def perms_ok_def distinct_map)
  then have "distinct (map at_Name ?ts)" by (simp add: comp_def)
  ultimately show ?thesis by (intro exI [of _ ?ts]) simp
qed

lemma store_rows_for:
  assumes "readable_db db" "query_key k"
  shows "\<exists>rs. ps_PrincipalsFor (permissionStoreAdapter db) k = Some rs \<and>
    set rs = {r \<in> adaptRow ` set (db_principals db). \<exists>t\<in>adaptTarget ` set (db_targets db).
      at_Name t = row_TargetName r \<and> lists_key t k}"
proof -
  let ?P = "\<lambda>q. \<exists>t\<in>set (db_targets db). tgt_Name t = prn_TargetName q \<and> lists_key (adaptTarget t) k"
  have P: "(\<lambda>q. list_ex (\<lambda>t. tgt_Name t = prn_TargetName q \<and> sql_like (repos_pattern k) (tgt_Repos t)) (db_targets db)) = ?P"
    unfolding list_ex_iff using assms like_lists [of k]
    by (auto simp: readable_db_def query_key_def target_lists_def lists_key_def)
  let ?rs = "map adaptRow (sort_key row_order (filter ?P (db_principals db)))"
  have "ps_PrincipalsFor (permissionStoreAdapter db) k = Some ?rs"
    using assms(1) by (simp add: permissionStoreAdapter_def permissionStore_PrincipalsFor_def exec_def answer_def
        readable_db_def P)
  then show ?thesis by (intro exI [of _ ?rs]) (auto intro!: imageI)
qed

interpretation pst: permission_store readable_db permissionStoreAdapter
    "\<lambda>db. adaptRow ` set (db_principals db)" "\<lambda>db. adaptTarget ` set (db_targets db)" query_key
proof
  fix db k
  assume db: "readable_db db"
  show "\<exists>ts. ps_ListTargets (permissionStoreAdapter db) = Some ts \<and> distinct (map at_Name ts)
      \<and> set ts = adaptTarget ` set (db_targets db)" by (rule store_lists_targets [OF db])
  let ?P = "\<lambda>q. list_ex (\<lambda>t. tgt_Name t = prn_TargetName q) (db_targets db)"
  let ?rs = "map adaptRow (sort_key row_order (filter ?P (db_principals db)))"
  have "ps_Principals (permissionStoreAdapter db) = Some (Some ?rs)"
    using db by (simp add: permissionStoreAdapter_def permissionStore_Principals_def exec_def answer_def readable_db_def)
  then show "\<exists>rs. ps_Principals (permissionStoreAdapter db) = Some (Some rs) \<and>
      set rs = {r \<in> adaptRow ` set (db_principals db). \<exists>t\<in>adaptTarget ` set (db_targets db). at_Name t = row_TargetName r}"
    by (intro exI [of _ ?rs]) (auto simp: list_ex_iff intro!: imageI)
  show "\<exists>rs. ps_PrincipalsFor (permissionStoreAdapter db) k = Some rs \<and>
      set rs = {r \<in> adaptRow ` set (db_principals db). \<exists>t\<in>adaptTarget ` set (db_targets db).
        at_Name t = row_TargetName r \<and> lists_key t k}" if "query_key k"
    by (rule store_rows_for [OF db that])
qed (simp_all add: query_key_def bucket_defs plain_key_def plain_char_def byte_of_def)

text \<open>
  Over the metadata store the two readings of repository management agree. For a user, on
  targets whose repository lists are encoded plain keys, holding manage on a key is the same as
  the manage coverage naming the key itself or the bucket that covers it. So the list filter and
  the write arms that use the coverage cannot disagree with the decision that uses \<open>Can\<close>.
\<close>

theorem coverage_agrees:
  assumes "readable_db db" "EffectiveRole (Some p) = RoleUser" "query_key k"
  shows "\<exists>cov. ManageCoverage (NewFromStore db typeOf anon) (Some p) = (Some cov, False) \<and>
    (CanManageRepo (NewFromStore db typeOf anon) (Some p) k write \<longleftrightarrow>
       k \<in> cov \<or> (bucketFor (NewFromStore db typeOf anon) k \<noteq> [] \<and> bucketFor (NewFromStore db typeOf anon) k \<in> cov))"
proof -
  let ?s = "NewFromStore db typeOf anon"
  have src: "az_permissions ?s = permissionStoreAdapter db" by (simp add: NewFromStore_def)
  have "CanManageRepo ?s (Some p) k write \<longleftrightarrow> granted ?s p k [] ActionManage"
    using assms(2) by (simp add: CanManageRepo_def Can_user)
  then show ?thesis
    using pst.coverage_manages [OF assms(1) src assms(2)] pst.manage_agrees [OF assms(1) src assms(3)] by metis
qed

lemma demo_readable: "readable_db demo_db"
  by (simp add: readable_db_def demo_encoded demo_db_def seeded_db_def empty_db_def seed_admin_def db_inv_defs
      user_names_def) (simp add: demo_target_def demo_row_def)

theorem coverage_agrees_witness:
  "\<exists>cov. ManageCoverage demo_service (Some demo_user) = (Some cov, False) \<and>
    (CanManageRepo demo_service (Some demo_user) ''libs'' True \<longleftrightarrow>
       ''libs'' \<in> cov \<or> (bucketFor demo_service ''libs'' \<noteq> [] \<and> bucketFor demo_service ''libs'' \<in> cov))"
  unfolding demo_service_def
  by (rule coverage_agrees [OF demo_readable demo_user_role]) (simp add: query_key_def demo_plain)

text \<open>
  A bucket grant reaches every repository of its class, at once and only there. Over the
  store, when no target names a repository itself, a user may do to a local repository exactly
  what the targets listing \<open>ANY LOCAL\<close> grant there, to a remote one what \<open>ANY REMOTE\<close> grants, and
  to any other (virtual, unknown) nothing.
\<close>

theorem bucket_grants:
  assumes "readable_db db" "EffectiveRole (Some p) = RoleUser" "query_key k" "k \<noteq> []" "\<not> IsWildcardBucket k"
    and "\<forall>t\<in>set (db_targets db). \<not> lists_key (adaptTarget t) k"
  shows "Can (NewFromStore db typeOf anon) (Some p) k path action \<longleftrightarrow>
    (\<exists>q\<in>set (db_principals db). \<exists>t\<in>set (db_targets db).
       rowCoversPrincipal (adaptRow q) p \<and> rowAllows (adaptRow q) action \<and> tgt_Name t = prn_TargetName q \<and>
       ((typeOf k = Some RepoClassLocal \<and> target_grants (adaptTarget t) BucketAnyLocal [] path action) \<or>
        (typeOf k = Some RepoClassRemote \<and> target_grants (adaptTarget t) BucketAnyRemote [] path action)))"
proof -
  let ?s = "NewFromStore db typeOf anon"
  have src: "az_permissions ?s = permissionStoreAdapter db" by (simp add: NewFromStore_def)
  have b: "bucketFor ?s k = (if typeOf k = Some RepoClassLocal then BucketAnyLocal
      else if typeOf k = Some RepoClassRemote then BucketAnyRemote else [])"
    using assms(4,5) by (auto simp: bucketFor_def NewFromStore_def repoClassAdapter_def BucketForClass_def
        RepoClassLocal_def RepoClassRemote_def split: option.splits)
  have "target_grants (adaptTarget t) k B path action \<longleftrightarrow> B \<noteq> [] \<and> target_grants (adaptTarget t) B [] path action"
    if "t \<in> set (db_targets db)" for t B
    using that assms(6) pst.lists_decoded [of "adaptTarget t"] by (auto simp: target_grants_def)
  then show ?thesis
    unfolding Can_user [OF assms(2)] pst.granted_iff [OF assms(1) src assms(3)] b
    by (auto simp: bucket_defs RepoClassLocal_def RepoClassRemote_def)
qed

theorem bucket_grants_witness:
  "Can demo_service (Some demo_user) ''apps'' [] ActionManage"
proof -
  have "plain_key ''apps''" by (simp add: plain_key_def plain_char_def byte_of_def)
  then have "Can (NewFromStore demo_db demo_class False) (Some demo_user) ''apps'' [] ActionManage \<longleftrightarrow>
    (\<exists>q\<in>set (db_principals demo_db). \<exists>t\<in>set (db_targets demo_db).
       rowCoversPrincipal (adaptRow q) demo_user \<and> rowAllows (adaptRow q) ActionManage \<and> tgt_Name t = prn_TargetName q \<and>
       ((demo_class ''apps'' = Some RepoClassLocal \<and> target_grants (adaptTarget t) BucketAnyLocal [] [] ActionManage) \<or>
        (demo_class ''apps'' = Some RepoClassRemote \<and> target_grants (adaptTarget t) BucketAnyRemote [] [] ActionManage)))"
    using demo_decode
    by (intro bucket_grants demo_readable demo_user_role)
      (auto simp: query_key_def IsWildcardBucket_def bucket_defs demo_db_def pst.lists_decoded)
  moreover have "equal_fold ''bob'' ''Bob''" by code_simp
  then have "rowCoversPrincipal (adaptRow demo_row) demo_user"
    by (simp add: rowCoversPrincipal_def adaptRow_def demo_row_def demo_user_def newPrincipal_def)
  moreover have "rowAllows (adaptRow demo_row) ActionManage" "tgt_Name demo_target = prn_TargetName demo_row"
    "demo_class ''apps'' = Some RepoClassLocal" "demo_row \<in> set (db_principals demo_db)"
    "demo_target \<in> set (db_targets demo_db)"
    by (simp_all add: rowAllows_def adaptRow_def demo_row_def demo_target_def action_defs demo_class_def
        RepoClassLocal_def demo_db_def)
  moreover have "target_grants (adaptTarget demo_target) BucketAnyLocal [] [] ActionManage"
    using demo_decode by (simp add: target_grants_def bucket_defs)
  ultimately show ?thesis unfolding demo_service_def by blast
qed

end
