(* ===== verification/Auth_Tokens.thy ===== *)
theory Auth_Tokens
  imports Auth_Rbac
begin

text \<open>
  The credentials of \<open>internal/auth\<close> that live in the metadata store: API tokens with their narrow
  deploy scopes (\<open>token.go\<close>), browser sessions (\<open>session.go\<close>) and the guarded deletion of users
  (\<open>user_delete.go\<close>). Only the digest of a credential is stored. \<open>H\<close> is the SHA-256 of the
  standard library, a function the theory does not unfold; the environment of a call gives the
  clock and what the random source returned (\<open>None\<close> when it failed). Operations take the tables
  and return the new ones next to the result; a refresh of the last-used stamp may fail without
  failing the call.

  The lemmas show what a verified credential says about the stored rows at that moment, that an
  issued token verifies until its deadline and not after, that revocation is final, and that a
  narrow token stays narrow.
\<close>

type_synonym digest = "bytes \<Rightarrow> bytes"

datatype auth_error =
    EInvalid
  | ETokenUnknown
  | ETokenExpired
  | EBlocked duration
  | EStepUp
  | EStore db_error
  | EEntropy
  | EGate
  | EBadTTL
  | EEmptyPassword
  | ESamePassword
  | EDeleteUnwired
  | EDeleteBuiltIn
  | EDeleteLastAdmin
  | EDeleteSelf

text \<open>\<open>errors.Is(err, ErrInvalidCredentials)\<close>: the family the HTTP plane answers with 401.\<close>

fun is_invalid_credentials :: "auth_error \<Rightarrow> bool" where
  "is_invalid_credentials EInvalid = True"
| "is_invalid_credentials ETokenUnknown = True"
| "is_invalid_credentials ETokenExpired = True"
| "is_invalid_credentials (EBlocked _) = True"
| "is_invalid_credentials _ = False"

definition hex_digest :: "digest \<Rightarrow> string \<Rightarrow> string" where
  "hex_digest H plaintext = concat (map (\<lambda>c. [hex_char (byte_of c div 16), hex_char (byte_of c mod 16)]) (H plaintext))"

definition hex_bytes :: "bytes \<Rightarrow> string" where
  "hex_bytes bs = concat (map (\<lambda>c. [hex_char (byte_of c div 16), hex_char (byte_of c mod 16)]) bs)"


section \<open>Users as the service sees them\<close>

definition ProviderLocal :: string where "ProviderLocal = ''local''"
definition ProviderOIDC :: string where "ProviderOIDC = ''oidc''"
definition ProviderLDAP :: string where "ProviderLDAP = ''ldap''"

record auth_user =
  au_Username :: string
  au_PasswordHash :: string
  au_IsAdmin :: bool
  au_Enabled :: bool
  au_Provider :: string
  au_ProviderID :: string
  au_Role :: string

definition adaptUser :: "User \<Rightarrow> auth_user" where
  "adaptUser u =
     \<lparr>au_Username = usr_Username u, au_PasswordHash = usr_PasswordHash u, au_IsAdmin = usr_IsAdmin u,
      au_Enabled = usr_Enabled u,
      au_Provider = (if usr_Provider u = ProviderOIDC \<or> usr_Provider u = ProviderLDAP then usr_Provider u
                     else ProviderLocal),
      au_ProviderID = usr_ProviderID u, au_Role = principalRole (usr_Role u)\<rparr>"

definition users_Get :: "auth_db \<Rightarrow> string \<Rightarrow> auth_user db_result" where
  "users_Get db username = map_sum id adaptUser (userStore_Get db username)"

record ProviderUser =
  pu_Username :: string
  pu_IsAdmin :: bool
  pu_Role :: string
  pu_Enabled :: bool

definition GetByProvider :: "auth_db \<Rightarrow> string \<Rightarrow> string \<Rightarrow> ProviderUser option" where
  "GetByProvider db prov providerID =
     (case userStore_List db of
        Inl _ \<Rightarrow> None
      | Inr users \<Rightarrow>
          map_option (\<lambda>u. \<lparr>pu_Username = au_Username u, pu_IsAdmin = au_IsAdmin u, pu_Role = au_Role u, pu_Enabled = au_Enabled u\<rparr>)
            (find (\<lambda>u. au_Provider u = prov \<and> au_ProviderID u = providerID) (map adaptUser users)))"


section \<open>Clocks and scopes\<close>

definition touchThrottle :: duration where "touchThrottle = minute"

definition shouldTouch :: "time \<Rightarrow> string \<Rightarrow> bool" where
  "shouldTouch now lastUsedAt =
     (if lastUsedAt = [] then True
      else (case parse_rfc3339 lastUsedAt of None \<Rightarrow> True | Some t \<Rightarrow> now - t \<ge> touchThrottle))"

definition expired :: "time \<Rightarrow> string \<Rightarrow> bool" where
  "expired now expiresAt =
     (if expiresAt = [] \<or> expiresAt = NeverExpires then False
      else (case parse_rfc3339 expiresAt of None \<Rightarrow> True | Some t \<Rightarrow> \<not> t > now))"

definition DeployScopeChecksumDeploy :: string where
  "DeployScopeChecksumDeploy = ''checksum-deploy''"

text \<open>\<open>scopeDoc\<close> in its JSON spelling, written and read.\<close>

definition marshal_scope :: "string \<Rightarrow> string list \<Rightarrow> string \<Rightarrow> string" where
  "marshal_scope kind repos path =
     CHR ''{'' # marshal_string ''kind'' @ CHR '':'' # marshal_string kind @ CHR '','' #
     marshal_string ''repos'' @ CHR '':'' # marshal_strings repos @ CHR '','' #
     marshal_string ''path'' @ CHR '':'' # marshal_string path @ ''}''"

fun scope_members :: "json \<Rightarrow> (string \<times> json) list option" where
  "scope_members (JObject ms) = Some ms"
| "scope_members JNull = Some []"
| "scope_members _ = None"

definition unmarshal_scope :: "string \<Rightarrow> (string \<times> string list \<times> string) option" where
  "unmarshal_scope v =
     (case json_parse v of
        None \<Rightarrow> None
      | Some j \<Rightarrow>
          (case scope_members j of
             None \<Rightarrow> None
           | Some ms \<Rightarrow>
               (case (string_field [] (members_of ''kind'' ms), strings_field [] (members_of ''repos'' ms),
                      string_field [] (members_of ''path'' ms)) of
                  (Some kind, Some repos, Some path) \<Rightarrow> Some (kind, repos, path)
                | _ \<Rightarrow> None)))"

definition parseDeployScope :: "string \<Rightarrow> DeployScope option" where
  "parseDeployScope v =
     (case unmarshal_scope v of
        None \<Rightarrow> None
      | Some (kind, repos, path) \<Rightarrow>
          if kind = DeployScopeChecksumDeploy then
            (if repos = [] \<or> path = [] then None
             else if list_ex (\<lambda>r. r = []) repos then None
             else Some \<lparr>ds_Kind = kind, ds_Repos = repos, ds_Path = path\<rparr>)
          else None)"


section \<open>Tokens\<close>

definition tokenBytes :: nat where "tokenBytes = 32"
definition TokenTypeBearer :: string where "TokenTypeBearer = ''Bearer''"
definition ScopeAPI :: string where "ScopeAPI = ''api:*''"

record auth_env =
  ev_now :: time
  ev_rand :: "bytes option"

record IssuedToken =
  it_AccessToken :: string
  it_TokenType :: string
  it_ExpiresIn :: int
  it_Scope :: string
  it_TokenID :: nat
  it_Username :: string

text \<open>The best-effort refresh of a last-used stamp.\<close>

definition touch_token :: "time \<Rightarrow> auth_db \<Rightarrow> Token \<Rightarrow> auth_db" where
  "touch_token now db t =
     (if shouldTouch now (tok_LastUsedAt t) then
        (case tokenStore_Touch db (tok_ID t) (format_rfc3339 now) of Inl _ \<Rightarrow> db | Inr db' \<Rightarrow> db')
      else db)"

definition TokenVerifier_Verify ::
    "digest \<Rightarrow> time \<Rightarrow> auth_db \<Rightarrow> string \<Rightarrow> auth_db \<times> (auth_error + Principal)" where
  "TokenVerifier_Verify H now db plaintext =
     (if plaintext = [] then (db, Inl EInvalid)
      else (case tokenStore_GetBySHA256 db (hex_digest H plaintext) of
              Inl e \<Rightarrow> (db, Inl (if e = ErrTokenNotFound then ETokenUnknown else EStore e))
            | Inr t \<Rightarrow>
                if expired now (tok_ExpiresAt t) then (db, Inl ETokenExpired)
                else (case users_Get db (tok_Username t) of
                        Inl _ \<Rightarrow> (db, Inl EInvalid)
                      | Inr u \<Rightarrow>
                          if \<not> au_Enabled u then (db, Inl EInvalid)
                          else
                            (let db' = touch_token now db t;
                                 p = (newPrincipal (au_Username u) (au_Role u) (au_Provider u))\<lparr>p_TokenID := tok_ID t\<rparr>
                             in if tok_DeployScope t \<noteq> [] then
                                  (case parseDeployScope (tok_DeployScope t) of
                                     None \<Rightarrow> (db', Inl EInvalid)
                                   | Some ds \<Rightarrow> (db', Inr (p\<lparr>p_DeployScope := Some ds\<rparr>)))
                                else (db', Inr p)))))"

definition issue ::
    "digest \<Rightarrow> auth_env \<Rightarrow> auth_db \<Rightarrow> string \<Rightarrow> duration \<Rightarrow> string \<Rightarrow> auth_db \<times> (auth_error + IssuedToken)" where
  "issue H ev db username ttl scopeJSON =
     (if username = [] then (db, Inl EInvalid)
      else (case users_Get db username of
              Inl e \<Rightarrow> (db, Inl (EStore e))
            | Inr _ \<Rightarrow>
                (case ev_rand ev of
                   None \<Rightarrow> (db, Inl EEntropy)
                 | Some buf \<Rightarrow>
                     (let plaintext = hex_bytes buf;
                          expiresAt = (if ttl > 0 then format_rfc3339 (ev_now ev + ttl) else NeverExpires);
                          expiresIn = (if ttl > 0 then ttl div second else 0)
                      in case tokenStore_Create db
                              \<lparr>tok_ID = 0, tok_Username = username, tok_TokenSHA256 = hex_digest H plaintext,
                               tok_ExpiresAt = expiresAt, tok_CreatedAt = format_rfc3339 (ev_now ev),
                               tok_LastUsedAt = [], tok_DeployScope = scopeJSON\<rparr> of
                           Inl e \<Rightarrow> (db, Inl (EStore e))
                         | Inr (i, db') \<Rightarrow>
                             (db', Inr \<lparr>it_AccessToken = plaintext, it_TokenType = TokenTypeBearer, it_ExpiresIn = expiresIn,
                                        it_Scope = ScopeAPI, it_TokenID = i, it_Username = username\<rparr>)))))"

definition Issue ::
    "digest \<Rightarrow> auth_env \<Rightarrow> auth_db \<Rightarrow> string \<Rightarrow> duration \<Rightarrow> auth_db \<times> (auth_error + IssuedToken)" where
  "Issue H ev db username ttl = issue H ev db username ttl []"

fun clean_repos :: "string list \<Rightarrow> string list \<Rightarrow> string list" where
  "clean_repos clean [] = clean"
| "clean_repos clean (r # rs) = clean_repos (if r \<noteq> [] \<and> r \<notin> set clean then clean @ [r] else clean) rs"

definition IssueChecksumDeployScoped ::
    "digest \<Rightarrow> auth_env \<Rightarrow> auth_db \<Rightarrow> string \<Rightarrow> duration \<Rightarrow> string list \<Rightarrow> string \<Rightarrow>
     auth_db \<times> (auth_error + IssuedToken)" where
  "IssueChecksumDeployScoped H ev db username ttl repos path =
     (let clean = clean_repos [] repos in
      if clean = [] \<or> path = [] then (db, Inl EInvalid)
      else issue H ev db username ttl (marshal_scope DeployScopeChecksumDeploy clean path))"

definition Revoke :: "digest \<Rightarrow> auth_db \<Rightarrow> string \<Rightarrow> auth_db db_result" where
  "Revoke H db plaintext =
     (case tokenStore_GetBySHA256 db (hex_digest H plaintext) of
        Inl e \<Rightarrow> Inl e
      | Inr t \<Rightarrow> tokenStore_Delete db (tok_ID t))"

definition RevokeByID :: "auth_db \<Rightarrow> nat \<Rightarrow> auth_db db_result" where
  "RevokeByID db tokenID = tokenStore_Delete db tokenID"

definition TokenFingerprint :: "digest \<Rightarrow> string \<Rightarrow> string" where
  "TokenFingerprint H plaintext = take 8 (hex_digest H plaintext)"

text \<open>The service's \<open>Verify\<close> adds the group memberships to what the verifier resolved.\<close>

definition Verify :: "digest \<Rightarrow> time \<Rightarrow> bool \<Rightarrow> auth_db \<Rightarrow> authz \<Rightarrow> string \<Rightarrow> auth_db \<times> (auth_error + Principal option)" where
  "Verify H now ctxErr db s plaintext =
     (case TokenVerifier_Verify H now db plaintext of
        (db', Inl e) \<Rightarrow> (db', Inl e)
      | (db', Inr p) \<Rightarrow> (db', Inr (fillGroups s ctxErr (Some p))))"


section \<open>Browser sessions\<close>

record IssuedSession =
  is_ID :: string
  is_ExpiresAt :: time

definition sessionHash :: "digest \<Rightarrow> string \<Rightarrow> string" where
  "sessionHash H sid = hex_digest H sid"

definition IssueSession ::
    "digest \<Rightarrow> auth_env \<Rightarrow> auth_db \<Rightarrow> string \<Rightarrow> duration \<Rightarrow> auth_db \<times> (auth_error + IssuedSession)" where
  "IssueSession H ev db username ttl =
     (if username = [] then (db, Inl EInvalid)
      else (case users_Get db username of
              Inl _ \<Rightarrow> (db, Inl EInvalid)
            | Inr u \<Rightarrow>
                if \<not> au_Enabled u then (db, Inl EInvalid)
                else if ttl \<le> 0 then (db, Inl EBadTTL)
                else (case ev_rand ev of
                        None \<Rightarrow> (db, Inl EEntropy)
                      | Some buf \<Rightarrow>
                          (let sid = hex_bytes buf; now = ev_now ev in
                           case webSessionStore_Create db
                                  \<lparr>ses_IDHash = sessionHash H sid, ses_Username = au_Username u,
                                   ses_CreatedAt = format_rfc3339 now, ses_ExpiresAt = format_rfc3339 (now + ttl),
                                   ses_LastUsedAt = format_rfc3339 now, ses_RevokedAt = []\<rparr> of
                             Inl e \<Rightarrow> (db, Inl (EStore e))
                           | Inr db' \<Rightarrow> (db', Inr \<lparr>is_ID = sid, is_ExpiresAt = now + ttl\<rparr>)))))"

definition touch_session :: "time \<Rightarrow> auth_db \<Rightarrow> WebSession \<Rightarrow> auth_db" where
  "touch_session now db row =
     (if shouldTouch now (ses_LastUsedAt row) then
        (case webSessionStore_Touch db (ses_IDHash row) (format_rfc3339 now) of Inl _ \<Rightarrow> db | Inr db' \<Rightarrow> db')
      else db)"

definition authenticateSession ::
    "digest \<Rightarrow> time \<Rightarrow> auth_db \<Rightarrow> string \<Rightarrow> auth_db \<times> (auth_error + Principal)" where
  "authenticateSession H now db sid =
     (if sid = [] then (db, Inl EInvalid)
      else
        (let idHash = sessionHash H sid in
         case webSessionStore_GetBySHA256 db idHash of
           Inl e \<Rightarrow> (db, Inl (if e = ErrWebSessionNotFound then EInvalid else EStore e))
         | Inr row \<Rightarrow>
             if ses_RevokedAt row \<noteq> [] then (db, Inl EInvalid)
             else if expired now (ses_ExpiresAt row) then (db, Inl EInvalid)
             else (case users_Get db (ses_Username row) of
                     Inl _ \<Rightarrow> (db, Inl EInvalid)
                   | Inr u \<Rightarrow>
                       if \<not> au_Enabled u then (db, Inl EInvalid)
                       else (touch_session now db row,
                             Inr ((newPrincipal (au_Username u) (au_Role u) (au_Provider u))
                                    \<lparr>p_ViaSession := True, p_SessionHash := idHash\<rparr>)))))"

definition RevokeSession :: "digest \<Rightarrow> time \<Rightarrow> auth_db \<Rightarrow> string \<Rightarrow> auth_db db_result" where
  "RevokeSession H now db plaintext =
     (if plaintext = [] then Inl ErrWebSessionNotFound
      else webSessionStore_Revoke db (sessionHash H plaintext) (format_rfc3339 now))"


section \<open>Deleting a user\<close>

definition builtinUndeletable :: "string list" where
  "builtinUndeletable = [''admin'', ''anonymous'']"

definition AdminRoleUsers :: "auth_db \<Rightarrow> string list db_result" where
  "AdminRoleUsers db =
     map_sum id (\<lambda>users. map usr_Username (filter (\<lambda>u. usr_Role u = meta_RoleAdmin) users)) (userStore_List db)"

definition adminsWithOther :: "string list \<Rightarrow> string \<Rightarrow> string list" where
  "adminsWithOther admins target = filter (\<lambda>name. name \<noteq> target) admins"

text \<open>\<open>wired\<close> is whether the service has the delete seam; the adapter maps the store's refusal.\<close>

definition DeleteUser :: "bool \<Rightarrow> auth_db \<Rightarrow> string \<Rightarrow> string \<Rightarrow> auth_db \<times> (auth_error + unit)" where
  "DeleteUser wired db actor username =
     (if \<not> wired then (db, Inl EDeleteUnwired)
      else (case users_Get db username of
              Inl e \<Rightarrow> (db, Inl (EStore e))
            | Inr u \<Rightarrow>
                if username \<in> set builtinUndeletable then (db, Inl EDeleteBuiltIn)
                else
                  (case (if au_Role u = RoleAdmin then AdminRoleUsers db else Inr [''-'']) of
                     Inl e \<Rightarrow> (db, Inl (EStore e))
                   | Inr admins \<Rightarrow>
                       if au_Role u = RoleAdmin \<and> adminsWithOther admins username = [] then (db, Inl EDeleteLastAdmin)
                       else if actor \<noteq> [] \<and> actor = username then (db, Inl EDeleteSelf)
                       else (case userStore_DeleteCascade db username of
                               Inl e \<Rightarrow> (db, Inl (if e = ErrLastAdmin then EDeleteLastAdmin else EStore e))
                             | Inr db' \<Rightarrow> (db', Inr ())))))"


section \<open>Reading rows back\<close>

lemma scanToken_Inr: "scanToken ts = Inr t \<Longrightarrow> t \<in> set ts"
  by (cases ts) (auto simp: scanToken_def)

lemma GetBySHA256_Inr:
  "tokenStore_GetBySHA256 db h = Inr t \<Longrightarrow> t \<in> set (db_tokens db) \<and> tok_TokenSHA256 t = h \<and> \<not> db_down db"
  by (auto simp: tokenStore_GetBySHA256_def dest!: scanToken_Inr)

lemma GetBySHA256_found:
  assumes "db_inv db" "\<not> db_down db" "t \<in> set (db_tokens db)" "tok_TokenSHA256 t = h"
  shows "tokenStore_GetBySHA256 db h = Inr t"
proof -
  have "v = t" if "v \<in> set (filter (\<lambda>t. tok_TokenSHA256 t = h) (db_tokens db))" for v
    using assms that by (auto simp: db_inv_def tokens_ok_def distinct_map inj_on_def)
  moreover have "filter (\<lambda>t. tok_TokenSHA256 t = h) (db_tokens db) \<noteq> []"
    using assms by (auto simp: filter_empty_conv)
  ultimately show ?thesis
    using assms(2) by (cases "filter (\<lambda>t. tok_TokenSHA256 t = h) (db_tokens db)")
      (auto simp: tokenStore_GetBySHA256_def exec_def scanToken_def)
qed

lemma GetBySHA256_missing:
  "h \<notin> tok_TokenSHA256 ` set (db_tokens db) \<Longrightarrow>
     tokenStore_GetBySHA256 db h = Inl (if db_down db then ErrDriver else ErrTokenNotFound)"
  by (auto simp: tokenStore_GetBySHA256_def exec_def scanToken_def filter_empty_conv split: list.splits
      dest!: filter_eq_ConsD)

lemma users_Get_Inr:
  "users_Get db n = Inr v \<Longrightarrow> \<exists>u\<in>set (db_users db). usr_Username u = n \<and> v = adaptUser u"
proof -
  assume "users_Get db n = Inr v"
  then obtain u where u: "userStore_Get db n = Inr u" "v = adaptUser u"
    by (cases "userStore_Get db n") (auto simp: users_Get_def)
  then have "u \<in> set (filter (\<lambda>u. usr_Username u = n) (db_users db))"
    by (cases "filter (\<lambda>u. usr_Username u = n) (db_users db)") (auto simp: userStore_Get_def scanUser_def)
  with u show ?thesis by auto
qed

lemma users_Get_found:
  assumes "db_inv db" "\<not> db_down db" "u \<in> set (db_users db)" "usr_Username u = n"
  shows "users_Get db n = Inr (adaptUser u)"
  using assms scanUser_found [OF assms(3,4,1)] by (simp add: users_Get_def userStore_Get_def exec_def)

definition scope_ok :: "DeployScope \<Rightarrow> bool" where
  "scope_ok ds \<longleftrightarrow> ds_Kind ds = DeployScopeChecksumDeploy \<and> ds_Repos ds \<noteq> [] \<and> [] \<notin> set (ds_Repos ds) \<and> ds_Path ds \<noteq> []"

lemma parseDeployScope_ok: "parseDeployScope v = Some ds \<Longrightarrow> scope_ok ds"
  by (auto simp: parseDeployScope_def scope_ok_def list_ex_iff split: option.splits prod.splits if_splits)

text \<open>
  C25: What a verified API token proves. Its digest is stored, its deadline lies ahead, its owner
  exists and is enabled now; the principal carries the owner's name and the role stored now, not
  the one at issue time; and it is unrestricted only when the stored scope is empty: a narrow
  token always comes with a usable scope, an unreadable scope is refused.
\<close>

theorem verify_sound:
  assumes "TokenVerifier_Verify H now db x = (db', Inr p)"
  shows "\<exists>t\<in>set (db_tokens db). \<exists>u\<in>set (db_users db).
    tok_TokenSHA256 t = hex_digest H x \<and> \<not> expired now (tok_ExpiresAt t) \<and>
    usr_Username u = tok_Username t \<and> usr_Enabled u \<and>
    p_Name p = usr_Username u \<and> p_Role p = principalRole (usr_Role u) \<and> p_TokenID p = tok_ID t \<and>
    (case p_DeployScope p of None \<Rightarrow> tok_DeployScope t = []
     | Some ds \<Rightarrow> scope_ok ds \<and> parseDeployScope (tok_DeployScope t) = Some ds)"
proof -
  obtain t where t: "tokenStore_GetBySHA256 db (hex_digest H x) = Inr t" "\<not> expired now (tok_ExpiresAt t)"
    using assms by (auto simp: TokenVerifier_Verify_def split: if_splits sum.splits)
  obtain v where v: "users_Get db (tok_Username t) = Inr v" "au_Enabled v"
    using assms t by (auto simp: TokenVerifier_Verify_def split: if_splits sum.splits)
  obtain u where u: "u \<in> set (db_users db)" "usr_Username u = tok_Username t" "v = adaptUser u"
    using users_Get_Inr [OF v(1)] by blast
  let ?p = "(newPrincipal (au_Username v) (au_Role v) (au_Provider v))\<lparr>p_TokenID := tok_ID t\<rparr>"
  have "(tok_DeployScope t = [] \<and> p = ?p) \<or>
      (\<exists>ds. parseDeployScope (tok_DeployScope t) = Some ds \<and> p = ?p\<lparr>p_DeployScope := Some ds\<rparr>)"
    using assms t v by (auto simp: TokenVerifier_Verify_def Let_def split: if_splits option.splits)
  then show ?thesis
    using GetBySHA256_Inr [OF t(1)] t(2) u v(2) parseDeployScope_ok
    by (intro bexI [of _ t] bexI [of _ u]) (auto simp: adaptUser_def newPrincipal_def)
qed


section \<open>Issuing and verifying\<close>

lemma issue_Inr:
  assumes "issue H ev db n ttl scope = (db1, Inr it)"
  obtains buf i u where "ev_rand ev = Some buf" "it_AccessToken it = hex_bytes buf" "it_TokenID it = i"
    "u \<in> set (db_users db)" "usr_Username u = n" "n \<noteq> []"
    "tokenStore_Create db \<lparr>tok_ID = 0, tok_Username = n, tok_TokenSHA256 = hex_digest H (hex_bytes buf),
       tok_ExpiresAt = (if ttl > 0 then format_rfc3339 (ev_now ev + ttl) else NeverExpires),
       tok_CreatedAt = format_rfc3339 (ev_now ev), tok_LastUsedAt = [], tok_DeployScope = scope\<rparr> = Inr (i, db1)"
  using assms users_Get_Inr [of db n]
  by (auto simp: issue_def Let_def split: if_splits sum.splits option.splits)

definition issued_principal :: "User \<Rightarrow> nat \<Rightarrow> Principal" where
  "issued_principal u i = (newPrincipal (usr_Username u) (principalRole (usr_Role u)) (au_Provider (adaptUser u)))\<lparr>p_TokenID := i\<rparr>"

definition token_deadline :: "auth_env \<Rightarrow> duration \<Rightarrow> time" where
  "token_deadline ev ttl = (ev_now ev + ttl) div second * second"

definition lasting :: "auth_env \<Rightarrow> duration \<Rightarrow> bool" where
  "lasting ev ttl \<longleftrightarrow> ttl \<le> 0 \<or> (printable_time (ev_now ev + ttl) \<and> format_rfc3339 (ev_now ev + ttl) \<noteq> NeverExpires)"

lemma expired_issued:
  assumes "lasting ev ttl"
  shows "expired now (if ttl > 0 then format_rfc3339 (ev_now ev + ttl) else NeverExpires) \<longleftrightarrow>
    ttl > 0 \<and> token_deadline ev ttl \<le> now"
  using assms by (auto simp: lasting_def expired_def token_deadline_def parse_format_rfc3339)

lemma hex_bytes_nonempty: "buf \<noteq> [] \<Longrightarrow> hex_bytes buf \<noteq> []"
  by (cases buf) (auto simp: hex_bytes_def)

lemma issue_then_verify:
  assumes "db_inv db" "issue H ev db n ttl scope = (db1, Inr it)" "ev_rand ev = Some buf" "buf \<noteq> []"
    and "u \<in> set (db_users db)" "usr_Username u = n" "usr_Enabled u" "lasting ev ttl"
  shows "snd (TokenVerifier_Verify H now db1 (it_AccessToken it)) =
    (if ttl > 0 \<and> token_deadline ev ttl \<le> now then Inl ETokenExpired
     else if scope = [] then Inr (issued_principal u (it_TokenID it))
     else (case parseDeployScope scope of
             None \<Rightarrow> Inl EInvalid
           | Some ds \<Rightarrow> Inr ((issued_principal u (it_TokenID it))\<lparr>p_DeployScope := Some ds\<rparr>)))"
proof -
  obtain i where i: "it_AccessToken it = hex_bytes buf" "it_TokenID it = i"
    and c: "tokenStore_Create db \<lparr>tok_ID = 0, tok_Username = n, tok_TokenSHA256 = hex_digest H (hex_bytes buf),
       tok_ExpiresAt = (if ttl > 0 then format_rfc3339 (ev_now ev + ttl) else NeverExpires),
       tok_CreatedAt = format_rfc3339 (ev_now ev), tok_LastUsedAt = [], tok_DeployScope = scope\<rparr> = Inr (i, db1)"
    using issue_Inr [OF assms(2)] assms(3) by (metis option.inject)
  let ?t = "\<lparr>tok_ID = i, tok_Username = n, tok_TokenSHA256 = hex_digest H (hex_bytes buf),
       tok_ExpiresAt = (if ttl > 0 then format_rfc3339 (ev_now ev + ttl) else NeverExpires),
       tok_CreatedAt = format_rfc3339 (ev_now ev), tok_LastUsedAt = [], tok_DeployScope = scope\<rparr>"
  have db1: "db1 = db\<lparr>db_tokens := db_tokens db @ [?t]\<rparr>" and up: "\<not> db_down db"
    using c by (auto simp: tokenStore_Create_def Let_def split: if_splits)
  have inv: "db_inv db1" using db_step_inv [OF db_step.intros(9) [OF c] assms(1)] .
  have g: "tokenStore_GetBySHA256 db1 (hex_digest H (hex_bytes buf)) = Inr ?t"
    by (rule GetBySHA256_found [OF inv]) (auto simp: db1 up)
  have us: "users_Get db1 n = Inr (adaptUser u)"
    using assms(5,6) up by (intro users_Get_found [OF inv]) (auto simp: db1)
  show ?thesis
    using hex_bytes_nonempty [OF assms(4)] g us assms(7) expired_issued [OF assms(8), of now] i
    by (auto simp: TokenVerifier_Verify_def issued_principal_def Let_def adaptUser_def split: option.splits)
qed

text \<open>
  C26: An issued token does its work for as long as it says. Right after a successful issue for an
  enabled user, presenting the returned secret verifies as that user at every moment before the
  deadline (the issue time plus the lifetime, rounded down to the second; none for a lifetime of
  zero or less) and is refused as expired from then on.
\<close>

theorem issue_verify:
  assumes "db_inv db" "Issue H ev db n ttl = (db1, Inr it)" "ev_rand ev = Some buf" "buf \<noteq> []"
    and "u \<in> set (db_users db)" "usr_Username u = n" "usr_Enabled u" "lasting ev ttl"
  shows "snd (TokenVerifier_Verify H now db1 (it_AccessToken it)) =
    (if ttl > 0 \<and> token_deadline ev ttl \<le> now then Inl ETokenExpired
     else Inr (issued_principal u (it_TokenID it)))"
  using issue_then_verify [OF assms(1) _ assms(3-8)] assms(2) by (simp add: Issue_def)

definition demo_hash :: digest where
  "demo_hash s = s"

definition demo_env :: auth_env where
  "demo_env = \<lparr>ev_now = 0, ev_rand = Some ''k''\<rparr>"

lemma demo_admin: "seed_admin\<lparr>usr_Role := ''admin''\<rparr> \<in> set (db_users seeded_db)" "db_inv seeded_db" "\<not> db_down seeded_db"
  using db_reachable_inv [OF seeded_reachable] by (simp_all add: seeded_db_def empty_db_def)

definition demo_issued :: "duration \<Rightarrow> string \<Rightarrow> auth_db \<times> (auth_error + IssuedToken)" where
  "demo_issued ttl scope = issue demo_hash demo_env seeded_db ''admin'' ttl scope"

lemma demo_issue:
  obtains db1 it where "demo_issued ttl scope = (db1, Inr it)" "it_AccessToken it = hex_bytes ''k''" "it_TokenID it = 1"
proof -
  have "users_Get seeded_db ''admin'' = Inr (adaptUser (seed_admin\<lparr>usr_Role := ''admin''\<rparr>))"
    using demo_admin by (intro users_Get_found) (auto simp: seed_admin_def)
  moreover have "db_tokens seeded_db = []" "''admin'' \<in> set (user_names seeded_db)"
    by (simp_all add: seeded_db_def empty_db_def seed_admin_def user_names_def)
  ultimately show thesis
    using demo_admin(3) that by (simp add: demo_issued_def issue_def demo_env_def Let_def tokenStore_Create_def exec_def
        next_id_def)
qed

theorem issue_verify_witness:
  "\<exists>db1 it. Issue demo_hash demo_env seeded_db ''admin'' 0 = (db1, Inr it) \<and>
     snd (TokenVerifier_Verify demo_hash 5 db1 (it_AccessToken it))
       = Inr (issued_principal (seed_admin\<lparr>usr_Role := ''admin''\<rparr>) 1)"
proof -
  obtain db1 it where it: "Issue demo_hash demo_env seeded_db ''admin'' 0 = (db1, Inr it)" "it_TokenID it = 1"
    using demo_issue [of 0 "[]"] by (metis demo_issued_def Issue_def)
  have "snd (TokenVerifier_Verify demo_hash 5 db1 (it_AccessToken it)) =
    (if (0::duration) > 0 \<and> token_deadline demo_env 0 \<le> 5 then Inl ETokenExpired
     else Inr (issued_principal (seed_admin\<lparr>usr_Role := ''admin''\<rparr>) (it_TokenID it)))"
    using demo_admin
    by (intro issue_verify [OF _ it(1)]) (auto simp: demo_env_def seed_admin_def lasting_def)
  with it show ?thesis by auto
qed

theorem verify_sound_witness:
  "\<exists>db1 it t. Issue demo_hash demo_env seeded_db ''admin'' 0 = (db1, Inr it) \<and> t \<in> set (db_tokens db1) \<and>
     tok_TokenSHA256 t = hex_digest demo_hash (it_AccessToken it) \<and>
     (\<exists>db2 p. TokenVerifier_Verify demo_hash 5 db1 (it_AccessToken it) = (db2, Inr p))"
proof -
  obtain db1 it where it: "Issue demo_hash demo_env seeded_db ''admin'' 0 = (db1, Inr it)"
    using demo_issue [of 0 "[]"] by (metis demo_issued_def Issue_def)
  have "snd (TokenVerifier_Verify demo_hash 5 db1 (it_AccessToken it)) =
      Inr (issued_principal (seed_admin\<lparr>usr_Role := ''admin''\<rparr>) (it_TokenID it))"
    using demo_admin it issue_then_verify [of seeded_db demo_hash demo_env "''admin''" 0 "[]" db1 it "''k''"]
    by (auto simp: demo_env_def seed_admin_def lasting_def Issue_def)
  then obtain db2 where v: "TokenVerifier_Verify demo_hash 5 db1 (it_AccessToken it) =
      (db2, Inr (issued_principal (seed_admin\<lparr>usr_Role := ''admin''\<rparr>) (it_TokenID it)))"
    by (metis prod.collapse)
  from verify_sound [OF v] it v show ?thesis by blast
qed


section \<open>Narrow tokens\<close>

lemma scope_object:
  assumes "plain_key kind" "\<forall>r\<in>set repos. plain_key r" "plain_key path" "length repos + 4 < n"
  shows "json_value (Suc n) 0 (marshal_scope kind repos path) =
    Some (JObject [(''kind'', JString kind), (''repos'', JArray (map JString repos)), (''path'', JString path)], [])"
proof -
  have k: "plain_key ''kind''" "plain_key ''repos''" "plain_key ''path''"
    by (simp_all add: plain_key_def plain_char_def byte_of_def)
  have sp: "\<not> json_space (CHR 0x22)" "\<not> json_space (CHR ''['')" "\<not> json_space (CHR '','')" "\<not> json_space (CHR ''}'')"
    by (simp_all add: json_space_def byte_of_def)
  define a where "a = n - 4"
  have n: "n = Suc (Suc (Suc (Suc a)))" and a: "length repos < a" using assms(4) by (auto simp: a_def)
  let ?path = "marshal_string ''path'' @ CHR '':'' # marshal_string path @ ''}''"
  let ?repos = "marshal_string ''repos'' @ CHR '':'' # marshal_strings repos @ CHR '','' # ?path"
  let ?kind = "marshal_string ''kind'' @ CHR '':'' # marshal_string kind @ CHR '','' # ?repos"
  have p: "json_members (Suc (Suc a)) 1 ?path = Some ([(''path'', JString path)], [])"
  proof -
    obtain u where u: "marshal_string path @ ''}'' = CHR 0x22 # u" by (simp add: marshal_string_def)
    have "json_value (Suc a) 1 (CHR 0x22 # u) = Some (JString path, ''}'')"
      using json_value_string [OF assms(3), of a 1 "''}''"] u by simp
    from json_members_start [OF k(3) sp(1) this] show ?thesis using sp u by (simp add: skip_ws_id)
  qed
  have r: "json_members (Suc (Suc (Suc a))) 1 ?repos = Some ([(''repos'', JArray (map JString repos)), (''path'', JString path)], [])"
  proof -
    obtain u where u: "marshal_strings repos @ CHR '','' # ?path = CHR ''['' # u" by (cases repos) auto
    have "json_value (Suc (Suc a)) 1 (CHR ''['' # u) = Some (JArray (map JString repos), CHR '','' # ?path)"
      using json_value_strings [OF assms(2), of 1 "Suc a" "CHR '','' # ?path"] a u by (simp add: max_nesting_def)
    from json_members_start [OF k(2) sp(2) this] show ?thesis using sp u p by (simp add: skip_ws_id)
  qed
  have m: "json_members n 1 ?kind =
      Some ([(''kind'', JString kind), (''repos'', JArray (map JString repos)), (''path'', JString path)], [])"
  proof -
    obtain u where u: "marshal_string kind @ CHR '','' # ?repos = CHR 0x22 # u" by (simp add: marshal_string_def)
    have "json_value (Suc (Suc (Suc a))) 1 (CHR 0x22 # u) = Some (JString kind, CHR '','' # ?repos)"
      using json_value_string [OF assms(1), of "Suc (Suc a)" 1 "CHR '','' # ?repos"] u by simp
    from json_members_start [OF k(1) sp(1) this] show ?thesis using sp u r by (simp add: skip_ws_id n)
  qed
  obtain v where v: "?kind = CHR 0x22 # v" by (simp add: marshal_string_def)
  have "marshal_scope kind repos path = CHR ''{'' # ?kind" by (simp add: marshal_scope_def)
  then show ?thesis
    using m sp unfolding v by (simp add: json_value.simps skip_ws_id max_nesting_def)
qed

lemma members_literal:
  "members_of ''kind'' [(''kind'', a), (''repos'', b), (''path'', c)] = [a]"
  "members_of ''repos'' [(''kind'', a), (''repos'', b), (''path'', c)] = [b]"
  "members_of ''path'' [(''kind'', a), (''repos'', b), (''path'', c)] = [c]"
proof -
  have "\<not> equal_fold ''repos'' ''kind''" "\<not> equal_fold ''path'' ''kind''" "\<not> equal_fold ''kind'' ''repos''"
    "\<not> equal_fold ''path'' ''repos''" "\<not> equal_fold ''kind'' ''path''" "\<not> equal_fold ''repos'' ''path''"
    by code_simp+
  then show "members_of ''kind'' [(''kind'', a), (''repos'', b), (''path'', c)] = [a]"
    "members_of ''repos'' [(''kind'', a), (''repos'', b), (''path'', c)] = [b]"
    "members_of ''path'' [(''kind'', a), (''repos'', b), (''path'', c)] = [c]"
    by (simp_all add: members_of_def)
qed

lemma length_marshal_strings: "length ss < length (marshal_strings ss)"
proof (cases ss)
  case (Cons s rest)
  with length_marshal_tail [of rest] show ?thesis by (simp add: marshal_string_def)
qed simp

lemma unmarshal_marshal_scope:
  assumes "plain_key kind" "\<forall>r\<in>set repos. plain_key r" "plain_key path"
  shows "unmarshal_scope (marshal_scope kind repos path) = Some (kind, repos, path)"
proof -
  let ?n = "2 * length (marshal_scope kind repos path)"
  have "length repos + 4 < ?n"
    using length_marshal_strings [of repos] by (simp add: marshal_scope_def)
  then have "json_value (Suc ?n) 0 (marshal_scope kind repos path) =
    Some (JObject [(''kind'', JString kind), (''repos'', JArray (map JString repos)), (''path'', JString path)], [])"
    by (rule scope_object [OF assms])
  moreover have "skip_ws (marshal_scope kind repos path) = marshal_scope kind repos path"
    by (simp add: marshal_scope_def skip_ws_def json_space_def byte_of_def)
  ultimately have "json_parse (marshal_scope kind repos path) =
      Some (JObject [(''kind'', JString kind), (''repos'', JArray (map JString repos)), (''path'', JString path)])"
    by (simp add: json_parse_def)
  then show ?thesis by (simp add: unmarshal_scope_def members_literal)
qed

lemma clean_repos_set: "set (clean_repos c rs) = set c \<union> (set rs - {[]})"
  by (induction rs arbitrary: c) auto

text \<open>
  A narrow landing token carries exactly its landing. Issuing a checksum-deploy token for
  plain repository keys and a plain path and presenting it in time yields the owner's principal
  restricted to that kind, to the given repositories without blanks and repetitions, and to that
  path: what the row stores as JSON is read back unchanged.
\<close>

theorem narrow_token:
  assumes "db_inv db" "IssueChecksumDeployScoped H ev db n ttl repos path = (db1, Inr it)"
    and "ev_rand ev = Some buf" "buf \<noteq> []"
    and "u \<in> set (db_users db)" "usr_Username u = n" "usr_Enabled u" "lasting ev ttl"
    and "\<forall>r\<in>set repos. plain_key r" "plain_key path" "\<not> (ttl > 0 \<and> token_deadline ev ttl \<le> now)"
  shows "snd (TokenVerifier_Verify H now db1 (it_AccessToken it)) =
    Inr ((issued_principal u (it_TokenID it))\<lparr>p_DeployScope :=
      Some \<lparr>ds_Kind = DeployScopeChecksumDeploy, ds_Repos = clean_repos [] repos, ds_Path = path\<rparr>\<rparr>)"
proof -
  let ?c = "clean_repos [] repos" and ?k = DeployScopeChecksumDeploy
  have ne: "?c \<noteq> []" "path \<noteq> []" and i: "issue H ev db n ttl (marshal_scope ?k ?c path) = (db1, Inr it)"
    using assms(2) by (auto simp: IssueChecksumDeployScoped_def Let_def split: if_splits)
  have "plain_key ?k" by (simp add: DeployScopeChecksumDeploy_def plain_key_def plain_char_def byte_of_def)
  moreover have "\<forall>r\<in>set ?c. plain_key r" "[] \<notin> set ?c" using assms(9) by (auto simp: clean_repos_set)
  ultimately have "parseDeployScope (marshal_scope ?k ?c path) = Some \<lparr>ds_Kind = ?k, ds_Repos = ?c, ds_Path = path\<rparr>"
    using ne assms(10) by (simp add: parseDeployScope_def unmarshal_marshal_scope list_ex_iff)
  moreover have "marshal_scope ?k ?c path \<noteq> []" by (simp add: marshal_scope_def)
  ultimately show ?thesis
    using issue_then_verify [OF assms(1) i assms(3-8)] assms(11) by auto
qed

theorem narrow_token_witness:
  "\<exists>db1 it. IssueChecksumDeployScoped demo_hash demo_env seeded_db ''admin'' 0 [''libs'', [], ''libs''] ''a/b.jar'' = (db1, Inr it) \<and>
     snd (TokenVerifier_Verify demo_hash 5 db1 (it_AccessToken it)) =
       Inr ((issued_principal (seed_admin\<lparr>usr_Role := ''admin''\<rparr>) 1)\<lparr>p_DeployScope :=
         Some \<lparr>ds_Kind = DeployScopeChecksumDeploy, ds_Repos = [''libs''], ds_Path = ''a/b.jar''\<rparr>\<rparr>)"
proof -
  let ?scope = "marshal_scope DeployScopeChecksumDeploy [''libs''] ''a/b.jar''"
  obtain db1 it where it: "IssueChecksumDeployScoped demo_hash demo_env seeded_db ''admin'' 0 [''libs'', [], ''libs''] ''a/b.jar'' = (db1, Inr it)"
      "it_TokenID it = 1"
    using demo_issue [of 0 ?scope] by (simp add: demo_issued_def IssueChecksumDeployScoped_def) metis
  have "plain_key []" "plain_key ''libs''" "plain_key ''a/b.jar''" by (simp_all add: plain_key_def plain_char_def byte_of_def)
  then have "snd (TokenVerifier_Verify demo_hash 5 db1 (it_AccessToken it)) =
    Inr ((issued_principal (seed_admin\<lparr>usr_Role := ''admin''\<rparr>) (it_TokenID it))\<lparr>p_DeployScope :=
      Some \<lparr>ds_Kind = DeployScopeChecksumDeploy, ds_Repos = clean_repos [] [''libs'', [], ''libs''], ds_Path = ''a/b.jar''\<rparr>\<rparr>)"
    using demo_admin by (intro narrow_token [OF _ it(1)]) (auto simp: demo_env_def seed_admin_def lasting_def)
  with it show ?thesis by auto
qed


section \<open>Revocation\<close>

definition token_digests :: "auth_db \<Rightarrow> string set" where
  "token_digests db = tok_TokenSHA256 ` set (db_tokens db)"

text \<open>Any further operations on the tables, none of which stores a token under the digest \<open>h\<close>.\<close>

inductive later :: "string \<Rightarrow> auth_db \<Rightarrow> auth_db \<Rightarrow> bool" for h where
  later_refl: "later h db db"
| later_step: "later h db db1 \<Longrightarrow> db_step db1 db2 \<Longrightarrow>
    (\<forall>t i. tokenStore_Create db1 t = Inr (i, db2) \<longrightarrow> tok_TokenSHA256 t \<noteq> h) \<Longrightarrow> later h db db2"

lemma update_user_tokens: "update_user db n f = Inr db' \<Longrightarrow> db_tokens db' = db_tokens db"
  by (auto simp: update_user_def split: if_splits)

lemma update_session_tokens: "update_session db n f = Inr db' \<Longrightarrow> db_tokens db' = db_tokens db"
  by (auto simp: update_session_def split: if_splits)

lemmas other_table_defs =
  userStore_Create_def userStore_UpdatePassword_def userStore_UpdateEmail_def userStore_UpdateProfile_def
  userStore_SetRole_def userStore_SetEnabled_def userStore_DeleteCascade_def userStore_Delete_def
  permissionStore_PutTarget_def permissionStore_DeleteTarget_def groupStore_Create_def groupStore_Update_def
  groupStore_Delete_def groupStore_SetUserGroups_def webSessionStore_Create_def webSessionStore_Touch_def
  webSessionStore_Revoke_def webSessionStore_Delete_def

lemma tokens_touched:
  assumes "tokenStore_Touch db i s = Inr db'"
  shows "token_digests db' = token_digests db"
proof -
  let ?f = "\<lambda>t. if tok_ID t = i then t\<lparr>tok_LastUsedAt := s\<rparr> else t"
  have "db_tokens db' = map ?f (db_tokens db)" using assms by (auto simp: tokenStore_Touch_def split: if_splits)
  moreover have "map tok_TokenSHA256 (map ?f (db_tokens db)) = map tok_TokenSHA256 (db_tokens db)" by simp
  ultimately show ?thesis unfolding token_digests_def by (metis set_map)
qed

text \<open>A digest enters the table only with a token created under it.\<close>

lemma digest_enters:
  assumes "db_step db db'" "h \<in> token_digests db'" "h \<notin> token_digests db"
  shows "\<exists>t i. tokenStore_Create db t = Inr (i, db') \<and> tok_TokenSHA256 t = h"
  using assms
proof (induction rule: db_step.induct)
  case (9 db t i db')
  then have "tok_TokenSHA256 t = h"
    by (auto simp: tokenStore_Create_def token_digests_def Let_def split: if_splits)
  with 9 show ?case by blast
next
  case (10 db i s db')
  then show ?case using tokens_touched by blast
next
  case 11
  then show ?case by (auto simp: tokenStore_Delete_def token_digests_def split: if_splits)
qed (auto simp: token_digests_def other_table_defs drop_user_def Let_def split: if_splits sum.splits option.splits
    dest!: update_user_tokens update_session_tokens)

lemma later_absent: "later h db db' \<Longrightarrow> h \<notin> token_digests db \<Longrightarrow> h \<notin> token_digests db'"
proof (induction rule: later.induct)
  case (later_step db db1 db2)
  then show ?case using digest_enters [of db1 db2 h] by blast
qed simp

lemma revoke_removes:
  assumes "db_inv db"
    "Revoke H db x = Inr db' \<or> (\<exists>t\<in>set (db_tokens db). tok_TokenSHA256 t = hex_digest H x \<and> RevokeByID db (tok_ID t) = Inr db')"
  shows "hex_digest H x \<notin> token_digests db'"
proof -
  obtain t where m: "t \<in> set (db_tokens db)" "tok_TokenSHA256 t = hex_digest H x" and t: "tokenStore_Delete db (tok_ID t) = Inr db'"
    using assms(2) GetBySHA256_Inr [of db "hex_digest H x"] by (auto simp: Revoke_def RevokeByID_def split: sum.splits)
  have "v = t" if "v \<in> set (db_tokens db)" "tok_TokenSHA256 v = hex_digest H x" for v
    using assms(1) m that by (auto simp: db_inv_def tokens_ok_def distinct_map inj_on_def)
  then show ?thesis
    using t by (auto simp: tokenStore_Delete_def token_digests_def split: if_splits)
qed

text \<open>
  C27: Revocation is final. Once a token has been revoked, by its value or by the identifier of its
  row, presenting it fails at every later moment, whatever happens to the tables in between,
  unless a token is stored again under the same SHA-256 digest.
\<close>

theorem revoke_final:
  assumes "db_inv db"
    "Revoke H db x = Inr db1 \<or> (\<exists>t\<in>set (db_tokens db). tok_TokenSHA256 t = hex_digest H x \<and> RevokeByID db (tok_ID t) = Inr db1)"
    "later (hex_digest H x) db1 db2"
  shows "snd (TokenVerifier_Verify H now db2 x) =
    Inl (if x = [] then EInvalid else if db_down db2 then EStore ErrDriver else ETokenUnknown)"
proof -
  have "hex_digest H x \<notin> token_digests db2"
    using later_absent [OF assms(3) revoke_removes [OF assms(1,2)]] .
  then show ?thesis
    using GetBySHA256_missing [of "hex_digest H x" db2] by (simp add: TokenVerifier_Verify_def token_digests_def)
qed

theorem revoke_final_witness:
  "\<exists>db1 it db2. Issue demo_hash demo_env seeded_db ''admin'' 0 = (db1, Inr it) \<and>
     Revoke demo_hash db1 (it_AccessToken it) = Inr db2 \<and> (\<exists>t\<in>set (db_tokens db1). RevokeByID db1 (tok_ID t) = Inr db2) \<and>
     snd (TokenVerifier_Verify demo_hash 5 db2 (it_AccessToken it)) = Inl ETokenUnknown"
proof -
  obtain db1 it where it: "Issue demo_hash demo_env seeded_db ''admin'' 0 = (db1, Inr it)"
      "it_AccessToken it = hex_bytes ''k''" "it_TokenID it = 1"
    using demo_issue [of 0 "[]"] by (metis demo_issued_def Issue_def)
  obtain buf i u where i: "ev_rand demo_env = Some buf"
    "tokenStore_Create seeded_db \<lparr>tok_ID = 0, tok_Username = ''admin'', tok_TokenSHA256 = hex_digest demo_hash (hex_bytes buf),
       tok_ExpiresAt = (if (0::int) > 0 then format_rfc3339 (ev_now demo_env + 0) else NeverExpires),
       tok_CreatedAt = format_rfc3339 (ev_now demo_env), tok_LastUsedAt = [], tok_DeployScope = []\<rparr> = Inr (i, db1)"
    using issue_Inr [OF it(1) [unfolded Issue_def]] by metis
  have db1: "db_inv db1" using db_step_inv [OF db_step.intros(9) [OF i(2)] demo_admin(2)] .
  have row: "\<exists>t. t \<in> set (db_tokens db1) \<and> tok_TokenSHA256 t = hex_digest demo_hash (it_AccessToken it) \<and> \<not> db_down db1"
    using i it(2) by (auto simp: tokenStore_Create_def Let_def demo_env_def split: if_splits)
  then obtain t where t: "tokenStore_GetBySHA256 db1 (hex_digest demo_hash (it_AccessToken it)) = Inr t"
    and tin: "t \<in> set (db_tokens db1)" and up: "\<not> db_down db1" using GetBySHA256_found [OF db1] by blast
  obtain db2 where d2: "tokenStore_Delete db1 (tok_ID t) = Inr db2" and up2: "\<not> db_down db2"
    using tin up by (auto simp: tokenStore_Delete_def exec_def)
  have r: "Revoke demo_hash db1 (it_AccessToken it) = Inr db2" using t d2 by (simp add: Revoke_def)
  have "it_AccessToken it \<noteq> []" using it(2) hex_bytes_nonempty [of "''k''"] by simp
  moreover have "RevokeByID db1 (tok_ID t) = Inr db2" using d2 by (simp add: RevokeByID_def)
  moreover have "t \<in> set (db_tokens db1)" by (rule tin)
  ultimately show ?thesis using revoke_final [OF db1 disjI1 [OF r] later_refl, of 5] up2 it(1) r by auto
qed


section \<open>Sessions\<close>

text \<open>
  C28: A browser session is what its row says and no more. A session that authenticates is stored
  under the digest of the cookie, was never revoked, has not reached its absolute deadline and
  belongs to a user who exists and is enabled now; the principal has that user's present role, is
  marked as coming from a session and is bound to the row. Using it changes no row but the
  session's own last-used stamp, so the deadline never moves.
\<close>

theorem session_sound:
  assumes "authenticateSession H now db sid = (db', Inr p)"
  shows "(\<exists>s\<in>set (db_sessions db). \<exists>u\<in>set (db_users db).
      ses_IDHash s = sessionHash H sid \<and> ses_RevokedAt s = [] \<and> \<not> expired now (ses_ExpiresAt s) \<and>
      usr_Username u = ses_Username s \<and> usr_Enabled u \<and>
      p_Name p = usr_Username u \<and> p_Role p = principalRole (usr_Role u) \<and> p_ViaSession p \<and>
      p_SessionHash p = sessionHash H sid \<and> p_TokenID p = 0) \<and>
    (\<exists>f. db' = db\<lparr>db_sessions := map f (db_sessions db)\<rparr> \<and>
       (\<forall>s. \<exists>l. f s = s\<lparr>ses_LastUsedAt := l\<rparr> \<and> (ses_IDHash s \<noteq> sessionHash H sid \<longrightarrow> f s = s)))"
proof -
  obtain s where g: "webSessionStore_GetBySHA256 db (sessionHash H sid) = Inr s" "ses_RevokedAt s = []"
      "\<not> expired now (ses_ExpiresAt s)"
    using assms by (auto simp: authenticateSession_def Let_def split: if_splits sum.splits)
  obtain v where v: "users_Get db (ses_Username s) = Inr v" "au_Enabled v"
    using assms g by (auto simp: authenticateSession_def Let_def split: if_splits sum.splits)
  have out: "db' = touch_session now db s" "p = (newPrincipal (au_Username v) (au_Role v) (au_Provider v))
      \<lparr>p_ViaSession := True, p_SessionHash := sessionHash H sid\<rparr>"
    using assms g v by (auto simp: authenticateSession_def Let_def split: if_splits)
  have "s \<in> set (filter (\<lambda>s. ses_IDHash s = sessionHash H sid) (db_sessions db))"
    using g(1) by (cases "filter (\<lambda>s. ses_IDHash s = sessionHash H sid) (db_sessions db)")
      (simp_all add: webSessionStore_GetBySHA256_def)
  then have s: "s \<in> set (db_sessions db)" "ses_IDHash s = sessionHash H sid" by auto
  obtain u where u: "u \<in> set (db_users db)" "usr_Username u = ses_Username s" "v = adaptUser u"
    using users_Get_Inr [OF v(1)] by blast
  let ?f = "\<lambda>r. if ses_IDHash r = ses_IDHash s then r\<lparr>ses_LastUsedAt := format_rfc3339 now\<rparr> else r"
  have same: "\<exists>l. r = r\<lparr>ses_LastUsedAt := l\<rparr>" for r :: WebSession by (rule exI [of _ "ses_LastUsedAt r"]) simp
  have "db' = db\<lparr>db_sessions := map id (db_sessions db)\<rparr> \<or> db' = db\<lparr>db_sessions := map ?f (db_sessions db)\<rparr>"
    unfolding out(1) by (auto simp: touch_session_def webSessionStore_Touch_def update_session_def exec_def)
  then have "\<exists>f. db' = db\<lparr>db_sessions := map f (db_sessions db)\<rparr> \<and>
       (\<forall>r. \<exists>l. f r = r\<lparr>ses_LastUsedAt := l\<rparr> \<and> (ses_IDHash r \<noteq> sessionHash H sid \<longrightarrow> f r = r))"
  proof
    assume "db' = db\<lparr>db_sessions := map id (db_sessions db)\<rparr>"
    then show ?thesis using same by (intro exI [of _ id]) simp
  next
    assume "db' = db\<lparr>db_sessions := map ?f (db_sessions db)\<rparr>"
    then show ?thesis using same s(2) by (intro exI [of _ ?f]) auto
  qed
  then show ?thesis
    using s g u v(2) out(2) by (intro conjI bexI [of _ s] bexI [of _ u]) (auto simp: adaptUser_def newPrincipal_def)
qed

definition session_db :: auth_db where
  "session_db = seeded_db\<lparr>db_sessions := [\<lparr>ses_IDHash = hex_digest demo_hash ''c'', ses_Username = ''admin'', ses_CreatedAt = [],
     ses_ExpiresAt = NeverExpires, ses_LastUsedAt = [], ses_RevokedAt = []\<rparr>]\<rparr>"

theorem session_sound_witness:
  "\<exists>db' p. authenticateSession demo_hash 0 session_db ''c'' = (db', Inr p) \<and> p_ViaSession p \<and> p_Name p = ''admin''"
proof -
  have inv: "db_inv session_db" "\<not> db_down session_db"
    using demo_admin by (simp_all add: session_db_def seeded_db_def empty_db_def seed_admin_def db_inv_defs user_names_def)
  have "users_Get session_db ''admin'' = Inr (adaptUser (seed_admin\<lparr>usr_Role := ''admin''\<rparr>))"
    using inv by (intro users_Get_found) (auto simp: session_db_def seeded_db_def seed_admin_def)
  then obtain db' p where a: "authenticateSession demo_hash 0 session_db ''c'' = (db', Inr p)"
    using inv(2) by (simp add: authenticateSession_def webSessionStore_GetBySHA256_def exec_def session_db_def sessionHash_def
        expired_def adaptUser_def seed_admin_def Let_def)
  from session_sound [OF a] have "p_ViaSession p \<and> p_Name p = ''admin''"
    by (auto simp: session_db_def)
  with a show ?thesis by blast
qed

end
