(* ===== verification/Auth_Login.thy ===== *)
theory Auth_Login
  imports Auth_Tokens "HOL-Library.AList"
begin

text \<open>
  Logging in with a password: the recurrent-failure breaker (\<open>internal/auth/recurrent.go\<close>), the
  Basic arm that consults it (\<open>authenticator.go\<close>), password changes (\<open>token.go\<close>) and the step-up
  ledger of single-use mint grants with its password leg (\<open>stepup.go\<close>). The two in-memory ledgers
  are association lists; a lock makes each of their operations one step, and the order in which
  Go ranges over the breaker's map is the order of the list, which the theorems leave open. The
  argon2 functions are parameters: \<open>le_verify\<close> compares a password with a stored hash, \<open>le_hash\<close>
  derives one. \<open>le_ctxErr\<close> says that the request's context ended while it waited for the hash gate.

  The lemmas show that an armed block binds every attempt until its deadline and lapses then,
  that the breaker's map stays bounded by what is really blocked, and that a mint grant is
  accepted at most once and only for the user and session it was issued to.
\<close>


section \<open>The recurrent-failure breaker\<close>

definition recurrentFailureThreshold :: nat where "recurrentFailureThreshold = 2"
definition recurrentFailureWindow :: duration where "recurrentFailureWindow = 4 * second"
definition recurrentSweepSize :: nat where "recurrentSweepSize = 4096"

record recurrentEntry =
  re_failures :: nat
  re_blockedUntil :: "time option"

type_synonym recurrentLimiter = "(string \<times> recurrentEntry) list"

definition blockedSeconds :: "duration \<Rightarrow> int" where
  "blockedSeconds d = (if d \<le> 0 then 0 else (d + second - 1) div second)"

definition lapsed :: "time \<Rightarrow> recurrentEntry \<Rightarrow> bool" where
  "lapsed now e = (case re_blockedUntil e of None \<Rightarrow> False | Some d \<Rightarrow> \<not> now < d)"

definition blockedRemaining :: "time \<Rightarrow> string \<Rightarrow> recurrentLimiter \<Rightarrow> recurrentLimiter \<times> duration" where
  "blockedRemaining now username l =
     (if username = [] then (l, 0)
      else (case map_of l username of
              None \<Rightarrow> (l, 0)
            | Some e \<Rightarrow>
                (case re_blockedUntil e of
                   None \<Rightarrow> (l, 0)
                 | Some d \<Rightarrow> if \<not> now < d then (AList.delete username l, 0) else (l, d - now))))"

fun evictCounters :: "nat \<Rightarrow> recurrentLimiter \<Rightarrow> recurrentLimiter" where
  "evictCounters n [] = []"
| "evictCounters n ((u, e) # es) =
     (if n < recurrentSweepSize then (u, e) # es
      else if re_blockedUntil e = None then evictCounters (n - 1) es
      else (u, e) # evictCounters n es)"

definition sweepLocked :: "time \<Rightarrow> recurrentLimiter \<Rightarrow> recurrentLimiter" where
  "sweepLocked now l =
     (let live = filter (\<lambda>x. \<not> lapsed now (snd x)) l in evictCounters (length live) live)"

definition failure :: "time \<Rightarrow> string \<Rightarrow> recurrentLimiter \<Rightarrow> recurrentLimiter" where
  "failure now username l =
     (if username = [] then l
      else
        (let old = (case map_of l username of None \<Rightarrow> \<lparr>re_failures = 0, re_blockedUntil = None\<rparr> | Some e \<Rightarrow> e) in
         if (case re_blockedUntil old of None \<Rightarrow> False | Some d \<Rightarrow> now < d) then l
         else
           (let e = old\<lparr>re_failures := re_failures old + 1\<rparr>;
                e' = (if re_failures e \<ge> recurrentFailureThreshold
                      then \<lparr>re_failures = 0, re_blockedUntil = Some (now + recurrentFailureWindow)\<rparr> else e);
                l' = AList.update username e' l
            in if length l' \<ge> recurrentSweepSize then sweepLocked now l' else l')))"

definition success :: "time \<Rightarrow> string \<Rightarrow> recurrentLimiter \<Rightarrow> recurrentLimiter" where
  "success now username l =
     (if username = [] then l
      else (case map_of l username of
              None \<Rightarrow> l
            | Some e \<Rightarrow> if re_blockedUntil e = None \<or> lapsed now e then AList.delete username l else l))"


section \<open>The Basic arm\<close>

record login_env =
  le_now :: time
  le_ctxErr :: bool
  le_verify :: "string \<Rightarrow> string \<Rightarrow> bool"
  le_hash :: "string \<Rightarrow> string option"

record login_state =
  ls_db :: auth_db
  ls_recurrent :: "recurrentLimiter option"

definition VerifyPassword :: "login_env \<Rightarrow> string \<Rightarrow> string \<Rightarrow> auth_error + bool" where
  "VerifyPassword ev password encoded = (if le_ctxErr ev then Inl EGate else Inr (le_verify ev password encoded))"

definition token_fallback :: "digest \<Rightarrow> login_env \<Rightarrow> auth_db \<Rightarrow> string \<Rightarrow> string \<Rightarrow> auth_db \<times> (auth_error + Principal)" where
  "token_fallback H ev db username password =
     (case TokenVerifier_Verify H (le_now ev) db password of
        (db', Inl _) \<Rightarrow> (db', Inl EInvalid)
      | (db', Inr p) \<Rightarrow> if \<not> equal_fold username (p_Name p) then (db', Inl EInvalid) else (db', Inr p))"

definition authenticateBasicCredential ::
    "digest \<Rightarrow> login_env \<Rightarrow> auth_db \<Rightarrow> string \<Rightarrow> string \<Rightarrow> auth_db \<times> (auth_error + Principal)" where
  "authenticateBasicCredential H ev db username password =
     (case users_Get db username of
        Inl e \<Rightarrow> if e \<noteq> ErrUserNotFound then (db, Inl (EStore e)) else token_fallback H ev db username password
      | Inr u \<Rightarrow>
          if \<not> au_Enabled u then (db, Inl EInvalid)
          else if au_PasswordHash u = [] then (db, Inl EInvalid)
          else (case VerifyPassword ev password (au_PasswordHash u) of
                  Inl e \<Rightarrow> (db, Inl e)
                | Inr ok \<Rightarrow>
                    if ok then (db, Inr (newPrincipal (au_Username u) (au_Role u) ProviderLocal))
                    else token_fallback H ev db username password))"

definition authenticateBasic ::
    "digest \<Rightarrow> login_env \<Rightarrow> login_state \<Rightarrow> string \<Rightarrow> string \<Rightarrow> login_state \<times> (auth_error + Principal)" where
  "authenticateBasic H ev s username password =
     (let (l, wait) = (case ls_recurrent s of None \<Rightarrow> (None, 0)
                       | Some l \<Rightarrow> (case blockedRemaining (le_now ev) username l of (l', w) \<Rightarrow> (Some l', w)))
      in if wait > 0 then (s\<lparr>ls_recurrent := l\<rparr>, Inl (EBlocked wait))
         else (case authenticateBasicCredential H ev (ls_db s) username password of
                 (db', Inr p) \<Rightarrow>
                   (s\<lparr>ls_db := db', ls_recurrent := map_option (success (le_now ev) username) l\<rparr>, Inr p)
               | (db', Inl e) \<Rightarrow>
                   (s\<lparr>ls_db := db',
                      ls_recurrent := (if is_invalid_credentials e then map_option (failure (le_now ev) username) l else l)\<rparr>,
                    Inl e)))"

definition ChangePassword ::
    "login_env \<Rightarrow> auth_db \<Rightarrow> string \<Rightarrow> string \<Rightarrow> string \<Rightarrow> auth_db \<times> (auth_error + unit)" where
  "ChangePassword ev db username oldPassword newPassword =
     (case users_Get db username of
        Inl e \<Rightarrow> (db, Inl (if e = ErrUserNotFound then EInvalid else EStore e))
      | Inr u \<Rightarrow>
          (case VerifyPassword ev oldPassword (au_PasswordHash u) of
             Inl e \<Rightarrow> (db, Inl e)
           | Inr ok \<Rightarrow>
               if \<not> ok then (db, Inl EInvalid)
               else if newPassword = [] then (db, Inl EEmptyPassword)
               else if oldPassword = newPassword then (db, Inl ESamePassword)
               else (case le_hash ev newPassword of
                       None \<Rightarrow> (db, Inl EEntropy)
                     | Some h \<Rightarrow>
                         (case userStore_UpdatePassword db (format_rfc3339 (le_now ev)) username h of
                            Inl e \<Rightarrow> (db, Inl (EStore e))
                          | Inr db' \<Rightarrow> (db', Inr ())))))"


section \<open>Step-up grants\<close>

record stepUpGrant =
  sg_username :: string
  sg_sessionHash :: string
  sg_expiresAt :: time

type_synonym stepUpLedger = "(string \<times> stepUpGrant) list"

definition grantHash :: "digest \<Rightarrow> string \<Rightarrow> string" where
  "grantHash H grant = hex_digest H grant"

text \<open>The ledger is \<open>None\<close> on a service that was not built by \<open>New\<close>.\<close>

definition IssueStepUpGrant ::
    "digest \<Rightarrow> auth_env \<Rightarrow> stepUpLedger option \<Rightarrow> string \<Rightarrow> string \<Rightarrow> duration \<Rightarrow>
     stepUpLedger option \<times> (auth_error + string)" where
  "IssueStepUpGrant H ev ledger username sess ttl =
     (case ledger of
        None \<Rightarrow> (None, Inl EStepUp)
      | Some gs \<Rightarrow>
          if username = [] \<or> sess = [] then (ledger, Inl EStepUp)
          else if ttl \<le> 0 then (ledger, Inl EBadTTL)
          else (case ev_rand ev of
                  None \<Rightarrow> (ledger, Inl EEntropy)
                | Some buf \<Rightarrow>
                    (let grant = hex_bytes buf; now = ev_now ev;
                         swept = filter (\<lambda>x. \<not> now > sg_expiresAt (snd x)) gs
                     in (Some (AList.update (grantHash H grant)
                            \<lparr>sg_username = username, sg_sessionHash = sess, sg_expiresAt = now + ttl\<rparr> swept),
                         Inr grant))))"

definition ConsumeStepUpGrant ::
    "digest \<Rightarrow> time \<Rightarrow> stepUpLedger option \<Rightarrow> string \<Rightarrow> string \<Rightarrow> string \<Rightarrow> stepUpLedger option \<times> bool" where
  "ConsumeStepUpGrant H now ledger grant username sess =
     (case ledger of
        None \<Rightarrow> (None, False)
      | Some gs \<Rightarrow>
          if grant = [] then (ledger, False)
          else
            (let h = grantHash H grant; gs' = AList.delete h gs in
             case map_of gs h of
               None \<Rightarrow> (Some gs', False)
             | Some g \<Rightarrow>
                 if now > sg_expiresAt g then (Some gs', False)
                 else (Some gs', sg_username g = username \<and> sg_sessionHash g = sess)))"

text \<open>
  The password leg. The LDAP connector is a parameter: \<open>None\<close> when not wired or without a bind
  seam, otherwise the bind (its claims) and the lookup of a bound identity's row.
\<close>

type_synonym ldap_connector = "(string \<Rightarrow> string \<Rightarrow> Claims option) \<times> (string \<Rightarrow> ProviderUser option)"

definition verifyStepUpLDAPBind :: "ldap_connector option \<Rightarrow> string \<Rightarrow> string \<Rightarrow> auth_error option" where
  "verifyStepUpLDAPBind ldap username password =
     (case ldap of
        None \<Rightarrow> Some EStepUp
      | Some (bind, resolve) \<Rightarrow>
          (case bind username password of
             None \<Rightarrow> Some EStepUp
           | Some claims \<Rightarrow>
               if cl_ProviderID claims = [] then Some EStepUp
               else (case resolve (cl_ProviderID claims) of
                       None \<Rightarrow> Some EStepUp
                     | Some pu \<Rightarrow>
                         if \<not> equal_fold (pu_Username pu) username then Some EStepUp
                         else if \<not> pu_Enabled pu then Some EStepUp
                         else None)))"

definition VerifyStepUpPassword ::
    "login_env \<Rightarrow> ldap_connector option \<Rightarrow> auth_db \<Rightarrow> string \<Rightarrow> string \<Rightarrow> auth_error option" where
  "VerifyStepUpPassword ev ldap db username password =
     (if username = [] \<or> password = [] then Some EStepUp
      else (case users_Get db username of
              Inl _ \<Rightarrow> Some EStepUp
            | Inr u \<Rightarrow>
                if \<not> au_Enabled u then Some EStepUp
                else if au_Provider u = ProviderLocal then
                  (if au_PasswordHash u = [] then Some EStepUp
                   else (case VerifyPassword ev password (au_PasswordHash u) of
                           Inl _ \<Rightarrow> Some EStepUp
                         | Inr ok \<Rightarrow> if \<not> ok then Some EStepUp else None))
                else if au_Provider u = ProviderLDAP then verifyStepUpLDAPBind ldap username password
                else Some EStepUp))"


section \<open>Blocks hold and lapse\<close>

definition limiter_ok :: "recurrentLimiter \<Rightarrow> bool" where
  "limiter_ok l \<longleftrightarrow> distinct (map fst l) \<and> (\<forall>x\<in>set l. re_failures (snd x) < recurrentFailureThreshold)"

datatype limiter_op = Blocked_query string | Failed string | Succeeded string

fun limiter_step :: "time \<times> limiter_op \<Rightarrow> recurrentLimiter \<Rightarrow> recurrentLimiter" where
  "limiter_step (now, Blocked_query u) l = fst (blockedRemaining now u l)"
| "limiter_step (now, Failed u) l = failure now u l"
| "limiter_step (now, Succeeded u) l = success now u l"

definition run_limiter :: "(time \<times> limiter_op) list \<Rightarrow> recurrentLimiter \<Rightarrow> recurrentLimiter" where
  "run_limiter ops l = fold limiter_step ops l"

lemma evict_subset: "set (evictCounters n l) \<subseteq> set l"
  by (induction n l rule: evictCounters.induct) auto

lemma evict_distinct: "distinct (map fst l) \<Longrightarrow> distinct (map fst (evictCounters n l))"
proof (induction n l rule: evictCounters.induct)
  case (2 n u e es)
  have "u \<notin> fst ` set (evictCounters n es)" using "2.prems" evict_subset [of n es] by auto
  with 2 show ?case by simp
qed simp

lemma evict_keeps_blocks: "(u, e) \<in> set l \<Longrightarrow> re_blockedUntil e \<noteq> None \<Longrightarrow> (u, e) \<in> set (evictCounters n l)"
  by (induction n l rule: evictCounters.induct) auto

lemma evict_bound:
  "n = k + length l \<Longrightarrow> k + length (evictCounters n l) < recurrentSweepSize
     \<or> (\<forall>x\<in>set (evictCounters n l). re_blockedUntil (snd x) \<noteq> None)"
proof (induction n l arbitrary: k rule: evictCounters.induct)
  case (2 n u e es)
  show ?case
  proof (cases "n < recurrentSweepSize \<or> re_blockedUntil e = None")
    case True
    with 2 show ?thesis by auto
  next
    case False
    with "2.IH"(2) [of "Suc k"] "2.prems" show ?thesis by auto
  qed
qed simp

lemma sweep_ok: "limiter_ok l \<Longrightarrow> limiter_ok (sweepLocked now l)"
  using evict_subset by (fastforce simp: limiter_ok_def sweepLocked_def Let_def evict_distinct distinct_map_filter')

lemma sweep_keeps_block:
  assumes "limiter_ok l" "map_of l u = Some e" "re_blockedUntil e = Some d" "now < d"
  shows "map_of (sweepLocked now l) u = Some e"
proof -
  have "(u, e) \<in> set (filter (\<lambda>x. \<not> lapsed now (snd x)) l)"
    using assms(2-4) by (auto simp: lapsed_def dest: map_of_SomeD)
  then have "(u, e) \<in> set (sweepLocked now l)"
    using assms(3) by (simp add: sweepLocked_def Let_def evict_keeps_blocks)
  moreover have "distinct (map fst (sweepLocked now l))" using sweep_ok [OF assms(1)] by (simp add: limiter_ok_def)
  ultimately show ?thesis by (simp add: map_of_is_SomeI)
qed

lemma update_ok:
  assumes "limiter_ok l" "re_failures e < recurrentFailureThreshold"
  shows "limiter_ok (AList.update u e l)"
proof -
  have "set (AList.update u e l) \<subseteq> insert (u, e) (set l)" by (induction l) auto
  with assms show ?thesis by (auto simp: limiter_ok_def distinct_update)
qed

lemma delete_ok: "limiter_ok l \<Longrightarrow> limiter_ok (AList.delete u l)"
  by (auto simp: limiter_ok_def distinct_delete AList.delete_eq distinct_map_filter')

text \<open>What one failure does to the entry of its user.\<close>

definition old_entry :: "recurrentLimiter \<Rightarrow> string \<Rightarrow> recurrentEntry" where
  "old_entry l u = (case map_of l u of None \<Rightarrow> \<lparr>re_failures = 0, re_blockedUntil = None\<rparr> | Some e \<Rightarrow> e)"

definition bumped :: "time \<Rightarrow> recurrentEntry \<Rightarrow> recurrentEntry" where
  "bumped now old =
     (if re_failures old + 1 \<ge> recurrentFailureThreshold
      then \<lparr>re_failures = 0, re_blockedUntil = Some (now + recurrentFailureWindow)\<rparr>
      else old\<lparr>re_failures := re_failures old + 1\<rparr>)"

definition armed :: "time \<Rightarrow> recurrentEntry \<Rightarrow> bool" where
  "armed now e = (case re_blockedUntil e of None \<Rightarrow> False | Some d \<Rightarrow> now < d)"

lemma failure_cases:
  "failure now u l =
     (if u = [] \<or> armed now (old_entry l u) then l
      else (let l' = AList.update u (bumped now (old_entry l u)) l
            in if length l' \<ge> recurrentSweepSize then sweepLocked now l' else l'))"
  by (simp add: failure_def old_entry_def bumped_def armed_def Let_def)

lemma bumped_failures: "re_failures (bumped now old) < recurrentFailureThreshold"
  by (simp add: bumped_def recurrentFailureThreshold_def)

lemma failure_ok: "limiter_ok l \<Longrightarrow> limiter_ok (failure now u l)"
  by (simp add: failure_cases Let_def sweep_ok update_ok bumped_failures)

lemma limiter_step_ok: "limiter_ok l \<Longrightarrow> limiter_ok (limiter_step x l)"
  by (cases "(x, l)" rule: limiter_step.cases)
    (auto simp: blockedRemaining_def success_def failure_ok delete_ok split: option.splits)

definition blocked_until :: "recurrentLimiter \<Rightarrow> string \<Rightarrow> time \<Rightarrow> bool" where
  "blocked_until l u d \<longleftrightarrow> (\<exists>e. map_of l u = Some e \<and> re_blockedUntil e = Some d)"

text \<open>Before its deadline no operation, on whatever user, touches a block.\<close>

lemma failure_keeps_block:
  assumes "limiter_ok l" "blocked_until l u d" "now < d"
  shows "blocked_until (failure now v l) u d"
proof -
  obtain e where e: "map_of l u = Some e" "re_blockedUntil e = Some d" using assms(2) by (auto simp: blocked_until_def)
  show ?thesis
  proof (cases "v = [] \<or> armed now (old_entry l v)")
    case False
    then have "u \<noteq> v" using e assms(3) by (auto simp: old_entry_def armed_def)
    let ?l = "AList.update v (bumped now (old_entry l v)) l"
    have ok: "limiter_ok ?l" by (rule update_ok [OF assms(1) bumped_failures])
    have "map_of ?l u = Some e" using e(1) \<open>u \<noteq> v\<close> by (simp add: update_conv)
    moreover have "map_of (sweepLocked now ?l) u = Some e"
      using sweep_keeps_block [OF ok \<open>map_of ?l u = Some e\<close> e(2) assms(3)] .
    ultimately show ?thesis using False e(2) by (auto simp: failure_cases Let_def blocked_until_def)
  qed (use assms(2) in \<open>simp add: failure_cases\<close>)
qed

lemma step_keeps_block:
  assumes "limiter_ok l" "blocked_until l u d" "fst x < d"
  shows "blocked_until (limiter_step x l) u d"
proof (cases "(x, l)" rule: limiter_step.cases)
  case (1 now v l')
  then show ?thesis
    using assms by (cases "v = u") (auto simp: blockedRemaining_def blocked_until_def delete_conv split: option.splits)
next
  case (2 now v l')
  then show ?thesis using failure_keeps_block assms by auto
next
  case (3 now v l')
  then show ?thesis
    using assms by (cases "v = u") (auto simp: success_def blocked_until_def delete_conv lapsed_def split: option.splits)
qed

lemma run_keeps_block:
  assumes "limiter_ok l" "blocked_until l u d" "\<forall>x\<in>set ops. fst x < d"
  shows "limiter_ok (run_limiter ops l) \<and> blocked_until (run_limiter ops l) u d"
  using assms
proof (induction ops arbitrary: l)
  case (Cons x ops)
  then have "limiter_ok (limiter_step x l)" "blocked_until (limiter_step x l) u d"
    by (auto intro: limiter_step_ok step_keeps_block)
  with Cons show ?case by (simp add: run_limiter_def)
qed (simp add: run_limiter_def)

lemma failure_arms:
  assumes "limiter_ok l" "u \<noteq> []" "map_of l u = Some \<lparr>re_failures = 1, re_blockedUntil = None\<rparr>"
  shows "blocked_until (failure now u l) u (now + recurrentFailureWindow)"
proof -
  have o: "\<not> armed now (old_entry l u)" using assms(3) by (simp add: old_entry_def armed_def)
  let ?e = "\<lparr>re_failures = 0, re_blockedUntil = Some (now + recurrentFailureWindow)\<rparr>"
  have b: "bumped now (old_entry l u) = ?e"
    using assms(3) by (simp add: old_entry_def bumped_def recurrentFailureThreshold_def)
  have "limiter_ok (AList.update u ?e l)" using update_ok [OF assms(1)] by (simp add: recurrentFailureThreshold_def)
  moreover have "map_of (AList.update u ?e l) u = Some ?e" by (simp add: update_conv)
  moreover have "now < now + recurrentFailureWindow" by (simp add: recurrentFailureWindow_def duration_defs)
  ultimately have "map_of (sweepLocked now (AList.update u ?e l)) u = Some ?e"
    using sweep_keeps_block by (metis recurrentEntry.select_convs(2))
  then show ?thesis
    using assms(2) \<open>map_of (AList.update u ?e l) u = Some ?e\<close>
    by (auto simp: failure_cases o b Let_def blocked_until_def)
qed

lemma blocked_answer:
  assumes "blocked_until l u d" "u \<noteq> []" "t < d"
  shows "blockedRemaining t u l = (l, d - t)"
  using assms by (auto simp: blocked_until_def blockedRemaining_def)

text \<open>
  C36: A second consecutive bad password arms a block that holds. After the failure that reaches
  the threshold, whatever operations the breaker sees for any user before the deadline four
  seconds later (queries, further failures, successes, sweeps), every attempt of that user before
  the deadline is refused as blocked with the remaining time, for any password and without
  looking at the stores; the seconds it names are between one and four.
\<close>

theorem block_holds:
  assumes "limiter_ok l" "u \<noteq> []" "map_of l u = Some \<lparr>re_failures = 1, re_blockedUntil = None\<rparr>"
    and "\<forall>x\<in>set ops. fst x < now + recurrentFailureWindow"
    and "ls_recurrent s = Some (run_limiter ops (failure now u l))"
    and "now \<le> le_now ev" "le_now ev < now + recurrentFailureWindow"
  shows "authenticateBasic H ev s u password = (s, Inl (EBlocked (now + recurrentFailureWindow - le_now ev))) \<and>
    1 \<le> blockedSeconds (now + recurrentFailureWindow - le_now ev) \<and>
    blockedSeconds (now + recurrentFailureWindow - le_now ev) \<le> 4"
proof -
  let ?d = "now + recurrentFailureWindow" and ?l = "run_limiter ops (failure now u l)"
  have "blocked_until ?l u ?d"
    using run_keeps_block [OF failure_ok [OF assms(1)] failure_arms [OF assms(1-3)] assms(4)] by blast
  then have "blockedRemaining (le_now ev) u ?l = (?l, ?d - le_now ev)"
    using blocked_answer [OF _ assms(2,7)] by blast
  then have "authenticateBasic H ev s u password = (s, Inl (EBlocked (?d - le_now ev)))"
    using assms(5,7) by (simp add: authenticateBasic_def Let_def)
  moreover have "0 < ?d - le_now ev" "?d - le_now ev \<le> 4 * second"
    using assms(6,7) by (simp_all add: recurrentFailureWindow_def)
  then have "1 \<le> blockedSeconds (?d - le_now ev)" "blockedSeconds (?d - le_now ev) \<le> 4"
    by (auto simp: blockedSeconds_def duration_defs)
  ultimately show ?thesis by blast
qed

definition demo_login :: "time \<Rightarrow> login_env" where
  "demo_login t = \<lparr>le_now = t, le_ctxErr = False, le_verify = (\<lambda>p h. p = h), le_hash = Some\<rparr>"

theorem block_holds_witness:
  "snd (authenticateBasic demo_hash (demo_login (3 * second))
      \<lparr>ls_db = seeded_db, ls_recurrent = Some (run_limiter [(second, Succeeded ''admin''), (second, Failed ''eve'')]
         (failure 0 ''admin'' [(''admin'', \<lparr>re_failures = 1, re_blockedUntil = None\<rparr>)]))\<rparr> ''admin'' ''h'')
   = Inl (EBlocked second)"
proof -
  have "limiter_ok [(''admin'', \<lparr>re_failures = 1, re_blockedUntil = None\<rparr>)]"
    by (simp add: limiter_ok_def recurrentFailureThreshold_def)
  note * = block_holds [OF this, of "''admin''" "[(second, Succeeded ''admin''), (second, Failed ''eve'')]" 0
      _ "demo_login (3 * second)" demo_hash "''h''"]
  show ?thesis
    by (subst * [THEN conjunct1]) (simp_all add: demo_login_def recurrentFailureWindow_def duration_defs)
qed

text \<open>
  C37: Blocks lapse and the breaker stays small. At the deadline or later the block no longer
  answers and its entry is forgotten, so the next failure starts a fresh count; and after every
  recorded failure the breaker holds fewer than 4096 entries, or nothing but blocks that are still
  running, or (when the failing user was already blocked) exactly what it held before.
\<close>

theorem block_lapses:
  assumes "limiter_ok l" "blocked_until l u d" "u \<noteq> []"
  shows "(d \<le> t \<longrightarrow> snd (blockedRemaining t u l) = 0 \<and> map_of (fst (blockedRemaining t u l)) u = None) \<and>
    (let l' = failure t v l in
       l' = l \<or> length l' < recurrentSweepSize \<or> (\<forall>x\<in>set l'. armed t (snd x)))"
proof (intro conjI impI)
  assume "d \<le> t"
  then show "snd (blockedRemaining t u l) = 0" "map_of (fst (blockedRemaining t u l)) u = None"
    using assms(2,3) by (auto simp: blocked_until_def blockedRemaining_def delete_conv)
next
  let ?l = "AList.update v (bumped t (old_entry l v)) l"
  let ?live = "filter (\<lambda>x. \<not> lapsed t (snd x)) ?l"
  have "length (sweepLocked t ?l) < recurrentSweepSize \<or> (\<forall>x\<in>set (sweepLocked t ?l). re_blockedUntil (snd x) \<noteq> None)"
    using evict_bound [of "length ?live" 0 ?live] by (simp add: sweepLocked_def Let_def)
  moreover have "\<not> lapsed t (snd x)" if "x \<in> set (sweepLocked t ?l)" for x
    using that evict_subset [of "length ?live" ?live] by (auto simp: sweepLocked_def Let_def)
  moreover have "armed t e" if "re_blockedUntil e \<noteq> None" "\<not> lapsed t e" for e
    using that by (auto simp: armed_def lapsed_def)
  ultimately show "let l' = failure t v l in l' = l \<or> length l' < recurrentSweepSize \<or> (\<forall>x\<in>set l'. armed t (snd x))"
    by (auto simp: failure_cases Let_def)
qed

theorem block_lapses_witness:
  "snd (blockedRemaining (5 * second) ''admin'' [(''admin'', \<lparr>re_failures = 0, re_blockedUntil = Some (4 * second)\<rparr>)]) = 0"
proof -
  let ?l = "[(''admin'', \<lparr>re_failures = 0, re_blockedUntil = Some (4 * second)\<rparr>)]"
  have "limiter_ok ?l" "blocked_until ?l ''admin'' (4 * second)" "4 * second \<le> 5 * second"
    by (simp_all add: limiter_ok_def recurrentFailureThreshold_def blocked_until_def duration_defs)
  then show ?thesis using block_lapses [of ?l "''admin''" "4 * second" "5 * second" "[]"] by blast
qed


section \<open>Grants are spent once\<close>

datatype ledger_op =
    Issue_grant auth_env string string duration
  | Consume_grant time string string string

fun ledger_step :: "digest \<Rightarrow> ledger_op \<Rightarrow> stepUpLedger option \<Rightarrow> stepUpLedger option" where
  "ledger_step H (Issue_grant ev u sess ttl) g = fst (IssueStepUpGrant H ev g u sess ttl)"
| "ledger_step H (Consume_grant now x u sess) g = fst (ConsumeStepUpGrant H now g x u sess)"

definition run_ledger :: "digest \<Rightarrow> ledger_op list \<Rightarrow> stepUpLedger option \<Rightarrow> stepUpLedger option" where
  "run_ledger H ops g = fold (ledger_step H) ops g"

text \<open>The operation mints no grant with the digest \<open>h\<close>.\<close>

fun mints_other :: "digest \<Rightarrow> string \<Rightarrow> ledger_op \<Rightarrow> bool" where
  "mints_other H h (Issue_grant ev u sess ttl) =
     (case ev_rand ev of None \<Rightarrow> True | Some buf \<Rightarrow> grantHash H (hex_bytes buf) \<noteq> h)"
| "mints_other H h (Consume_grant now x u sess) = True"

definition ledger_entry :: "stepUpLedger option \<Rightarrow> string \<Rightarrow> stepUpGrant option" where
  "ledger_entry g h = (case g of None \<Rightarrow> None | Some gs \<Rightarrow> map_of gs h)"

lemma map_of_filter_None: "map_of xs k = None \<Longrightarrow> map_of (filter P xs) k = None"
  by (auto simp: map_of_eq_None_iff)

lemma ledger_step_absent:
  assumes "mints_other H h op" "ledger_entry g h = None"
  shows "ledger_entry (ledger_step H op g) h = None"
proof (cases op)
  case (Issue_grant ev u sess ttl)
  with assms show ?thesis
    by (auto simp: ledger_entry_def IssueStepUpGrant_def Let_def update_conv map_of_filter_None split: option.splits)
next
  case (Consume_grant now x u sess)
  with assms show ?thesis
    by (auto simp: ledger_entry_def ConsumeStepUpGrant_def Let_def delete_conv split: option.splits)
qed

lemma run_ledger_absent:
  "list_all (mints_other H h) ops \<Longrightarrow> ledger_entry g h = None \<Longrightarrow> ledger_entry (run_ledger H ops g) h = None"
proof (induction ops arbitrary: g)
  case (Cons op ops)
  then show ?case using ledger_step_absent [of H h op g] by (simp add: run_ledger_def)
qed (simp add: run_ledger_def)

lemma consume_burns: "x \<noteq> [] \<Longrightarrow> ledger_entry (fst (ConsumeStepUpGrant H now g x u sess)) (grantHash H x) = None"
  by (auto simp: ledger_entry_def ConsumeStepUpGrant_def Let_def delete_conv split: option.splits)

text \<open>
  C38: A mint grant is spent by being shown. A consumption succeeds only for the user and the
  session the ledger holds for that grant and not after its expiry; and after any attempt with
  the grant's value, successful or not, no later attempt with it succeeds, for any user, session
  and time and after any other operations, unless a grant of the same digest is minted again.
\<close>

theorem grant_single_use:
  assumes "x \<noteq> []" "list_all (mints_other H (grantHash H x)) ops"
  shows "(snd (ConsumeStepUpGrant H now g x u sess) \<longleftrightarrow>
      (\<exists>e. ledger_entry g (grantHash H x) = Some e \<and> \<not> now > sg_expiresAt e \<and> sg_username e = u \<and> sg_sessionHash e = sess)) \<and>
    \<not> snd (ConsumeStepUpGrant H now' (run_ledger H ops (fst (ConsumeStepUpGrant H now g x u sess))) x u' sess')"
proof -
  have iff: "snd (ConsumeStepUpGrant H t g' x v w) \<longleftrightarrow>
      (\<exists>e. ledger_entry g' (grantHash H x) = Some e \<and> \<not> t > sg_expiresAt e \<and> sg_username e = v \<and> sg_sessionHash e = w)"
    for t g' v w
    using assms(1) by (auto simp: ConsumeStepUpGrant_def ledger_entry_def Let_def split: option.splits)
  show ?thesis
    unfolding iff using run_ledger_absent [OF assms(2) consume_burns [OF assms(1)]] by simp
qed

theorem grant_single_use_witness:
  "(let g = fst (IssueStepUpGrant demo_hash demo_env (Some []) ''bob'' ''s'' second) in
    snd (ConsumeStepUpGrant demo_hash 0 g (hex_bytes ''k'') ''bob'' ''s'')) \<and>
   \<not> snd (ConsumeStepUpGrant demo_hash 0 (run_ledger demo_hash []
       (fst (ConsumeStepUpGrant demo_hash 0 (fst (IssueStepUpGrant demo_hash demo_env (Some []) ''bob'' ''s'' second))
          (hex_bytes ''k'') ''bob'' ''s''))) (hex_bytes ''k'') ''bob'' ''s'')"
proof -
  let ?g = "fst (IssueStepUpGrant demo_hash demo_env (Some []) ''bob'' ''s'' second)"
  have "ledger_entry ?g (grantHash demo_hash (hex_bytes ''k'')) =
      Some \<lparr>sg_username = ''bob'', sg_sessionHash = ''s'', sg_expiresAt = second\<rparr>"
    by (simp add: IssueStepUpGrant_def demo_env_def Let_def ledger_entry_def duration_defs)
  then show ?thesis
    using grant_single_use [of "hex_bytes ''k''" demo_hash "[]" 0 ?g "''bob''" "''s''" 0 "''bob''" "''s''"]
      hex_bytes_nonempty [of "''k''"] by (simp add: Let_def duration_defs)
qed

end
