(* ===== verification/Sched_Cron.thy ===== *)
theory Sched_Cron
  imports GoTime
begin

text \<open>
  The cron domain of the scheduler: \<open>internal/scheduler/cron.go\<close> (the parser of the Quartz
  subset) and \<open>internal/scheduler/next.go\<close> (the next-run calculator).

  Expressions are byte strings; \<open>strings.Fields\<close> and \<open>strings.ToUpper\<close> are the ASCII ones of the
  prelude. Go's \<open>int\<close> has 64 bits, and the expansion loop of a stepped element adds with
  wrap-around, so the values of a field are integers and the addition is \<open>add64\<close>. A rejection
  keeps the field, the field's text and the reason that the Go error message spells out.

  The calculator works on the number of seconds since 0001-01-01T00:00:00Z; \<open>date_seconds\<close> is
  \<open>time.Date(..., time.UTC)\<close> on that scale and normalizes an overflowing month, day, hour, minute
  or second the way Go does. An instant before the year 1 reads as the year 1; the first step of
  the search leaves both for the same first allowed year.
\<close>


section \<open>Fields\<close>

definition MaxExprLen :: nat where "MaxExprLen = 256"
definition minYear :: int where "minYear = 1970"
definition maxYear :: int where "maxYear = 2099"

record fieldSpec =
  fs_values :: "int list"
  fs_unset :: bool
  fs_lastDOM :: bool
  fs_lastDOW :: bool

record Parsed =
  pc_sec :: fieldSpec
  pc_min :: fieldSpec
  pc_hour :: fieldSpec
  pc_dom :: fieldSpec
  pc_month :: fieldSpec
  pc_dow :: fieldSpec
  pc_year :: fieldSpec

definition monthNames :: "(string \<times> int) list" where
  "monthNames = [(''JAN'', 1), (''FEB'', 2), (''MAR'', 3), (''APR'', 4), (''MAY'', 5), (''JUN'', 6),
     (''JUL'', 7), (''AUG'', 8), (''SEP'', 9), (''OCT'', 10), (''NOV'', 11), (''DEC'', 12)]"

definition dowNames :: "(string \<times> int) list" where
  "dowNames = [(''SUN'', 1), (''MON'', 2), (''TUE'', 3), (''WED'', 4), (''THU'', 5), (''FRI'', 6),
     (''SAT'', 7)]"

record fieldDef =
  fd_name :: string
  fd_lo :: int
  fd_hi :: int
  fd_names :: "(string \<times> int) list option"
  fd_question :: bool
  fd_l :: bool

definition plain_field :: "string \<Rightarrow> int \<Rightarrow> int \<Rightarrow> fieldDef" where
  "plain_field n lo hi =
     \<lparr>fd_name = n, fd_lo = lo, fd_hi = hi, fd_names = None, fd_question = False, fd_l = False\<rparr>"

definition fieldDefs :: "fieldDef list" where
  "fieldDefs =
    [plain_field ''seconds'' 0 59,
     plain_field ''minutes'' 0 59,
     plain_field ''hours'' 0 23,
     (plain_field ''day-of-month'' 1 31)\<lparr>fd_question := True, fd_l := True\<rparr>,
     (plain_field ''month'' 1 12)\<lparr>fd_names := Some monthNames\<rparr>,
     (plain_field ''day-of-week'' 1 7)\<lparr>fd_names := Some dowNames, fd_question := True, fd_l := True\<rparr>,
     plain_field ''year'' minYear maxYear]"

datatype cron_reason =
    QuestionOutsideDays | WeekdayOutOfRange int | LWUnsupported | LOffsetUnsupported | LInList
  | BareLInWeekday | UnsupportedL | EmptyListElement | NoValues | NthWeekday | NearestWeekday
  | LOutsideDays | MultipleSteps | StepNotPositive | MalformedRange | ValueOutOfRange int
  | UnknownName string | NamesNotAccepted | NotAValue string | MixedRange | InvertedRange int int

datatype cron_error =
    EmptyExpr | ExprTooLong | WrongFieldCount nat | BothDaysSpecified | BothDaysUnset
  | BadField string string cron_reason


section \<open>The parser\<close>

definition isAlpha :: "string \<Rightarrow> bool" where
  "isAlpha s \<longleftrightarrow> list_all (\<lambda>c. is_lower_alpha c \<or> is_upper_alpha c) s \<and> s \<noteq> []"

definition parseValue :: "string \<Rightarrow> fieldDef \<Rightarrow> cron_reason + (int \<times> bool)" where
  "parseValue tok d =
     (case parse_int tok of
        Inr n \<Rightarrow> if n < fd_lo d \<or> n > fd_hi d then Inl (ValueOutOfRange n) else Inr (n, False)
      | Inl _ \<Rightarrow>
          (case fd_names d of
             Some names \<Rightarrow>
               (case map_of names (to_upper tok) of
                  Some n \<Rightarrow> Inr (n, True)
                | None \<Rightarrow> Inl (UnknownName tok))
           | None \<Rightarrow> if isAlpha tok then Inl NamesNotAccepted else Inl (NotAValue tok)))"

definition parse_step :: "string list \<Rightarrow> cron_reason + int" where
  "parse_step stepParts =
     (case stepParts of
        [_, s] \<Rightarrow>
          (case parse_int s of
             Inr n \<Rightarrow> if n < 1 then Inl StepNotPositive else Inr n
           | Inl _ \<Rightarrow> Inl StepNotPositive)
      | _ \<Rightarrow> Inr 1)"

definition parse_span :: "string \<Rightarrow> bool \<Rightarrow> fieldDef \<Rightarrow> cron_reason + (int \<times> int)" where
  "parse_span rangePart stepped d =
     (if rangePart = ''*'' \<or> rangePart = [] then Inr (fd_lo d, fd_hi d)
      else if CHR ''-'' \<in> set rangePart then
        (case split_on (CHR ''-'') rangePart of
           [a, b] \<Rightarrow>
             (case parseValue a d of
                Inl r \<Rightarrow> Inl r
              | Inr (alo, aname) \<Rightarrow>
                  (case parseValue b d of
                     Inl r \<Rightarrow> Inl r
                   | Inr (bhi, bname) \<Rightarrow>
                       if aname \<noteq> bname then Inl MixedRange
                       else if alo > bhi then Inl (InvertedRange alo bhi)
                       else Inr (alo, bhi)))
         | _ \<Rightarrow> Inl MalformedRange)
      else
        (case parseValue rangePart d of
           Inl r \<Rightarrow> Inl r
         | Inr (v, _) \<Rightarrow> Inr (v, if stepped then fd_hi d else v)))"

definition is_atoi :: "string \<Rightarrow> bool" where
  "is_atoi s = (case parse_int s of Inr _ \<Rightarrow> True | Inl _ \<Rightarrow> False)"

definition parseElement :: "string \<Rightarrow> fieldDef \<Rightarrow> cron_reason + (int \<times> int \<times> int)" where
  "parseElement el d =
     (if CHR ''#'' \<in> set el then Inl NthWeekday
      else if has_suffix el ''W'' \<and> trim_suffix el ''W'' = ''L'' then Inl LWUnsupported
      else if has_suffix el ''W'' \<and> is_atoi (trim_suffix el ''W'') then Inl NearestWeekday
      else if has_prefix el ''L-'' then Inl LOffsetUnsupported
      else if \<not> fd_l d \<and> fd_names d = None \<and> has_suffix el ''L'' then Inl LOutsideDays
      else if fd_l d \<and> has_suffix el ''L'' then Inl LInList
      else
        (let stepParts = split_on (CHR ''/'') el in
         if length stepParts > 2 then Inl MultipleSteps
         else
           (case parse_step stepParts of
              Inl r \<Rightarrow> Inl r
            | Inr step \<Rightarrow>
                (case parse_span (hd stepParts) (length stepParts = 2) d of
                   Inl r \<Rightarrow> Inl r
                 | Inr (lo, hi) \<Rightarrow> Inr (lo, hi, step)))))"

text \<open>
  \<open>for v := lo; v <= hi; v += step\<close>. A step close to \<open>2\<^sup>6\<^sup>3\<close> makes the sum wrap to a negative value,
  and the loop goes on from there. The fuel counts iterations; \<open>None\<close> means it ran out, which
  \<open>expand_total\<close> below excludes for the fuel the parser passes.
\<close>

definition add64 :: "int \<Rightarrow> int \<Rightarrow> int" where
  "add64 a b = (a + b + 2 ^ 63) mod 2 ^ 64 - 2 ^ 63"

fun expand :: "nat \<Rightarrow> int \<Rightarrow> int \<Rightarrow> int \<Rightarrow> int list option" where
  "expand 0 v hi step = None"
| "expand (Suc f) v hi step =
     (if v \<le> hi then map_option (\<lambda>vs. v # vs) (expand f (add64 v step) hi step) else Some [])"

definition expand_fuel :: "int \<Rightarrow> nat" where
  "expand_fuel hi = nat (hi + 4)"

fun parse_elements :: "string list \<Rightarrow> fieldDef \<Rightarrow> cron_reason + int list" where
  "parse_elements [] d = Inr []"
| "parse_elements (el # els) d =
     (if el = [] then Inl EmptyListElement
      else
        (case parseElement el d of
           Inl r \<Rightarrow> Inl r
         | Inr (lo, hi, step) \<Rightarrow>
             (case parse_elements els d of
                Inl r \<Rightarrow> Inl r
              | Inr vs \<Rightarrow> Inr (the (expand (expand_fuel hi) lo hi step) @ vs))))"

fun dedup_sorted :: "int \<Rightarrow> int list \<Rightarrow> int list" where
  "dedup_sorted l [] = []"
| "dedup_sorted l (v # vs) = (if v \<noteq> l then v # dedup_sorted v vs else dedup_sorted l vs)"

definition sortedUnique :: "int list \<Rightarrow> int list" where
  "sortedUnique values =
     (case sort values of [] \<Rightarrow> [] | v # vs \<Rightarrow> v # dedup_sorted v vs)"

definition value_set :: "int list \<Rightarrow> fieldSpec" where
  "value_set vs = \<lparr>fs_values = vs, fs_unset = False, fs_lastDOM = False, fs_lastDOW = False\<rparr>"

definition unset_spec :: fieldSpec where
  "unset_spec = (value_set [])\<lparr>fs_unset := True\<rparr>"

definition parse_l :: "string \<Rightarrow> fieldDef \<Rightarrow> cron_reason + fieldSpec" where
  "parse_l txt d =
     (if txt = ''L'' \<and> fd_name d = ''day-of-month'' then Inr ((value_set [fd_hi d])\<lparr>fs_lastDOM := True\<rparr>)
      else
        (let reject =
           (if txt = ''LW'' then LWUnsupported
            else if has_prefix txt ''L-'' then LOffsetUnsupported
            else if CHR '','' \<in> set txt then LInList
            else if txt = ''L'' \<and> fd_name d = ''day-of-week'' then BareLInWeekday
            else UnsupportedL)
         in if fd_name d = ''day-of-week'' \<and> txt \<noteq> ''L'' then
              (case parse_int (trim_suffix txt ''L'') of
                 Inr n \<Rightarrow> if n < fd_lo d \<or> n > fd_hi d then Inl (WeekdayOutOfRange n)
                          else Inr ((value_set [n])\<lparr>fs_lastDOW := True\<rparr>)
               | Inl _ \<Rightarrow> Inl reject)
            else Inl reject))"

definition parseField :: "string \<Rightarrow> fieldDef \<Rightarrow> cron_reason + fieldSpec" where
  "parseField txt d =
     (if txt = ''?'' then (if \<not> fd_question d then Inl QuestionOutsideDays else Inr unset_spec)
      else if fd_l d \<and> has_suffix txt ''L'' then parse_l txt d
      else
        (case parse_elements (split_on (CHR '','') txt) d of
           Inl r \<Rightarrow> Inl r
         | Inr vs \<Rightarrow> if vs = [] then Inl NoValues else Inr (value_set (sortedUnique vs))))"

definition fullRange :: "fieldDef \<Rightarrow> fieldSpec" where
  "fullRange d = value_set [fd_lo d..fd_hi d]"

fun parse_fields :: "string list \<Rightarrow> fieldDef list \<Rightarrow> cron_error + fieldSpec list" where
  "parse_fields (t # ts) (d # ds) =
     (case parseField t d of
        Inl r \<Rightarrow> Inl (BadField (fd_name d) t r)
      | Inr spec \<Rightarrow>
          (case parse_fields ts ds of Inl e \<Rightarrow> Inl e | Inr specs \<Rightarrow> Inr (spec # specs)))"
| "parse_fields _ _ = Inr []"

definition assemble :: "fieldSpec list \<Rightarrow> Parsed" where
  "assemble out =
     \<lparr>pc_sec = out ! 0, pc_min = out ! 1, pc_hour = out ! 2, pc_dom = out ! 3, pc_month = out ! 4,
      pc_dow = out ! 5, pc_year = out ! 6\<rparr>"

definition Parse :: "string \<Rightarrow> cron_error + Parsed" where
  "Parse expr =
     (if expr = [] then Inl EmptyExpr
      else if length expr > MaxExprLen then Inl ExprTooLong
      else
        (let parts = GoPrelude.fields expr in
         if length parts < 6 \<or> length parts > 7 then Inl (WrongFieldCount (length parts))
         else
           (case parse_fields parts fieldDefs of
              Inl e \<Rightarrow> Inl e
            | Inr specs \<Rightarrow>
                (let out = (if length parts = 6 then specs @ [fullRange (fieldDefs ! 6)] else specs) in
                 if \<not> fs_unset (out ! 3) \<and> \<not> fs_unset (out ! 5) then Inl BothDaysSpecified
                 else if fs_unset (out ! 3) \<and> fs_unset (out ! 5) then Inl BothDaysUnset
                 else Inr (assemble out)))))"


section \<open>The calculator\<close>

text \<open>\<open>time.Date(y, m, d, h, mi, s, 0, time.UTC)\<close> in seconds since the year 1.\<close>

definition date_days :: "nat \<Rightarrow> nat \<Rightarrow> nat \<Rightarrow> nat" where
  "date_days y m d =
     (let y' = y + (m - 1) div 12; m' = (m - 1) mod 12 + 1
      in days_before_year y' + days_before_month y' m' + d - 1)"

definition date_seconds :: "nat \<Rightarrow> nat \<Rightarrow> nat \<Rightarrow> nat \<Rightarrow> nat \<Rightarrow> nat \<Rightarrow> nat" where
  "date_seconds y m d h mi s = 86400 * date_days y m d + 3600 * h + 60 * mi + s"

definition t_civil :: "nat \<Rightarrow> civil_date" where "t_civil t = civil_of_days (t div 86400)"
definition t_year :: "nat \<Rightarrow> nat" where "t_year t = fst (t_civil t)"
definition t_month :: "nat \<Rightarrow> nat" where "t_month t = fst (snd (t_civil t))"
definition t_day :: "nat \<Rightarrow> nat" where "t_day t = snd (snd (t_civil t))"
definition t_hour :: "nat \<Rightarrow> nat" where "t_hour t = t mod 86400 div 3600"
definition t_minute :: "nat \<Rightarrow> nat" where "t_minute t = t mod 3600 div 60"
definition t_second :: "nat \<Rightarrow> nat" where "t_second t = t mod 60"

text \<open>\<open>Weekday\<close>, 0 for Sunday; 0001-01-01 is a Monday.\<close>

definition t_weekday :: "nat \<Rightarrow> nat" where "t_weekday t = (t div 86400 + 1) mod 7"

definition lastSearch :: nat where "lastSearch = date_seconds (nat maxYear + 1) 1 1 0 0 0"

definition nextFrom :: "fieldSpec \<Rightarrow> nat \<Rightarrow> nat option" where
  "nextFrom f v = map_option nat (find (\<lambda>allowed. allowed \<ge> int v) (fs_values f))"

definition lastDayOfMonth :: "nat \<Rightarrow> nat \<Rightarrow> nat" where
  "lastDayOfMonth year month = t_day (date_seconds year (month + 1) 0 0 0 0)"

definition matchDay :: "fieldSpec \<Rightarrow> nat \<Rightarrow> bool" where
  "matchDay f t =
     (if fs_lastDOM f then t_day t = lastDayOfMonth (t_year t) (t_month t)
      else int (t_day t) \<in> set (fs_values f))"

definition matchDOW :: "fieldSpec \<Rightarrow> nat \<Rightarrow> bool" where
  "matchDOW f t =
     (if fs_lastDOW f then
        int (t_weekday t) = fs_values f ! 0 - 1 \<and>
        int (t_day t) > int (lastDayOfMonth (t_year t) (t_month t)) - 7
      else int (t_weekday t) + 1 \<in> set (fs_values f))"

definition dayMatches :: "Parsed \<Rightarrow> nat \<Rightarrow> bool" where
  "dayMatches p t \<longleftrightarrow>
     \<not> (\<not> fs_unset (pc_dom p) \<and> \<not> matchDay (pc_dom p) t) \<and>
     \<not> (\<not> fs_unset (pc_dow p) \<and> \<not> matchDOW (pc_dow p) t)"

definition nextDayStart :: "nat \<Rightarrow> nat" where
  "nextDayStart t = date_seconds (t_year t) (t_month t) (t_day t) 0 0 0 + 86400"

datatype cascade = Unreachable | Jump nat | Found

definition cascade_step :: "Parsed \<Rightarrow> nat \<Rightarrow> cascade" where
  "cascade_step p t =
     (let Y = t_year t; M = t_month t; D = t_day t; h = t_hour t; mi = t_minute t; s = t_second t in
      case nextFrom (pc_year p) Y of None \<Rightarrow> Unreachable
      | Some y \<Rightarrow> if y \<noteq> Y then Jump (date_seconds y 1 1 0 0 0) else
     (case nextFrom (pc_month p) M of None \<Rightarrow> Jump (date_seconds (Y + 1) 1 1 0 0 0)
      | Some m \<Rightarrow> if m \<noteq> M then Jump (date_seconds Y m 1 0 0 0) else
      if \<not> dayMatches p t then Jump (date_seconds Y M D 0 0 0 + 86400) else
     (case nextFrom (pc_hour p) h of None \<Rightarrow> Jump (nextDayStart t)
      | Some h' \<Rightarrow> if h' \<noteq> h then Jump (date_seconds Y M D h' 0 0) else
     (case nextFrom (pc_min p) mi of None \<Rightarrow> Jump (date_seconds Y M D (h + 1) 0 0)
      | Some mi' \<Rightarrow> if mi' \<noteq> mi then Jump (date_seconds Y M D h mi' 0) else
     (case nextFrom (pc_sec p) s of None \<Rightarrow> Jump (date_seconds Y M D h (mi + 1) 0)
      | Some s' \<Rightarrow> if s' \<noteq> s then Jump (date_seconds Y M D h mi s') else Found)))))"

text \<open>Go's loop ends because every jump goes forward.\<close>

lemma civil_t:
  "t_civil t = (t_year t, t_month t, t_day t)" "valid_date (t_year t, t_month t, t_day t)"
  "days_of_civil (t_year t, t_month t, t_day t) = t div 86400"
  using civil_of_days_valid [of "t div 86400"]
  by (simp_all add: t_year_def t_month_def t_day_def t_civil_def)

lemma date_days_civil: "1 \<le> m \<Longrightarrow> m \<le> 12 \<Longrightarrow> 1 \<le> d \<Longrightarrow> date_days y m d = days_of_civil (y, m, d)"
  by (cases m) (auto simp: date_days_def)

lemma date_seconds_t:
  "date_seconds (t_year t) (t_month t) (t_day t) h mi s = 86400 * (t div 86400) + 3600 * h + 60 * mi + s"
  using civil_t [of t] date_days_civil [of "t_month t" "t_day t" "t_year t"] by (simp add: date_seconds_def)

lemma split_day: "t = 86400 * (t div 86400) + 3600 * t_hour t + 60 * t_minute t + t_second t"
proof -
  have "t mod 86400 mod 3600 = t mod 3600" "t mod 3600 mod 60 = t mod 60" by (simp_all add: mod_mod_cancel)
  then have "t mod 86400 = 3600 * t_hour t + t mod 3600" "t mod 3600 = 60 * t_minute t + t_second t"
    using mult_div_mod_eq [of 3600 "t mod 86400"] mult_div_mod_eq [of 60 "t mod 3600"]
    by (simp_all add: t_hour_def t_minute_def t_second_def)
  then show ?thesis using mult_div_mod_eq [of 86400 t] by linarith
qed

lemma clock_bounds: "t_hour t < 24" "t_minute t < 60" "t_second t < 60"
  unfolding t_hour_def t_minute_def t_second_def by (simp_all add: less_mult_imp_div_less)

lemma nextFrom_ge: "nextFrom f v = Some w \<Longrightarrow> v \<le> w"
  by (auto simp: nextFrom_def find_Some_iff)

lemma date_year_le: "t div 86400 < days_before_year (t_year t + 1)"
proof -
  have "days_of_civil (t_year t, t_month t, t_day t) < days_of_civil (t_year t + 1, 1, 1)"
    using civil_t(2) [of t] by (intro days_of_civil_less) (auto simp: month_len_def)
  then show ?thesis using civil_t(3) [of t] by simp
qed

lemma less_of_days: "t div 86400 < n \<Longrightarrow> t < 86400 * n" for t n :: nat
  using mult_div_mod_eq [of 86400 t] mod_less_divisor [of 86400 t] by linarith

lemma date_days_ge: "1 \<le> d \<Longrightarrow> days_before_year (y + (m - 1) div 12) \<le> date_days y m d"
  unfolding date_days_def Let_def by linarith

lemma date_days_later_year: "t_year t < y + (m - 1) div 12 \<Longrightarrow> 1 \<le> d \<Longrightarrow> t div 86400 < date_days y m d"
  using date_year_le [of t] days_before_year_mono [of "t_year t + 1" "y + (m - 1) div 12"]
    date_days_ge [of d y m] by linarith

lemma date_days_later_month: "t_month t < m \<Longrightarrow> t div 86400 < date_days (t_year t) m 1"
proof (cases "m \<le> 12")
  case True
  assume "t_month t < m"
  then have "days_of_civil (t_year t, t_month t, t_day t) < days_of_civil (t_year t, m, 1)"
    using civil_t(2) [of t] month_len_bounds(1) [of "t_year t" m] True by (intro days_of_civil_less) auto
  then show ?thesis using civil_t(3) [of t] date_days_civil [of m 1 "t_year t"] \<open>t_month t < m\<close> True by simp
next
  case False
  then have "t_year t < t_year t + (m - 1) div 12" by (simp add: div_greater_zero_iff)
  then show ?thesis using date_days_later_year [of t "t_year t" m 1] by simp
qed

lemma jump_forward: "cascade_step p t = Jump t' \<Longrightarrow> t < t'"
proof -
  assume "cascade_step p t = Jump t'"
  then consider y where "t' = date_seconds y 1 1 0 0 0" "t_year t < y"
    | m where "t' = date_seconds (t_year t) m 1 0 0 0" "t_month t < m"
    | "t' = date_seconds (t_year t) (t_month t) (t_day t) 0 0 0 + 86400"
    | h where "t' = date_seconds (t_year t) (t_month t) (t_day t) h 0 0" "t_hour t < h"
    | mi where "t' = date_seconds (t_year t) (t_month t) (t_day t) (t_hour t) mi 0" "t_minute t < mi"
    | s where "t' = date_seconds (t_year t) (t_month t) (t_day t) (t_hour t) (t_minute t) s" "t_second t < s"
    by (auto simp: cascade_step_def Let_def nextDayStart_def le_less split: option.splits if_splits dest!: nextFrom_ge)
  then show "t < t'"
  proof cases
    case 1
    then show ?thesis using less_of_days [OF date_days_later_year [of t y 1 1]] by (simp add: date_seconds_def)
  next
    case 2
    then show ?thesis using less_of_days [OF date_days_later_month [of t m]] by (simp add: date_seconds_def)
  qed (insert split_day [of t] clock_bounds [of t], unfold date_seconds_t, linarith+)
qed

function next_loop :: "Parsed \<Rightarrow> nat \<Rightarrow> nat option" where
  "next_loop p t =
     (if t < lastSearch then
        (case cascade_step p t of
           Unreachable \<Rightarrow> None
         | Jump t' \<Rightarrow> next_loop p t'
         | Found \<Rightarrow> Some t)
      else None)"
  by pat_completeness auto
termination
  by (relation "measure (\<lambda>(p, t). lastSearch - t)") (auto dest: jump_forward)
declare next_loop.simps [simp del]

definition instant :: "nat \<Rightarrow> time" where
  "instant t = (int t - unix_to_internal) * second"

text \<open>\<open>Parsed.Next\<close>: truncate to the second, add one second, search; the answer is an instant.\<close>

definition Parsed_Next :: "Parsed \<Rightarrow> time \<Rightarrow> time option" where
  "Parsed_Next p after = map_option instant (next_loop p (abs_seconds after + 1))"

datatype next_error = InvalidExpr cron_error | ErrUnreachable

definition Next :: "string \<Rightarrow> time \<Rightarrow> next_error + time" where
  "Next expr after =
     (case Parse expr of
        Inl e \<Rightarrow> Inl (InvalidExpr e)
      | Inr p \<Rightarrow> (case Parsed_Next p after of None \<Rightarrow> Inl ErrUnreachable | Some t \<Rightarrow> Inr t))"

definition ValidateExpr :: "string \<Rightarrow> time \<Rightarrow> next_error + time" where
  "ValidateExpr expr now =
     (case Parse expr of
        Inl e \<Rightarrow> Inl (InvalidExpr e)
      | Inr p \<Rightarrow> (case Parsed_Next p now of None \<Rightarrow> Inl ErrUnreachable | Some next \<Rightarrow> Inr next))"

definition CheckNextRunAt :: "time \<Rightarrow> time \<Rightarrow> bool" where
  "CheckNextRunAt at now \<longleftrightarrow> at > now"



section \<open>When an expression fires\<close>

text \<open>
  The meaning of a compiled expression, calendar field by calendar field, without any search.
  The last day of a month is the calendar's month length.
\<close>

definition day_of_month_ok :: "fieldSpec \<Rightarrow> nat \<Rightarrow> bool" where
  "day_of_month_ok f t \<longleftrightarrow>
     (if fs_lastDOM f then t_day t = month_len (t_year t) (t_month t) else int (t_day t) \<in> set (fs_values f))"

definition day_of_week_ok :: "fieldSpec \<Rightarrow> nat \<Rightarrow> bool" where
  "day_of_week_ok f t \<longleftrightarrow>
     (if fs_lastDOW f
      then int (t_weekday t) + 1 = hd (fs_values f) \<and> t_day t + 7 > month_len (t_year t) (t_month t)
      else int (t_weekday t) + 1 \<in> set (fs_values f))"

definition fires :: "Parsed \<Rightarrow> nat \<Rightarrow> bool" where
  "fires p t \<longleftrightarrow>
     int (t_year t) \<in> set (fs_values (pc_year p)) \<and> int (t_month t) \<in> set (fs_values (pc_month p)) \<and>
     (fs_unset (pc_dom p) \<or> day_of_month_ok (pc_dom p) t) \<and>
     (fs_unset (pc_dow p) \<or> day_of_week_ok (pc_dow p) t) \<and>
     int (t_hour t) \<in> set (fs_values (pc_hour p)) \<and> int (t_minute t) \<in> set (fs_values (pc_min p)) \<and>
     int (t_second t) \<in> set (fs_values (pc_sec p))"

definition ascending_to :: "int \<Rightarrow> fieldSpec \<Rightarrow> bool" where
  "ascending_to hi f \<longleftrightarrow> sorted_wrt (<) (fs_values f) \<and> (\<forall>v\<in>set (fs_values f). v \<le> hi)"

definition parsed_ok :: "Parsed \<Rightarrow> bool" where
  "parsed_ok p \<longleftrightarrow>
     ascending_to 59 (pc_sec p) \<and> ascending_to 59 (pc_min p) \<and> ascending_to 23 (pc_hour p) \<and>
     ascending_to 12 (pc_month p) \<and> ascending_to maxYear (pc_year p) \<and>
     (fs_lastDOW (pc_dow p) \<longrightarrow> fs_values (pc_dow p) \<noteq> [])"

lemma lastDayOfMonth_len: "lastDayOfMonth (t_year t) (t_month t) = month_len (t_year t) (t_month t)"
proof -
  let ?y = "t_year t" and ?m = "t_month t"
  have v: "1 \<le> ?y" "1 \<le> ?m" "?m \<le> 12" using civil_t(2) [of t] by simp_all
  have len: "28 \<le> month_len ?y ?m" by (rule month_len_bounds)
  have "date_days ?y (?m + 1) 0 = days_of_civil (?y, ?m, month_len ?y ?m)"
  proof (cases "?m = 12")
    case True
    have "days_before_year (?y + 1) = days_before_year ?y + year_len ?y"
      using days_before_year_Suc [of ?y] v(1) by simp
    then show ?thesis using True days_before_month_12 [of ?y] len by (simp add: date_days_def)
  next
    case False
    then have "?m div 12 = 0" "?m mod 12 = ?m" using v by simp_all
    moreover have "days_before_month ?y (Suc ?m) = days_before_month ?y ?m + month_len ?y ?m"
      using v(2) by simp
    ultimately show ?thesis using len unfolding date_days_def Let_def by simp
  qed
  moreover have "valid_date (?y, ?m, month_len ?y ?m)" using v len by simp
  ultimately show ?thesis
    using civil_of_days_of_civil [of "(?y, ?m, month_len ?y ?m)"]
    by (simp add: lastDayOfMonth_def t_day_def t_civil_def date_seconds_def)
qed

lemma dayMatches_iff:
  assumes "fs_lastDOW (pc_dow p) \<longrightarrow> fs_values (pc_dow p) \<noteq> []"
  shows "dayMatches p t \<longleftrightarrow>
    (fs_unset (pc_dom p) \<or> day_of_month_ok (pc_dom p) t) \<and> (fs_unset (pc_dow p) \<or> day_of_week_ok (pc_dow p) t)"
  using assms by (auto simp: dayMatches_def matchDay_def matchDOW_def day_of_month_ok_def day_of_week_ok_def
      lastDayOfMonth_len hd_conv_nth)

lemma nextFrom_Some:
  assumes "ascending_to hi f" "nextFrom f v = Some w"
  shows "int w \<in> set (fs_values f)" "v \<le> w" "int w \<le> hi" "x \<in> set (fs_values f) \<Longrightarrow> int v \<le> x \<Longrightarrow> int w \<le> x"
proof -
  obtain i where i: "i < length (fs_values f)" "int v \<le> fs_values f ! i" "w = nat (fs_values f ! i)"
      "\<forall>j<i. \<not> int v \<le> fs_values f ! j"
    using assms(2) by (auto simp: nextFrom_def find_Some_iff)
  show "int w \<in> set (fs_values f)" using i by simp
  then show "int w \<le> hi" using assms(1) by (simp add: ascending_to_def)
  show "v \<le> w" using i by linarith
  assume "x \<in> set (fs_values f)" "int v \<le> x"
  then obtain k where k: "k < length (fs_values f)" "x = fs_values f ! k" by (auto simp: in_set_conv_nth)
  then have "i \<le> k" using i(4) \<open>int v \<le> x\<close> by (meson not_le)
  then have "fs_values f ! i \<le> fs_values f ! k"
    using assms(1) k(1) by (cases "i = k") (auto simp: ascending_to_def sorted_wrt_iff_nth_less intro!: less_imp_le)
  then show "int w \<le> x" using i(2,3) k(2) by simp
qed

lemma nextFrom_None: "nextFrom f v = None \<Longrightarrow> x \<in> set (fs_values f) \<Longrightarrow> x < int v"
  by (auto simp: nextFrom_def find_None_iff not_le)

lemma nextFrom_mem:
  assumes "ascending_to hi f" "int v \<in> set (fs_values f)" shows "nextFrom f v = Some v"
proof (cases "nextFrom f v")
  case None
  then show ?thesis using nextFrom_None [OF None assms(2)] by simp
next
  case (Some w)
  then show ?thesis using nextFrom_Some [OF assms(1) Some] assms(2) by force
qed

text \<open>The order of instants is the order of their calendar fields.\<close>

lemma t_civil_mono: "t \<le> u \<Longrightarrow> t_civil t \<le> t_civil u"
  using civil_of_days_less_iff [of "u div 86400" "t div 86400"] div_le_mono [of t u 86400]
  by (simp add: t_civil_def not_less [symmetric])

lemma t_civil_before: "valid_date c \<Longrightarrow> u < 86400 * days_of_civil c \<Longrightarrow> t_civil u < c"
  using civil_of_days_valid [of "u div 86400"] days_of_civil_mono_iff [of "t_civil u" c]
  by (simp add: t_civil_def less_mult_imp_div_less mult.commute)

lemma year_mono: "t \<le> u \<Longrightarrow> t_year t \<le> t_year u"
  using t_civil_mono [of t u] by (auto simp: civil_t less_eq_prod_def)

lemma year_before: "1 \<le> y \<Longrightarrow> u < date_seconds y 1 1 0 0 0 \<Longrightarrow> t_year u < y"
  using t_civil_before [of "(y, 1, 1)" u] civil_t(2) [of u] month_len_bounds(1) [of y 1]
  by (auto simp: date_seconds_def date_days_civil civil_t less_prod_def)

lemma month_window:
  assumes "t \<le> u" "u < date_seconds (t_year t) m 1 0 0 0" "1 \<le> m" "m \<le> 12"
  shows "t_year u = t_year t" "t_month t \<le> t_month u" "t_month u < m"
proof -
  have "t_civil u < (t_year t, m, 1)"
    using assms t_civil_before [of "(t_year t, m, 1)" u] civil_t(2) [of t] month_len_bounds(1) [of "t_year t" m]
    by (simp add: date_seconds_def date_days_civil)
  then show "t_year u = t_year t" "t_month t \<le> t_month u" "t_month u < m"
    using t_civil_mono [OF assms(1)] civil_t(2) [of u] by (auto simp: civil_t less_prod_def less_eq_prod_def)
qed

lemma year_window:
  assumes "t \<le> u" "u < date_seconds (t_year t + 1) 1 1 0 0 0"
  shows "t_year u = t_year t" "t_month t \<le> t_month u"
proof -
  show y: "t_year u = t_year t" using year_mono [OF assms(1)] year_before [OF _ assms(2)] by simp
  show "t_month t \<le> t_month u" using t_civil_mono [OF assms(1)] y by (auto simp: civil_t less_prod_def less_eq_prod_def)
qed

lemma same_day:
  assumes "t \<le> u" "u < 86400 * (t div 86400) + 86400"
  shows "u div 86400 = t div 86400" "t_civil u = t_civil t" "t_weekday u = t_weekday t" "dayMatches p u = dayMatches p t"
proof -
  have "u div 86400 < t div 86400 + 1" using assms(2) by (simp add: less_mult_imp_div_less)
  then show d: "u div 86400 = t div 86400" using div_le_mono [OF assms(1), of 86400] by simp
  then show c: "t_civil u = t_civil t" and w: "t_weekday u = t_weekday t" by (simp_all add: t_civil_def t_weekday_def)
  show "dayMatches p u = dayMatches p t"
    using c w by (simp add: dayMatches_def matchDay_def matchDOW_def t_year_def t_month_def t_day_def)
qed

lemma hour_window:
  assumes "t \<le> u" "u < 86400 * (t div 86400) + 3600 * h" "h \<le> 24"
  shows "u div 86400 = t div 86400" "t_hour t \<le> t_hour u" "t_hour u < h"
proof -
  show d: "u div 86400 = t div 86400" using assms by (intro same_day) auto
  show "t_hour t \<le> t_hour u" "t_hour u < h"
    using split_day [of t] split_day [of u] clock_bounds [of t] clock_bounds [of u] assms unfolding d by linarith+
qed

lemma minute_window:
  assumes "t \<le> u" "u < 86400 * (t div 86400) + 3600 * t_hour t + 60 * m" "m \<le> 60"
  shows "u div 86400 = t div 86400" "t_hour u = t_hour t" "t_minute t \<le> t_minute u" "t_minute u < m"
proof -
  have w: "u div 86400 = t div 86400" "t_hour t \<le> t_hour u" "t_hour u < t_hour t + 1"
    using assms clock_bounds(1) [of t] by (intro hour_window [of t u "t_hour t + 1"]; simp)+
  then show d: "u div 86400 = t div 86400" and h: "t_hour u = t_hour t" by simp_all
  show "t_minute t \<le> t_minute u" "t_minute u < m"
    using split_day [of t] split_day [of u] clock_bounds [of t] clock_bounds [of u] assms unfolding d h by linarith+
qed

lemma second_window:
  assumes "t \<le> u" "u < 86400 * (t div 86400) + 3600 * t_hour t + 60 * t_minute t + s" "s \<le> 60"
  shows "u div 86400 = t div 86400" "t_hour u = t_hour t" "t_minute u = t_minute t" "t_second t \<le> t_second u" "t_second u < s"
proof -
  have w: "u div 86400 = t div 86400" "t_hour u = t_hour t" "t_minute t \<le> t_minute u" "t_minute u < t_minute t + 1"
    using assms clock_bounds(2) [of t] by (intro minute_window [of t u "t_minute t + 1"]; simp)+
  then show d: "u div 86400 = t div 86400" and h: "t_hour u = t_hour t" and m: "t_minute u = t_minute t" by simp_all
  show "t_second t \<le> t_second u" "t_second u < s"
    using split_day [of t] split_day [of u] assms unfolding d h m by linarith+
qed

lemma jump_cases:
  assumes "cascade_step p t = Jump t'"
  obtains y where "nextFrom (pc_year p) (t_year t) = Some y" "y \<noteq> t_year t" "t' = date_seconds y 1 1 0 0 0"
  | "nextFrom (pc_month p) (t_month t) = None" "t' = date_seconds (t_year t + 1) 1 1 0 0 0"
  | m where "nextFrom (pc_month p) (t_month t) = Some m" "m \<noteq> t_month t" "t' = date_seconds (t_year t) m 1 0 0 0"
  | "\<not> dayMatches p t \<or> nextFrom (pc_hour p) (t_hour t) = None" "t' = 86400 * (t div 86400) + 3600 * 24"
  | h where "nextFrom (pc_hour p) (t_hour t) = Some h" "h \<noteq> t_hour t" "t' = 86400 * (t div 86400) + 3600 * h"
  | "nextFrom (pc_min p) (t_minute t) = None" "t' = 86400 * (t div 86400) + 3600 * t_hour t + 60 * 60"
  | m where "nextFrom (pc_min p) (t_minute t) = Some m" "m \<noteq> t_minute t"
      "t' = 86400 * (t div 86400) + 3600 * t_hour t + 60 * m"
  | "nextFrom (pc_sec p) (t_second t) = None"
      "t' = 86400 * (t div 86400) + 3600 * t_hour t + 60 * t_minute t + 60"
  | s where "nextFrom (pc_sec p) (t_second t) = Some s" "s \<noteq> t_second t"
      "t' = 86400 * (t div 86400) + 3600 * t_hour t + 60 * t_minute t + s"
  using assms by (auto simp: cascade_step_def Let_def nextDayStart_def date_seconds_t algebra_simps
      split: option.splits if_splits)

lemma nothing_below:
  assumes "ascending_to hi f" "nextFrom f v = Some w" "v \<le> x" "x < w" shows "int x \<notin> set (fs_values f)"
  using nextFrom_Some(4) [OF assms(1,2), of "int x"] assms(3,4) by auto

lemma nothing_above: "nextFrom f v = None \<Longrightarrow> v \<le> x \<Longrightarrow> int x \<notin> set (fs_values f)"
  using nextFrom_None [of f v "int x"] by auto

lemma jump_skips_nothing:
  assumes ok: "parsed_ok p" and "cascade_step p t = Jump t'" and u: "t \<le> u" "u < t'"
  shows "\<not> fires p u"
proof -
  have asc: "ascending_to 59 (pc_sec p)" "ascending_to 59 (pc_min p)" "ascending_to 23 (pc_hour p)"
      "ascending_to 12 (pc_month p)" "ascending_to maxYear (pc_year p)"
      and dow: "fs_lastDOW (pc_dow p) \<longrightarrow> fs_values (pc_dow p) \<noteq> []"
    using ok by (simp_all add: parsed_ok_def)
  have y1: "1 \<le> t_year t" using civil_t(2) [of t] by simp
  from assms(2) show ?thesis
  proof (cases rule: jump_cases)
    case (1 y)
    then have "t_year u < y" using year_before [of y u] nextFrom_ge [OF 1(1)] y1 u(2) by simp
    then show ?thesis using nothing_below [OF asc(5) 1(1) year_mono [OF u(1)]] by (simp add: fires_def)
  next
    case 2
    then show ?thesis using nothing_above [OF 2(1)] year_window(2) [of t u] u by (simp add: fires_def)
  next
    case (3 m)
    then have "1 \<le> m" "m \<le> 12"
      using nextFrom_Some(2,3) [OF asc(4) 3(1)] civil_t(2) [of t] by auto
    then show ?thesis
      using nothing_below [OF asc(4) 3(1)] month_window [of t u m] 3 u by (simp add: fires_def)
  next
    case 4
    then show ?thesis
      using hour_window(2) [of t u 24] nothing_above [of "pc_hour p" "t_hour t" "t_hour u"] u
        same_day(4) [of t u p] dayMatches_iff [OF dow, of u]
      by (auto simp: fires_def)
  next
    case (5 h)
    then show ?thesis
      using hour_window(2,3) [of t u h] nextFrom_Some(3) [OF asc(3) 5(1)] nothing_below [OF asc(3) 5(1)] u
      by (auto simp: fires_def)
  next
    case 6
    then show ?thesis using minute_window(3) [of t u 60] nothing_above [OF 6(1)] u by (simp add: fires_def)
  next
    case (7 m)
    then show ?thesis
      using minute_window(3,4) [of t u m] nextFrom_Some(3) [OF asc(2) 7(1)] nothing_below [OF asc(2) 7(1)] u
      by (auto simp: fires_def)
  next
    case 8
    then show ?thesis using second_window(4) [of t u 60] nothing_above [OF 8(1)] u by (simp add: fires_def)
  next
    case (9 s)
    then show ?thesis
      using second_window(4,5) [of t u s] nextFrom_Some(3) [OF asc(1) 9(1)] nothing_below [OF asc(1) 9(1)] u
      by (auto simp: fires_def)
  qed
qed

lemma found_fires: "parsed_ok p \<Longrightarrow> cascade_step p t = Found \<longleftrightarrow> fires p t"
proof
  assume ok: "parsed_ok p"
  note d = dayMatches_iff [of p t]
  show "fires p t" if "cascade_step p t = Found"
    using that ok d
    by (auto simp: cascade_step_def Let_def fires_def parsed_ok_def dest: nextFrom_Some(1)
        split: option.splits if_splits)
  show "cascade_step p t = Found" if "fires p t"
    using that ok d by (auto simp: cascade_step_def Let_def fires_def parsed_ok_def nextFrom_mem)
qed

lemma unreachable_never: "cascade_step p t = Unreachable \<Longrightarrow> t \<le> u \<Longrightarrow> \<not> fires p u"
  using nothing_above [of "pc_year p" "t_year t" "t_year u"] year_mono [of t u]
  by (auto simp: cascade_step_def Let_def fires_def split: option.splits if_splits)

lemma fires_in_span: "parsed_ok p \<Longrightarrow> fires p u \<Longrightarrow> u < lastSearch"
proof -
  assume "parsed_ok p" "fires p u"
  then have "t_year u < nat maxYear + 1" by (auto simp: parsed_ok_def fires_def ascending_to_def)
  then show ?thesis
    using date_days_later_year [of u "nat maxYear + 1" 1 1] less_of_days [of u]
    by (simp add: lastSearch_def date_seconds_def)
qed

lemma next_loop_exact:
  assumes "parsed_ok p"
  shows "(case next_loop p t of
      None \<Rightarrow> \<forall>u\<ge>t. \<not> fires p u
    | Some r \<Rightarrow> t \<le> r \<and> fires p r \<and> (\<forall>u. t \<le> u \<and> u < r \<longrightarrow> \<not> fires p u))"
  using assms
proof (induction p t rule: next_loop.induct)
  case (1 p t)
  show ?case
  proof (cases "t < lastSearch")
    case False
    then have "\<not> fires p u" if "t \<le> u" for u using fires_in_span [OF 1(2), of u] that by auto
    then show ?thesis using False by (simp add: next_loop.simps)
  next
    case True
    show ?thesis
    proof (cases "cascade_step p t")
      case Unreachable
      then show ?thesis using True unreachable_never by (simp add: next_loop.simps [of p t])
    next
      case (Jump t')
      have loop: "next_loop p t = next_loop p t'" using True Jump by (simp add: next_loop.simps [of p t])
      have skip: "\<not> fires p u" if "t \<le> u" "u < t'" for u using jump_skips_nothing [OF 1(2) Jump that] .
      have "t < t'" using jump_forward [OF Jump] .
      then show ?thesis
        using 1(1) [OF True Jump 1(2)] skip unfolding loop
        by (auto split: option.splits) (meson not_le le_trans less_imp_le)+
    next
      case Found
      then have "fires p t" using found_fires [OF 1(2)] by blast
      then show ?thesis using True Found by (auto simp: next_loop.simps [of p t])
    qed
  qed
qed


section \<open>What the parser accepts\<close>

lemma add64_id: "- (2 ^ 63) \<le> a + b \<Longrightarrow> a + b < 2 ^ 63 \<Longrightarrow> add64 a b = a + b"
  by (simp add: add64_def)

lemma add64_wrap: "2 ^ 63 \<le> a + b \<Longrightarrow> a + b < 2 ^ 64 \<Longrightarrow> add64 a b = a + b - 2 ^ 64"
  using minus_mod_self2 [of "a + b + 2 ^ 63" "2 ^ 64"]
    mod_pos_pos_trivial [of "a + b + 2 ^ 63 - 2 ^ 64" "2 ^ 64"] by (simp add: add64_def)

text \<open>Without overflow the loop is the arithmetic progression.\<close>

definition progression :: "int \<Rightarrow> int \<Rightarrow> int \<Rightarrow> int set" where
  "progression lo hi step = {x. (\<exists>k::nat. x = lo + int k * step) \<and> x \<le> hi}"

lemma progression_empty:
  assumes "1 \<le> step" "hi < lo" shows "progression lo hi step = {}"
proof (rule equals0I)
  fix x assume "x \<in> progression lo hi step"
  then obtain k :: nat where "x = lo + int k * step" "x \<le> hi" by (auto simp: progression_def)
  then show False using assms mult_nonneg_nonneg [of "int k" step] by linarith
qed

lemma progression_step:
  assumes "lo \<le> hi" shows "progression lo hi step = insert lo (progression (lo + step) hi step)"
proof (intro set_eqI iffI)
  fix x assume "x \<in> progression lo hi step"
  then obtain k :: nat where "x = lo + int k * step" "x \<le> hi" by (auto simp: progression_def)
  then show "x \<in> insert lo (progression (lo + step) hi step)"
    by (cases k) (auto simp: progression_def algebra_simps)
next
  fix x assume "x \<in> insert lo (progression (lo + step) hi step)"
  then consider "x = lo" | k :: nat where "x = lo + step + int k * step" "x \<le> hi" by (auto simp: progression_def)
  then show "x \<in> progression lo hi step"
  proof cases
    case 1
    then show ?thesis using assms by (auto simp: progression_def intro: exI [of _ 0])
  next
    case 2
    then show ?thesis by (auto simp: progression_def algebra_simps intro!: exI [of _ "Suc k"])
  qed
qed

lemma expand_progression:
  assumes "0 \<le> v" "1 \<le> step" "hi + step < 2 ^ 63" "nat (hi + 2 - v) \<le> f" "0 < f"
  shows "\<exists>vs. expand f v hi step = Some vs \<and> set vs = progression v hi step"
  using assms
proof (induction f arbitrary: v)
  case (Suc f)
  show ?case
  proof (cases "v \<le> hi")
    case False
    then show ?thesis using progression_empty [OF Suc.prems(2), of hi v] by simp
  next
    case True
    then have "add64 v step = v + step" using Suc.prems by (intro add64_id) auto
    moreover have "nat (hi + 2 - (v + step)) \<le> f" "0 < f" "0 \<le> v + step" using Suc.prems True by linarith+
    then obtain vs where vs: "expand f (v + step) hi step = Some vs" "set vs = progression (v + step) hi step"
      using Suc.IH [of "v + step"] Suc.prems(2,3) by blast
    ultimately show ?thesis using True progression_step [OF True] by simp
  qed
qed simp

text \<open>
  With a step that overflows, two iterations take the running value down by \<open>2 * (2\<^sup>6\<^sup>3 - step)\<close>,
  so the loop still ends.
\<close>

lemma expand_wrapping:
  assumes "0 \<le> hi" "hi < 2 ^ 60" "step = 2 ^ 63 - e" "1 \<le> e" "e \<le> hi" "- e \<le> v" "v \<le> hi"
    "nat (v + 4) \<le> f" "2 \<le> f"
  shows "\<exists>vs. expand f v hi step = Some vs"
  using assms(6-9)
proof (induction f arbitrary: v rule: less_induct)
  case (less f)
  obtain g where g: "f = Suc (Suc g)" using less.prems(4) by (metis add_2_eq_Suc le_Suc_ex)
  show ?case
  proof (cases "v < e")
    case True
    then have "add64 v step = v + step" using assms(1-5) less.prems by (intro add64_id) auto
    moreover have "\<not> v + step \<le> hi" using assms(1-5) less.prems by simp
    ultimately show ?thesis using less.prems(2) by (simp add: g)
  next
    case False
    then have 1: "add64 v step = v + step - 2 ^ 64" using assms(1-5) less.prems by (intro add64_wrap) auto
    then have "add64 (add64 v step) step = v + step - 2 ^ 64 + step"
      using assms(1-5) less.prems False unfolding 1 by (intro add64_id) auto
    then have 2: "add64 (add64 v step) step = v - 2 * e" using assms(3) by simp
    have "add64 v step \<le> hi" using 1 assms(1-5) less.prems by simp
    moreover obtain vs where "expand g (v - 2 * e) hi step = Some vs"
      using less.IH [of g "v - 2 * e"] less.prems False assms(4,5) g by force
    ultimately show ?thesis using less.prems(2) by (simp add: g 2)
  qed
qed

lemma expand_le: "expand f v hi step = Some vs \<Longrightarrow> x \<in> set vs \<Longrightarrow> x \<le> hi"
  by (induction f arbitrary: v vs) (auto split: if_splits)

lemma expand_first: "expand f v hi step = Some vs \<Longrightarrow> v \<le> hi \<Longrightarrow> v \<in> set vs"
  by (cases f) auto

lemma expand_total:
  assumes "0 \<le> lo" "lo \<le> hi" "hi < 2 ^ 60" "1 \<le> step" "step < 2 ^ 63"
  shows "\<exists>vs. expand (expand_fuel hi) lo hi step = Some vs"
proof (cases "hi + step < 2 ^ 63")
  case True
  then show ?thesis
    using expand_progression [OF assms(1,4) True, of "expand_fuel hi"] assms(1,2) by (force simp: expand_fuel_def)
next
  case False
  then show ?thesis
    using expand_wrapping [of hi step "2 ^ 63 - step" lo "expand_fuel hi"] assms by (auto simp: expand_fuel_def)
qed

text \<open>
  C32: The expansion loop of a stepped list element always ends, also for the steps whose addition
  overflows: for every span inside a field's range and every positive 64-bit step, at most
  \<open>hi + 4\<close> iterations are made. No value exceeds the span, the span's first value is there, and
  unless \<open>hi + step\<close> leaves the 64-bit range the values are exactly \<open>lo\<close>, \<open>lo + step\<close>,
  \<open>lo + 2 * step\<close> and so on up to \<open>hi\<close>.
\<close>

theorem cron_step_expansion:
  assumes "0 \<le> lo" "lo \<le> hi" "hi \<le> maxYear" "1 \<le> step" "step < 2 ^ 63"
  shows "\<exists>vs. expand (nat (hi + 4)) lo hi step = Some vs \<and> lo \<in> set vs \<and> (\<forall>x\<in>set vs. x \<le> hi) \<and>
    (hi + step < 2 ^ 63 \<longrightarrow> set vs = progression lo hi step)"
proof -
  have "hi < 2 ^ 60" using assms(3) by (simp add: maxYear_def)
  then obtain vs where vs: "expand (nat (hi + 4)) lo hi step = Some vs"
    using expand_total [OF assms(1,2) _ assms(4,5)] by (auto simp: expand_fuel_def)
  moreover have "set vs = progression lo hi step" if "hi + step < 2 ^ 63"
    using expand_progression [OF assms(1,4) that, of "nat (hi + 4)"] vs assms(1,2) by auto
  ultimately show ?thesis using expand_le [OF vs] expand_first [OF vs assms(2)] by auto
qed

theorem cron_step_expansion_witness:
  "expand 63 0 59 15 = Some [0, 15, 30, 45] \<and>
   (\<exists>vs. expand (nat (59 + 4)) 0 59 15 = Some vs \<and> set vs = progression 0 59 15)"
proof
  show "expand 63 0 59 15 = Some [0, 15, 30, 45]" by code_simp
  have ok: "(0::int) \<le> 0" "(0::int) \<le> 59" "59 \<le> maxYear" "(1::int) \<le> 15" "(15::int) < 2 ^ 63" "(59::int) + 15 < 2 ^ 63"
    by (simp_all add: maxYear_def)
  show "\<exists>vs. expand (nat (59 + 4)) 0 59 15 = Some vs \<and> set vs = progression 0 59 15"
    using cron_step_expansion [OF ok(1-5)] ok(6) by blast
qed

text \<open>
  The overflow is reachable: \<open>5/9223372036854775807\<close> in the seconds field selects 1 and 3, and two
  negative values, besides 5.
\<close>

lemma cron_step_overflows:
  "expand (expand_fuel 59) 5 59 (2 ^ 63 - 1) = Some [5, - (2 ^ 63) + 4, 3, - (2 ^ 63) + 2, 1, - (2 ^ 63), - 1]"
  by code_simp

definition def_ok :: "fieldDef \<Rightarrow> bool" where
  "def_ok d \<longleftrightarrow> 0 \<le> fd_lo d \<and> fd_lo d \<le> fd_hi d \<and> fd_hi d \<le> maxYear \<and>
     (\<forall>names. fd_names d = Some names \<longrightarrow> (\<forall>v\<in>snd ` set names. fd_lo d \<le> v \<and> v \<le> fd_hi d))"

text \<open>
  A compiled field: its values are strictly ascending, none exceeds the field's maximum, and unless
  it is \<open>?\<close> one of them lies in the field's range; \<open>nL\<close> has exactly one value.
\<close>

definition spec_ok :: "fieldDef \<Rightarrow> fieldSpec \<Rightarrow> bool" where
  "spec_ok d f \<longleftrightarrow> ascending_to (fd_hi d) f \<and>
     (fs_unset f \<or> (\<exists>v\<in>set (fs_values f). fd_lo d \<le> v)) \<and>
     (fs_unset f \<longrightarrow> fd_question d) \<and>
     (fs_lastDOM f \<longrightarrow> fd_name d = ''day-of-month'') \<and>
     (fs_lastDOW f \<longrightarrow> fd_name d = ''day-of-week'' \<and> length (fs_values f) = 1)"

lemma fieldDefs_ok: "\<forall>d\<in>set fieldDefs. def_ok d"
  by (simp add: fieldDefs_def plain_field_def def_ok_def monthNames_def dowNames_def minYear_def maxYear_def)

lemma parse_int_less: "parse_int s = Inr n \<Longrightarrow> n < 2 ^ 63"
  by (auto simp: parse_int_def Let_def split: if_splits)

lemma parseValue_range:
  "def_ok d \<Longrightarrow> parseValue tok d = Inr (v, b) \<Longrightarrow> fd_lo d \<le> v \<and> v \<le> fd_hi d"
  by (auto simp: parseValue_def def_ok_def split: sum.splits if_splits option.splits dest!: map_of_SomeD)

lemma parse_step_range: "parse_step ps = Inr n \<Longrightarrow> 1 \<le> n \<and> n < 2 ^ 63"
  by (auto simp: parse_step_def split: list.splits sum.splits if_splits dest: parse_int_less)

lemma parse_span_range:
  assumes "def_ok d" "parse_span r stepped d = Inr (lo, hi)"
  shows "fd_lo d \<le> lo \<and> lo \<le> hi \<and> hi \<le> fd_hi d"
  using assms parseValue_range [OF assms(1)]
  by (fastforce simp: parse_span_def def_ok_def split: if_splits sum.splits list.splits prod.splits)

lemma parseElement_range:
  assumes "def_ok d" "parseElement el d = Inr (lo, hi, step)"
  shows "fd_lo d \<le> lo \<and> lo \<le> hi \<and> hi \<le> fd_hi d \<and> 1 \<le> step \<and> step < 2 ^ 63"
  using assms parse_span_range [OF assms(1)] parse_step_range
  by (fastforce simp: parseElement_def Let_def split: if_splits sum.splits)

text \<open>A list element whose step is too small to overflow, and a field of such elements.\<close>

definition calm_element :: "string \<Rightarrow> bool" where
  "calm_element el \<longleftrightarrow> (\<forall>n. parse_step (split_on (CHR ''/'') el) = Inr n \<longrightarrow> n < 2 ^ 63 - maxYear)"

definition calm_field :: "string \<Rightarrow> bool" where
  "calm_field txt \<longleftrightarrow> (\<forall>el\<in>set (split_on (CHR '','') txt). calm_element el)"

lemma element_step: "parseElement el d = Inr (lo, hi, step) \<Longrightarrow> parse_step (split_on (CHR ''/'') el) = Inr step"
  by (auto simp: parseElement_def Let_def split: if_splits sum.splits)

lemma progression_lo: "1 \<le> step \<Longrightarrow> x \<in> progression lo hi step \<Longrightarrow> lo \<le> x"
  by (auto simp: progression_def)

lemma parse_elements_range:
  assumes "def_ok d" "parse_elements els d = Inr vs"
  shows "(\<forall>v\<in>set vs. v \<le> fd_hi d) \<and> (els \<noteq> [] \<longrightarrow> (\<exists>v\<in>set vs. fd_lo d \<le> v)) \<and>
    ((\<forall>el\<in>set els. calm_element el) \<longrightarrow> (\<forall>v\<in>set vs. fd_lo d \<le> v))"
  using assms(2)
proof (induction els arbitrary: vs)
  case (Cons el els)
  then obtain lo hi step ws where e: "parseElement el d = Inr (lo, hi, step)" "parse_elements els d = Inr ws"
      "vs = the (expand (expand_fuel hi) lo hi step) @ ws"
    by (auto split: if_splits sum.splits)
  have r: "fd_lo d \<le> lo" "lo \<le> hi" "hi \<le> fd_hi d" "1 \<le> step" "step < 2 ^ 63"
    using parseElement_range [OF assms(1) e(1)] by simp_all
  then have "0 \<le> lo" "hi < 2 ^ 60" using assms(1) by (auto simp: def_ok_def maxYear_def)
  then obtain xs where xs: "expand (expand_fuel hi) lo hi step = Some xs" using expand_total r by blast
  have "fd_lo d \<le> x" if "x \<in> set xs" "calm_element el" for x
  proof -
    have "hi + step < 2 ^ 63" using that(2) element_step [OF e(1)] r(3) assms(1) by (auto simp: calm_element_def def_ok_def)
    then have "set xs = progression lo hi step"
      using expand_progression [OF \<open>0 \<le> lo\<close> r(4), of hi "expand_fuel hi"] xs r(2) \<open>0 \<le> lo\<close> by (auto simp: expand_fuel_def)
    then show ?thesis using progression_lo [OF r(4)] that(1) r(1) by fastforce
  qed
  moreover have "x \<le> fd_hi d" if "x \<in> set xs" for x using expand_le [OF xs that] r(3) by simp
  ultimately show ?case using Cons.IH [OF e(2)] expand_first [OF xs r(2)] r(1) e(3) xs by auto
qed simp

lemma dedup_sorted_set: "insert l (set (dedup_sorted l vs)) = insert l (set vs)"
  by (induction l vs rule: dedup_sorted.induct) auto

lemma dedup_sorted_strict: "sorted (l # vs) \<Longrightarrow> sorted_wrt (<) (l # dedup_sorted l vs)"
proof (induction l vs rule: dedup_sorted.induct)
  case (2 l v vs)
  then show ?case using dedup_sorted_set [of v vs] by (cases "v = l") fastforce+
qed simp

lemma sortedUnique_spec: "set (sortedUnique vs) = set vs" "sorted_wrt (<) (sortedUnique vs)"
proof -
  obtain ws where ws: "sort vs = ws" by simp
  then have set: "set ws = set vs" and sorted: "sorted ws" by auto
  show "set (sortedUnique vs) = set vs"
    unfolding sortedUnique_def ws using set dedup_sorted_set by (cases ws) auto
  show "sorted_wrt (<) (sortedUnique vs)"
    unfolding sortedUnique_def ws using sorted dedup_sorted_strict by (cases ws) auto
qed

text \<open>With a field of such elements, every value is in range.\<close>

definition field_ok :: "bool \<Rightarrow> fieldDef \<Rightarrow> fieldSpec \<Rightarrow> bool" where
  "field_ok calm d f \<longleftrightarrow> spec_ok d f \<and> (calm \<longrightarrow> (\<forall>v\<in>set (fs_values f). fd_lo d \<le> v))"

lemma parseField_ok:
  assumes "def_ok d" "parseField txt d = Inr f" "calm \<Longrightarrow> calm_field txt" shows "field_ok calm d f"
proof -
  consider "f = unset_spec" "fd_question d" | "parse_l txt d = Inr f"
    | vs where "parse_elements (split_on (CHR '','') txt) d = Inr vs" "vs \<noteq> []" "f = value_set (sortedUnique vs)"
  proof (cases "txt = ''?''")
    case True
    then have "f = unset_spec" "fd_question d" using assms(2) by (simp_all add: parseField_def split: if_splits)
    then show ?thesis by (rule that(1))
  next
    case False
    note nq = this
    show ?thesis
    proof (cases "fd_l d \<and> has_suffix txt ''L''")
      case True
      then show ?thesis using assms(2) nq by (intro that(2)) (simp add: parseField_def)
    next
      case False
      let ?e = "parse_elements (split_on (CHR '','') txt) d"
      have e: "(case ?e of Inl r \<Rightarrow> Inl r | Inr vs \<Rightarrow> if vs = [] then Inl NoValues else Inr (value_set (sortedUnique vs))) = Inr f"
        using False assms(2) nq unfolding parseField_def if_not_P [OF False] by simp
      then obtain vs where "?e = Inr vs" by (cases ?e) simp_all
      moreover from this e have "vs \<noteq> []" "f = value_set (sortedUnique vs)" by (simp_all split: if_splits)
      ultimately show ?thesis by (rule that(3))
    qed
  qed
  then show ?thesis
  proof cases
    case 1
    then show ?thesis by (simp add: field_ok_def spec_ok_def unset_spec_def value_set_def ascending_to_def)
  next
    case 2
    then show ?thesis using assms(1)
      by (auto simp: field_ok_def parse_l_def Let_def spec_ok_def value_set_def ascending_to_def def_ok_def
          split: if_splits sum.splits)
  next
    case 3
    then show ?thesis
      using parse_elements_range [OF assms(1) 3(1)] sortedUnique_spec [of vs] assms(3)
      by (auto simp: field_ok_def calm_field_def spec_ok_def value_set_def ascending_to_def)
  qed
qed

lemma parse_fields_ok:
  assumes "\<forall>d\<in>set ds. def_ok d" "parse_fields ts ds = Inr specs" "length ts \<le> length ds" "calm \<Longrightarrow> \<forall>t\<in>set ts. calm_field t"
  shows "list_all2 (field_ok calm) (take (length ts) ds) specs"
  using assms
proof (induction ts ds arbitrary: specs rule: parse_fields.induct)
  case (1 t ts d ds)
  then obtain spec rest where "parseField t d = Inr spec" "parse_fields ts ds = Inr rest" "specs = spec # rest"
    by (auto split: sum.splits)
  then show ?case using 1 parseField_ok [of d t spec calm] by simp
qed auto

lemma fullRange_ok:
  assumes "def_ok d" shows "field_ok calm d (fullRange d)"
proof -
  have "sorted_wrt (<) [fd_lo d..fd_hi d]" by (rule sorted_wrt_upto)
  then show ?thesis using assms by (auto simp: field_ok_def spec_ok_def fullRange_def value_set_def ascending_to_def def_ok_def)
qed

abbreviation calm_steps :: "string \<Rightarrow> bool" where
  "calm_steps expr \<equiv> \<forall>t\<in>set (GoPrelude.fields expr). calm_field t"

lemma Parse_specs:
  assumes "Parse expr = Inr p"
  obtains out where "list_all2 (field_ok (calm_steps expr)) fieldDefs out" "p = assemble out" "fs_unset (out ! 3) \<noteq> fs_unset (out ! 5)"
proof -
  let ?parts = "GoPrelude.fields expr"
  have len: "length ?parts = 6 \<or> length ?parts = 7"
    using assms by (auto simp: Parse_def Let_def split: if_splits)
  obtain specs where specs: "parse_fields ?parts fieldDefs = Inr specs"
    using assms by (auto simp: Parse_def Let_def split: if_splits sum.splits)
  define out where "out = (if length ?parts = 6 then specs @ [fullRange (fieldDefs ! 6)] else specs)"
  have "length fieldDefs = 7" by (simp add: fieldDefs_def)
  then have all: "list_all2 (field_ok (calm_steps expr)) (take (length ?parts) fieldDefs) specs" and
    fd: "fieldDefs = take 6 fieldDefs @ [fieldDefs ! 6]" and "def_ok (fieldDefs ! 6)"
    using parse_fields_ok [OF fieldDefs_ok specs, of "calm_steps expr"] len fieldDefs_ok
    by (auto simp: take_Suc_conv_app_nth [symmetric] numeral_eq_Suc intro!: nth_mem)
  have "list_all2 (field_ok (calm_steps expr)) fieldDefs out"
  proof (cases "length ?parts = 6")
    case True
    then have "list_all2 (field_ok (calm_steps expr)) (take 6 fieldDefs @ [fieldDefs ! 6]) out"
      using all fullRange_ok [OF \<open>def_ok (fieldDefs ! 6)\<close>] by (simp add: out_def list_all2_appendI)
    then show ?thesis using fd by simp
  qed (use all len \<open>length fieldDefs = 7\<close> in \<open>simp add: out_def\<close>)
  moreover have "p = assemble out" "fs_unset (out ! 3) \<noteq> fs_unset (out ! 5)"
    using assms specs len by (auto simp: Parse_def Let_def out_def split: if_splits)
  ultimately show ?thesis by (rule that)
qed

lemma assembled:
  assumes "list_all2 Q fieldDefs out"
  shows "Q (fieldDefs ! 0) (pc_sec (assemble out))" "Q (fieldDefs ! 1) (pc_min (assemble out))"
    "Q (fieldDefs ! 2) (pc_hour (assemble out))" "Q (fieldDefs ! 3) (pc_dom (assemble out))"
    "Q (fieldDefs ! 4) (pc_month (assemble out))" "Q (fieldDefs ! 5) (pc_dow (assemble out))"
    "Q (fieldDefs ! 6) (pc_year (assemble out))"
proof -
  have "length fieldDefs = 7" by (simp add: fieldDefs_def)
  then have "i < 7 \<Longrightarrow> Q (fieldDefs ! i) (out ! i)" for i
    using assms by (simp add: list_all2_conv_all_nth)
  then show "Q (fieldDefs ! 0) (pc_sec (assemble out))" "Q (fieldDefs ! 1) (pc_min (assemble out))"
    "Q (fieldDefs ! 2) (pc_hour (assemble out))" "Q (fieldDefs ! 3) (pc_dom (assemble out))"
    "Q (fieldDefs ! 4) (pc_month (assemble out))" "Q (fieldDefs ! 5) (pc_dow (assemble out))"
    "Q (fieldDefs ! 6) (pc_year (assemble out))"
    by (simp_all add: assemble_def)
qed

lemmas field_defs = fieldDefs_def plain_field_def minYear_def maxYear_def

lemma Parse_ok: "Parse expr = Inr p \<Longrightarrow> parsed_ok p"
proof (erule Parse_specs)
  fix out assume "list_all2 (field_ok (calm_steps expr)) fieldDefs out" "p = assemble out"
  then have "list_all2 spec_ok fieldDefs out" by (auto simp: field_ok_def elim!: list_all2_mono)
  then show "parsed_ok p" using assembled [of spec_ok out] \<open>p = assemble out\<close> by (auto simp: parsed_ok_def spec_ok_def field_defs)
qed

text \<open>
  C31: What an accepted expression compiles to. Each field's values are strictly ascending, none lies
  above the field's maximum (59 seconds, 59 minutes, 23 hours, day 31, month 12, weekday 7, year
  2099), each field that is not \<open>?\<close> has a value in its range, and all of its values are in its range
  when no step of the expression is within 2099 of \<open>2 ^ 63\<close>, beyond which the loop's sum wraps; only
  the day fields can be \<open>?\<close> and exactly one of them is; \<open>L\<close> appears in day-of-month only, \<open>nL\<close> in
  day-of-week only and with exactly one weekday.
\<close>

theorem cron_parse_wellformed:
  assumes "Parse expr = Inr p"
  shows "spec_ok (fieldDefs ! 0) (pc_sec p) \<and> spec_ok (fieldDefs ! 1) (pc_min p) \<and> spec_ok (fieldDefs ! 2) (pc_hour p) \<and>
    spec_ok (fieldDefs ! 3) (pc_dom p) \<and> spec_ok (fieldDefs ! 4) (pc_month p) \<and> spec_ok (fieldDefs ! 5) (pc_dow p) \<and>
    spec_ok (fieldDefs ! 6) (pc_year p) \<and> fs_unset (pc_dom p) \<noteq> fs_unset (pc_dow p) \<and>
    ((\<forall>t\<in>set (GoPrelude.fields expr). \<forall>el\<in>set (split_on (CHR '','') t).
        \<forall>n. parse_step (split_on (CHR ''/'') el) = Inr n \<longrightarrow> n < 2 ^ 63 - maxYear) \<longrightarrow>
      (\<forall>(d, f)\<in>set (zip fieldDefs [pc_sec p, pc_min p, pc_hour p, pc_dom p, pc_month p, pc_dow p, pc_year p]).
        \<forall>v\<in>set (fs_values f). fd_lo d \<le> v \<and> v \<le> fd_hi d))"
proof -
  obtain out where out: "list_all2 (field_ok (calm_steps expr)) fieldDefs out" "p = assemble out" "fs_unset (out ! 3) \<noteq> fs_unset (out ! 5)"
    using Parse_specs [OF assms] .
  have len: "length out = 7" using list_all2_lengthD [OF out(1)] by (simp add: fieldDefs_def)
  have "[0..<7] = [0, 1, 2, 3, 4, 5, 6]" by (simp add: upt_rec)
  then have "map ((!) out) [0, 1, 2, 3, 4, 5, 6] = out" using map_nth [of out] len by metis
  then have fields: "[pc_sec p, pc_min p, pc_hour p, pc_dom p, pc_month p, pc_dow p, pc_year p] = out"
    by (simp add: out(2) assemble_def)
  have "fd_lo d \<le> v \<and> v \<le> fd_hi d" if "calm_steps expr" "(d, f) \<in> set (zip fieldDefs out)" "v \<in> set (fs_values f)" for d f v
    using out(1) that by (auto simp: list_all2_iff field_ok_def spec_ok_def ascending_to_def)
  then have r: "calm_steps expr \<longrightarrow> (\<forall>(d, f)\<in>set (zip fieldDefs out). \<forall>v\<in>set (fs_values f). fd_lo d \<le> v \<and> v \<le> fd_hi d)" by blast
  have s: "fs_unset (pc_dom p) \<noteq> fs_unset (pc_dow p)" using out(2,3) by (simp add: assemble_def)
  note A = assembled [OF out(1), folded out(2), unfolded field_ok_def]
  show ?thesis using A s r unfolding fields calm_field_def calm_element_def by (intro conjI) blast+
qed

definition noon_mondays :: Parsed where
  "noon_mondays =
     \<lparr>pc_sec = value_set [0], pc_min = value_set [0], pc_hour = value_set [12], pc_dom = unset_spec,
      pc_month = value_set [1..12], pc_dow = value_set [2], pc_year = value_set [1970..2099]\<rparr>"

lemma expand_numeral:
  "0 < f \<Longrightarrow> expand f v hi step =
     (if v \<le> hi then map_option (\<lambda>vs. v # vs) (expand (f - 1) (add64 v step) hi step) else Some [])"
  by (cases f) simp_all

lemmas parse_eval = parseField_def parseElement_def parseValue_def parse_step_def parse_span_def Let_def is_atoi_def
  expand_fuel_def expand_numeral add64_def sortedUnique_def field_defs monthNames_def dowNames_def str_simps char_class_defs

lemma upper_mon: "to_upper ''mon'' = ''MON''" and months: "[1..12::int] = [1, 2, 3, 4, 5, 6, 7, 8, 9, 10, 11, 12]"
  by code_simp+

lemma noon_mondays_fields:
  "parseField ''0'' (fieldDefs ! 0) = Inr (value_set [0])"
  "parseField ''0'' (fieldDefs ! Suc 0) = Inr (value_set [0])"
  "parseField ''12'' (fieldDefs ! 2) = Inr (value_set [12])"
  "parseField ''?'' (fieldDefs ! 3) = Inr unset_spec"
  "parseField ''*'' (fieldDefs ! 4) = Inr (value_set [1..12])"
  "parseField ''mon'' (fieldDefs ! 5) = Inr (value_set [2])"
  by (simp_all add: parse_eval upper_mon months del: to_upper_def)

lemma fieldDefs_nths:
  "fieldDefs = [fieldDefs ! 0, fieldDefs ! Suc 0, fieldDefs ! 2, fieldDefs ! 3, fieldDefs ! 4, fieldDefs ! 5, fieldDefs ! 6]"
  by (simp add: fieldDefs_def)

lemma noon_mondays_parse: "Parse ''0 0 12 ? * mon'' = Inr noon_mondays"
proof -
  have f: "GoPrelude.fields ''0 0 12 ? * mon'' = [''0'', ''0'', ''12'', ''?'', ''*'', ''mon'']"
    by (simp add: str_simps char_class_defs)
  have "parse_fields [''0'', ''0'', ''12'', ''?'', ''*'', ''mon''] fieldDefs =
      Inr [value_set [0], value_set [0], value_set [12], unset_spec, value_set [1..12], value_set [2]]"
    by (subst fieldDefs_nths) (simp add: noon_mondays_fields del: One_nat_def)
  then show ?thesis
    unfolding Parse_def Let_def f
    by (simp add: MaxExprLen_def unset_spec_def value_set_def assemble_def noon_mondays_def fullRange_def field_defs)
qed

theorem cron_parse_wellformed_witness:
  "Parse ''0 0 12 ? * mon'' = Inr noon_mondays \<and> fs_unset (pc_dom noon_mondays) \<and> spec_ok (fieldDefs ! 5) (pc_dow noon_mondays)"
  using cron_parse_wellformed [OF noon_mondays_parse] noon_mondays_parse
  by (simp add: noon_mondays_def value_set_def unset_spec_def)


section \<open>The next run\<close>

lemma instant_less: "instant u < instant v \<longleftrightarrow> u < v" "instant u = instant v \<longleftrightarrow> u = v"
  by (simp_all add: instant_def second_def)

lemma after_iff:
  assumes "- unix_to_internal * second \<le> after"
  shows "after < instant v \<longleftrightarrow> abs_seconds after + 1 \<le> v"
proof -
  have "0 \<le> after div second + unix_to_internal"
    using zdiv_mono1 [OF assms, of second] by (simp add: second_def)
  then have "int (abs_seconds after) = after div second + unix_to_internal" by (simp add: abs_seconds_def)
  moreover have "after < (int v - unix_to_internal) * second \<longleftrightarrow> after div second < int v - unix_to_internal"
    using mult_div_mod_eq [of second after] pos_mod_bound [of second after] pos_mod_sign [of second after]
    by (auto simp: second_def)
  ultimately show ?thesis unfolding instant_def by linarith
qed

text \<open>
  C29: The calculator is exact. For an expression that parses and an instant from the year 1 on,
  \<open>Next\<close> answers a run time exactly when it is the earliest second strictly after the given instant
  at which the expression fires, and refuses with \<open>ErrUnreachable\<close> exactly when the expression
  never fires after it. So the cascade over years, months, days, hours, minutes and seconds ends,
  skips no trigger and invents none.
\<close>

theorem cron_next_exact:
  assumes "Parse expr = Inr p" "- unix_to_internal * second \<le> after"
  shows "(Next expr after = Inr run \<longleftrightarrow>
      (\<exists>u. run = instant u \<and> fires p u \<and> after < run \<and> (\<forall>v. fires p v \<and> after < instant v \<longrightarrow> u \<le> v))) \<and>
    (Next expr after = Inl ErrUnreachable \<longleftrightarrow> (\<forall>v. after < instant v \<longrightarrow> \<not> fires p v))"
proof -
  let ?t = "abs_seconds after + 1"
  note ex = next_loop_exact [OF Parse_ok [OF assms(1)], of ?t]
  note iff = after_iff [OF assms(2)]
  show ?thesis
  proof (cases "next_loop p ?t")
    case None
    then have n: "Next expr after = Inl ErrUnreachable" using assms(1) by (simp add: Next_def Parsed_Next_def)
    have "\<not> fires p v" if "after < instant v" for v using ex None iff that by simp
    then show ?thesis using n by auto
  next
    case (Some r)
    then have n: "Next expr after = Inr (instant r)" using assms(1) by (simp add: Next_def Parsed_Next_def)
    have r: "fires p r" "after < instant r" and least: "\<And>v. fires p v \<Longrightarrow> after < instant v \<Longrightarrow> r \<le> v"
      using ex Some iff by (auto simp: not_less [symmetric])
    have "u = r" if "fires p u" "after < instant u" "\<forall>v. fires p v \<and> after < instant v \<longrightarrow> u \<le> v" for u
      using that r least [OF that(1,2)] by (simp add: le_antisym)
    then have "Inr (instant r) = Inr run \<longleftrightarrow>
        (\<exists>u. run = instant u \<and> fires p u \<and> after < run \<and> (\<forall>v. fires p v \<and> after < instant v \<longrightarrow> u \<le> v))"
      using r least by blast
    then show ?thesis unfolding n using r by blast
  qed
qed

lemma noon_mondays_fires: "fires noon_mondays 62135985600"
proof -
  have "days_of_civil (1970, 1, 5) = 719166" by (simp add: days_before_year_def)
  then have "civil_of_days 719166 = (1970, 1, 5)"
    using civil_of_days_of_civil [of "(1970, 1, 5)"] by (simp add: month_len_def)
  then show ?thesis
    by (simp add: fires_def noon_mondays_def value_set_def unset_spec_def day_of_week_ok_def t_year_def t_month_def t_day_def
        t_civil_def t_hour_def t_minute_def t_second_def t_weekday_def)
qed

theorem cron_next_exact_witness:
  "Next ''0 0 12 ? * mon'' ((4 * 86400 + 43199) * second) = Inr ((4 * 86400 + 43200) * second)"
proof -
  let ?after = "(4 * 86400 + 43199) * second" and ?run = "(4 * 86400 + 43200) * second"
  have "- unix_to_internal * second \<le> ?after" by (simp add: unix_to_internal_def second_def)
  note ex = cron_next_exact [OF noon_mondays_parse this, of ?run]
  have run: "?run = instant 62135985600" "?after < ?run" by (simp_all add: instant_def unix_to_internal_def second_def)
  have "62135985600 \<le> v" if "?after < instant v" for v
    using that by (simp add: instant_def unix_to_internal_def second_def)
  then show ?thesis using ex noon_mondays_fires run by blast
qed

end
