(* ===== verification/Sched_Engine.thy ===== *)
theory Sched_Engine
  imports Sched_Cron
begin

text \<open>
  The dispatch engine of \<open>internal/scheduler/scheduler.go\<close> over the schedules ledger of
  \<open>internal/metadata/substores_schedules.go\<close>.

  The ledger is the list of rows of the \<open>schedules\<close> table, unique by \<open>(domain, key)\<close>. What the
  engine meets but does not decide is the environment: the clock, the outcome of a runner, the
  changes others make to the ledger while a job runs, and which store calls fail. The world holds
  the ledger, the jobs handed to a runner in order, the two metric families and the audit words;
  log lines are left out.
\<close>


section \<open>The ledger\<close>

record Schedule =
  sc_Domain :: string
  sc_Key :: string
  sc_CronExpr :: string
  sc_Enabled :: bool
  sc_NextRunAt :: string
  sc_LastRunAt :: string
  sc_LastStatus :: string
  sc_LastError :: string
  sc_CreatedAt :: string
  sc_CreatedBy :: string
  sc_UpdatedAt :: string
  sc_UpdatedBy :: string

type_synonym ledger = "Schedule list"

datatype schedule_error = ErrScheduleNotFound | ErrScheduleStore | ErrScheduleCheck

definition DomainMaintenance :: string where "DomainMaintenance = ''maintenance''"
definition DomainBackup :: string where "DomainBackup = ''backup''"
definition DomainReplication :: string where "DomainReplication = ''replication''"

definition Domains :: "string list" where
  "Domains = [DomainMaintenance, DomainBackup, DomainReplication]"

definition slot :: "Schedule \<Rightarrow> string \<times> string" where
  "slot r = (sc_Domain r, sc_Key r)"

text \<open>The upsert keeps the original creation columns; the table checks the domain and the status.\<close>

definition checks_ok :: "Schedule \<Rightarrow> bool" where
  "checks_ok sc \<longleftrightarrow> sc_Domain sc \<in> set Domains \<and> sc_LastStatus sc \<in> {[], ''ok'', ''failed''}"

definition scheduleStore_Put :: "ledger \<Rightarrow> Schedule \<Rightarrow> schedule_error + ledger" where
  "scheduleStore_Put l sc =
     (if \<not> checks_ok sc then Inl ErrScheduleCheck
      else if list_ex (\<lambda>r. slot r = slot sc) l
      then Inr (map (\<lambda>r. if slot r = slot sc
                 then sc\<lparr>sc_CreatedAt := sc_CreatedAt r, sc_CreatedBy := sc_CreatedBy r\<rparr> else r) l)
      else Inr (l @ [sc]))"

definition scheduleStore_Get :: "ledger \<Rightarrow> string \<Rightarrow> string \<Rightarrow> schedule_error + Schedule" where
  "scheduleStore_Get l d k =
     (case find (\<lambda>r. slot r = (d, k)) l of None \<Rightarrow> Inl ErrScheduleNotFound | Some r \<Rightarrow> Inr r)"

definition scheduleStore_Delete :: "ledger \<Rightarrow> string \<Rightarrow> string \<Rightarrow> schedule_error + ledger" where
  "scheduleStore_Delete l d k =
     (let l' = filter (\<lambda>r. slot r \<noteq> (d, k)) l
      in if length l' = length l then Inl ErrScheduleNotFound else Inr l')"

definition scheduleStore_List :: "ledger \<Rightarrow> string \<Rightarrow> ledger" where
  "scheduleStore_List l d =
     (if d = [] then sort_key slot l else sort_key sc_Key (filter (\<lambda>r. sc_Domain r = d) l))"

definition due :: "string \<Rightarrow> Schedule \<Rightarrow> bool" where
  "due stamp r \<longleftrightarrow> sc_Enabled r \<and> sc_NextRunAt r \<noteq> [] \<and> sc_NextRunAt r \<le> stamp"

definition scheduleStore_ListDue :: "ledger \<Rightarrow> string \<Rightarrow> ledger" where
  "scheduleStore_ListDue l now = sort_key (\<lambda>r. (sc_NextRunAt r, slot r)) (filter (due now) l)"


section \<open>The engine\<close>

datatype outcome = RunOk | RunFailed string | RunCanceled

datatype store_call = GetCall string string | PutCall string string | DueCall

record sched_env =
  sv_run :: "string \<Rightarrow> string \<Rightarrow> outcome"
  sv_ran :: "string \<Rightarrow> string \<Rightarrow> time"
  sv_edit :: "string \<Rightarrow> string \<Rightarrow> ledger \<Rightarrow> ledger"
  sv_fail :: "store_call \<Rightarrow> bool"

datatype audit_detail = RanFor int | FailedWith string

record audit_word =
  aw_Time :: string
  aw_Action :: string
  aw_Key :: string
  aw_Detail :: audit_detail

record sched_world =
  sw_rows :: ledger
  sw_started :: "(string \<times> string) list"
  sw_fires :: "string list"
  sw_fails :: "string list"
  sw_audit :: "audit_word list"

record Scheduler =
  sd_runners :: "string list"
  sd_kicks :: "(string \<times> string) list"

datatype sched_error = ErrUnknownDomain | ErrNilRunner | ErrDuplicateDomain | ErrNoRunner
  | ErrKickStore schedule_error | ErrKickQueueFull

definition errorTextLimit :: nat where "errorTextLimit = 512"
definition kickQueueSize :: nat where "kickQueueSize = 32"
definition auditActor :: string where "auditActor = ''scheduler''"

definition knownDomain :: "string \<Rightarrow> bool" where
  "knownDomain d \<longleftrightarrow> d = DomainMaintenance \<or> d = DomainBackup \<or> d = DomainReplication"

definition runner :: "Scheduler \<Rightarrow> string \<Rightarrow> bool" where
  "runner s d \<longleftrightarrow> d \<in> set (sd_runners s)"

definition Register :: "string \<Rightarrow> bool \<Rightarrow> Scheduler \<Rightarrow> sched_error + Scheduler" where
  "Register d isNil s =
     (if \<not> knownDomain d then Inl ErrUnknownDomain
      else if isNil then Inl ErrNilRunner
      else if runner s d then Inl ErrDuplicateDomain
      else Inr (s\<lparr>sd_runners := sd_runners s @ [d]\<rparr>))"

definition env_Get :: "sched_env \<Rightarrow> ledger \<Rightarrow> string \<Rightarrow> string \<Rightarrow> schedule_error + Schedule" where
  "env_Get ev l d k = (if sv_fail ev (GetCall d k) then Inl ErrScheduleStore else scheduleStore_Get l d k)"

text \<open>A write that fails leaves the ledger; the engine only logs it.\<close>

definition env_Put :: "sched_env \<Rightarrow> ledger \<Rightarrow> Schedule \<Rightarrow> ledger" where
  "env_Put ev l sc =
     (if sv_fail ev (PutCall (sc_Domain sc) (sc_Key sc)) then l
      else (case scheduleStore_Put l sc of Inl _ \<Rightarrow> l | Inr l' \<Rightarrow> l'))"

definition Kick :: "sched_env \<Rightarrow> ledger \<Rightarrow> string \<Rightarrow> string \<Rightarrow> Scheduler \<Rightarrow> sched_error + Scheduler" where
  "Kick ev l d k s =
     (if \<not> knownDomain d then Inl ErrUnknownDomain
      else if \<not> runner s d then Inl ErrNoRunner
      else (case env_Get ev l d k of
              Inl e \<Rightarrow> Inl (ErrKickStore e)
            | Inr _ \<Rightarrow>
                if length (sd_kicks s) < kickQueueSize then Inr (s\<lparr>sd_kicks := sd_kicks s @ [(d, k)]\<rparr>)
                else Inl ErrKickQueueFull))"

definition truncateErr :: "string \<Rightarrow> string" where
  "truncateErr msg = (if length msg \<le> errorTextLimit then msg else take errorTextLimit msg)"

definition next_text :: "string \<Rightarrow> time \<Rightarrow> string" where
  "next_text expr at = (case Next expr at of Inl _ \<Rightarrow> [] | Inr t \<Rightarrow> format_rfc3339 t)"

definition count_run :: "string \<Rightarrow> bool \<Rightarrow> sched_world \<Rightarrow> sched_world" where
  "count_run d ok w =
     w\<lparr>sw_fires := sw_fires w @ [d], sw_fails := sw_fails w @ (if ok then [] else [d])\<rparr>"

definition auditRun :: "string \<Rightarrow> string \<Rightarrow> time \<Rightarrow> duration \<Rightarrow> string \<Rightarrow> string \<Rightarrow> sched_world \<Rightarrow> sched_world" where
  "auditRun d k ran_at took status errText w =
     w\<lparr>sw_audit := sw_audit w @
        [\<lparr>aw_Time = format_rfc3339 ran_at,
          aw_Action = d @ (if status = ''failed'' then ''.schedule.fail'' else ''.schedule.run''),
          aw_Key = k,
          aw_Detail = (if status = ''failed'' then FailedWith errText else RanFor (sgn took * (\<bar>took\<bar> div millisecond)))\<rparr>]\<rparr>"

definition run_state :: "time \<Rightarrow> string \<Rightarrow> string \<Rightarrow> Schedule \<Rightarrow> Schedule" where
  "run_state ran_at status errText fresh =
     fresh\<lparr>sc_LastRunAt := format_rfc3339 ran_at, sc_LastStatus := status, sc_LastError := errText,
       sc_UpdatedAt := format_rfc3339 ran_at, sc_UpdatedBy := auditActor,
       sc_NextRunAt := (if sc_Enabled fresh then next_text (sc_CronExpr fresh) ran_at else [])\<rparr>"

definition runOne :: "sched_env \<Rightarrow> string \<Rightarrow> string \<Rightarrow> time \<Rightarrow> sched_world \<Rightarrow> sched_world" where
  "runOne ev d k start w0 =
     (let w = w0\<lparr>sw_started := sw_started w0 @ [(d, k)], sw_rows := sv_edit ev d k (sw_rows w0)\<rparr>;
          runErr = sv_run ev d k
      in if runErr = RunCanceled then w
         else
           (let ran_at = sv_ran ev d k;
                (status, errText) = (case runErr of RunFailed m \<Rightarrow> (''failed'', truncateErr m) | _ \<Rightarrow> (''ok'', []));
                rows = (case env_Get ev (sw_rows w) d k of
                          Inl _ \<Rightarrow> sw_rows w
                        | Inr fresh \<Rightarrow> env_Put ev (sw_rows w) (run_state ran_at status errText fresh))
            in auditRun d k ran_at (ran_at - start) status errText
                 (count_run d (runErr = RunOk) (w\<lparr>sw_rows := rows\<rparr>))))"

definition rearm :: "sched_env \<Rightarrow> Schedule \<Rightarrow> time \<Rightarrow> sched_world \<Rightarrow> sched_world" where
  "rearm ev row now w =
     (let put = (\<lambda>fresh. w\<lparr>sw_rows := env_Put ev (sw_rows w)
            (fresh\<lparr>sc_NextRunAt := next_text (sc_CronExpr fresh) now,
               sc_UpdatedAt := format_rfc3339 now, sc_UpdatedBy := auditActor\<rparr>)\<rparr>)
      in case env_Get ev (sw_rows w) (sc_Domain row) (sc_Key row) of
           Inr cur \<Rightarrow> put cur
         | Inl e \<Rightarrow> if e = ErrScheduleNotFound then put row else w)"

definition rolled_back :: "time \<Rightarrow> Schedule \<Rightarrow> bool" where
  "rolled_back now row \<longleftrightarrow>
     sc_LastRunAt row \<noteq> [] \<and> (case parse_rfc3339 (sc_LastRunAt row) of None \<Rightarrow> False | Some lastRun \<Rightarrow> now < lastRun)"

definition dispatchRow :: "sched_env \<Rightarrow> Scheduler \<Rightarrow> time \<Rightarrow> Schedule \<Rightarrow> sched_world \<Rightarrow> sched_world" where
  "dispatchRow ev s now row w =
     (if rolled_back now row then rearm ev row now w
      else if \<not> runner s (sc_Domain row) then rearm ev row now w
      else runOne ev (sc_Domain row) (sc_Key row) now w)"

definition sweep :: "sched_env \<Rightarrow> Scheduler \<Rightarrow> time \<Rightarrow> sched_world \<Rightarrow> sched_world" where
  "sweep ev s now w =
     (if sv_fail ev DueCall then w
      else fold (dispatchRow ev s now) (scheduleStore_ListDue (sw_rows w) (format_rfc3339 now)) w)"

definition dispatch :: "sched_env \<Rightarrow> Scheduler \<Rightarrow> time \<Rightarrow> string \<Rightarrow> string \<Rightarrow> sched_world \<Rightarrow> sched_world" where
  "dispatch ev s now d k w = (if \<not> runner s d then w else runOne ev d k now w)"

definition census :: "ledger \<Rightarrow> nat \<times> string" where
  "census l =
     (let rows = filter sc_Enabled (scheduleStore_List l [])
      in (length rows,
          fold (\<lambda>r nearest. if sc_NextRunAt r \<noteq> [] \<and> (nearest = [] \<or> sc_NextRunAt r < nearest)
                             then sc_NextRunAt r else nearest) rows []))"

text \<open>
  The dispatch loop. After the boot sweep each turn serves a cancellation, a queued kick or a
  tick, whichever the runtime selects; \<open>Event\<close> carries the environment of the turn.
\<close>

datatype loop_event = Tick time sched_env | ServeKick time sched_env | Stop

fun Run_loop :: "loop_event list \<Rightarrow> Scheduler \<Rightarrow> sched_world \<Rightarrow> Scheduler \<times> sched_world" where
  "Run_loop [] s w = (s, w)"
| "Run_loop (Stop # es) s w = (s, w)"
| "Run_loop (Tick now ev # es) s w = Run_loop es s (sweep ev s now w)"
| "Run_loop (ServeKick now ev # es) s w =
     (case sd_kicks s of
        [] \<Rightarrow> Run_loop es s w
      | (d, k) # ks \<Rightarrow> Run_loop es (s\<lparr>sd_kicks := ks\<rparr>) (dispatch ev s now d k w))"

definition Run :: "time \<Rightarrow> sched_env \<Rightarrow> loop_event list \<Rightarrow> Scheduler \<Rightarrow> sched_world \<Rightarrow> Scheduler \<times> sched_world" where
  "Run boot ev es s w = Run_loop es s (sweep ev s boot w)"



section \<open>One turn\<close>

lemma slot_updates [simp]:
  "slot (r\<lparr>sc_NextRunAt := a\<rparr>) = slot r" "slot (r\<lparr>sc_UpdatedAt := a\<rparr>) = slot r" "slot (r\<lparr>sc_UpdatedBy := a\<rparr>) = slot r"
  "slot (r\<lparr>sc_LastRunAt := a\<rparr>) = slot r" "slot (r\<lparr>sc_LastStatus := a\<rparr>) = slot r" "slot (r\<lparr>sc_LastError := a\<rparr>) = slot r"
  by (simp_all add: slot_def)

lemma Get_Inr:
  "scheduleStore_Get l d k = Inr r \<Longrightarrow> r \<in> set l \<and> slot r = (d, k)"
  by (auto simp: scheduleStore_Get_def find_Some_iff split: option.splits)

lemma Get_missing: "scheduleStore_Get l d k = Inl e \<longleftrightarrow> e = ErrScheduleNotFound \<and> (d, k) \<notin> slot ` set l"
proof (cases "find (\<lambda>r. slot r = (d, k)) l")
  case None
  have "(d, k) \<notin> slot ` set l"
  proof
    assume "(d, k) \<in> slot ` set l"
    then obtain r where "r \<in> set l" "slot r = (d, k)" by (elim imageE) simp
    then show False using None unfolding find_None_iff by blast
  qed
  then show ?thesis using None by (auto simp: scheduleStore_Get_def)
next
  case (Some r)
  then have "r \<in> set l" "slot r = (d, k)" by (auto simp: find_Some_iff)
  then have "(d, k) \<in> slot ` set l" by (metis imageI)
  then show ?thesis using Some by (simp add: scheduleStore_Get_def)
qed

lemma Get_row:
  "distinct (map slot l) \<Longrightarrow> r \<in> set l \<Longrightarrow> scheduleStore_Get l (sc_Domain r) (sc_Key r) = Inr r"
proof -
  assume d: "distinct (map slot l)" and r: "r \<in> set l"
  obtain q where q: "scheduleStore_Get l (sc_Domain r) (sc_Key r) = Inr q"
    using r Get_missing [of l "sc_Domain r" "sc_Key r"]
    by (cases "scheduleStore_Get l (sc_Domain r) (sc_Key r)") (auto simp: slot_def image_iff)
  then have "q \<in> set l" "slot q = slot r" using Get_Inr by (auto simp: slot_def)
  then have "q = r" using d r by (auto simp: distinct_map inj_on_def)
  then show ?thesis using q by simp
qed

text \<open>\<open>replace r' l\<close>: the row with the slot of \<open>r'\<close> becomes \<open>r'\<close>, every other row stays.\<close>

definition replace :: "Schedule \<Rightarrow> ledger \<Rightarrow> ledger" where
  "replace r' l = map (\<lambda>r. if slot r = slot r' then r' else r) l"

lemma replace_simps [simp]:
  "map slot (replace r' l) = map slot l" "r \<in> set (replace r' l) \<longleftrightarrow> r \<in> set l \<and> slot r \<noteq> slot r' \<or> r = r' \<and> slot r' \<in> slot ` set l"
  by (auto simp: replace_def) (metis image_eqI)+

lemma Put_replaces:
  assumes "distinct (map slot l)" "r \<in> set l" "slot r' = slot r" "checks_ok r'"
    "sc_CreatedAt r' = sc_CreatedAt r" "sc_CreatedBy r' = sc_CreatedBy r"
  shows "scheduleStore_Put l r' = Inr (replace r' l)"
proof -
  have "q = r" if "q \<in> set l" "slot q = slot r'" for q
    using that assms(1-3) by (auto simp: distinct_map inj_on_def)
  moreover have "r'\<lparr>sc_CreatedAt := sc_CreatedAt r, sc_CreatedBy := sc_CreatedBy r\<rparr> = r'" using assms(5,6) by simp
  ultimately have "map (\<lambda>q. if slot q = slot r' then r'\<lparr>sc_CreatedAt := sc_CreatedAt q, sc_CreatedBy := sc_CreatedBy q\<rparr> else q) l
      = replace r' l" unfolding replace_def by (intro map_cong) auto
  then show ?thesis using assms by (auto simp: scheduleStore_Put_def list_ex_iff)
qed

definition ledger_ok :: "ledger \<Rightarrow> bool" where
  "ledger_ok l \<longleftrightarrow> distinct (map slot l) \<and> (\<forall>r\<in>set l. checks_ok r)"

text \<open>What a run reports: the status and the truncated error text.\<close>

definition report :: "outcome \<Rightarrow> string \<times> string" where
  "report out = (case out of RunFailed m \<Rightarrow> (''failed'', truncateErr m) | _ \<Rightarrow> (''ok'', []))"

lemma run_state_simps [simp]:
  "slot (run_state t st e r) = slot r" "sc_CreatedAt (run_state t st e r) = sc_CreatedAt r"
  "sc_CreatedBy (run_state t st e r) = sc_CreatedBy r" "sc_CronExpr (run_state t st e r) = sc_CronExpr r"
  "sc_Enabled (run_state t st e r) = sc_Enabled r" "sc_Domain (run_state t st e r) = sc_Domain r" "sc_Key (run_state t st e r) = sc_Key r"
  by (simp_all add: run_state_def)

lemma replace_map:
  "distinct (map slot l) \<Longrightarrow> r \<in> set l \<Longrightarrow> slot (f r) = slot r \<Longrightarrow>
     replace (f r) l = map (\<lambda>q. if slot q = slot r then f q else q) l"
  unfolding replace_def by (intro map_cong) (auto simp: distinct_map inj_on_def)

lemma runOne_rows:
  assumes "ledger_ok (sv_edit ev d k (sw_rows w))" "sv_run ev d k \<noteq> RunCanceled"
    "\<not> sv_fail ev (GetCall d k)" "\<not> sv_fail ev (PutCall d k)"
  shows "sw_rows (runOne ev d k start w) =
    map (\<lambda>r. if slot r = (d, k) then run_state (sv_ran ev d k) (fst (report (sv_run ev d k))) (snd (report (sv_run ev d k))) r else r)
      (sv_edit ev d k (sw_rows w))"
proof -
  let ?l = "sv_edit ev d k (sw_rows w)" and ?f = "run_state (sv_ran ev d k) (fst (report (sv_run ev d k))) (snd (report (sv_run ev d k)))"
  have rows: "sw_rows (runOne ev d k start w) =
      (case env_Get ev ?l d k of Inl _ \<Rightarrow> ?l | Inr fresh \<Rightarrow> env_Put ev ?l (?f fresh))"
    using assms(2) by (cases "sv_run ev d k") (auto simp: runOne_def Let_def report_def auditRun_def count_run_def split: sum.splits)
  show ?thesis
  proof (cases "scheduleStore_Get ?l d k")
    case (Inl e)
    then have "slot r \<noteq> (d, k)" if "r \<in> set ?l" for r using Get_missing [of ?l d k e] that by (auto simp: image_iff)
    then have "map (\<lambda>r. if slot r = (d, k) then ?f r else r) ?l = ?l" by (intro map_idI) auto
    then show ?thesis using Inl rows assms(3) by (simp add: env_Get_def)
  next
    case (Inr r)
    then have r: "r \<in> set ?l" "slot r = (d, k)" using Get_Inr by blast+
    have "checks_ok (?f r)"
      using r(1) assms(1,2) by (cases "sv_run ev d k") (auto simp: ledger_ok_def checks_ok_def run_state_def report_def)
    then have "scheduleStore_Put ?l (?f r) = Inr (replace (?f r) ?l)"
      using assms(1) r(1) by (intro Put_replaces [of _ r]) (auto simp: ledger_ok_def)
    then have "sw_rows (runOne ev d k start w) = replace (?f r) ?l"
      using rows Inr assms(3,4) r(2) by (simp add: env_Get_def env_Put_def slot_def)
    also have "\<dots> = map (\<lambda>q. if slot q = slot r then ?f q else q) ?l"
      using assms(1) r(1) by (intro replace_map) (auto simp: ledger_ok_def)
    finally show ?thesis using r(2) by simp
  qed
qed

text \<open>
  What a completed run leaves behind. The job is started once, counted once and audited once;
  the ledger is the one others left while the job ran, with the run columns of the fired row set
  from the outcome and the next run computed from the row's present expression (none when it is
  disabled). So an edit made during the run is never overwritten, a row deleted during the run
  stays deleted, and no other row is touched.
\<close>

theorem run_write_back:
  assumes "ledger_ok (sv_edit ev d k (sw_rows w))" "sv_run ev d k \<noteq> RunCanceled"
    and "\<not> sv_fail ev (GetCall d k)" "\<not> sv_fail ev (PutCall d k)"
  shows "sw_rows (runOne ev d k start w) =
      map (\<lambda>r. if slot r = (d, k) then run_state (sv_ran ev d k) (fst (report (sv_run ev d k))) (snd (report (sv_run ev d k))) r else r)
        (sv_edit ev d k (sw_rows w)) \<and>
    sw_started (runOne ev d k start w) = sw_started w @ [(d, k)] \<and>
    sw_fires (runOne ev d k start w) = sw_fires w @ [d] \<and>
    sw_fails (runOne ev d k start w) = sw_fails w @ (if sv_run ev d k = RunOk then [] else [d]) \<and>
    length (sw_audit (runOne ev d k start w)) = length (sw_audit w) + 1"
  using runOne_rows [OF assms, of start] assms(2)
  by (cases "sv_run ev d k") (auto simp: runOne_def Let_def auditRun_def count_run_def)

lemma Next_later:
  assumes "Next expr t = Inr u" "printable_time t"
  shows "printable_time u" "t div second < u div second"
proof -
  obtain p where p: "Parse expr = Inr p" and n: "Parsed_Next p t = Some u"
    using assms(1) by (auto simp: Next_def split: sum.splits option.splits)
  obtain v where v: "next_loop p (abs_seconds t + 1) = Some v" "u = instant v"
    using n by (auto simp: Parsed_Next_def)
  have le: "abs_seconds t + 1 \<le> v" and f: "fires p v"
    using next_loop_exact [OF Parse_ok [OF p], of "abs_seconds t + 1"] v(1) by simp_all
  have "v < lastSearch" using fires_in_span [OF Parse_ok [OF p] f] .
  then have "v < 3652059 * 86400"
    by (simp add: lastSearch_def date_seconds_def date_days_def days_before_year_def maxYear_def)
  moreover have u: "u div second = int v - unix_to_internal" using v(2) by (simp add: instant_def second_def)
  ultimately show "printable_time u" by (simp add: printable_time_def abs_seconds_def)
  show "t div second < u div second"
    using u le assms(2) unfolding abs_seconds_def printable_time_def by linarith
qed

lemma next_text_later:
  assumes "printable_time t" "printable_time now" "now \<le> t" "next_text expr t \<noteq> []"
  shows "\<not> next_text expr t \<le> format_rfc3339 now"
proof -
  obtain u where u: "Next expr t = Inr u" "next_text expr t = format_rfc3339 u"
    using assms(4) by (cases "Next expr t") (simp_all add: next_text_def)
  have "now div second \<le> t div second" using assms(3) by (simp add: second_def zdiv_mono1)
  then show ?thesis
    using Next_later [OF u(1) assms(1)] u(2) format_rfc3339_le [of u now] assms(2) by simp
qed


section \<open>A sweep\<close>

text \<open>
  An undisturbed turn: no store call fails, no runner is canceled, nobody else edits the ledger,
  the clock does not run backwards during it and stays in the years RFC 3339 can print.
\<close>

definition undisturbed :: "sched_env \<Rightarrow> time \<Rightarrow> bool" where
  "undisturbed ev now \<longleftrightarrow> printable_time now \<and> (\<forall>c. \<not> sv_fail ev c) \<and>
     (\<forall>d k. sv_run ev d k \<noteq> RunCanceled \<and> now \<le> sv_ran ev d k \<and> printable_time (sv_ran ev d k) \<and>
            sv_edit ev d k = (\<lambda>l. l))"

definition fired :: "Scheduler \<Rightarrow> time \<Rightarrow> Schedule \<Rightarrow> bool" where
  "fired s now r \<longleftrightarrow> \<not> rolled_back now r \<and> runner s (sc_Domain r)"

lemma rearm_rows:
  assumes "ledger_ok (sw_rows w)" "r \<in> set (sw_rows w)" "\<forall>c. \<not> sv_fail ev c"
  shows "rearm ev r now w = w\<lparr>sw_rows := replace (r\<lparr>sc_NextRunAt := next_text (sc_CronExpr r) now,
    sc_UpdatedAt := format_rfc3339 now, sc_UpdatedBy := auditActor\<rparr>) (sw_rows w)\<rparr>"
proof -
  let ?r = "r\<lparr>sc_NextRunAt := next_text (sc_CronExpr r) now, sc_UpdatedAt := format_rfc3339 now, sc_UpdatedBy := auditActor\<rparr>"
  have "scheduleStore_Get (sw_rows w) (sc_Domain r) (sc_Key r) = Inr r"
    using Get_row assms(1,2) by (simp add: ledger_ok_def)
  moreover have "scheduleStore_Put (sw_rows w) ?r = Inr (replace ?r (sw_rows w))"
    using assms(1,2) by (intro Put_replaces [of _ r]) (auto simp: ledger_ok_def checks_ok_def)
  ultimately show ?thesis using assms(3) by (simp add: rearm_def Let_def env_Get_def env_Put_def)
qed

lemma dispatchRow_effect:
  assumes "ledger_ok (sw_rows w)" "r \<in> set (sw_rows w)" "undisturbed ev now"
  shows "\<exists>r'. sw_rows (dispatchRow ev s now r w) = replace r' (sw_rows w) \<and> slot r' = slot r \<and> checks_ok r' \<and>
      \<not> due (format_rfc3339 now) r'"
    and "sw_started (dispatchRow ev s now r w) = sw_started w @ (if fired s now r then [slot r] else [])"
proof -
  note quiet = assms(3) [unfolded undisturbed_def]
  have notdue: "\<not> due (format_rfc3339 now) q" if "sc_NextRunAt q = next_text e t \<or> sc_NextRunAt q = []" "printable_time t" "now \<le> t" for q e t
    using next_text_later [of t now e] quiet that by (auto simp: due_def)
  have ck: "checks_ok r" using assms(1,2) by (simp add: ledger_ok_def)
  show "\<exists>r'. sw_rows (dispatchRow ev s now r w) = replace r' (sw_rows w) \<and> slot r' = slot r \<and> checks_ok r' \<and>
      \<not> due (format_rfc3339 now) r'"
  proof (cases "fired s now r")
    case True
    let ?d = "sc_Domain r" and ?k = "sc_Key r"
    let ?r = "run_state (sv_ran ev ?d ?k) (fst (report (sv_run ev ?d ?k))) (snd (report (sv_run ev ?d ?k))) r"
    have "sw_rows (dispatchRow ev s now r w) = replace ?r (sw_rows w)"
      using True quiet runOne_rows [of ev ?d ?k w now] assms(1) replace_map [OF _ assms(2)]
      by (simp add: dispatchRow_def fired_def ledger_ok_def slot_def [of r, symmetric])
    moreover have "checks_ok ?r" using ck quiet by (cases "sv_run ev ?d ?k") (auto simp: checks_ok_def run_state_def report_def)
    moreover have "\<not> due (format_rfc3339 now) ?r"
      using quiet notdue [of ?r "sc_CronExpr r" "sv_ran ev ?d ?k"] by (simp add: run_state_def)
    ultimately show ?thesis by (intro exI [of _ ?r]) simp
  next
    case False
    let ?r = "r\<lparr>sc_NextRunAt := next_text (sc_CronExpr r) now, sc_UpdatedAt := format_rfc3339 now, sc_UpdatedBy := auditActor\<rparr>"
    have "sw_rows (dispatchRow ev s now r w) = replace ?r (sw_rows w)"
      using False rearm_rows [OF assms(1,2), of ev now] quiet by (auto simp: dispatchRow_def fired_def)
    moreover have "checks_ok ?r" using ck by (simp add: checks_ok_def)
    moreover have "\<not> due (format_rfc3339 now) ?r" using quiet notdue [of ?r "sc_CronExpr r" now] by simp
    ultimately show ?thesis by (intro exI [of _ ?r]) simp
  qed
  show "sw_started (dispatchRow ev s now r w) = sw_started w @ (if fired s now r then [slot r] else [])"
    using quiet rearm_rows [OF assms(1,2), of ev now]
    by (auto simp: dispatchRow_def fired_def runOne_def Let_def auditRun_def count_run_def slot_def [symmetric] split: prod.splits)
qed

lemma sweep_fold:
  assumes "undisturbed ev now"
  shows "ledger_ok (sw_rows w) \<Longrightarrow> distinct (map slot rs) \<Longrightarrow> set rs \<subseteq> set (sw_rows w) \<Longrightarrow>
     \<forall>r\<in>set (sw_rows w). due (format_rfc3339 now) r \<longrightarrow> r \<in> set rs \<Longrightarrow>
     (let w' = fold (dispatchRow ev s now) rs w in
        sw_started w' = sw_started w @ map slot (filter (fired s now) rs) \<and> map slot (sw_rows w') = map slot (sw_rows w) \<and>
        ledger_ok (sw_rows w') \<and> (\<forall>r\<in>set (sw_rows w'). \<not> due (format_rfc3339 now) r))"
proof (induction rs arbitrary: w)
  case (Cons r rs)
  have r: "r \<in> set (sw_rows w)" using Cons.prems(3) by simp
  let ?w = "dispatchRow ev s now r w"
  obtain r' where r': "sw_rows ?w = replace r' (sw_rows w)" "slot r' = slot r" "checks_ok r'" "\<not> due (format_rfc3339 now) r'"
    using dispatchRow_effect(1) [OF Cons.prems(1) r assms, of s] by blast
  have ok: "ledger_ok (sw_rows ?w)" using Cons.prems(1) r' by (auto simp: ledger_ok_def)
  have dist: "distinct (map slot rs)" and fresh: "\<And>x. x \<in> set rs \<Longrightarrow> slot x \<noteq> slot r"
    using Cons.prems(2) by (auto simp: image_iff)
  have sub: "set rs \<subseteq> set (sw_rows ?w)"
    using Cons.prems(3) fresh r'(1,2) by (fastforce simp: subset_iff)
  have due: "\<forall>q\<in>set (sw_rows ?w). due (format_rfc3339 now) q \<longrightarrow> q \<in> set rs"
    using Cons.prems(4) r' by auto
  have "map slot (sw_rows ?w) = map slot (sw_rows w)" using r'(1) by simp
  then show ?case
    using Cons.IH [OF ok dist sub due] dispatchRow_effect(2) [OF Cons.prems(1) r assms, of s]
    unfolding Let_def fold_Cons o_apply by simp
qed (auto simp: Let_def)

text \<open>
  C30: The missed-window collapse. In an undisturbed sweep every due row is handled exactly once, in
  the order of its due time: the rows whose domain has a runner and whose last run does not lie in
  the clock's future are started, the others only re-armed, however many windows they missed; no
  row is added or lost, afterwards no row is due, and so sweeping again at the same time does
  nothing.
\<close>

theorem sweep_collapses:
  assumes "ledger_ok (sw_rows w)" "undisturbed ev now"
  shows "sw_started (sweep ev s now w) =
      sw_started w @ map slot (filter (fired s now) (scheduleStore_ListDue (sw_rows w) (format_rfc3339 now))) \<and>
    map slot (sw_rows (sweep ev s now w)) = map slot (sw_rows w) \<and>
    scheduleStore_ListDue (sw_rows (sweep ev s now w)) (format_rfc3339 now) = [] \<and>
    sweep ev' s now (sweep ev s now w) = sweep ev s now w"
proof -
  let ?rs = "scheduleStore_ListDue (sw_rows w) (format_rfc3339 now)"
  have sw: "sweep ev s now w = fold (dispatchRow ev s now) ?rs w"
    using assms(2) by (simp add: sweep_def undisturbed_def)
  have "distinct (map slot (filter (due (format_rfc3339 now)) (sw_rows w)))"
    using assms(1) by (simp add: ledger_ok_def distinct_map_filter)
  then have "distinct (map slot ?rs)" by (simp add: scheduleStore_ListDue_def distinct_map)
  moreover have sub: "set ?rs \<subseteq> set (sw_rows w)"
    and all: "\<forall>r\<in>set (sw_rows w). due (format_rfc3339 now) r \<longrightarrow> r \<in> set ?rs"
    by (auto simp: scheduleStore_ListDue_def)
  ultimately have w: "sw_started (sweep ev s now w) = sw_started w @ map slot (filter (fired s now) ?rs)"
      "map slot (sw_rows (sweep ev s now w)) = map slot (sw_rows w)"
      "\<forall>r\<in>set (sw_rows (sweep ev s now w)). \<not> due (format_rfc3339 now) r"
    using sweep_fold [OF assms(2,1), of ?rs s] sub all unfolding sw Let_def by blast+
  then have "scheduleStore_ListDue (sw_rows (sweep ev s now w)) (format_rfc3339 now) = []"
    by (simp add: scheduleStore_ListDue_def filter_empty_conv)
  then show ?thesis using w by (simp add: sweep_def [of ev'])
qed

text \<open>
  A concrete ledger: the collector's slot missed its Monday noon runs, a backup row has no runner.
\<close>

definition demo_gc :: Schedule where
  "demo_gc = \<lparr>sc_Domain = DomainMaintenance, sc_Key = ''gc'', sc_CronExpr = ''0 0 12 ? * mon'', sc_Enabled = True,
     sc_NextRunAt = format_rfc3339 0, sc_LastRunAt = [], sc_LastStatus = [], sc_LastError = [],
     sc_CreatedAt = [], sc_CreatedBy = ''admin'', sc_UpdatedAt = [], sc_UpdatedBy = ''admin''\<rparr>"

definition demo_backup :: Schedule where
  "demo_backup = demo_gc\<lparr>sc_Domain := DomainBackup, sc_Key := ''nightly''\<rparr>"

definition demo_world :: sched_world where
  "demo_world = \<lparr>sw_rows = [demo_gc, demo_backup], sw_started = [], sw_fires = [], sw_fails = [], sw_audit = []\<rparr>"

definition demo_sched :: Scheduler where
  "demo_sched = \<lparr>sd_runners = [DomainMaintenance], sd_kicks = []\<rparr>"

definition demo_sched_env :: sched_env where
  "demo_sched_env = \<lparr>sv_run = (\<lambda>d k. RunOk), sv_ran = (\<lambda>d k. 30 * second), sv_edit = (\<lambda>d k l. l), sv_fail = (\<lambda>c. False)\<rparr>"

lemmas demo_defs = demo_gc_def demo_backup_def demo_world_def demo_sched_def demo_sched_env_def
  DomainMaintenance_def DomainBackup_def DomainReplication_def Domains_def

lemma demo_ledger: "ledger_ok (sw_rows demo_world)"
  by (simp add: ledger_ok_def checks_ok_def slot_def demo_defs)

lemma demo_undisturbed: "undisturbed demo_sched_env 0"
  by (simp add: undisturbed_def demo_sched_env_def printable_time_def abs_seconds_def unix_to_internal_def second_def)

lemma demo_due: "scheduleStore_ListDue (sw_rows demo_world) (format_rfc3339 0) = [demo_backup, demo_gc]"
  by (simp add: scheduleStore_ListDue_def due_def demo_defs slot_def insort_key_def less_prod_def)

theorem run_write_back_witness:
  "sw_rows (runOne demo_sched_env DomainMaintenance ''gc'' 0 demo_world) =
     [run_state (30 * second) ''ok'' [] demo_gc, demo_backup]"
  using run_write_back [of demo_sched_env DomainMaintenance "''gc''" demo_world 0] demo_ledger
  by (simp add: demo_defs report_def slot_def)

theorem sweep_collapses_witness:
  "sw_started (sweep demo_sched_env demo_sched 0 demo_world) = [(DomainMaintenance, ''gc'')] \<and>
   sweep demo_sched_env demo_sched 0 (sweep demo_sched_env demo_sched 0 demo_world) = sweep demo_sched_env demo_sched 0 demo_world"
  using sweep_collapses [OF demo_ledger demo_undisturbed, of demo_sched demo_sched_env]
  unfolding demo_due by (simp add: fired_def rolled_back_def runner_def demo_defs slot_def)

text \<open>
  Re-arming is not protected the way a run is: a row that was deleted after the scan, here the
  backup row without a runner, is written back by the re-arm of the stale copy.
\<close>

lemma rearm_resurrects:
  "sw_rows (rearm demo_sched_env demo_backup 0 (demo_world\<lparr>sw_rows := [demo_gc]\<rparr>)) =
     [demo_gc, demo_backup\<lparr>sc_NextRunAt := next_text ''0 0 12 ? * mon'' 0, sc_UpdatedAt := format_rfc3339 0, sc_UpdatedBy := auditActor\<rparr>]"
  by (simp add: rearm_def env_Get_def env_Put_def scheduleStore_Get_def scheduleStore_Put_def checks_ok_def Let_def slot_def demo_defs)

end
