(* ===== verification/GoNet.thy ===== *)
theory GoNet
  imports GoPrelude "HOL-Library.Word"
begin

text \<open>
  The part of Go's \<open>net\<close> and \<open>net/netip\<close> packages the outbound guard uses: addresses as 32- and
  128-bit words, CIDR prefixes, the textual forms of addresses and of host:port pairs. The lemmas
  at the end read the bitwise operations as arithmetic on the address numbers.
\<close>

unbundle bit_operations_syntax


section \<open>Addresses and prefixes\<close>

text \<open>\<open>netip.Addr\<close>: the zero value, an IPv4 address, or an IPv6 address with its zone.\<close>

datatype Addr = NoAddr | Addr4 "32 word" | Addr6 "128 word" string

datatype Prefix = Prefix4 "32 word" nat | Prefix6 "128 word" nat

definition IsValid :: "Addr \<Rightarrow> bool" where "IsValid ip \<longleftrightarrow> ip \<noteq> NoAddr"

definition Is4 :: "Addr \<Rightarrow> bool" where "Is4 ip \<longleftrightarrow> (\<exists>a. ip = Addr4 a)"

lemma Is4_simps [simp, code]: "Is4 NoAddr = False" "Is4 (Addr4 a) = True" "Is4 (Addr6 b z) = False"
  by (simp_all add: Is4_def)

fun Unmap :: "Addr \<Rightarrow> Addr" where
  "Unmap (Addr6 a z) = (if drop_bit 32 a = 0xffff then Addr4 (ucast a) else Addr6 a z)"
| "Unmap ip = ip"

fun WithZone :: "Addr \<Rightarrow> string \<Rightarrow> Addr" where
  "WithZone (Addr6 a z) zone = Addr6 a zone"
| "WithZone ip zone = ip"

text \<open>A prefix contains an address of its own family that carries no zone.\<close>

fun Contains :: "Prefix \<Rightarrow> Addr \<Rightarrow> bool" where
  "Contains (Prefix4 p n) (Addr4 a) \<longleftrightarrow> drop_bit (32 - n) (a XOR p) = 0"
| "Contains (Prefix6 p n) (Addr6 a z) \<longleftrightarrow> z = [] \<and> (a XOR p) AND NOT (mask (128 - n)) = 0"
| "Contains _ _ \<longleftrightarrow> False"

definition As16 :: "128 word \<Rightarrow> 8 word list" where
  "As16 w = map (\<lambda>i. ucast (drop_bit (8 * (15 - i)) w)) [0..<16]"

definition AddrFrom4 :: "8 word list \<Rightarrow> Addr" where
  "AddrFrom4 bs = Addr4 (foldl (\<lambda>acc b. push_bit 8 acc OR ucast b) 0 bs)"

definition AddrFrom16 :: "8 word list \<Rightarrow> Addr" where
  "AddrFrom16 bs = Addr6 (foldl (\<lambda>acc b. push_bit 8 acc OR ucast b) 0 bs) []"

text \<open>The literals of the source, \<open>a.b.c.d\<close> and the eight groups of an IPv6 address.\<close>

definition v4 :: "int \<Rightarrow> int \<Rightarrow> int \<Rightarrow> int \<Rightarrow> 32 word" where
  "v4 a b c d = of_int (a * 2 ^ 24 + b * 2 ^ 16 + c * 2 ^ 8 + d)"

definition v6 :: "int list \<Rightarrow> 128 word" where
  "v6 gs = of_int (foldl (\<lambda>acc g. acc * 2 ^ 16 + g) 0 gs)"


section \<open>Text\<close>

definition is_hex :: "char \<Rightarrow> bool" where
  "is_hex c \<longleftrightarrow> is_digit c \<or> c \<in> set ''abcdefABCDEF''"

definition hex_val :: "char \<Rightarrow> nat" where
  "hex_val c = (if is_digit c then digit_val c else byte_of (lower_char c) - 87)"

definition octet_of :: "string \<Rightarrow> 8 word option" where
  "octet_of f =
     (if f \<noteq> [] \<and> all_digits f \<and> (length f = 1 \<or> hd f \<noteq> CHR ''0'') \<and> dec_value 0 f \<le> 255
      then Some (of_nat (dec_value 0 f)) else None)"

fun octets :: "string list \<Rightarrow> 8 word list option" where
  "octets [] = Some []"
| "octets (f # fs) = (case octet_of f of None \<Rightarrow> None | Some b \<Rightarrow> map_option ((#) b) (octets fs))"

definition parse_ipv4 :: "string \<Rightarrow> 8 word list option" where
  "parse_ipv4 s = (let fs = split_on (CHR ''.'') s in if length fs = 4 then octets fs else None)"

text \<open>
  The loop of \<open>parseIPv6\<close>: the bytes so far and the position of the ellipsis. An embedded IPv4
  tail ends the loop; the result carries what is left of the text.
\<close>

function parse_groups :: "string \<Rightarrow> 8 word list \<Rightarrow> nat option \<Rightarrow> (string \<times> 8 word list \<times> nat option) option" where
  "parse_groups s ip ell =
     (if 16 \<le> length ip then Some (s, ip, ell)
      else
        let run = takeWhile is_hex s;
            rest = drop (length run) s;
            acc = foldl (\<lambda>a c. a * 16 + int (hex_val c)) 0 run;
            ip' = ip @ [of_int (acc div 256), of_int acc]
        in if run = [] \<or> 4 < length run then None
           else if rest \<noteq> [] \<and> hd rest = CHR ''.'' then
             (if (ell = None \<and> length ip \<noteq> 12) \<or> 12 < length ip then None
              else map_option (\<lambda>bs. ([], ip @ bs, ell)) (parse_ipv4 s))
           else case rest of
             [] \<Rightarrow> Some ([], ip', ell)
           | [c] \<Rightarrow> None
           | c # d # r \<Rightarrow>
               if c \<noteq> CHR '':'' then None
               else if d = CHR '':'' then
                 (if ell \<noteq> None then None
                  else if r = [] then Some ([], ip', Some (length ip'))
                  else parse_groups r ip' (Some (length ip')))
               else parse_groups (d # r) ip' ell)"
  by pat_completeness auto
termination parse_groups by (relation "measure (\<lambda>(s, ip, ell). 16 - length ip)") auto
declare parse_groups.simps [simp del]

definition parse_ipv6 :: "string \<Rightarrow> Addr option" where
  "parse_ipv6 txt =
     (let (s, zone) = (case index_byte txt (CHR ''%'') of None \<Rightarrow> (txt, None) | Some i \<Rightarrow> (take i txt, Some (drop (i + 1) txt)));
          z = (case zone of None \<Rightarrow> [] | Some z \<Rightarrow> z);
          lead = (take 2 s = ''::'');
          body = (if lead then drop 2 s else s)
      in if zone = Some [] then None
         else if lead \<and> body = [] then Some (Addr6 0 z)
         else case parse_groups body [] (if lead then Some 0 else None) of
           None \<Rightarrow> None
         | Some (s', ip, ell) \<Rightarrow>
             if s' \<noteq> [] then None
             else if length ip < 16 then
               (case ell of
                  None \<Rightarrow> None
                | Some e \<Rightarrow> Some (WithZone (AddrFrom16 (take e ip @ replicate (16 - length ip) 0 @ drop e ip)) z))
             else if ell \<noteq> None then None
             else Some (WithZone (AddrFrom16 ip) z))"

text \<open>The first of the three separators decides the family.\<close>

definition ParseAddr :: "string \<Rightarrow> Addr option" where
  "ParseAddr s =
     (case find (\<lambda>c. c = CHR ''.'' \<or> c = CHR '':'' \<or> c = CHR ''%'') s of
        None \<Rightarrow> None
      | Some c \<Rightarrow>
          if c = CHR ''.'' then map_option AddrFrom4 (parse_ipv4 s)
          else if c = CHR '':'' then parse_ipv6 s
          else None)"

function hex_string :: "int \<Rightarrow> string" where
  "hex_string n = (if n < 16 then [''0123456789abcdef'' ! nat n] else hex_string (n div 16) @ [''0123456789abcdef'' ! nat (n mod 16)])"
  by pat_completeness auto
termination hex_string by (relation "measure nat") (auto simp: nat_less_eq_zless)
declare hex_string.simps [simp del]

definition groups16 :: "128 word \<Rightarrow> int list" where
  "groups16 w = map (\<lambda>i. uint (ucast (drop_bit (16 * (7 - i)) w) :: 16 word)) [0..<8]"

text \<open>The longest run of at least two zero groups, the first one on a tie.\<close>

definition zero_run :: "int list \<Rightarrow> (nat \<times> nat) option" where
  "zero_run gs =
     fold (\<lambda>i best. let l = length (takeWhile (\<lambda>g. g = 0) (drop i gs))
        in if 2 \<le> l \<and> (case best of None \<Rightarrow> 0 | Some (_, n) \<Rightarrow> n) < l then Some (i, l) else best) [0..<8] None"

definition string6 :: "128 word \<Rightarrow> string" where
  "string6 w =
     (let gs = groups16 w; show = (\<lambda>xs. join_with (CHR '':'') (map hex_string xs))
      in case zero_run gs of None \<Rightarrow> show gs | Some (i, l) \<Rightarrow> show (take i gs) @ ''::'' @ show (drop (i + l) gs))"

definition string4 :: "32 word \<Rightarrow> string" where
  "string4 w = join_with (CHR ''.'') (map (\<lambda>i. dec_string (unat (ucast (drop_bit (8 * (3 - i)) w) :: 8 word))) [0..<4])"

fun addr_String :: "Addr \<Rightarrow> string" where
  "addr_String NoAddr = ''invalid IP''"
| "addr_String (Addr4 w) = string4 w"
| "addr_String (Addr6 w z) =
     (if drop_bit 32 w = 0xffff then ''::ffff:'' @ string4 (ucast w) else string6 w) @ (if z = [] then [] else CHR ''%'' # z)"

fun last_index :: "string \<Rightarrow> char \<Rightarrow> nat option" where
  "last_index [] c = None"
| "last_index (x # xs) c =
     (case last_index xs c of Some i \<Rightarrow> Some (Suc i) | None \<Rightarrow> if x = c then Some 0 else None)"

definition SplitHostPort :: "string \<Rightarrow> (string \<times> string) option" where
  "SplitHostPort hostport =
     (case last_index hostport (CHR '':'') of
        None \<Rightarrow> None
      | Some i \<Rightarrow>
          let port = drop (i + 1) hostport
          in if hd hostport = CHR ''['' then
               (case index_byte hostport (CHR '']'') of
                  None \<Rightarrow> None
                | Some e \<Rightarrow>
                    if e + 1 \<noteq> i then None
                    else if CHR ''['' \<in> set (drop 1 hostport) \<or> CHR '']'' \<in> set (drop (e + 1) hostport) then None
                    else Some (take (e - 1) (drop 1 hostport), port))
             else
               let host = take i hostport
               in if CHR '':'' \<in> set host \<or> CHR ''['' \<in> set hostport \<or> CHR '']'' \<in> set hostport then None
                  else Some (host, port))"

definition JoinHostPort :: "string \<Rightarrow> string \<Rightarrow> string" where
  "JoinHostPort host port =
     (if CHR '':'' \<in> set host then ''['' @ host @ '']:'' @ port else host @ '':'' @ port)"


section \<open>Reading the bit operations as arithmetic\<close>

lemma xor_eq_0: "x XOR y = 0 \<longleftrightarrow> x = y" for x y :: "'a::len word"
  by (metis xor.assoc xor.left_neutral xor_self_eq)

lemma drop_xor_div: "drop_bit k (a XOR p) = 0 \<longleftrightarrow> unat a div 2 ^ k = unat p div 2 ^ k" for a p :: "'a::len word"
proof -
  have "drop_bit k (a XOR p) = 0 \<longleftrightarrow> unat (drop_bit k a) = unat (drop_bit k p)"
    unfolding drop_bit_xor xor_eq_0 by (rule word_unat_eq_iff)
  then show ?thesis unfolding unat_drop_bit_eq unfolding drop_bit_eq_div .
qed

lemma and_not_mask: "x AND NOT (mask k) = 0 \<longleftrightarrow> drop_bit k x = 0" for x :: "'a::len word"
proof
  assume *: "x AND NOT (mask k) = 0"
  show "drop_bit k x = 0"
  proof (rule bit_word_eqI)
    fix n assume "n < LENGTH('a)"
    have "bit (x AND NOT (mask k)) (k + n) = False" by (simp add: *)
    then show "bit (drop_bit k x) n = bit 0 n" by (auto simp: bit_simps dest: bit_imp_le_length)
  qed
next
  assume *: "drop_bit k x = 0"
  show "x AND NOT (mask k) = 0"
  proof (rule bit_word_eqI)
    fix n assume "n < LENGTH('a)"
    have "bit (drop_bit k x) (n - k) = False" by (simp add: *)
    then show "bit (x AND NOT (mask k)) n = bit 0 n" by (cases "n < k") (auto simp: bit_simps)
  qed
qed

lemma Contains_div:
  "Contains (Prefix4 p n) (Addr4 a) \<longleftrightarrow> unat a div 2 ^ (32 - n) = unat p div 2 ^ (32 - n)"
  "Contains (Prefix6 q n) (Addr6 b z) \<longleftrightarrow> z = [] \<and> unat b div 2 ^ (128 - n) = unat q div 2 ^ (128 - n)"
  "\<not> Contains (Prefix6 q n) (Addr4 a)" "\<not> Contains (Prefix4 p n) (Addr6 b z)"
  by (simp_all only: Contains.simps and_not_mask drop_xor_div not_False_eq_True)

lemma upt_16: "[0..<16] = [0, 1, 2, 3, 4, 5, 6, 7, 8, 9, 10, 11, 12, 13, 14, 15]"
  by code_simp

lemma bytes_low: "AddrFrom4 (take 4 (drop 12 (As16 w))) = Addr4 (ucast w)"
proof -
  have "foldl (\<lambda>acc b. push_bit 8 acc OR ucast b) 0 (take 4 (drop 12 (As16 w))) = (ucast w :: 32 word)"
  proof (rule bit_word_eqI)
    fix n assume "n < LENGTH(32)"
    then have n: "n < 32" by simp
    consider "n < 8" | "8 \<le> n" "n < 16" | "16 \<le> n" "n < 24" | "24 \<le> n" using n by linarith
    then show "bit (foldl (\<lambda>acc b. push_bit 8 acc OR ucast b) 0 (take 4 (drop 12 (As16 w))) :: 32 word) n = bit (ucast w :: 32 word) n"
      using n by cases (auto simp: As16_def upt_16 bit_simps)
  qed
  then show ?thesis by (simp add: AddrFrom4_def)
qed

lemma bytes_mid: "AddrFrom4 (take 4 (drop 2 (As16 w))) = Addr4 (ucast (drop_bit 80 w))"
proof -
  have "foldl (\<lambda>acc b. push_bit 8 acc OR ucast b) 0 (take 4 (drop 2 (As16 w))) = (ucast (drop_bit 80 w) :: 32 word)"
  proof (rule bit_word_eqI)
    fix n assume "n < LENGTH(32)"
    then have n: "n < 32" by simp
    consider "n < 8" | "8 \<le> n" "n < 16" | "16 \<le> n" "n < 24" | "24 \<le> n" using n by linarith
    then show "bit (foldl (\<lambda>acc b. push_bit 8 acc OR ucast b) 0 (take 4 (drop 2 (As16 w))) :: 32 word) n = bit (ucast (drop_bit 80 w) :: 32 word) n"
      using n by cases (auto simp: As16_def upt_16 bit_simps)
  qed
  then show ?thesis by (simp add: AddrFrom4_def)
qed

lemma high_bytes_zero: "list_all (\<lambda>x. x = 0) (take 12 (As16 w)) \<longleftrightarrow> drop_bit 32 w = 0"
proof -
  have b: "(ucast (drop_bit k w) :: 8 word) = 0 \<longleftrightarrow> (\<forall>n<8. \<not> bit w (k + n))" for k
    by (auto simp: bit_eq_iff bit_simps dest: bit_imp_le_length)
  have l: "drop_bit 32 w = 0 \<longleftrightarrow> (\<forall>m. 32 \<le> m \<longrightarrow> \<not> bit w m)"
  proof
    assume *: "drop_bit 32 w = 0"
    show "\<forall>m. 32 \<le> m \<longrightarrow> \<not> bit w m"
    proof (intro allI impI)
      fix m :: nat assume "32 \<le> m"
      moreover have "bit (drop_bit 32 w) (m - 32) = False" by (simp add: *)
      ultimately show "\<not> bit w m" by (simp add: bit_simps)
    qed
  qed (auto simp: bit_eq_iff bit_simps)
  have "list_all (\<lambda>x. x = 0) (take 12 (As16 w)) \<longleftrightarrow> (\<forall>i<12. (ucast (drop_bit (8 * (15 - i)) w) :: 8 word) = 0)"
    by (simp add: As16_def list_all_length)
  also have "\<dots> \<longleftrightarrow> (\<forall>m. 32 \<le> m \<longrightarrow> \<not> bit w m)"
  proof (intro iffI allI impI)
    fix m :: nat assume *: "\<forall>i<12. (ucast (drop_bit (8 * (15 - i)) w) :: 8 word) = 0" and m: "32 \<le> m"
    show "\<not> bit w m"
    proof
      assume bm: "bit w m"
      then have "m < 128" using bit_imp_le_length by fastforce
      let ?i = "15 - m div 8"
      have "?i < 12" "8 * (15 - ?i) + m mod 8 = m" using m \<open>m < 128\<close> by presburger+
      then show False using * bm unfolding b by (metis mod_less_divisor zero_less_numeral)
    qed
  qed (unfold b, auto)
  finally show ?thesis using l by simp
qed

end
