(* ===== verification/Remote_Client.thy ===== *)
theory Remote_Client
  imports Remote_Guard GoTime "HOL-Library.AList"
begin

text \<open>
  The outbound HTTP client of a remote repository (\<open>internal/remote/client.go\<close>): construction with
  its defaults, the manual redirect loop that screens every hop, the retry of broken connections,
  the credentials and the cap on buffered bodies.

  The environment holds the network at every step (the guard's resolver and sockets may answer
  differently each time), the resolution of a redirect location, whether a back-off sleep is
  cancelled, and the outcome of an exchange over a connection. A pooled connection is one that an
  earlier dial of the same client made; the model dials for each attempt. The dialer the transport
  uses is \<open>dial\<close> of the guard.
\<close>


section \<open>Options and requests\<close>

type_synonym header = "(string \<times> string) list"

definition header_get :: "header \<Rightarrow> string \<Rightarrow> string" where
  "header_get h k = (case map_of h k of None \<Rightarrow> [] | Some v \<Rightarrow> v)"

record client_options =
  co_RepoKey :: string
  co_BaseURL :: string
  co_Username :: string
  co_Password :: string
  co_TokenAuth :: bool
  co_AllowPrivateUpstream :: bool
  co_SocketTimeout :: duration
  co_MaxRedirects :: int
  co_MaxBufferedBody :: int
  co_Retries :: int
  co_RetryBackoff :: duration

record client =
  cl_opts :: client_options
  cl_guard :: Guard
  cl_baseURL :: "url option"

record Request =
  rq_Method :: string
  rq_Path :: string
  rq_URL :: string
  rq_Header :: header

record response =
  rs_StatusCode :: nat
  rs_Status :: string
  rs_Header :: header
  rs_ContentLength :: int
  rs_Body :: string
  rs_BodyOk :: bool

datatype do_error = DoCanceled | DoDeadline | DoRejected RejectionError | DoTimeout | DoConnRefused | DoConnReset
  | DoBrokenPipe | DoEOF | DoUnexpectedEOF | DoNetClosed | DoOther

datatype client_error = ErrBaseURL | ErrMethodNotSupported | ErrNoURL | ErrTargetURL | HopRefused guard_error
  | RetryAbandoned | ErrBuildRequest | TransportFailed do_error | Unreachable do_error
  | ErrLocation | ErrTooManyRedirects | ErrBodyTooLarge | ErrReadBody

record cenv =
  ev_net :: "nat \<Rightarrow> net"
  ev_ref :: "url \<Rightarrow> string \<Rightarrow> url option"
  ev_sleep :: "nat \<Rightarrow> bool"
  ev_dialErr :: "nat \<Rightarrow> do_error"
  ev_exchange :: "nat \<Rightarrow> string \<Rightarrow> string \<Rightarrow> string \<Rightarrow> header \<Rightarrow> do_error + response"

definition DefaultSocketTimeout :: duration where "DefaultSocketTimeout = 15 * second"
definition DefaultMaxRedirects :: int where "DefaultMaxRedirects = 5"
definition DefaultMaxBufferedBody :: int where "DefaultMaxBufferedBody = 64 * 2 ^ 20"
definition DefaultRetries :: int where "DefaultRetries = 2"
definition DefaultRetryBackoff :: duration where "DefaultRetryBackoff = 200 * millisecond"
definition userAgent :: string where "userAgent = ''binflow-remote/1.0''"

definition resolve_options :: "client_options \<Rightarrow> client_options" where
  "resolve_options o1 =
     o1\<lparr>co_SocketTimeout := (if co_SocketTimeout o1 \<le> 0 then DefaultSocketTimeout else co_SocketTimeout o1),
        co_MaxRedirects := (if co_MaxRedirects o1 = 0 then DefaultMaxRedirects else max 0 (co_MaxRedirects o1)),
        co_MaxBufferedBody := (if co_MaxBufferedBody o1 = 0 then DefaultMaxBufferedBody else max 0 (co_MaxBufferedBody o1)),
        co_Retries := (if co_Retries o1 = 0 then DefaultRetries else max 0 (co_Retries o1)),
        co_RetryBackoff := (if co_RetryBackoff o1 \<le> 0 then DefaultRetryBackoff else co_RetryBackoff o1)\<rparr>"

definition new_guard :: "client_options \<Rightarrow> Guard" where
  "new_guard o1 = \<lparr>g_repoKey = co_RepoKey o1, g_allowPrivate = co_AllowPrivateUpstream o1\<rparr>"

definition NewClient :: "net \<Rightarrow> client_options \<Rightarrow> client_error + client" where
  "NewClient net opts =
     (let o1 = resolve_options opts; mk = (\<lambda>base. Inr \<lparr>cl_opts = o1, cl_guard = new_guard o1, cl_baseURL = base\<rparr>)
      in if co_BaseURL o1 = [] then mk None
         else case n_url net (co_BaseURL o1) of
           None \<Rightarrow> Inl ErrBaseURL
         | Some u \<Rightarrow>
             if u_Scheme u \<noteq> ''http'' \<and> u_Scheme u \<noteq> ''https'' then Inl ErrBaseURL
             else if u_Host u = [] then Inl ErrBaseURL
             else mk (Some u))"

definition trim_right :: "char \<Rightarrow> string \<Rightarrow> string" where
  "trim_right c s = rev (dropWhile (\<lambda>x. x = c) (rev s))"

definition JoinURL :: "string \<Rightarrow> string \<Rightarrow> string" where
  "JoinURL base path =
     (let b = trim_right (CHR ''/'') base
      in if path = [] then b else b @ ''/'' @ dropWhile (\<lambda>x. x = CHR ''/'') path)"

definition requestMethod :: "Request \<Rightarrow> string" where
  "requestMethod req = (let m = to_upper (trim_space (rq_Method req)) in if m = [] then ''GET'' else m)"

definition targetURL :: "net \<Rightarrow> client \<Rightarrow> Request \<Rightarrow> client_error + string" where
  "targetURL net c req =
     (if rq_URL req \<noteq> [] then Inr (rq_URL req)
      else case cl_baseURL c of None \<Rightarrow> Inl ErrNoURL | Some b \<Rightarrow> Inr (JoinURL (n_string net b) (rq_Path req)))"

text \<open>\<open>base64.StdEncoding\<close>.\<close>

definition base64_char :: "nat \<Rightarrow> char" where
  "base64_char n = ''ABCDEFGHIJKLMNOPQRSTUVWXYZabcdefghijklmnopqrstuvwxyz0123456789+/'' ! n"

fun base64 :: "nat list \<Rightarrow> string" where
  "base64 [] = []"
| "base64 [a] = [base64_char (a div 4), base64_char (a mod 4 * 16)] @ ''==''"
| "base64 [a, b] = [base64_char (a div 4), base64_char (a mod 4 * 16 + b div 16), base64_char (b mod 16 * 4)] @ ''=''"
| "base64 (a # b # c # r) =
     [base64_char (a div 4), base64_char (a mod 4 * 16 + b div 16), base64_char (b mod 16 * 4 + c div 64), base64_char (c mod 64)] @ base64 r"

definition applyBasicAuth :: "client_options \<Rightarrow> header \<Rightarrow> header" where
  "applyBasicAuth o1 h =
     (if co_TokenAuth o1 then
        (if co_Password o1 = [] then h else AList.update ''Authorization'' (''Bearer '' @ co_Password o1) h)
      else if co_Username o1 = [] \<and> co_Password o1 = [] then h
      else AList.update ''Authorization''
             (''Basic '' @ base64 (map byte_of (co_Username o1 @ '':'' @ co_Password o1))) h)"


section \<open>One hop\<close>

definition retriable :: "do_error \<Rightarrow> bool" where
  "retriable err \<longleftrightarrow>
     err \<in> {DoConnRefused, DoConnReset, DoBrokenPipe, DoEOF, DoUnexpectedEOF, DoNetClosed}"

text \<open>
  The address the transport dials for a URL: its host, with the port of the scheme where it names
  none.
\<close>

definition canonicalAddr :: "url \<Rightarrow> string" where
  "canonicalAddr u =
     (let h = u_Host u;
          port = (case last_index h (CHR '':'') of
                    Some i \<Rightarrow> if list_all is_digit (drop (i + 1) h) then drop (i + 1) h else []
                  | None \<Rightarrow> [])
      in JoinHostPort (Hostname u) (if port \<noteq> [] then port else if u_Scheme u = ''https'' then ''443'' else ''80''))"

text \<open>One attempt; the second component lists the address a request was sent to.\<close>

definition transport_do :: "cenv \<Rightarrow> Guard \<Rightarrow> nat \<Rightarrow> string \<Rightarrow> string \<Rightarrow> url \<Rightarrow> header \<Rightarrow> (do_error + response) \<times> string list" where
  "transport_do ev g k meth raw u hdr =
     (case dial g (ev_net ev k) (canonicalAddr u) of
        Inl (Rejection r) \<Rightarrow> (Inl (DoRejected r), [])
      | Inl _ \<Rightarrow> (Inl (ev_dialErr ev k), [])
      | Inr conn \<Rightarrow> (ev_exchange ev k conn meth raw hdr, [conn]))"

definition with_agent :: "header \<Rightarrow> header" where
  "with_agent hdr = (if header_get hdr ''User-Agent'' = [] then AList.update ''User-Agent'' userAgent hdr else hdr)"

text \<open>
  The retry loop: \<open>n\<close> attempts are left, \<open>prev\<close> is the error of the attempt before. The result
  carries the attempts (each call of \<open>httpClient.Do\<close>, with its step and the address it wrote to, if
  it came to that), the pauses slept, and the step counter. One call of \<open>Do\<close> is one exchange: that
  \<open>net/http\<close> itself may repeat it on a reused connection is not modelled.
\<close>

type_synonym attempt = "nat \<times> string list"

fun round_loop :: "cenv \<Rightarrow> Guard \<Rightarrow> string \<Rightarrow> string \<Rightarrow> header \<Rightarrow> duration \<Rightarrow> do_error option \<Rightarrow> nat \<Rightarrow> nat
    \<Rightarrow> (client_error + response) \<times> attempt list \<times> duration list \<times> nat" where
  "round_loop ev g meth raw hdr backoff prev 0 k =
     (Inl (case prev of None \<Rightarrow> ErrBuildRequest | Some e \<Rightarrow> Unreachable e), [], [], k)"
| "round_loop ev g meth raw hdr backoff prev (Suc n) k =
     (if prev \<noteq> None \<and> ev_sleep ev k then (Inl RetryAbandoned, [], [], k)
      else
        let slept = (if prev = None then [] else [backoff]);
            backoff' = (if prev = None then backoff else wrap64 (2 * backoff))
        in case n_url (ev_net ev k) raw of
             None \<Rightarrow> (Inl ErrBuildRequest, [], slept, k)
           | Some u \<Rightarrow>
               (case transport_do ev g k meth raw u (with_agent hdr) of
                  (Inr resp, sent) \<Rightarrow> (Inr resp, [(k, sent)], slept, Suc k)
                | (Inl err, sent) \<Rightarrow>
                    if \<not> retriable err then (Inl (TransportFailed err), [(k, sent)], slept, Suc k)
                    else
                      let (r, tries, slept', k') = round_loop ev g meth raw hdr backoff' (Some err) n (Suc k)
                      in (r, (k, sent) # tries, slept @ slept', k')))"

definition roundTrip :: "cenv \<Rightarrow> client \<Rightarrow> string \<Rightarrow> string \<Rightarrow> header \<Rightarrow> nat
    \<Rightarrow> (client_error + response) \<times> attempt list \<times> duration list \<times> nat" where
  "roundTrip ev c meth raw hdr k =
     round_loop ev (cl_guard c) meth raw hdr (co_RetryBackoff (cl_opts c)) None (nat (co_Retries (cl_opts c) + 1)) k"


section \<open>The redirect loop\<close>

definition redirectable :: "nat \<Rightarrow> bool" where
  "redirectable status \<longleftrightarrow> status \<in> {301, 302, 303, 307, 308}"

text \<open>One hop: the step of its URL check, its attempts and the pauses between them.\<close>

record hop =
  hp_url :: url
  hp_header :: header
  hp_step :: nat
  hp_tries :: "attempt list"
  hp_delays :: "duration list"

function follow :: "cenv \<Rightarrow> client \<Rightarrow> string \<Rightarrow> url \<Rightarrow> header \<Rightarrow> nat \<Rightarrow> nat \<Rightarrow> (client_error + response) \<times> hop list" where
  "follow ev c meth cur hdr redirects k =
     (case CheckURL (cl_guard c) (ev_net ev k) (n_string (ev_net ev k) cur) of
        Some e \<Rightarrow> (Inl (HopRefused e), [])
      | None \<Rightarrow>
          (case roundTrip ev c meth (n_string (ev_net ev k) cur) hdr (Suc k) of
             (res, tries, slept, k') \<Rightarrow>
               let h = \<lparr>hp_url = cur, hp_header = hdr, hp_step = k, hp_tries = tries, hp_delays = slept\<rparr>
               in case res of
                    Inl e \<Rightarrow> (Inl e, [h])
                  | Inr resp \<Rightarrow>
                      let location = header_get (rs_Header resp) ''Location''
                      in if \<not> redirectable (rs_StatusCode resp) \<or> location = [] then (Inr resp, [h])
                         else case ev_ref ev cur location of
                           None \<Rightarrow> (Inl ErrLocation, [h])
                         | Some next \<Rightarrow>
                             if int (Suc redirects) > co_MaxRedirects (cl_opts c) then (Inl ErrTooManyRedirects, [h])
                             else
                               let hdr' = (if u_Host next \<noteq> u_Host cur then AList.delete ''Authorization'' hdr else hdr);
                                   (r, hs) = follow ev c meth (next\<lparr>u_User := None\<rparr>) hdr' (Suc redirects) k'
                               in (r, h # hs)))"
  by pat_completeness auto
termination follow
  by (relation "measure (\<lambda>(ev, c, meth, cur, hdr, redirects, k). nat (co_MaxRedirects (cl_opts c)) - redirects)") auto
declare follow.simps [simp del]

definition send :: "cenv \<Rightarrow> client \<Rightarrow> Request \<Rightarrow> (client_error + response) \<times> hop list" where
  "send ev c req =
     (let meth = requestMethod req
      in if meth \<noteq> ''GET'' \<and> meth \<noteq> ''HEAD'' then (Inl ErrMethodNotSupported, [])
         else case targetURL (ev_net ev 0) c req of
           Inl e \<Rightarrow> (Inl e, [])
         | Inr raw \<Rightarrow>
             (case n_url (ev_net ev 0) raw of
                None \<Rightarrow> (Inl ErrTargetURL, [])
              | Some cur \<Rightarrow> follow ev c meth cur (applyBasicAuth (cl_opts c) (rq_Header req)) 0 0))"

text \<open>
  \<open>Fetch\<close> buffers the body up to the cap plus one byte; \<open>Stream\<close> hands the body on unread. A cap of
  zero means no cap.
\<close>

definition client_Fetch :: "cenv \<Rightarrow> client \<Rightarrow> Request \<Rightarrow> (client_error + response) \<times> hop list" where
  "client_Fetch ev c req =
     (case send ev c req of
        (Inl e, hs) \<Rightarrow> (Inl e, hs)
      | (Inr resp, hs) \<Rightarrow>
          let limit = co_MaxBufferedBody (cl_opts c)
          in if 0 < limit \<and> requestMethod req \<noteq> ''HEAD'' \<and> rs_ContentLength resp > limit then (Inl ErrBodyTooLarge, hs)
             else
               let body = (if 0 < limit then take (nat (limit + 1)) (rs_Body resp) else rs_Body resp)
               in if \<not> rs_BodyOk resp \<and> \<not> (0 < limit \<and> int (length (rs_Body resp)) > limit) then (Inl ErrReadBody, hs)
                  else if 0 < limit \<and> int (length body) > limit then (Inl ErrBodyTooLarge, hs)
                  else (Inr (resp\<lparr>rs_Body := body\<rparr>), hs))"

definition client_Stream :: "cenv \<Rightarrow> client \<Rightarrow> Request \<Rightarrow> (client_error + response) \<times> hop list" where
  "client_Stream ev c req = send ev c req"


section \<open>What leaves the process\<close>

text \<open>A connection is admitted when the address it is made to is.\<close>

definition admitted :: "Guard \<Rightarrow> string \<Rightarrow> bool" where
  "admitted g conn \<longleftrightarrow>
     (\<exists>host port ip. SplitHostPort conn = Some (host, port) \<and> ParseAddr host = Some ip \<and> (g_allowPrivate g \<or> \<not> denied ip))"

lemma transport_do_admitted: "transport_do ev g k meth raw u hdr = (r, sent) \<Longrightarrow> conn \<in> set sent \<Longrightarrow> admitted g conn"
  unfolding admitted_def transport_do_def
  by (auto split: sum.splits guard_error.splits dest!: dial_controlled dial_control_None)

lemma transport_do_once: "transport_do ev g k meth raw u hdr = (r, sent) \<Longrightarrow> length sent \<le> 1"
  by (auto simp: transport_do_def split: sum.splits guard_error.splits)

text \<open>The pauses of a retry loop: \<open>m\<close> of them, from \<open>b\<close>, each twice the one before.\<close>

definition pauses :: "duration \<Rightarrow> nat \<Rightarrow> duration list" where
  "pauses b m = map (\<lambda>i. if i = 0 then b else wrap64 (2 ^ i * b)) [0..<m]"

lemma pauses_length [simp]: "length (pauses b m) = m"
  by (simp add: pauses_def)

lemma pauses_Suc: "pauses b (Suc m) = b # pauses (wrap64 (2 * b)) m"
proof -
  have "wrap64 (2 ^ i * wrap64 n) = wrap64 (2 ^ i * n)" for i n
  proof (induction i arbitrary: n)
    case (Suc i)
    have "wrap64 (2 ^ Suc i * wrap64 n) = wrap64 (2 * wrap64 (2 ^ i * wrap64 n))" unfolding wrap64_double by (simp add: mult.assoc)
    also have "\<dots> = wrap64 (2 * wrap64 (2 ^ i * n))" by (simp only: Suc)
    also have "\<dots> = wrap64 (2 ^ Suc i * n)" unfolding wrap64_double by (simp add: mult.assoc)
    finally show ?case .
  qed (simp add: wrap64_def)
  from this [of _ "2 * b"] have "wrap64 (2 ^ Suc i * b) = (if i = 0 then wrap64 (2 * b) else wrap64 (2 ^ i * wrap64 (2 * b)))" for i
    by (simp add: mult.assoc mult.left_commute [of 2])
  then show ?thesis unfolding pauses_def upt_rec [of 0 "Suc m"] map_Suc_upt [symmetric] by (simp add: comp_def)
qed

text \<open>
  The attempts of a loop with \<open>n\<close> attempts left: at most \<open>n\<close>, at later and later steps, each with a
  pause before it but the first, all to admitted addresses; it gives up as unreachable only when
  all are spent.
\<close>

definition round_ok :: "Guard \<Rightarrow> duration \<Rightarrow> bool \<Rightarrow> nat \<Rightarrow> nat \<Rightarrow> (client_error + response) \<times> attempt list \<times> duration list \<times> nat \<Rightarrow> bool" where
  "round_ok g b first n k x \<longleftrightarrow>
     (case x of (r, tries, slept, k') \<Rightarrow>
        length tries \<le> n \<and> length slept \<le> n \<and> length tries \<le> length slept + (if first then 1 else 0) \<and>
        (first \<and> 0 < n \<longrightarrow> length slept \<le> n - 1) \<and> slept = pauses b (length slept) \<and>
        sorted_wrt (<) (map fst tries) \<and> (\<forall>t\<in>set tries. k \<le> fst t \<and> fst t < k' \<and> length (snd t) \<le> 1 \<and> (\<forall>conn\<in>set (snd t). admitted g conn)) \<and>
        k \<le> k' \<and> (\<forall>e. r = Inl (Unreachable e) \<longrightarrow> length tries = n))"

lemma round_loop_ok: "round_ok g b (prev = None) n k (round_loop ev g meth raw hdr b prev n k)"
proof (induction n arbitrary: b prev k)
  case 0
  then show ?case by (simp add: round_ok_def pauses_def split: option.split)
next
  case (Suc n)
  let ?run = "round_loop ev g meth raw hdr b prev (Suc n) k"
  have one: "pauses b (Suc 0) = [b]" by (simp add: pauses_def)
  show ?case
  proof (cases "prev \<noteq> None \<and> ev_sleep ev k \<or> n_url (ev_net ev k) raw = None")
    case True
    then show ?thesis using one by (auto simp: round_ok_def Let_def pauses_def split: if_splits)
  next
    case False
    then obtain u where u: "n_url (ev_net ev k) raw = Some u" by auto
    obtain a s1 where t: "transport_do ev g k meth raw u (with_agent hdr) = (a, s1)" by fastforce
    note S = transport_do_once [OF t] transport_do_admitted [OF t]
    show ?thesis
    proof (cases "\<exists>e. a = Inl e \<and> retriable e")
      case True
      then obtain e where e: "a = Inl e" "retriable e" by blast
      let ?b = "if prev = None then b else wrap64 (2 * b)"
      obtain r tries slept k' where l: "round_loop ev g meth raw hdr ?b (Some e) n (Suc k) = (r, tries, slept, k')"
        by (metis prod_cases4)
      have run: "?run = (r, (k, s1) # tries, (if prev = None then [] else [b]) @ slept, k')"
        using False u t e l by (auto simp: Let_def)
      have I: "round_ok g ?b False n (Suc k) (r, tries, slept, k')" using Suc.IH [of ?b "Some e" "Suc k"] l by simp
      have p: "(if prev = None then [] else [b]) @ slept = pauses b (length ((if prev = None then [] else [b]) @ slept))"
        using I pauses_Suc [of b "length slept"] by (cases prev) (auto simp: round_ok_def)
      show ?thesis using I S p unfolding run by (auto simp: round_ok_def Suc_le_eq dest: order.strict_implies_order)
    next
      case neg: False
      then obtain r where run: "?run = (r, [(k, s1)], if prev = None then [] else [b], Suc k)" "\<forall>e. r \<noteq> Inl (Unreachable e)"
        using False u t by (cases a) (auto simp: Let_def)
      show ?thesis using S one unfolding run(1) by (auto simp: round_ok_def run(2) pauses_def)
    qed
  qed
qed

text \<open>What the loop records of one hop.\<close>

definition hop_ok :: "cenv \<Rightarrow> client \<Rightarrow> hop \<Rightarrow> bool" where
  "hop_ok ev c h \<longleftrightarrow>
     CheckURL (cl_guard c) (ev_net ev (hp_step h)) (n_string (ev_net ev (hp_step h)) (hp_url h)) = None \<and>
     length (hp_tries h) \<le> nat (co_Retries (cl_opts c)) + 1 \<and>
     length (hp_tries h) \<le> length (hp_delays h) + 1 \<and> length (hp_delays h) \<le> nat (co_Retries (cl_opts c)) \<and>
     hp_delays h = pauses (co_RetryBackoff (cl_opts c)) (length (hp_delays h)) \<and> sorted_wrt (<) (map fst (hp_tries h)) \<and>
     (\<forall>t\<in>set (hp_tries h). hp_step h < fst t \<and> length (snd t) \<le> 1 \<and> (\<forall>conn\<in>set (snd t). admitted (cl_guard c) conn))"

lemma roundTrip_ok:
  assumes "roundTrip ev c meth raw hdr (Suc k) = (r, tries, slept, k')" "0 \<le> co_Retries (cl_opts c)"
    "CheckURL (cl_guard c) (ev_net ev k) (n_string (ev_net ev k) cur) = None"
  shows "hop_ok ev c \<lparr>hp_url = cur, hp_header = hdr, hp_step = k, hp_tries = tries, hp_delays = slept\<rparr>"
    "r = Inl (Unreachable e) \<Longrightarrow> length tries = nat (co_Retries (cl_opts c)) + 1" "k < k'"
    "t \<in> set tries \<Longrightarrow> fst t < k'"
proof -
  have n: "nat (co_Retries (cl_opts c) + 1) = nat (co_Retries (cl_opts c)) + 1" using assms(2) by (simp add: nat_add_distrib)
  have "round_ok (cl_guard c) (co_RetryBackoff (cl_opts c)) True (nat (co_Retries (cl_opts c)) + 1) (Suc k) (r, tries, slept, k')"
    using round_loop_ok [of "cl_guard c" "co_RetryBackoff (cl_opts c)" None "nat (co_Retries (cl_opts c) + 1)" "Suc k" ev meth raw hdr] assms(1) n
    by (simp add: roundTrip_def)
  then show "hop_ok ev c \<lparr>hp_url = cur, hp_header = hdr, hp_step = k, hp_tries = tries, hp_delays = slept\<rparr>"
    "r = Inl (Unreachable e) \<Longrightarrow> length tries = nat (co_Retries (cl_opts c)) + 1" "k < k'" "t \<in> set tries \<Longrightarrow> fst t < k'"
    using assms(3) by (auto simp: round_ok_def hop_ok_def Suc_le_eq)
qed

abbreviation carries_auth :: "header \<Rightarrow> bool" where
  "carries_auth h \<equiv> header_get h ''Authorization'' \<noteq> []"

text \<open>
  The step from one hop to the next: it comes after every attempt, userinfo is gone, and a
  credential stays only on the same host.
\<close>

definition hop_next :: "hop \<Rightarrow> hop \<Rightarrow> bool" where
  "hop_next h h' \<longleftrightarrow> u_User (hp_url h') = None \<and> (\<forall>t\<in>set (hp_tries h). fst t < hp_step h') \<and>
     (carries_auth (hp_header h') \<longrightarrow> carries_auth (hp_header h) \<and> u_Host (hp_url h') = u_Host (hp_url h))"

lemma header_get_delete [simp]: "header_get (AList.delete k h) k = []"
  by (simp add: header_get_def AList.delete_conv')

lemma follow_hops:
  assumes "follow ev c meth cur hdr redirects k = (res, hops)" "0 \<le> co_Retries (cl_opts c)"
  shows "(\<forall>h\<in>set hops. hop_ok ev c h) \<and> successively hop_next hops \<and>
    (hops \<noteq> [] \<longrightarrow> hp_url (hd hops) = cur \<and> hp_header (hd hops) = hdr \<and> hp_step (hd hops) = k) \<and>
    length hops \<le> nat (co_MaxRedirects (cl_opts c)) - redirects + 1 \<and>
    (\<forall>e. res = Inl (Unreachable e) \<longrightarrow> hops \<noteq> [] \<and> length (hp_tries (last hops)) = nat (co_Retries (cl_opts c)) + 1)"
  using assms(1)
proof (induction "nat (co_MaxRedirects (cl_opts c)) - redirects" arbitrary: cur hdr redirects k res hops rule: less_induct)
  case less
  let ?raw = "n_string (ev_net ev k) cur"
  show ?case
  proof (cases "CheckURL (cl_guard c) (ev_net ev k) ?raw")
    case (Some e)
    then show ?thesis using less.prems by (auto simp: follow.simps)
  next
    case None
    obtain r tries slept k' where rt: "roundTrip ev c meth ?raw hdr (Suc k) = (r, tries, slept, k')" by (metis prod_cases4)
    let ?h = "\<lparr>hp_url = cur, hp_header = hdr, hp_step = k, hp_tries = tries, hp_delays = slept\<rparr>"
    note ok = roundTrip_ok [OF rt assms(2) None]
    let ?hdr = "\<lambda>next1. if u_Host next1 \<noteq> u_Host cur then AList.delete ''Authorization'' hdr else hdr"
    note step = less.prems [unfolded follow.simps [of ev c meth cur hdr redirects k] None option.case rt prod.case Let_def]
    consider "hops = [?h]" "\<forall>e. res = Inl (Unreachable e) \<longrightarrow> r = Inl (Unreachable e)"
      | next1 hs where "follow ev c meth (next1\<lparr>u_User := None\<rparr>) (?hdr next1) (Suc redirects) k' = (res, hs)" "hops = ?h # hs"
          "int (Suc redirects) \<le> co_MaxRedirects (cl_opts c)"
    proof (cases "\<exists>resp next1. r = Inr resp \<and> redirectable (rs_StatusCode resp) \<and> header_get (rs_Header resp) ''Location'' \<noteq> [] \<and>
        ev_ref ev cur (header_get (rs_Header resp) ''Location'') = Some next1 \<and> int (Suc redirects) \<le> co_MaxRedirects (cl_opts c)")
      case True
      then obtain resp next1 where x: "r = Inr resp" "redirectable (rs_StatusCode resp)" "header_get (rs_Header resp) ''Location'' \<noteq> []"
        "ev_ref ev cur (header_get (rs_Header resp) ''Location'') = Some next1" "int (Suc redirects) \<le> co_MaxRedirects (cl_opts c)" by blast
      obtain r' hs where f: "follow ev c meth (next1\<lparr>u_User := None\<rparr>) (?hdr next1) (Suc redirects) k' = (r', hs)" by fastforce
      show thesis by (rule that(2) [of next1 hs]) (use step x f in \<open>auto split: if_splits\<close>)
    next
      case False
      show thesis by (rule that(1)) (use step False in \<open>auto split: sum.splits if_splits option.splits\<close>)
    qed
    then show ?thesis
    proof cases
      case 1
      then show ?thesis using ok by auto
    next
      case (2 next1 hs)
      have lt: "nat (co_MaxRedirects (cl_opts c)) - Suc redirects < nat (co_MaxRedirects (cl_opts c)) - redirects" using 2(3) by simp
      note IH = less.hyps [OF lt 2(1)]
      have "hop_next ?h (hd hs)" if "hs \<noteq> []" using that IH ok(4) by (auto simp: hop_next_def)
      then show ?thesis using IH ok 2(2,3) by (cases hs) auto
    qed
  qed
qed

lemma NewClient_resolved:
  "NewClient net opts = Inr c \<Longrightarrow> cl_opts c = resolve_options opts \<and> cl_guard c = new_guard (resolve_options opts)"
  by (auto simp: NewClient_def Let_def split: if_splits option.splits)

lemma resolve_options_ranges:
  "0 \<le> co_MaxRedirects (resolve_options opts)" "0 \<le> co_Retries (resolve_options opts)"
  "0 < co_RetryBackoff (resolve_options opts)" "0 < co_SocketTimeout (resolve_options opts)" "0 \<le> co_MaxBufferedBody (resolve_options opts)"
  by (auto simp: resolve_options_def DefaultMaxRedirects_def DefaultRetries_def DefaultRetryBackoff_def DefaultSocketTimeout_def
      DefaultMaxBufferedBody_def duration_defs)

lemma send_hops:
  assumes "send ev c req = (res, hops)" "0 \<le> co_Retries (cl_opts c)"
  shows "(\<forall>h\<in>set hops. hop_ok ev c h) \<and> successively hop_next hops \<and> length hops \<le> nat (co_MaxRedirects (cl_opts c)) + 1 \<and>
    (\<forall>e. res = Inl (Unreachable e) \<longrightarrow> hops \<noteq> [] \<and> length (hp_tries (last hops)) = nat (co_Retries (cl_opts c)) + 1)"
proof (cases "\<exists>cur. follow ev c (requestMethod req) cur (applyBasicAuth (cl_opts c) (rq_Header req)) 0 0 = (res, hops)")
  case True
  then show ?thesis using follow_hops [OF _ assms(2)] by fastforce
next
  case False
  then have "hops = [] \<and> (\<forall>e. res \<noteq> Inl (Unreachable e))"
    using assms(1) by (auto simp: send_def Let_def targetURL_def split: if_splits sum.splits option.splits)
  then show ?thesis by simp
qed

lemma successively_nth: "successively P xs \<Longrightarrow> Suc i < length xs \<Longrightarrow> P (xs ! i) (xs ! Suc i)"
  by (induction xs arbitrary: i rule: induct_list012) (auto simp: nth_Cons split: nat.splits)

text \<open>
  C12: Everything a client sends is screened and bounded. Whatever redirects the upstream answers and
  however the network fails, a request makes at most one hop more than the redirect limit; on each
  hop the URL passed the check at a step before every attempt, there are at most one attempt more
  than the retry limit, answered or not, and at most as many pauses as the limit, one before every
  attempt but the first, the first as configured and each twice the one before (in 64 bits); the
  attempts of a hop come before the check of the next, every connection written to goes to an
  admitted address (or the repository is exempt), and the client gives the upstream up as
  unreachable only when the last hop has spent every attempt.
\<close>

theorem outbound_screened:
  assumes "NewClient net opts = Inr c" "send ev c req = (res, hops)"
  shows "length hops \<le> nat (co_MaxRedirects (cl_opts c)) + 1 \<and>
    (\<forall>h\<in>set hops.
       CheckURL (cl_guard c) (ev_net ev (hp_step h)) (n_string (ev_net ev (hp_step h)) (hp_url h)) = None \<and>
       length (hp_tries h) \<le> nat (co_Retries (cl_opts c)) + 1 \<and> length (hp_tries h) \<le> length (hp_delays h) + 1 \<and>
       length (hp_delays h) \<le> nat (co_Retries (cl_opts c)) \<and>
       (\<forall>i<length (hp_delays h). hp_delays h ! i = (if i = 0 then co_RetryBackoff (cl_opts c) else wrap64 (2 ^ i * co_RetryBackoff (cl_opts c)))) \<and>
       (\<forall>(step, conns)\<in>set (hp_tries h). hp_step h < step \<and> length conns \<le> 1 \<and>
          (\<forall>conn\<in>set conns. \<exists>host port ip. SplitHostPort conn = Some (host, port) \<and> ParseAddr host = Some ip \<and>
             (co_AllowPrivateUpstream opts \<or> \<not> denied ip)))) \<and>
    (\<forall>i. Suc i < length hops \<longrightarrow> (\<forall>t\<in>set (hp_tries (hops ! i)). fst t < hp_step (hops ! Suc i))) \<and>
    (\<forall>e. res = Inl (Unreachable e) \<longrightarrow> hops \<noteq> [] \<and> length (hp_tries (last hops)) = nat (co_Retries (cl_opts c)) + 1)"
proof -
  note C = NewClient_resolved [OF assms(1)]
  have ret: "0 \<le> co_Retries (cl_opts c)" using C resolve_options_ranges by simp
  have allow: "g_allowPrivate (cl_guard c) = co_AllowPrivateUpstream opts" using C by (simp add: new_guard_def resolve_options_def)
  note H = send_hops [OF assms(2) ret]
  have pause: "pauses b m ! i = (if i = 0 then b else wrap64 (2 ^ i * b))" if "i < m" for b m i
    using that by (simp add: pauses_def)
  have "hop_ok ev c h \<Longrightarrow> i < length (hp_delays h) \<Longrightarrow>
      hp_delays h ! i = (if i = 0 then co_RetryBackoff (cl_opts c) else wrap64 (2 ^ i * co_RetryBackoff (cl_opts c)))" for h i
    using pause [of i "length (hp_delays h)" "co_RetryBackoff (cl_opts c)"] unfolding hop_ok_def by metis
  moreover have "Suc i < length hops \<Longrightarrow> hop_next (hops ! i) (hops ! Suc i)" for i using H by (simp add: successively_nth)
  ultimately show ?thesis using H allow unfolding hop_ok_def admitted_def hop_next_def by (simp add: case_prod_beta)
qed

text \<open>
  C11: Credentials stay on the configured host. The Authorization header is present at a hop only if
  every hop so far, this one included, went to the host of the first; once dropped it does not come
  back, even when a redirect leads back. No redirect target carries userinfo.
\<close>

theorem credentials_stay_home:
  assumes "send ev c req = (res, hops)" "0 \<le> co_Retries (cl_opts c)" "i < length hops"
  shows "(carries_auth (hp_header (hops ! i)) \<longrightarrow> (\<forall>j\<le>i. u_Host (hp_url (hops ! j)) = u_Host (hp_url (hops ! 0)))) \<and>
    (0 < i \<longrightarrow> u_User (hp_url (hops ! i)) = None)"
  using assms(3)
proof (induction i)
  case (Suc i)
  have "hop_next (hops ! i) (hops ! Suc i)" using send_hops [OF assms(1,2)] Suc.prems by (simp add: successively_nth)
  then have h: "u_User (hp_url (hops ! Suc i)) = None"
    "carries_auth (hp_header (hops ! Suc i)) \<Longrightarrow> carries_auth (hp_header (hops ! i)) \<and> u_Host (hp_url (hops ! Suc i)) = u_Host (hp_url (hops ! i))"
    unfolding hop_next_def by blast+
  have "u_Host (hp_url (hops ! j)) = u_Host (hp_url (hops ! 0))" if "carries_auth (hp_header (hops ! Suc i))" "j \<le> Suc i" for j
    using Suc.IH Suc.prems h(2) [OF that(1)] that(2) by (metis Suc_lessD le_Suc_eq order_refl)
  then show ?case using h(1) by blast
qed simp


section \<open>A redirect to another host\<close>

definition demo_home :: url where
  "demo_home = \<lparr>u_Scheme = ''https'', u_User = None, u_Host = ''up.example'', u_rest = ''/a''\<rparr>"

definition demo_cdn :: url where
  "demo_cdn = \<lparr>u_Scheme = ''https'', u_User = None, u_Host = ''cdn.example'', u_rest = ''/a''\<rparr>"

definition demo_cenv :: cenv where
  "demo_cenv = \<lparr>ev_net = (\<lambda>k. \<lparr>n_url = (\<lambda>s. if s = ''home'' then Some demo_home else if s = ''cdn'' then Some demo_cdn else None),
       n_string = (\<lambda>u. if u = demo_home then ''home'' else ''cdn''), n_resolve = (\<lambda>h. Some [Addr4 (v4 93 184 216 34)]),
       n_connect = (\<lambda>a. (a, True))\<rparr>),
     ev_ref = (\<lambda>u loc. Some demo_cdn), ev_sleep = (\<lambda>k. False), ev_dialErr = (\<lambda>k. DoOther),
     ev_exchange = (\<lambda>k conn meth raw hdr. Inr (if raw = ''home''
        then \<lparr>rs_StatusCode = 302, rs_Status = ''302 Found'', rs_Header = [(''Location'', ''cdn'')], rs_ContentLength = 0, rs_Body = [], rs_BodyOk = True\<rparr>
        else \<lparr>rs_StatusCode = 200, rs_Status = ''200 OK'', rs_Header = [], rs_ContentLength = 3, rs_Body = ''abc'', rs_BodyOk = True\<rparr>))\<rparr>"

definition demo_upstream :: client_options where
  "demo_upstream = \<lparr>co_RepoKey = ''central'', co_BaseURL = ''home'', co_Username = ''u'', co_Password = ''p'', co_TokenAuth = False,
     co_AllowPrivateUpstream = False, co_SocketTimeout = 0, co_MaxRedirects = 2, co_MaxBufferedBody = 16, co_Retries = 1, co_RetryBackoff = 5\<rparr>"

definition demo_client :: client where
  "demo_client = \<lparr>cl_opts = resolve_options demo_upstream, cl_guard = new_guard (resolve_options demo_upstream), cl_baseURL = Some demo_home\<rparr>"

definition demo_request :: Request where
  "demo_request = \<lparr>rq_Method = [], rq_Path = [], rq_URL = [], rq_Header = []\<rparr>"

definition demo_hops :: "hop list" where
  "demo_hops = [\<lparr>hp_url = demo_home, hp_header = [(''Authorization'', ''Basic dTpw'')], hp_step = 0, hp_tries = [(1, [''93.184.216.34:443''])], hp_delays = []\<rparr>,
     \<lparr>hp_url = demo_cdn, hp_header = [], hp_step = 2, hp_tries = [(3, [''93.184.216.34:443''])], hp_delays = []\<rparr>]"

lemma demo_new: "NewClient (ev_net demo_cenv 0) demo_upstream = Inr demo_client"
  by code_simp

lemma demo_send: "send demo_cenv demo_client demo_request =
  (Inr \<lparr>rs_StatusCode = 200, rs_Status = ''200 OK'', rs_Header = [], rs_ContentLength = 3, rs_Body = ''abc'', rs_BodyOk = True\<rparr>, demo_hops)"
  by code_simp

theorem outbound_screened_witness:
  "map hp_step demo_hops = [0, 2] \<and> map hp_tries demo_hops = [[(1, [''93.184.216.34:443''])], [(3, [''93.184.216.34:443''])]] \<and>
   length demo_hops \<le> nat 2 + 1 \<and> list_all (\<lambda>h. length (hp_tries h) \<le> nat 1 + 1) demo_hops"
proof -
  have "co_MaxRedirects (cl_opts demo_client) = 2" "co_Retries (cl_opts demo_client) = 1" by code_simp+
  then show ?thesis using outbound_screened [OF demo_new demo_send] by (simp add: demo_hops_def)
qed

theorem credentials_stay_home_witness:
  "carries_auth (hp_header (demo_hops ! 0)) \<and> \<not> carries_auth (hp_header (demo_hops ! 1)) \<and> u_User (hp_url (demo_hops ! 1)) = None"
proof -
  have "0 \<le> co_Retries (cl_opts demo_client)" "1 < length demo_hops" by code_simp+
  moreover have "u_Host (hp_url (demo_hops ! 1)) \<noteq> u_Host (hp_url (demo_hops ! 0))" "carries_auth (hp_header (demo_hops ! 0))" by code_simp+
  ultimately show ?thesis using credentials_stay_home [OF demo_send, of 1] by auto
qed

end
