(* ===== verification/Meta_Nodes.thy ===== *)
theory Meta_Nodes
  imports GoTime
begin

text \<open>
  Repository, member, node, blob and remote rows of the metadata store
  (\<open>internal/metadata/api.go\<close>, \<open>substores.go\<close>, \<open>substores_remote_virtual.go\<close>).

  The tables are lists with at most one row per key. A read takes a predicate that says which store
  calls fail; a write that may fail is guarded by its caller, which knows how the outcome is
  retried. Columns no modelled component reads (descriptions, client checksums, row times of
  repositories) are left out.
\<close>


section \<open>Rows\<close>

definition TypeLocal :: string where "TypeLocal = ''local''"
definition TypeRemote :: string where "TypeRemote = ''remote''"
definition TypeVirtual :: string where "TypeVirtual = ''virtual''"

record Repo =
  rp_RepoKey :: string
  rp_Type :: string
  rp_PackageType :: string
  rp_Config :: string

record VirtualMember =
  vm_VirtualRepo :: string
  vm_MemberRepo :: string
  vm_Position :: nat

record Node =
  nd_RepoKey :: string
  nd_Path :: string
  nd_Sha256 :: string
  nd_Size :: nat
  nd_Mime :: string
  nd_CreatedBy :: string
  nd_CreatedAt :: string
  nd_UpdatedAt :: string

record Blob =
  bl_Sha256 :: string
  bl_Sha1 :: string
  bl_Md5 :: string
  bl_Size :: nat
  bl_CreatedAt :: string

record RemoteConfig =
  rc_RepoKey :: string
  rc_URL :: string
  rc_Username :: string
  rc_Password :: string
  rc_ContentTTLSeconds :: int
  rc_MetadataTTLSeconds :: int
  rc_AllowPrivateUpstream :: bool
  rc_BlockedOut :: bool
  rc_SocketTimeoutMs :: int
  rc_MetadataRetrievalTimeoutSecs :: int

record RemoteCacheEntry =
  ce_RepoKey :: string
  ce_Path :: string
  ce_ETag :: string
  ce_LastModified :: string
  ce_FetchedAt :: string
  ce_ExpiresAt :: string
  ce_Kind :: string

record tables =
  tb_repos :: "Repo list"
  tb_members :: "VirtualMember list"
  tb_configs :: "RemoteConfig list"
  tb_nodes :: "Node list"
  tb_blobs :: "Blob list"
  tb_cache :: "RemoteCacheEntry list"
  tb_marks :: "(string \<times> string \<times> string \<times> bool) list"

datatype store_call = RepoRow string | ConfigRow string | MemberRows string
  | NodeRow string string | NodeRows string | NodeWrite string string | NodeDrop string string
  | BlobWrite string | BlobRow string | CacheRow string string | CacheWrite string string | CacheDrop string string
  | UsageRow string | PropWrite string string

datatype repo_error = ErrStore | ErrRepoNotFound | ErrRemoteConfigNotFound | ErrNodeNotFound | ErrIsFolder Node
  | ErrRepoTypeNotSupported | ErrBlobMissing | ErrInvalidPath | StatusErr nat string

definition emptyFolderSHA :: string where
  "emptyFolderSHA = replicate 64 (CHR ''0'')"


section \<open>Statements\<close>

text \<open>\<open>INSERT \<dots> ON CONFLICT DO UPDATE\<close>: the row with the key is replaced, or the row is added.\<close>

definition upsert_by :: "('a \<Rightarrow> bool) \<Rightarrow> 'a \<Rightarrow> 'a list \<Rightarrow> 'a list" where
  "upsert_by P y xs = (if list_ex P xs then map (\<lambda>x. if P x then y else x) xs else xs @ [y])"

lemma find_append: "find P (xs @ ys) = (case find P xs of None \<Rightarrow> find P ys | Some x \<Rightarrow> Some x)"
  by (induction xs) auto

lemma find_upsert [simp]: "P y \<Longrightarrow> find P (upsert_by P y xs) = Some y"
proof -
  assume y: "P y"
  have "find P (map (\<lambda>x. if P x then y else x) xs) = Some y" if "list_ex P xs"
    using that y by (induction xs) auto
  moreover have "find P (xs @ [y]) = Some y" if "\<not> list_ex P xs"
    using that y by (induction xs) auto
  ultimately show ?thesis by (simp add: upsert_by_def)
qed

lemma find_upsert_other:
  assumes "\<And>x. P x \<Longrightarrow> \<not> Q x" "P y"
  shows "find Q (upsert_by P y xs) = find Q xs"
proof -
  have "find Q (map (\<lambda>x. if P x then y else x) xs) = find Q xs" using assms by (induction xs) auto
  moreover have "find Q (xs @ [y]) = find Q xs" using assms by (induction xs) auto
  ultimately show ?thesis by (simp add: upsert_by_def)
qed

lemma filter_upsert [simp]: "P y \<Longrightarrow> filter (\<lambda>x. \<not> P x) (upsert_by P y xs) = filter (\<lambda>x. \<not> P x) xs"
proof -
  assume y: "P y"
  have "filter (\<lambda>x. \<not> P x) (map (\<lambda>x. if P x then y else x) xs) = filter (\<lambda>x. \<not> P x) xs"
    using y by (induction xs) auto
  then show ?thesis using y by (simp add: upsert_by_def)
qed

definition repos_Get :: "(store_call \<Rightarrow> bool) \<Rightarrow> tables \<Rightarrow> string \<Rightarrow> repo_error + Repo" where
  "repos_Get fl t key =
     (if fl (RepoRow key) then Inl ErrStore
      else (case find (\<lambda>r. rp_RepoKey r = key) (tb_repos t) of None \<Rightarrow> Inl ErrRepoNotFound | Some r \<Rightarrow> Inr r))"

definition virtualStore_ListMembers :: "(store_call \<Rightarrow> bool) \<Rightarrow> tables \<Rightarrow> string \<Rightarrow> repo_error + string list" where
  "virtualStore_ListMembers fl t key =
     (if fl (MemberRows key) then Inl ErrStore
      else Inr (map vm_MemberRepo
             (sort_key (\<lambda>m. (vm_Position m, vm_MemberRepo m)) (filter (\<lambda>m. vm_VirtualRepo m = key) (tb_members t)))))"

definition virtualStore_SetMembers :: "tables \<Rightarrow> string \<Rightarrow> string list \<Rightarrow> tables" where
  "virtualStore_SetMembers t key members =
     t\<lparr>tb_members := filter (\<lambda>m. vm_VirtualRepo m \<noteq> key) (tb_members t) @
        map (\<lambda>(i, m). \<lparr>vm_VirtualRepo = key, vm_MemberRepo = m, vm_Position = i\<rparr>) (enumerate 0 members)\<rparr>"

definition nodeStore_Get :: "(store_call \<Rightarrow> bool) \<Rightarrow> tables \<Rightarrow> string \<Rightarrow> string \<Rightarrow> repo_error + Node" where
  "nodeStore_Get fl t repoKey path =
     (if fl (NodeRow repoKey path) then Inl ErrStore
      else (case find (\<lambda>n. nd_RepoKey n = repoKey \<and> nd_Path n = path) (tb_nodes t) of
              None \<Rightarrow> Inl ErrNodeNotFound | Some n \<Rightarrow> Inr n))"

definition nodeStore_Put :: "Node \<Rightarrow> tables \<Rightarrow> tables" where
  "nodeStore_Put n t =
     t\<lparr>tb_nodes := upsert_by (\<lambda>m. nd_RepoKey m = nd_RepoKey n \<and> nd_Path m = nd_Path n) n (tb_nodes t)\<rparr>"

text \<open>\<open>Delete\<close> answers \<open>ErrNodeNotFound\<close> when no row was affected.\<close>

definition nodeStore_Delete :: "(store_call \<Rightarrow> bool) \<Rightarrow> tables \<Rightarrow> string \<Rightarrow> string \<Rightarrow> repo_error option \<times> tables" where
  "nodeStore_Delete fl t repoKey path =
     (if fl (NodeDrop repoKey path) then (Some ErrStore, t)
      else if \<not> list_ex (\<lambda>n. nd_RepoKey n = repoKey \<and> nd_Path n = path) (tb_nodes t) then (Some ErrNodeNotFound, t)
      else (None, t\<lparr>tb_nodes := filter (\<lambda>n. \<not> (nd_RepoKey n = repoKey \<and> nd_Path n = path)) (tb_nodes t)\<rparr>))"

text \<open>
  \<open>path = prefix OR path LIKE prefix/%\<close> with the wildcards escaped and case-sensitive \<open>LIKE\<close>: the
  path is the prefix or lies below it; the empty prefix selects everything.
\<close>

definition below_prefix :: "string \<Rightarrow> string \<Rightarrow> bool" where
  "below_prefix pfx path =
     (let p = (if has_prefix pfx ''/'' then tl pfx else pfx)
      in p = [] \<or> path = p \<or> has_prefix path (p @ ''/''))"

definition nodeStore_ListByPrefix :: "(store_call \<Rightarrow> bool) \<Rightarrow> tables \<Rightarrow> string \<Rightarrow> string \<Rightarrow> repo_error + Node list" where
  "nodeStore_ListByPrefix fl t repoKey pfx =
     (if fl (NodeRows repoKey) then Inl ErrStore
      else Inr (sort_key nd_Path (filter (\<lambda>n. nd_RepoKey n = repoKey \<and> below_prefix pfx (nd_Path n)) (tb_nodes t))))"

text \<open>\<open>ON CONFLICT (sha256) DO NOTHING\<close>: the first ledger row of a checksum stays.\<close>

definition blobStore_Put :: "Blob \<Rightarrow> tables \<Rightarrow> tables" where
  "blobStore_Put b t =
     (if list_ex (\<lambda>c. bl_Sha256 c = bl_Sha256 b) (tb_blobs t) then t else t\<lparr>tb_blobs := tb_blobs t @ [b]\<rparr>)"

text \<open>\<open>Inr None\<close> is \<open>ErrNotFound\<close>; \<open>GetBySha1\<close> refuses the empty digest, which the folder marker's row carries.\<close>

definition blobStore_Get :: "(store_call \<Rightarrow> bool) \<Rightarrow> tables \<Rightarrow> string \<Rightarrow> repo_error + Blob option" where
  "blobStore_Get fl t sha =
     (if fl (BlobRow sha) then Inl ErrStore else Inr (find (\<lambda>b. bl_Sha256 b = sha) (tb_blobs t)))"

definition blobStore_GetBySha1 :: "(store_call \<Rightarrow> bool) \<Rightarrow> tables \<Rightarrow> string \<Rightarrow> repo_error + Blob option" where
  "blobStore_GetBySha1 fl t sha1 =
     (if sha1 = [] then Inr None
      else if fl (BlobRow sha1) then Inl ErrStore else Inr (find (\<lambda>b. bl_Sha1 b = sha1) (tb_blobs t)))"

definition remoteStore_GetConfig :: "(store_call \<Rightarrow> bool) \<Rightarrow> tables \<Rightarrow> string \<Rightarrow> repo_error + RemoteConfig" where
  "remoteStore_GetConfig fl t repoKey =
     (if fl (ConfigRow repoKey) then Inl ErrStore
      else (case find (\<lambda>c. rc_RepoKey c = repoKey) (tb_configs t) of
              None \<Rightarrow> Inl ErrRemoteConfigNotFound | Some c \<Rightarrow> Inr c))"

definition remoteStore_PutCache :: "RemoteCacheEntry \<Rightarrow> tables \<Rightarrow> tables" where
  "remoteStore_PutCache e t =
     t\<lparr>tb_cache := upsert_by (\<lambda>c. ce_RepoKey c = ce_RepoKey e \<and> ce_Path c = ce_Path e) e (tb_cache t)\<rparr>"

text \<open>Every caller of \<open>GetCache\<close> treats an error and an absent row alike.\<close>

definition remoteStore_GetCache :: "(store_call \<Rightarrow> bool) \<Rightarrow> tables \<Rightarrow> string \<Rightarrow> string \<Rightarrow> RemoteCacheEntry option" where
  "remoteStore_GetCache fl t repoKey path =
     (if fl (CacheRow repoKey path) then None
      else find (\<lambda>e. ce_RepoKey e = repoKey \<and> ce_Path e = path) (tb_cache t))"

definition cache_row_exists :: "tables \<Rightarrow> string \<Rightarrow> string \<Rightarrow> bool" where
  "cache_row_exists t repoKey path = list_ex (\<lambda>e. ce_RepoKey e = repoKey \<and> ce_Path e = path) (tb_cache t)"

definition remoteStore_DeleteCache :: "(store_call \<Rightarrow> bool) \<Rightarrow> tables \<Rightarrow> string \<Rightarrow> string \<Rightarrow> tables" where
  "remoteStore_DeleteCache fl t repoKey path =
     (if fl (CacheDrop repoKey path) then t
      else t\<lparr>tb_cache := filter (\<lambda>e. \<not> (ce_RepoKey e = repoKey \<and> ce_Path e = path)) (tb_cache t)\<rparr>)"


section \<open>Changes confined to one path\<close>

definition own_row :: "string \<Rightarrow> string \<Rightarrow> RemoteCacheEntry \<Rightarrow> bool" where
  "own_row k p e \<longleftrightarrow> ce_RepoKey e = k \<and> ce_Path e = p"

definition own_node :: "string \<Rightarrow> string \<Rightarrow> Node \<Rightarrow> bool" where
  "own_node k p n \<longleftrightarrow> nd_RepoKey n = k \<and> nd_Path n = p"

text \<open>Everything outside the path of a repository is kept; the blob ledger may grow.\<close>

definition keeps_tables :: "string \<Rightarrow> string \<Rightarrow> tables \<Rightarrow> tables \<Rightarrow> bool" where
  "keeps_tables k p t t' \<longleftrightarrow>
     filter (\<lambda>e. \<not> own_row k p e) (tb_cache t') = filter (\<lambda>e. \<not> own_row k p e) (tb_cache t) \<and>
     filter (\<lambda>n. \<not> own_node k p n) (tb_nodes t') = filter (\<lambda>n. \<not> own_node k p n) (tb_nodes t) \<and>
     tb_repos t' = tb_repos t \<and> tb_configs t' = tb_configs t \<and> tb_members t' = tb_members t \<and> tb_marks t' = tb_marks t"

lemma keeps_tables_refl [simp]: "keeps_tables k p t t"
  by (simp add: keeps_tables_def)

lemma others_upsert:
  "ce_RepoKey e = k \<Longrightarrow> ce_Path e = p \<Longrightarrow>
     filter (\<lambda>e. \<not> own_row k p e) (tb_cache (remoteStore_PutCache e t)) = filter (\<lambda>e. \<not> own_row k p e) (tb_cache t)"
  "nd_RepoKey n = k \<Longrightarrow> nd_Path n = p \<Longrightarrow>
     filter (\<lambda>n. \<not> own_node k p n) (tb_nodes (nodeStore_Put n t)) = filter (\<lambda>n. \<not> own_node k p n) (tb_nodes t)"
  using filter_upsert [of "\<lambda>c. ce_RepoKey c = k \<and> ce_Path c = p" e "tb_cache t"]
    filter_upsert [of "\<lambda>m. nd_RepoKey m = k \<and> nd_Path m = p" n "tb_nodes t"]
  by (simp_all add: remoteStore_PutCache_def nodeStore_Put_def own_row_def own_node_def)

lemma keeps_rows [simp]:
  assumes "keeps_tables k p u t"
  shows "ce_RepoKey e = k \<Longrightarrow> ce_Path e = p \<Longrightarrow> keeps_tables k p u (remoteStore_PutCache e t)"
    "nd_RepoKey n = k \<Longrightarrow> nd_Path n = p \<Longrightarrow> keeps_tables k p u (nodeStore_Put n t)"
    "keeps_tables k p u (blobStore_Put b t)"
  using assms others_upsert(1) [of e k p t] others_upsert(2) [of n k p t]
  by (simp_all add: keeps_tables_def) (simp_all add: remoteStore_PutCache_def nodeStore_Put_def blobStore_Put_def)

lemma keeps_drop: "keeps_tables k p u t \<Longrightarrow> keeps_tables k p u (remoteStore_DeleteCache fl t k p)"
proof -
  have "filter (\<lambda>e. \<not> own_row k p e) (filter (\<lambda>e. \<not> (ce_RepoKey e = k \<and> ce_Path e = p)) xs) = filter (\<lambda>e. \<not> own_row k p e) xs" for xs
    by (induction xs) (auto simp: own_row_def)
  then show "keeps_tables k p u t \<Longrightarrow> keeps_tables k p u (remoteStore_DeleteCache fl t k p)"
    by (simp add: keeps_tables_def remoteStore_DeleteCache_def)
qed

end
