(* ===== verification/Remote_Fetch.thy ===== *)
theory Remote_Fetch
  imports Remote_Client Meta_Nodes Storage_Contract
begin

text \<open>
  The pull-through engine of remote repositories: \<open>internal/remote/fetcher.go\<close>, \<open>cachestate.go\<close>,
  \<open>ttldefaults.go\<close>, \<open>pullblock.go\<close>.

  The state is the metadata tables, the storage engine, the assumed-offline windows and fault counts
  per repository, the counters, and the log of outbound requests. A pass through the lookup takes
  an environment: the clock when it starts and when the upstream has answered, which store calls
  fail, the outcomes of retried row writes, the pull brake, the outcome of the per-path flight, the
  classification and wire spelling of paths by the package adapters, the policy decoded from the
  repository's JSON, credential decryption, the storage engine's own environment per call, and the
  network of the outbound client.

  Error messages are represented by the template they instantiate. Pooling of clients, the property
  table a content synchronisation writes to, and response headers are left out.
\<close>


section \<open>State and environment\<close>

record repoCounters =
  ct_hits :: nat
  ct_misses :: nat
  ct_negatives :: nat
  ct_stales :: nat
  ct_bytes :: nat

record world =
  wd_t :: tables
  wd_st :: engine
  wd_offline :: "string \<Rightarrow> time option"
  wd_faults :: "string \<Rightarrow> nat"
  wd_stats :: "string \<Rightarrow> repoCounters"
  wd_sent :: "(string \<times> string \<times> hop list) list"

record repoPolicy =
  po_MissedRetrievalCachePeriodSecs :: int
  po_SocketTimeoutMs :: int
  po_SocketTimeoutSecs :: int
  po_MetadataRetrievalTimeoutSecs :: int
  po_AssumedOfflinePeriodSecs :: int
  po_HardFail :: bool
  po_EnableTokenAuthentication :: bool
  po_syncEnabled :: bool
  po_syncProperties :: bool
  po_ChartsBaseURL :: string

datatype flight = FlightWon | WaitDone | WaitCanceled | WaitTimeout

record fenv =
  fe_now :: time
  fe_done :: time
  fe_fail :: "store_call \<Rightarrow> bool"
  fe_retry :: BusyRetryPolicy
  fe_write :: "store_call \<Rightarrow> nat \<Rightarrow> store_res"
  fe_ctxAfter :: "nat \<Rightarrow> bool"
  fe_pullBlocked :: bool
  fe_flight :: "duration \<Rightarrow> flight"
  fe_metaWait :: duration
  fe_isMetadata :: "string \<Rightarrow> string \<Rightarrow> bool"
  fe_upstreamPath :: "string \<Rightarrow> string \<Rightarrow> string"
  fe_policy :: "string \<Rightarrow> repoPolicy option"
  fe_decrypt :: "string \<Rightarrow> string option"
  fe_propsURL :: "string \<Rightarrow> string \<Rightarrow> string option"
  fe_storage :: "nat \<Rightarrow> env"
  fe_short :: "nat option"
  fe_busy :: bool
  fe_client :: cenv
  fe_syncClient :: cenv

datatype fetch_reason = RepoUnknown | BlackedOut | MissingResource | PullBlocked | CredentialsRefused nat
  | Upstream4xx nat | NotModifiedNoCopy | TargetRefused | BodyTooLarge | HardFailed | ExternalUnavailable
  | RetrievalFault | AssumedOffline

text \<open>A classified error carries the client status, the template and whether it is of the not-found family.\<close>

datatype fetch_error = FetchError nat fetch_reason bool | StoreFailed repo_error | StorageFailed | NotRemote
  | BadPolicy | BadCredentials | ClientFailed client_error | WriteFailed store_call | FlightCanceled

record FetchResult =
  fr_Node :: Node
  fr_Body :: string
  fr_CacheState :: string
  fr_UpstreamError :: bool
  fr_HasCopy :: bool

definition CacheHit :: string where "CacheHit = ''HIT''"
definition CacheMiss :: string where "CacheMiss = ''MISS''"
definition CacheStale :: string where "CacheStale = ''STALE''"
definition CacheRevalidated :: string where "CacheRevalidated = ''REVALIDATED''"
definition RemoteCacheKindContent :: string where "RemoteCacheKindContent = ''content''"
definition RemoteCacheKindMetadata :: string where "RemoteCacheKindMetadata = ''metadata''"
definition cacheKindNegative :: string where "cacheKindNegative = ''negative''"
definition pkgTypeHelm :: string where "pkgTypeHelm = ''helm''"
definition pkgTypeDocker :: string where "pkgTypeDocker = ''docker''"
definition pkgTypeHelmOCI :: string where "pkgTypeHelmOCI = ''helmoci''"

definition bump :: "string \<Rightarrow> (repoCounters \<Rightarrow> repoCounters) \<Rightarrow> world \<Rightarrow> world" where
  "bump key f w = w\<lparr>wd_stats := (wd_stats w)(key := f (wd_stats w key))\<rparr>"

definition add_hit :: "repoCounters \<Rightarrow> repoCounters" where "add_hit c = c\<lparr>ct_hits := ct_hits c + 1\<rparr>"
definition add_negative :: "repoCounters \<Rightarrow> repoCounters" where "add_negative c = c\<lparr>ct_negatives := ct_negatives c + 1\<rparr>"
definition add_stale :: "repoCounters \<Rightarrow> repoCounters" where "add_stale c = c\<lparr>ct_stales := ct_stales c + 1\<rparr>"
definition add_miss :: "nat \<Rightarrow> repoCounters \<Rightarrow> repoCounters" where
  "add_miss n c = c\<lparr>ct_misses := ct_misses c + 1, ct_bytes := ct_bytes c + n\<rparr>"


section \<open>Cache rows and windows\<close>

definition hasCacheableCopy :: "Node option \<Rightarrow> bool" where
  "hasCacheableCopy node = (case node of None \<Rightarrow> False | Some n \<Rightarrow> nd_Sha256 n \<noteq> [] \<and> nd_Sha256 n \<noteq> emptyFolderSHA)"

definition GenericContentTTLSeconds :: int where "GenericContentTTLSeconds = 7200"
definition DockerRemoteContentTTLSeconds :: int where "DockerRemoteContentTTLSeconds = 21600"

definition DefaultContentTTLSecondsFor :: "string \<Rightarrow> int" where
  "DefaultContentTTLSecondsFor pkg =
     (if pkg = pkgTypeDocker \<or> pkg = pkgTypeHelmOCI then DockerRemoteContentTTLSeconds else GenericContentTTLSeconds)"

definition ResolveContentTTLSeconds :: "int \<Rightarrow> string \<Rightarrow> int" where
  "ResolveContentTTLSeconds explicit pkg = (if explicit > 0 then explicit else DefaultContentTTLSecondsFor pkg)"

definition classifyPath :: "fenv \<Rightarrow> string \<Rightarrow> string \<Rightarrow> string" where
  "classifyPath fe pkg path = (if fe_isMetadata fe pkg path then RemoteCacheKindMetadata else RemoteCacheKindContent)"

definition ttlFor :: "string \<Rightarrow> int \<Rightarrow> int \<Rightarrow> int \<Rightarrow> int" where
  "ttlFor kind contentTTL metadataTTL missedTTL =
     (if kind = RemoteCacheKindMetadata then metadataTTL else if kind = cacheKindNegative then missedTTL else contentTTL)"

definition entryFresh :: "string \<Rightarrow> time \<Rightarrow> bool" where
  "entryFresh expiresAt now =
     (if expiresAt = [] then False
      else case parse_rfc3339 expiresAt of None \<Rightarrow> False | Some t \<Rightarrow> now < t)"

text \<open>\<open>time.Duration(s) * time.Second\<close> is a product of 64-bit integers.\<close>

definition seconds64 :: "int \<Rightarrow> duration" where
  "seconds64 s = wrap64 (s * second)"

definition expiry :: "time \<Rightarrow> int \<Rightarrow> string" where
  "expiry now ttl = (if ttl \<le> 0 then format_rfc3339 now else format_rfc3339 (now + seconds64 ttl))"

definition negativeEntry :: "string \<Rightarrow> string \<Rightarrow> time \<Rightarrow> int \<Rightarrow> RemoteCacheEntry" where
  "negativeEntry repoKey path now ttl =
     \<lparr>ce_RepoKey = repoKey, ce_Path = path, ce_ETag = [], ce_LastModified = [], ce_FetchedAt = format_rfc3339 now,
      ce_ExpiresAt = expiry now ttl, ce_Kind = cacheKindNegative\<rparr>"

definition contentEntry :: "string \<Rightarrow> string \<Rightarrow> string \<Rightarrow> string \<Rightarrow> string \<Rightarrow> time \<Rightarrow> int \<Rightarrow> RemoteCacheEntry" where
  "contentEntry repoKey path etag lastModified kind now ttl =
     \<lparr>ce_RepoKey = repoKey, ce_Path = path, ce_ETag = etag, ce_LastModified = lastModified, ce_FetchedAt = format_rfc3339 now,
      ce_ExpiresAt = expiry now ttl, ce_Kind = kind\<rparr>"

definition negativeFresh :: "fenv \<Rightarrow> world \<Rightarrow> string \<Rightarrow> string \<Rightarrow> bool" where
  "negativeFresh fe w repoKey path =
     (case remoteStore_GetCache (fe_fail fe) (wd_t w) repoKey path of
        None \<Rightarrow> False
      | Some e \<Rightarrow> ce_Kind e = cacheKindNegative \<and> entryFresh (ce_ExpiresAt e) (fe_now fe))"

text \<open>The copy of a path inside its window: the lookup of step 4 and of the winner's second look.\<close>

definition copyFresh :: "fenv \<Rightarrow> world \<Rightarrow> string \<Rightarrow> string \<Rightarrow> bool" where
  "copyFresh fe w repoKey path =
     (case remoteStore_GetCache (fe_fail fe) (wd_t w) repoKey path of
        None \<Rightarrow> False | Some e \<Rightarrow> entryFresh (ce_ExpiresAt e) (fe_now fe))"

definition defaultPolicy :: repoPolicy where
  "defaultPolicy = \<lparr>po_MissedRetrievalCachePeriodSecs = 1800, po_SocketTimeoutMs = 0, po_SocketTimeoutSecs = 15,
     po_MetadataRetrievalTimeoutSecs = 0, po_AssumedOfflinePeriodSecs = 300, po_HardFail = False, po_EnableTokenAuthentication = False,
     po_syncEnabled = False, po_syncProperties = False, po_ChartsBaseURL = []\<rparr>"

definition propertiesSyncOn :: "repoPolicy \<Rightarrow> bool" where
  "propertiesSyncOn p \<longleftrightarrow> po_syncEnabled p \<and> po_syncProperties p"

definition effectiveSocketTimeoutMs :: "RemoteConfig \<Rightarrow> repoPolicy \<Rightarrow> int" where
  "effectiveSocketTimeoutMs cfg pol =
     (if rc_SocketTimeoutMs cfg > 0 then rc_SocketTimeoutMs cfg
      else if po_SocketTimeoutMs pol > 0 then po_SocketTimeoutMs pol
      else if po_SocketTimeoutSecs pol > 0 then po_SocketTimeoutSecs pol * 1000
      else po_SocketTimeoutSecs defaultPolicy * 1000)"

definition effectiveMetadataWait :: "fenv \<Rightarrow> RemoteConfig \<Rightarrow> repoPolicy \<Rightarrow> duration" where
  "effectiveMetadataWait fe cfg pol =
     (if rc_MetadataRetrievalTimeoutSecs cfg > 0 then seconds64 (rc_MetadataRetrievalTimeoutSecs cfg)
      else if po_MetadataRetrievalTimeoutSecs pol > 0 then seconds64 (po_MetadataRetrievalTimeoutSecs pol)
      else fe_metaWait fe)"

definition offlineSecs :: "repoPolicy \<Rightarrow> int" where
  "offlineSecs pol =
     (if po_AssumedOfflinePeriodSecs pol > 0 then po_AssumedOfflinePeriodSecs pol else po_AssumedOfflinePeriodSecs defaultPolicy)"

definition offlineWindowFaultThreshold :: nat where "offlineWindowFaultThreshold = 2"

definition noteTransportFault :: "string \<Rightarrow> world \<Rightarrow> bool \<times> world" where
  "noteTransportFault key w =
     (offlineWindowFaultThreshold \<le> wd_faults w key + 1, w\<lparr>wd_faults := (wd_faults w)(key := wd_faults w key + 1)\<rparr>)"

definition upstreamReached :: "string \<Rightarrow> world \<Rightarrow> world" where
  "upstreamReached key w = w\<lparr>wd_faults := (wd_faults w)(key := 0)\<rparr>"

definition markOffline :: "string \<Rightarrow> time \<Rightarrow> world \<Rightarrow> world" where
  "markOffline key until w = w\<lparr>wd_offline := (wd_offline w)(key := Some until)\<rparr>"

definition offlineWindow :: "string \<Rightarrow> time \<Rightarrow> world \<Rightarrow> bool \<times> world" where
  "offlineWindow key now w =
     (case wd_offline w key of
        None \<Rightarrow> (False, w)
      | Some until \<Rightarrow>
          if \<not> now < until
          then (False, w\<lparr>wd_offline := (wd_offline w)(key := None), wd_faults := (wd_faults w)(key := 0)\<rparr>)
          else (True, w))"


section \<open>Loading a repository and its outbound client\<close>

definition normalize_policy :: "repoPolicy \<Rightarrow> repoPolicy" where
  "normalize_policy p =
     p\<lparr>po_MissedRetrievalCachePeriodSecs := (if po_MissedRetrievalCachePeriodSecs p = 0 then po_MissedRetrievalCachePeriodSecs defaultPolicy
          else po_MissedRetrievalCachePeriodSecs p),
       po_SocketTimeoutSecs := (if po_SocketTimeoutSecs p = 0 then po_SocketTimeoutSecs defaultPolicy else po_SocketTimeoutSecs p),
       po_AssumedOfflinePeriodSecs := (if po_AssumedOfflinePeriodSecs p = 0 then po_AssumedOfflinePeriodSecs defaultPolicy
          else po_AssumedOfflinePeriodSecs p)\<rparr>"

definition loadRepo :: "fenv \<Rightarrow> tables \<Rightarrow> string \<Rightarrow> fetch_error + Repo \<times> RemoteConfig \<times> repoPolicy" where
  "loadRepo fe t repoKey =
     (case repos_Get (fe_fail fe) t repoKey of
        Inl e \<Rightarrow> Inl (if e = ErrRepoNotFound then FetchError 404 RepoUnknown True else StoreFailed e)
      | Inr row \<Rightarrow>
          if rp_Type row \<noteq> TypeRemote then Inl NotRemote
          else case remoteStore_GetConfig (fe_fail fe) t repoKey of
            Inl e \<Rightarrow> Inl (StoreFailed e)
          | Inr cfg \<Rightarrow>
              (case (if rp_Config row = [] then Some defaultPolicy else map_option normalize_policy (fe_policy fe (rp_Config row))) of
                 None \<Rightarrow> Inl BadPolicy
               | Some pol \<Rightarrow>
                   Inr (row, cfg\<lparr>rc_ContentTTLSeconds := ResolveContentTTLSeconds (rc_ContentTTLSeconds cfg) (rp_PackageType row)\<rparr>, pol)))"

definition upstream_options :: "string \<Rightarrow> string \<Rightarrow> string \<Rightarrow> string \<Rightarrow> bool \<Rightarrow> RemoteConfig \<Rightarrow> repoPolicy \<Rightarrow> client_options" where
  "upstream_options repoKey base user password tokenAuth cfg pol =
     \<lparr>co_RepoKey = repoKey, co_BaseURL = base, co_Username = user, co_Password = password, co_TokenAuth = tokenAuth,
      co_AllowPrivateUpstream = rc_AllowPrivateUpstream cfg,
      co_SocketTimeout = wrap64 (effectiveSocketTimeoutMs cfg pol * millisecond),
      co_MaxRedirects = 0, co_MaxBufferedBody = 0, co_Retries = 0, co_RetryBackoff = 0\<rparr>"

definition clientFor :: "fenv \<Rightarrow> string \<Rightarrow> RemoteConfig \<Rightarrow> repoPolicy \<Rightarrow> fetch_error + client" where
  "clientFor fe repoKey cfg pol =
     (case fe_decrypt fe (rc_Password cfg) of
        None \<Rightarrow> Inl BadCredentials
      | Some password \<Rightarrow>
          map_sum ClientFailed id (NewClient (ev_net (fe_client fe) 0)
            (upstream_options repoKey (rc_URL cfg) (rc_Username cfg) password (po_EnableTokenAuthentication pol) cfg pol)))"

definition externalClientFor :: "fenv \<Rightarrow> string \<Rightarrow> RemoteConfig \<Rightarrow> repoPolicy \<Rightarrow> string \<Rightarrow> fetch_error + client" where
  "externalClientFor fe repoKey cfg pol base =
     map_sum ClientFailed id (NewClient (ev_net (fe_client fe) 0)
       (upstream_options (repoKey @ ''-external'') base [] [] False cfg pol))"

definition sameOrigin :: "net \<Rightarrow> string \<Rightarrow> string \<Rightarrow> bool" where
  "sameOrigin net a b =
     (case (n_url net (trim_space a), n_url net (trim_space b)) of
        (Some ua, Some ub) \<Rightarrow> u_Scheme ua = u_Scheme ub \<and> u_Host ua = u_Host ub
      | _ \<Rightarrow> False)"

definition chartsBaseFor :: "Repo \<Rightarrow> repoPolicy \<Rightarrow> string \<Rightarrow> string" where
  "chartsBaseFor row pol kind =
     (if po_ChartsBaseURL pol = [] \<or> rp_PackageType row \<noteq> pkgTypeHelm \<or> kind = RemoteCacheKindMetadata then []
      else po_ChartsBaseURL pol)"

definition plain_request :: "string \<Rightarrow> string \<Rightarrow> Request" where
  "plain_request url path = \<lparr>rq_Method = [], rq_Path = path, rq_URL = url, rq_Header = []\<rparr>"

definition outboundFor :: "fenv \<Rightarrow> Repo \<Rightarrow> RemoteConfig \<Rightarrow> repoPolicy \<Rightarrow> string \<Rightarrow> string \<Rightarrow> string \<Rightarrow> string \<Rightarrow> fetch_error + client \<times> Request" where
  "outboundFor fe row cfg pol repoKey upPath kind target =
     (if target \<noteq> [] then map_sum id (\<lambda>c. (c, plain_request target [])) (externalClientFor fe repoKey cfg pol [])
      else
        let base = chartsBaseFor row pol kind
        in if base \<noteq> [] then
             (if sameOrigin (ev_net (fe_client fe) 0) (rc_URL cfg) base
              then map_sum id (\<lambda>c. (c, plain_request (JoinURL base upPath) [])) (clientFor fe repoKey cfg pol)
              else map_sum id (\<lambda>c. (c, plain_request [] upPath)) (externalClientFor fe repoKey cfg pol base))
           else map_sum id (\<lambda>c. (c, plain_request [] upPath)) (clientFor fe repoKey cfg pol))"

text \<open>The log has a call of the client each, with its hops: none when the first URL is refused.\<close>

definition log_sent :: "string \<Rightarrow> string \<Rightarrow> hop list \<Rightarrow> world \<Rightarrow> world" where
  "log_sent key path hops w = w\<lparr>wd_sent := wd_sent w @ [(key, path, hops)]\<rparr>"


section \<open>Serving a copy\<close>

definition serveCopy :: "fenv \<Rightarrow> world \<Rightarrow> Node \<Rightarrow> string \<Rightarrow> bool \<Rightarrow> fetch_error + FetchResult" where
  "serveCopy fe w node state upstreamError =
     (case Open (fe_storage fe 3) (nd_Sha256 node) (wd_st w) of
        Inl _ \<Rightarrow> Inl StorageFailed
      | Inr (body, _) \<Rightarrow>
          Inr \<lparr>fr_Node = node, fr_Body = body, fr_CacheState = state, fr_UpstreamError = upstreamError, fr_HasCopy = True\<rparr>)"

definition serveStale :: "fenv \<Rightarrow> world \<Rightarrow> Node \<Rightarrow> fetch_error + FetchResult" where
  "serveStale fe w node = serveCopy fe w node CacheStale True"

text \<open>
  The stale-first policy: an expired copy is served, else the answer names the fault. The flags say
  whether the hop was external and whether a transport fault is at hand.
\<close>

definition downgrade :: "fenv \<Rightarrow> Node option \<Rightarrow> string \<Rightarrow> repoPolicy \<Rightarrow> bool \<Rightarrow> bool \<Rightarrow> world \<Rightarrow> (fetch_error + FetchResult) \<times> world" where
  "downgrade fe node repoKey pol ext fault w =
     (if hasCacheableCopy node then
        let w1 = bump repoKey add_stale w in (serveStale fe w1 (the node), w1)
      else if po_HardFail pol then (Inl (FetchError 502 HardFailed False), w)
      else if ext then (Inl (FetchError 404 ExternalUnavailable True), w)
      else if fault then (Inl (FetchError 404 RetrievalFault True), w)
      else (Inl (FetchError 404 AssumedOffline True), w))"

definition unfoundMissing :: fetch_error where
  "unfoundMissing = FetchError 404 MissingResource True"


section \<open>Landing a body\<close>

definition retryBusy :: "fenv \<Rightarrow> store_call \<Rightarrow> bool" where
  "retryBusy fe call = (fst (RetryOnBusy (fe_ctxAfter fe) (fe_retry fe) (fe_write fe call)) = StoreOk)"

datatype land_error = UpstreamBody | LocalFault fetch_error

definition body_events :: "fenv \<Rightarrow> response \<Rightarrow> read_ev list" where
  "body_events fe resp =
     [\<lparr>r_cancel = False, r_data = rs_Body resp, r_end = (if rs_BodyOk resp then ReadEOF else ReadErr), r_short = fe_short fe\<rparr>]"

text \<open>The storage session of a landing: begin, append, commit, with the abort of a failed step.\<close>

definition store_body :: "hash_suite \<Rightarrow> fenv \<Rightarrow> response \<Rightarrow> engine \<Rightarrow> (land_error + BlobRef \<times> nat) \<times> engine" where
  "store_body H fe resp st =
     (case BeginSession (fe_storage fe 0) st of
        (Inl _, st1) \<Rightarrow> (Inl (LocalFault StorageFailed), st1)
      | (Inr h, st1) \<Rightarrow>
          (case Append (fe_storage fe 1) h (body_events fe resp) st1 of
             (Inl e, st2) \<Rightarrow>
               (Inl (if e = storage_error.ErrStore \<and> fe_busy fe then LocalFault StorageFailed else UpstreamBody), Abort (fe_storage fe 1) h st2)
           | (Inr written, st2) \<Rightarrow>
               (case Commit H (fe_storage fe 2) h \<lparr>Sha256 = [], Sha1 = [], Md5 = [], Size = 0\<rparr> st2 of
                  (Inl _, st3) \<Rightarrow> (Inl (LocalFault StorageFailed), Abort (fe_storage fe 2) h st3)
                | (Inr ref, st3) \<Rightarrow> (Inr (ref, written), st3))))"

definition mimeOf :: "header \<Rightarrow> string" where
  "mimeOf hdr = (let ct = header_get hdr ''Content-Type'' in if ct \<noteq> [] then ct else ''application/octet-stream'')"

definition firstNonEmpty :: "string \<Rightarrow> string \<Rightarrow> string" where
  "firstNonEmpty a b = (if a \<noteq> [] then a else b)"

definition landed_node :: "string \<Rightarrow> string \<Rightarrow> BlobRef \<Rightarrow> header \<Rightarrow> time \<Rightarrow> Node option \<Rightarrow> Node" where
  "landed_node repoKey path ref hdr now existing =
     (let same = (case existing of None \<Rightarrow> False | Some x \<Rightarrow> nd_Sha256 x = Sha256 ref);
          old = the existing
      in \<lparr>nd_RepoKey = repoKey, nd_Path = path, nd_Sha256 = Sha256 ref, nd_Size = Size ref,
          nd_Mime = (if existing = None then mimeOf hdr else firstNonEmpty (mimeOf hdr) (nd_Mime old)),
          nd_CreatedBy = (if same then nd_CreatedBy old else ''remote-proxy''),
          nd_CreatedAt = (if same then nd_CreatedAt old else format_rfc3339 now), nd_UpdatedAt = format_rfc3339 now\<rparr>)"

definition syncUpstreamProperties :: "fenv \<Rightarrow> RemoteConfig \<Rightarrow> repoPolicy \<Rightarrow> string \<Rightarrow> string \<Rightarrow> world \<Rightarrow> world" where
  "syncUpstreamProperties fe cfg pol repoKey path w =
     (case fe_propsURL fe (rc_URL cfg) path of
        None \<Rightarrow> w
      | Some raw \<Rightarrow>
          (case clientFor fe repoKey cfg pol of
             Inl _ \<Rightarrow> w
           | Inr c \<Rightarrow>
               log_sent repoKey path
                 (snd (client_Fetch (fe_syncClient fe) c ((plain_request raw [])\<lparr>rq_Header := [(''Accept'', ''application/json'')]\<rparr>))) w))"

definition existing_node :: "fenv \<Rightarrow> tables \<Rightarrow> string \<Rightarrow> string \<Rightarrow> Node option" where
  "existing_node fe t repoKey path = (case nodeStore_Get (fe_fail fe) t repoKey path of Inl _ \<Rightarrow> None | Inr n \<Rightarrow> Some n)"

text \<open>Blob row, node row, cache row, in this order, each within the busy budget.\<close>

definition land :: "hash_suite \<Rightarrow> fenv \<Rightarrow> string \<Rightarrow> string \<Rightarrow> string \<Rightarrow> RemoteConfig \<Rightarrow> repoPolicy \<Rightarrow> response \<Rightarrow> world
    \<Rightarrow> (land_error + FetchResult) \<times> world" where
  "land H fe repoKey path kind cfg pol resp w =
     (let now = fe_done fe; hdr = rs_Header resp
      in case store_body H fe resp (wd_st w) of
           (Inl e, st) \<Rightarrow> (Inl e, w\<lparr>wd_st := st\<rparr>)
         | (Inr (ref, written), st) \<Rightarrow>
             let w0 = w\<lparr>wd_st := st\<rparr>
             in if \<not> retryBusy fe (BlobWrite (Sha256 ref)) then (Inl (LocalFault (WriteFailed (BlobWrite (Sha256 ref)))), w0)
                else
                  let w1 = w0\<lparr>wd_t := blobStore_Put \<lparr>bl_Sha256 = Sha256 ref, bl_Sha1 = Sha1 ref, bl_Md5 = Md5 ref, bl_Size = Size ref,
                                 bl_CreatedAt = format_rfc3339 now\<rparr> (wd_t w0)\<rparr>;
                      node = landed_node repoKey path ref hdr now (existing_node fe (wd_t w1) repoKey path)
                  in if \<not> retryBusy fe (NodeWrite repoKey path) then (Inl (LocalFault (WriteFailed (NodeWrite repoKey path))), w1)
                     else
                       let w2 = w1\<lparr>wd_t := nodeStore_Put node (wd_t w1)\<rparr>;
                           ttl = ttlFor kind (rc_ContentTTLSeconds cfg) (rc_MetadataTTLSeconds cfg) (po_MissedRetrievalCachePeriodSecs pol)
                       in if \<not> retryBusy fe (CacheWrite repoKey path) then (Inl (LocalFault (WriteFailed (CacheWrite repoKey path))), w2)
                          else
                            let w3 = w2\<lparr>wd_t := remoteStore_PutCache (contentEntry repoKey path (header_get hdr ''ETag'')
                                           (header_get hdr ''Last-Modified'') kind now ttl) (wd_t w2)\<rparr>;
                                w4 = (if kind = RemoteCacheKindContent \<and> propertiesSyncOn pol
                                      then syncUpstreamProperties fe cfg pol repoKey path w3 else w3)
                            in case serveCopy fe w4 node CacheMiss False of
                                 Inl e \<Rightarrow> (Inl (LocalFault e), w4)
                               | Inr res \<Rightarrow> (Inr res, bump repoKey (add_miss written) w4))"


section \<open>The answer of the upstream\<close>

definition offline_until :: "fenv \<Rightarrow> repoPolicy \<Rightarrow> time" where
  "offline_until fe pol = fe_done fe + seconds64 (offlineSecs pol)"

definition mapUpstreamStatus :: "fenv \<Rightarrow> string \<Rightarrow> string \<Rightarrow> RemoteConfig \<Rightarrow> repoPolicy \<Rightarrow> Node option \<Rightarrow> nat \<Rightarrow> bool \<Rightarrow> world
    \<Rightarrow> (fetch_error + FetchResult) \<times> world" where
  "mapUpstreamStatus fe repoKey path cfg pol staleNode status ext w =
     (if status = 404 then
        (if \<not> retryBusy fe (CacheWrite repoKey path) then (Inl (WriteFailed (CacheWrite repoKey path)), w)
         else
           let ttl = ttlFor cacheKindNegative 0 0 (po_MissedRetrievalCachePeriodSecs pol);
               w1 = w\<lparr>wd_t := remoteStore_PutCache (negativeEntry repoKey path (fe_done fe) ttl) (wd_t w)\<rparr>
           in case staleNode of
                Some n \<Rightarrow> let w2 = bump repoKey add_stale w1 in (serveStale fe w2 n, w2)
              | None \<Rightarrow> (Inl unfoundMissing, w1))
      else if status = 401 \<or> status = 403 then (Inl (FetchError 404 (CredentialsRefused status) True), w)
      else if 400 \<le> status \<and> status < 500 then (Inl (FetchError 404 (Upstream4xx status) True), w)
      else if status = 304 then
        (case staleNode of
           None \<Rightarrow> (Inl (FetchError 502 NotModifiedNoCopy False), w)
         | Some n \<Rightarrow>
             let (kind, etag, lastMod) =
                   (case remoteStore_GetCache (fe_fail fe) (wd_t w) repoKey path of
                      Some e \<Rightarrow> if ce_Kind e \<noteq> [] then (ce_Kind e, ce_ETag e, ce_LastModified e) else (RemoteCacheKindContent, [], [])
                    | None \<Rightarrow> (RemoteCacheKindContent, [], []));
                 ttl = ttlFor kind (rc_ContentTTLSeconds cfg) (rc_MetadataTTLSeconds cfg) (po_MissedRetrievalCachePeriodSecs pol)
             in if fe_write fe (CacheWrite repoKey path) 0 \<noteq> StoreOk then (Inl (WriteFailed (CacheWrite repoKey path)), w)
                else
                  let w1 = w\<lparr>wd_t := remoteStore_PutCache (contentEntry repoKey path etag lastMod kind (fe_done fe) ttl) (wd_t w)\<rparr>;
                      w2 = bump repoKey add_hit w1
                  in (serveCopy fe w2 n CacheRevalidated False, w2))
      else
        let w1 = (if ext then w else markOffline repoKey (offline_until fe pol) w)
        in downgrade fe staleNode repoKey pol ext False w1)"

definition IsRejection :: "client_error \<Rightarrow> bool" where
  "IsRejection e = (case e of HopRefused (Rejection _) \<Rightarrow> True | TransportFailed (DoRejected _) \<Rightarrow> True | Unreachable (DoRejected _) \<Rightarrow> True | _ \<Rightarrow> False)"

text \<open>\<open>None\<close> is the failure of a body that broke off while it was landed.\<close>

definition mapTransportFault :: "fenv \<Rightarrow> string \<Rightarrow> repoPolicy \<Rightarrow> Node option \<Rightarrow> client_error option \<Rightarrow> bool \<Rightarrow> world
    \<Rightarrow> (fetch_error + FetchResult) \<times> world" where
  "mapTransportFault fe repoKey pol staleNode err ext w =
     (if (case err of None \<Rightarrow> False | Some e \<Rightarrow> IsRejection e) then (Inl (FetchError 400 TargetRefused False), w)
      else if err = Some ErrBodyTooLarge then (Inl (FetchError 502 BodyTooLarge False), w)
      else
        let (open1, w1) = (if ext then (False, w) else noteTransportFault repoKey w);
            w2 = (if open1 then markOffline repoKey (offline_until fe pol) w1 else w1)
        in downgrade fe staleNode repoKey pol ext True w2)"

text \<open>An expired copy of a mutable document is revalidated with the validators of its row.\<close>

definition conditional :: "fenv \<Rightarrow> tables \<Rightarrow> string \<Rightarrow> string \<Rightarrow> string \<Rightarrow> Node option \<Rightarrow> Request \<Rightarrow> Request" where
  "conditional fe t repoKey path kind staleNode req =
     (if staleNode \<noteq> None \<and> kind = RemoteCacheKindMetadata then
        (case remoteStore_GetCache (fe_fail fe) t repoKey path of
           None \<Rightarrow> req
         | Some e \<Rightarrow>
             let h1 = (if ce_ETag e \<noteq> [] then AList.update ''If-None-Match'' (ce_ETag e) (rq_Header req) else rq_Header req);
                 h2 = (if ce_LastModified e \<noteq> [] then AList.update ''If-Modified-Since'' (ce_LastModified e) h1 else h1)
             in req\<lparr>rq_Header := h2\<rparr>)
      else req)"

definition contactUpstream :: "hash_suite \<Rightarrow> fenv \<Rightarrow> Repo \<Rightarrow> RemoteConfig \<Rightarrow> repoPolicy \<Rightarrow> string \<Rightarrow> string \<Rightarrow> string \<Rightarrow> Node option \<Rightarrow> world
    \<Rightarrow> (fetch_error + FetchResult) \<times> world" where
  "contactUpstream H fe row cfg pol repoKey path target staleNode w =
     (let kind = classifyPath fe (rp_PackageType row) path;
          upPath = fe_upstreamPath fe (rp_PackageType row) path;
          ext = (target \<noteq> [])
      in case outboundFor fe row cfg pol repoKey upPath kind target of
           Inl e \<Rightarrow> (Inl e, w)
         | Inr (c, req0) \<Rightarrow>
             let req = conditional fe (wd_t w) repoKey path kind staleNode req0;
                 (answer, hops) = (if kind = RemoteCacheKindMetadata then client_Fetch (fe_client fe) c req else client_Stream (fe_client fe) c req);
                 w1 = log_sent repoKey path hops w
             in case answer of
                  Inl err \<Rightarrow> mapTransportFault fe repoKey pol staleNode (Some err) ext w1
                | Inr resp \<Rightarrow>
                    let w2 = (if ext then w1 else upstreamReached repoKey w1)
                    in if rs_StatusCode resp \<noteq> 200 then mapUpstreamStatus fe repoKey path cfg pol staleNode (rs_StatusCode resp) ext w2
                       else
                         let resp' = (if kind = RemoteCacheKindMetadata then resp\<lparr>rs_BodyOk := True\<rparr> else resp)
                         in case land H fe repoKey path kind cfg pol resp' w2 of
                              (Inr res, w3) \<Rightarrow> (Inr res, w3)
                            | (Inl (LocalFault e), w3) \<Rightarrow> (Inl e, w3)
                            | (Inl UpstreamBody, w3) \<Rightarrow>
                                if kind = RemoteCacheKindMetadata then (Inl StorageFailed, w3)
                                else mapTransportFault fe repoKey pol staleNode None ext w3)"


section \<open>The flow of a read\<close>

text \<open>The second look of the winner of a flight, then the upstream.\<close>

definition fetch_locked :: "hash_suite \<Rightarrow> fenv \<Rightarrow> Repo \<Rightarrow> RemoteConfig \<Rightarrow> repoPolicy \<Rightarrow> string \<Rightarrow> string \<Rightarrow> string \<Rightarrow> Node option \<Rightarrow> world
    \<Rightarrow> (fetch_error + FetchResult) \<times> world" where
  "fetch_locked H fe row cfg pol repoKey path target node w =
     (if negativeFresh fe w repoKey path then (Inl unfoundMissing, bump repoKey add_negative w)
      else
        let node2 = existing_node fe (wd_t w) repoKey path
        in if hasCacheableCopy node2 then
             (if copyFresh fe w repoKey path then
                let w1 = bump repoKey add_hit w in (serveCopy fe w1 (the node2) CacheHit False, w1)
              else contactUpstream H fe row cfg pol repoKey path target node2 w)
           else contactUpstream H fe row cfg pol repoKey path target node w)"

datatype pass = Again | Answer "fetch_error + FetchResult"

text \<open>Steps 4 and 5a: the answers that need no flight.\<close>

definition fetch_unlocked :: "fenv \<Rightarrow> repoPolicy \<Rightarrow> string \<Rightarrow> string \<Rightarrow> string \<Rightarrow> Node option \<Rightarrow> world \<Rightarrow> (fetch_error + FetchResult) option \<times> world" where
  "fetch_unlocked fe pol repoKey path target node w =
     (if node \<noteq> None \<and> copyFresh fe w repoKey path then
        let w1 = bump repoKey add_hit w in (Some (serveCopy fe w1 (the node) CacheHit False), w1)
      else if fe_pullBlocked fe then
        (if hasCacheableCopy node then let (r, w1) = downgrade fe node repoKey pol False False w in (Some r, w1)
         else if po_HardFail pol then (Some (Inl (FetchError 502 HardFailed False)), w)
         else (Some (Inl (FetchError 404 PullBlocked True)), w))
      else if target = [] then
        (case offlineWindow repoKey (fe_now fe) w of
           (True, w1) \<Rightarrow> let (r, w2) = downgrade fe node repoKey pol False False w1 in (Some r, w2)
         | (False, w1) \<Rightarrow> (None, w1))
      else (None, w))"

definition attempt :: "hash_suite \<Rightarrow> fenv \<Rightarrow> Repo \<Rightarrow> RemoteConfig \<Rightarrow> repoPolicy \<Rightarrow> string \<Rightarrow> string \<Rightarrow> string \<Rightarrow> world \<Rightarrow> pass \<times> world" where
  "attempt H fe row cfg pol repoKey path target w =
     (case nodeStore_Get (fe_fail fe) (wd_t w) repoKey path of
        Inl repo_error.ErrStore \<Rightarrow> (Answer (Inl (StoreFailed repo_error.ErrStore)), w)
      | got \<Rightarrow>
          let node = (case got of Inl _ \<Rightarrow> None | Inr n \<Rightarrow> if hasCacheableCopy (Some n) then Some n else None)
          in case fetch_unlocked fe pol repoKey path target node w of
               (Some r, w1) \<Rightarrow> (Answer r, w1)
             | (None, w1) \<Rightarrow>
                 let limit = (if classifyPath fe (rp_PackageType row) path = RemoteCacheKindMetadata
                              then effectiveMetadataWait fe cfg pol else 2 ^ 62)
                 in case fe_flight fe limit of
                      FlightWon \<Rightarrow> (let (r, w2) = fetch_locked H fe row cfg pol repoKey path target node w1 in (Answer r, w2))
                    | WaitDone \<Rightarrow> (Again, w1)
                    | WaitTimeout \<Rightarrow>
                        if hasCacheableCopy node then
                          let w2 = bump repoKey add_stale w1 in (Answer (serveCopy fe w2 (the node) CacheStale False), w2)
                        else (Answer (Inl unfoundMissing), w1)
                    | WaitCanceled \<Rightarrow> (Answer (Inl FlightCanceled), w1))"

text \<open>
  The retry loop, with the environment of each pass and what other requests did to the state before
  it. \<open>None\<close>: every given pass ended in waiting for a flight. The checks of one pass share one
  reading of the clock.
\<close>

fun fetch_passes :: "hash_suite \<Rightarrow> (fenv \<times> (world \<Rightarrow> world)) list \<Rightarrow> Repo \<Rightarrow> RemoteConfig \<Rightarrow> repoPolicy \<Rightarrow> string \<Rightarrow> string \<Rightarrow> string \<Rightarrow> world
    \<Rightarrow> (fetch_error + FetchResult) option \<times> world" where
  "fetch_passes H [] row cfg pol repoKey path target w = (None, w)"
| "fetch_passes H ((fe, others) # ps) row cfg pol repoKey path target w =
     (let w1 = others w
      in if negativeFresh fe w1 repoKey path then (Some (Inl unfoundMissing), bump repoKey add_negative w1)
         else case attempt H fe row cfg pol repoKey path target w1 of
           (Answer r, w2) \<Rightarrow> (Some r, w2)
         | (Again, w2) \<Rightarrow> fetch_passes H ps row cfg pol repoKey path target w2)"

definition fetchFlow :: "hash_suite \<Rightarrow> fenv \<Rightarrow> (fenv \<times> (world \<Rightarrow> world)) list \<Rightarrow> string \<Rightarrow> string \<Rightarrow> string \<Rightarrow> world
    \<Rightarrow> (fetch_error + FetchResult) option \<times> world" where
  "fetchFlow H fe ps repoKey path target w =
     (case loadRepo fe (wd_t w) repoKey of
        Inl e \<Rightarrow> (Some (Inl e), w)
      | Inr (row, cfg, pol) \<Rightarrow>
          if rc_BlockedOut cfg then (Some (Inl (FetchError 404 BlackedOut True)), w)
          else fetch_passes H ((fe, id) # ps) row cfg pol repoKey path target w)"

definition Fetch :: "hash_suite \<Rightarrow> fenv \<Rightarrow> (fenv \<times> (world \<Rightarrow> world)) list \<Rightarrow> string \<Rightarrow> string \<Rightarrow> world
    \<Rightarrow> (fetch_error + FetchResult) option \<times> world" where
  "Fetch H fe ps repoKey path w = fetchFlow H fe ps repoKey path [] w"

definition FetchAbsolute :: "hash_suite \<Rightarrow> fenv \<Rightarrow> (fenv \<times> (world \<Rightarrow> world)) list \<Rightarrow> string \<Rightarrow> string \<Rightarrow> string \<Rightarrow> world
    \<Rightarrow> (fetch_error + FetchResult) option \<times> world" where
  "FetchAbsolute H fe ps repoKey path target w =
     (case n_url (ev_net (fe_client fe) 0) (trim_space target) of
        None \<Rightarrow> (Some (Inl (ClientFailed ErrTargetURL)), w)
      | Some u \<Rightarrow>
          if u_Host u = [] \<or> (u_Scheme u \<noteq> ''http'' \<and> u_Scheme u \<noteq> ''https'') then (Some (Inl (ClientFailed ErrTargetURL)), w)
          else fetchFlow H fe ps repoKey path (n_string (ev_net (fe_client fe) 0) u) w)"


section \<open>Invalidation and teardown\<close>

text \<open>The loop over a subtree: each node row and its cache row; the first store failure ends it.\<close>

fun invalidate_rows :: "(store_call \<Rightarrow> bool) \<Rightarrow> string \<Rightarrow> string list \<Rightarrow> bool \<Rightarrow> tables \<Rightarrow> (repo_error option \<times> bool) \<times> tables" where
  "invalidate_rows fl repoKey [] existed t = ((None, existed), t)"
| "invalidate_rows fl repoKey (p # ps) existed t =
     (if fl (NodeDrop repoKey p) then ((Some repo_error.ErrStore, existed), t)
      else
        let t1 = snd (nodeStore_Delete fl t repoKey p)
        in if fl (CacheDrop repoKey p) then ((Some repo_error.ErrStore, existed), t1)
           else invalidate_rows fl repoKey ps True (remoteStore_DeleteCache fl t1 repoKey p))"

definition Invalidate :: "(store_call \<Rightarrow> bool) \<Rightarrow> string \<Rightarrow> string \<Rightarrow> tables \<Rightarrow> (repo_error option \<times> bool) \<times> tables" where
  "Invalidate fl repoKey path t =
     (if has_suffix path ''/'' then
        let dir = trim_suffix path ''/''
        in case nodeStore_ListByPrefix fl t repoKey dir of
             Inl e \<Rightarrow> ((Some e, False), t)
           | Inr nodes \<Rightarrow>
               invalidate_rows fl repoKey
                 (filter (\<lambda>p. p = path \<or> has_prefix p (dir @ ''/'')) (map nd_Path nodes)) False t
      else
        let found = (case nodeStore_Get fl t repoKey path of Inl _ \<Rightarrow> False | Inr _ \<Rightarrow> True)
        in if found \<and> fl (NodeDrop repoKey path) then ((Some repo_error.ErrStore, False), t)
           else
             let t1 = (if found then snd (nodeStore_Delete fl t repoKey path) else t)
             in if fl (CacheDrop repoKey path) then ((Some repo_error.ErrStore, found), t1)
                else ((None, found \<or> cache_row_exists t1 repoKey path), remoteStore_DeleteCache fl t1 repoKey path))"

definition Forget :: "string \<Rightarrow> world \<Rightarrow> world" where
  "Forget repoKey w =
     w\<lparr>wd_offline := (wd_offline w)(repoKey := None), wd_faults := (wd_faults w)(repoKey := 0),
       wd_stats := (wd_stats w)(repoKey := \<lparr>ct_hits = 0, ct_misses = 0, ct_negatives = 0, ct_stales = 0, ct_bytes = 0\<rparr>)\<rparr>"

definition Stats :: "(store_call \<Rightarrow> bool) \<Rightarrow> string \<Rightarrow> world \<Rightarrow> repo_error + repoCounters \<times> nat \<times> nat" where
  "Stats fl repoKey w =
     (case nodeStore_ListByPrefix fl (wd_t w) repoKey [] of
        Inl e \<Rightarrow> Inl e
      | Inr nodes \<Rightarrow> Inr (wd_stats w repoKey, length nodes, sum_list (map nd_Size nodes)))"

end
