(* ===== verification/Remote_Cache.thy ===== *)
theory Remote_Cache
  imports Remote_Fetch
begin

text \<open>
  What the pull-through engine promises: a read changes nothing but its own path, contacts the
  upstream only when it has to, remembers hits and misses for their windows, and goes quiet when
  the upstream fails.
\<close>

named_theorems world_simps \<open>the fields of the state after each helper operation\<close>

lemma bump_fields [world_simps]:
  "wd_t (bump k f w) = wd_t w" "wd_st (bump k f w) = wd_st w" "wd_offline (bump k f w) = wd_offline w"
  "wd_faults (bump k f w) = wd_faults w" "wd_sent (bump k f w) = wd_sent w"
  by (simp_all add: bump_def)

lemma log_sent_fields [world_simps]:
  "wd_t (log_sent k p hs w) = wd_t w" "wd_st (log_sent k p hs w) = wd_st w" "wd_offline (log_sent k p hs w) = wd_offline w"
  "wd_faults (log_sent k p hs w) = wd_faults w" "wd_stats (log_sent k p hs w) = wd_stats w"
  "wd_sent (log_sent k p hs w) = wd_sent w @ [(k, p, hs)]"
  by (simp_all add: log_sent_def)

lemma reached_fields [world_simps]:
  "wd_t (upstreamReached k w) = wd_t w" "wd_st (upstreamReached k w) = wd_st w" "wd_offline (upstreamReached k w) = wd_offline w"
  "wd_faults (upstreamReached k w) = (wd_faults w)(k := 0)" "wd_sent (upstreamReached k w) = wd_sent w"
  by (simp_all add: upstreamReached_def)

lemma offline_fields [world_simps]:
  "wd_t (markOffline k u w) = wd_t w" "wd_st (markOffline k u w) = wd_st w" "wd_offline (markOffline k u w) = (wd_offline w)(k := Some u)"
  "wd_faults (markOffline k u w) = wd_faults w" "wd_sent (markOffline k u w) = wd_sent w"
  by (simp_all add: markOffline_def)

lemma sync_fields [world_simps]:
  "wd_t (syncUpstreamProperties fe cfg pol k p w) = wd_t w" "wd_st (syncUpstreamProperties fe cfg pol k p w) = wd_st w"
  "wd_offline (syncUpstreamProperties fe cfg pol k p w) = wd_offline w" "wd_faults (syncUpstreamProperties fe cfg pol k p w) = wd_faults w"
  by (simp_all add: syncUpstreamProperties_def world_simps split: option.splits sum.splits)


section \<open>A read changes only its own path\<close>

text \<open>Everything outside the path of a repository, and the log of requests made so far, is kept.\<close>

definition keeps_others :: "string \<Rightarrow> string \<Rightarrow> world \<Rightarrow> world \<Rightarrow> bool" where
  "keeps_others k p w w' \<longleftrightarrow>
     keeps_tables k p (wd_t w) (wd_t w') \<and>
     (\<forall>j. j \<noteq> k \<longrightarrow> wd_offline w' j = wd_offline w j \<and> wd_faults w' j = wd_faults w j \<and> wd_stats w' j = wd_stats w j) \<and>
     (\<exists>ys. wd_sent w' = wd_sent w @ ys \<and> (\<forall>y\<in>set ys. fst y = k \<and> fst (snd y) = p))"

lemma keeps_refl [simp]: "keeps_others k p w w"
  by (simp add: keeps_others_def)

lemma keeps_simple [simp]:
  assumes "keeps_others k p v w"
  shows "keeps_others k p v (bump k f w)" "keeps_others k p v (log_sent k p hs w)" "keeps_others k p v (upstreamReached k w)"
    "keeps_others k p v (markOffline k u w)" "keeps_others k p v (w\<lparr>wd_st := st\<rparr>)"
    "keeps_others k p v (w\<lparr>wd_faults := (wd_faults w)(k := n)\<rparr>)"
    "keeps_others k p v (w\<lparr>wd_offline := (wd_offline w)(k := x), wd_faults := (wd_faults w)(k := n)\<rparr>)"
  using assms by (auto simp: keeps_others_def bump_def log_sent_def upstreamReached_def markOffline_def)

lemma keeps_table_part [simp]:
  assumes "keeps_others k p v w"
  shows "keeps_tables k p (wd_t v) (wd_t w)"
    "keeps_tables k p (wd_t v) t \<Longrightarrow> keeps_others k p v (w\<lparr>wd_t := t\<rparr>)"
    "keeps_tables k p (wd_t v) t \<Longrightarrow> keeps_others k p v (w\<lparr>wd_st := st, wd_t := t\<rparr>)"
  using assms by (simp_all add: keeps_others_def)

lemma entry_keys [simp]:
  "ce_RepoKey (negativeEntry k p now ttl) = k" "ce_Path (negativeEntry k p now ttl) = p"
  "ce_RepoKey (contentEntry k p a b c now ttl) = k" "ce_Path (contentEntry k p a b c now ttl) = p"
  "nd_RepoKey (landed_node k p ref hdr now x) = k" "nd_Path (landed_node k p ref hdr now x) = p"
  by (simp_all add: negativeEntry_def contentEntry_def landed_node_def Let_def)

lemma keeps_sync [simp]: "keeps_others k p v w \<Longrightarrow> keeps_others k p v (syncUpstreamProperties fe cfg pol k p w)"
  by (simp add: syncUpstreamProperties_def split: option.splits sum.splits)

lemma keeps_downgrade: "downgrade fe node k pol ext fault w = (r, w') \<Longrightarrow> keeps_others k p v w \<Longrightarrow> keeps_others k p v w'"
  by (auto simp: downgrade_def Let_def split: if_splits)

lemma keeps_fault: "mapTransportFault fe k pol node err ext w = (r, w') \<Longrightarrow> keeps_others k p v w \<Longrightarrow> keeps_others k p v w'"
  unfolding mapTransportFault_def Let_def noteTransportFault_def
  by (auto split: if_splits dest!: keeps_downgrade [where p = p and v = v])

lemma keeps_status: "mapUpstreamStatus fe k p cfg pol node status ext w = (r, w') \<Longrightarrow> keeps_others k p v w \<Longrightarrow> keeps_others k p v w'"
  unfolding mapUpstreamStatus_def Let_def
  by (auto split: if_splits option.splits prod.splits dest!: keeps_downgrade [where p = p and v = v])

lemma keeps_land: "land H fe k p kind cfg pol resp w = (r, w') \<Longrightarrow> keeps_others k p v w \<Longrightarrow> keeps_others k p v w'"
  unfolding land_def Let_def by (auto split: if_splits sum.splits prod.splits)

lemma keeps_trans: "keeps_others k p u v \<Longrightarrow> keeps_others k p v w \<Longrightarrow> keeps_others k p u w"
  unfolding keeps_others_def keeps_tables_def by (auto simp: ball_Un)

abbreviation outbound :: "fenv \<Rightarrow> Repo \<Rightarrow> RemoteConfig \<Rightarrow> repoPolicy \<Rightarrow> string \<Rightarrow> string \<Rightarrow> string \<Rightarrow> fetch_error + client \<times> Request" where
  "outbound fe row cfg pol k p target \<equiv>
     outboundFor fe row cfg pol k (fe_upstreamPath fe (rp_PackageType row) p) (classifyPath fe (rp_PackageType row) p) target"

text \<open>The exchange of a contact: what the client answers, and the hops it made.\<close>

definition exchange :: "fenv \<Rightarrow> Repo \<Rightarrow> string \<Rightarrow> string \<Rightarrow> Node option \<Rightarrow> client \<times> Request \<Rightarrow> world \<Rightarrow> (client_error + response) \<times> hop list" where
  "exchange fe row k p node cr w =
     (let kind = classifyPath fe (rp_PackageType row) p; req = conditional fe (wd_t w) k p kind node (snd cr)
      in if kind = RemoteCacheKindMetadata then client_Fetch (fe_client fe) (fst cr) req else client_Stream (fe_client fe) (fst cr) req)"

lemma contact_answer:
  assumes "outbound fe row cfg pol k p target = Inr cr" "exchange fe row k p node cr w = (ans, hops)"
  shows "contactUpstream H fe row cfg pol k p target node w =
    (let kind = classifyPath fe (rp_PackageType row) p; ext = (target \<noteq> []); w1 = log_sent k p hops w
     in case ans of
          Inl err \<Rightarrow> mapTransportFault fe k pol node (Some err) ext w1
        | Inr resp \<Rightarrow>
            let w2 = (if ext then w1 else upstreamReached k w1)
            in if rs_StatusCode resp \<noteq> 200 then mapUpstreamStatus fe k p cfg pol node (rs_StatusCode resp) ext w2
               else case land H fe k p kind cfg pol (if kind = RemoteCacheKindMetadata then resp\<lparr>rs_BodyOk := True\<rparr> else resp) w2 of
                      (Inr res, w3) \<Rightarrow> (Inr res, w3)
                    | (Inl (LocalFault e), w3) \<Rightarrow> (Inl e, w3)
                    | (Inl UpstreamBody, w3) \<Rightarrow>
                        if kind = RemoteCacheKindMetadata then (Inl StorageFailed, w3)
                        else mapTransportFault fe k pol node None ext w3)"
proof -
  obtain c req where cr: "cr = (c, req)" by fastforce
  note e = assms(2) [unfolded exchange_def cr Let_def fst_conv snd_conv]
  show ?thesis unfolding contactUpstream_def Let_def assms(1) [unfolded cr] sum.case prod.case e ..
qed

lemma contact_logged:
  assumes "contactUpstream H fe row cfg pol k p target node w = (r, w')" "outbound fe row cfg pol k p target = Inr cr"
  shows "keeps_others k p (log_sent k p (snd (exchange fe row k p node cr w)) w) w'"
proof -
  obtain ans hops where e: "exchange fe row k p node cr w = (ans, hops)" by fastforce
  show ?thesis
    using assms(1) [unfolded contact_answer [OF assms(2) e] Let_def]
    by (auto simp: e split: sum.splits if_splits prod.splits land_error.splits
        dest!: keeps_fault [where p = p and v = "log_sent k p hops w"] keeps_status [where v = "log_sent k p hops w"]
          keeps_land [where v = "log_sent k p hops w"])
qed

lemma keeps_contact:
  assumes "contactUpstream H fe row cfg pol k p target node w = (r, w')" "keeps_others k p v w"
  shows "keeps_others k p v w'"
proof (cases "outbound fe row cfg pol k p target")
  case (Inl e)
  then show ?thesis using assms by (simp add: contactUpstream_def Let_def)
next
  case (Inr cr)
  show ?thesis by (rule keeps_trans [OF _ contact_logged [OF assms(1) Inr]]) (use assms(2) in simp)
qed

lemma keeps_locked: "fetch_locked H fe row cfg pol k p target node w = (r, w') \<Longrightarrow> keeps_others k p v w \<Longrightarrow> keeps_others k p v w'"
  unfolding fetch_locked_def Let_def by (auto split: if_splits dest!: keeps_contact [where v = v])

lemma keeps_window: "offlineWindow k now w = (r, w') \<Longrightarrow> keeps_others k p v w \<Longrightarrow> keeps_others k p v w'"
  by (auto simp: offlineWindow_def split: option.splits if_splits)

lemma keeps_unlocked: "fetch_unlocked fe pol k p target node w = (r, w') \<Longrightarrow> keeps_others k p v w \<Longrightarrow> keeps_others k p v w'"
  unfolding fetch_unlocked_def Let_def
  by (auto split: if_splits prod.splits bool.splits dest!: keeps_window [where p = p and v = v] keeps_downgrade [where p = p and v = v])

lemma keeps_attempt: "attempt H fe row cfg pol k p target w = (r, w') \<Longrightarrow> keeps_others k p v w \<Longrightarrow> keeps_others k p v w'"
  unfolding attempt_def Let_def
  by (auto split: sum.splits repo_error.splits prod.splits option.splits flight.splits if_splits
      dest!: keeps_unlocked [where v = v] keeps_locked [where v = v])

lemma keeps_flow: "fetchFlow H fe [] k p target w = (r, w') \<Longrightarrow> keeps_others k p w w'"
  unfolding fetchFlow_def
  by (auto simp: Let_def split: sum.splits prod.splits if_splits pass.splits dest!: keeps_attempt [where v = w])


section \<open>When the upstream is contacted\<close>

definition cached_copy :: "fenv \<Rightarrow> world \<Rightarrow> string \<Rightarrow> string \<Rightarrow> Node option" where
  "cached_copy fe w k p =
     (case nodeStore_Get (fe_fail fe) (wd_t w) k p of Inl _ \<Rightarrow> None | Inr n \<Rightarrow> if hasCacheableCopy (Some n) then Some n else None)"

text \<open>The reasons to answer without the upstream.\<close>

definition no_contact :: "fenv \<Rightarrow> world \<Rightarrow> RemoteConfig \<Rightarrow> string \<Rightarrow> string \<Rightarrow> bool" where
  "no_contact fe w cfg k p \<longleftrightarrow>
     rc_BlockedOut cfg \<or> negativeFresh fe w k p \<or> (cached_copy fe w k p \<noteq> None \<and> copyFresh fe w k p) \<or>
     fe_pullBlocked fe \<or> (case wd_offline w k of None \<Rightarrow> False | Some until \<Rightarrow> fe_now fe < until)"

lemma downgrade_frame:
  "downgrade fe node k pol ext fault w = (r, w') \<Longrightarrow>
     wd_t w' = wd_t w \<and> wd_st w' = wd_st w \<and> wd_offline w' = wd_offline w \<and> wd_faults w' = wd_faults w \<and> wd_sent w' = wd_sent w"
  by (auto simp: downgrade_def Let_def world_simps split: if_splits)

abbreviation window_open :: "fenv \<Rightarrow> world \<Rightarrow> string \<Rightarrow> bool" where
  "window_open fe w k \<equiv> (case wd_offline w k of None \<Rightarrow> False | Some until \<Rightarrow> fe_now fe < until)"

lemma window_frame:
  "offlineWindow k now w = (b, w') \<Longrightarrow>
     wd_t w' = wd_t w \<and> wd_st w' = wd_st w \<and> wd_sent w' = wd_sent w \<and> b = (case wd_offline w k of None \<Rightarrow> False | Some until \<Rightarrow> now < until) \<and>
     (b \<longrightarrow> w' = w) \<and> (\<not> b \<longrightarrow> wd_offline w' k = None \<and> wd_faults w' k = (if wd_offline w k = None then wd_faults w k else 0))"
  by (auto simp: offlineWindow_def split: option.splits if_splits)

lemma unlocked_answers:
  assumes "fetch_unlocked fe pol k p [] node w = (r, w')"
  shows "wd_t w' = wd_t w \<and> wd_st w' = wd_st w \<and> wd_sent w' = wd_sent w"
    and "r = None \<longleftrightarrow> \<not> (node \<noteq> None \<and> copyFresh fe w k p) \<and> \<not> fe_pullBlocked fe \<and> \<not> window_open fe w k"
    and "r \<noteq> None \<Longrightarrow> wd_offline w' = wd_offline w \<and> wd_faults w' = wd_faults w"
    and "r = None \<Longrightarrow> wd_offline w' k = None \<and> wd_faults w' k = (if wd_offline w k = None then wd_faults w k else 0)"
proof -
  obtain b w1 where b: "offlineWindow k (fe_now fe) w = (b, w1)" by fastforce
  note W = window_frame [OF b]
  obtain d w2 where d: "downgrade fe node k pol False False w = (d, w2)" by fastforce
  note D = downgrade_frame [OF d]
  show "wd_t w' = wd_t w \<and> wd_st w' = wd_st w \<and> wd_sent w' = wd_sent w"
    using assms b d W D by (auto simp: fetch_unlocked_def Let_def world_simps split: if_splits bool.splits)
  show "r = None \<longleftrightarrow> \<not> (node \<noteq> None \<and> copyFresh fe w k p) \<and> \<not> fe_pullBlocked fe \<and> \<not> window_open fe w k"
    using assms b d W by (auto simp: fetch_unlocked_def Let_def split: if_splits bool.splits prod.splits)
  show "r \<noteq> None \<Longrightarrow> wd_offline w' = wd_offline w \<and> wd_faults w' = wd_faults w"
    using assms b d W D by (auto simp: fetch_unlocked_def Let_def world_simps split: if_splits bool.splits)
  show "r = None \<Longrightarrow> wd_offline w' k = None \<and> wd_faults w' k = (if wd_offline w k = None then wd_faults w k else 0)"
    using assms b d W by (auto simp: fetch_unlocked_def Let_def split: if_splits bool.splits prod.splits)
qed

lemma attempt_copy:
  assumes "\<not> fe_fail fe (NodeRow k p)"
  shows "attempt H fe row cfg pol k p target w =
    (case fetch_unlocked fe pol k p target (cached_copy fe w k p) w of
       (Some r, w1) \<Rightarrow> (Answer r, w1)
     | (None, w1) \<Rightarrow>
         (case fe_flight fe (if classifyPath fe (rp_PackageType row) p = RemoteCacheKindMetadata then effectiveMetadataWait fe cfg pol else 2 ^ 62) of
            FlightWon \<Rightarrow> (let (r, w2) = fetch_locked H fe row cfg pol k p target (cached_copy fe w k p) w1 in (Answer r, w2))
          | WaitDone \<Rightarrow> (Again, w1)
          | WaitTimeout \<Rightarrow>
              if hasCacheableCopy (cached_copy fe w k p) then
                let w2 = bump k add_stale w1 in (Answer (serveCopy fe w2 (the (cached_copy fe w k p)) CacheStale False), w2)
              else (Answer (Inl unfoundMissing), w1)
          | WaitCanceled \<Rightarrow> (Answer (Inl FlightCanceled), w1)))"
proof (cases "nodeStore_Get (fe_fail fe) (wd_t w) k p")
  case (Inl e)
  then have e: "e = ErrNodeNotFound" using assms by (auto simp: nodeStore_Get_def split: option.splits if_splits)
  have c: "cached_copy fe w k p = None" using Inl by (simp add: cached_copy_def)
  show ?thesis unfolding attempt_def Let_def Inl e c sum.case repo_error.case ..
next
  case (Inr n)
  then have c: "cached_copy fe w k p = (if hasCacheableCopy (Some n) then Some n else None)" by (simp add: cached_copy_def)
  show ?thesis unfolding attempt_def Let_def Inr c sum.case ..
qed

lemma attempt_store_error: "fe_fail fe (NodeRow k p) \<Longrightarrow> attempt H fe row cfg pol k p target w = (Answer (Inl (StoreFailed repo_error.ErrStore)), w)"
  by (simp add: attempt_def nodeStore_Get_def)

abbreviation same_world :: "world \<Rightarrow> world \<Rightarrow> bool" where
  "same_world w w' \<equiv> wd_t w' = wd_t w \<and> wd_st w' = wd_st w \<and> wd_offline w' = wd_offline w \<and> wd_faults w' = wd_faults w \<and> wd_sent w' = wd_sent w"

lemma attempt_quiet:
  assumes "cached_copy fe w k p \<noteq> None \<and> copyFresh fe w k p \<or> fe_pullBlocked fe \<or> window_open fe w k"
  shows "\<exists>r w'. attempt H fe row cfg pol k p [] w = (Answer r, w') \<and> same_world w w'"
proof (cases "fe_fail fe (NodeRow k p)")
  case False
  obtain r w1 where u: "fetch_unlocked fe pol k p [] (cached_copy fe w k p) w = (r, w1)" by fastforce
  have "r \<noteq> None" using unlocked_answers(2) [OF u] assms by blast
  then show ?thesis using u unlocked_answers(1,3) [OF u] False by (auto simp: attempt_copy)
qed (simp add: attempt_store_error)

lemma fetch_quiet:
  assumes "loadRepo fe (wd_t w) k = Inr (row, cfg, pol)" "no_contact fe w cfg k p"
  shows "\<exists>r w'. Fetch H fe ps k p w = (Some r, w') \<and> same_world w w'"
proof -
  consider "rc_BlockedOut cfg" | "\<not> rc_BlockedOut cfg" "negativeFresh fe w k p"
    | "\<not> rc_BlockedOut cfg" "\<not> negativeFresh fe w k p" "cached_copy fe w k p \<noteq> None \<and> copyFresh fe w k p \<or> fe_pullBlocked fe \<or> window_open fe w k"
    using assms(2) unfolding no_contact_def by blast
  then show ?thesis
  proof cases
    case 3
    then show ?thesis using assms(1) attempt_quiet [OF 3(3), of H row cfg pol] by (force simp: Fetch_def fetchFlow_def Let_def)
  qed (use assms(1) in \<open>simp_all add: Fetch_def fetchFlow_def Let_def world_simps\<close>)
qed

text \<open>Everything but the tables and the windows is irrelevant to the lookups.\<close>

lemma lookup_cong:
  assumes "wd_t w' = wd_t w"
  shows "negativeFresh fe w' k p = negativeFresh fe w k p" "copyFresh fe w' k p = copyFresh fe w k p"
    "cached_copy fe w' k p = cached_copy fe w k p"
  using assms by (simp_all add: negativeFresh_def copyFresh_def cached_copy_def)

lemma locked_contacts:
  assumes "\<not> negativeFresh fe w k p" "\<not> (cached_copy fe w k p \<noteq> None \<and> copyFresh fe w k p)" "\<not> fe_fail fe (NodeRow k p)"
  shows "fetch_locked H fe row cfg pol k p target (cached_copy fe w k p) w = contactUpstream H fe row cfg pol k p target (cached_copy fe w k p) w"
proof (cases "hasCacheableCopy (existing_node fe (wd_t w) k p)")
  case True
  then have "cached_copy fe w k p = existing_node fe (wd_t w) k p"
    by (auto simp: cached_copy_def existing_node_def hasCacheableCopy_def split: sum.splits option.splits)
  then show ?thesis using assms(1,2) True by (auto simp: fetch_locked_def Let_def hasCacheableCopy_def split: option.splits)
qed (use assms(1) in \<open>simp add: fetch_locked_def Let_def\<close>)

text \<open>A read that is not answered from the cache is the contact, made with the expired copy at hand.\<close>

lemma fetch_contacts:
  assumes "loadRepo fe (wd_t w) k = Inr (row, cfg, pol)" "\<not> no_contact fe w cfg k p" "\<not> fe_fail fe (NodeRow k p)"
    "\<And>limit. fe_flight fe limit = FlightWon"
  obtains w1 where "Fetch H fe ps k p w = map_prod Some id (contactUpstream H fe row cfg pol k p [] (cached_copy fe w k p) w1)"
    "wd_t w1 = wd_t w" "wd_st w1 = wd_st w" "wd_sent w1 = wd_sent w" "wd_offline w1 k = None"
    "wd_faults w1 k = (if wd_offline w k = None then wd_faults w k else 0)"
proof -
  have q: "\<not> rc_BlockedOut cfg" "\<not> negativeFresh fe w k p" "\<not> (cached_copy fe w k p \<noteq> None \<and> copyFresh fe w k p)"
    "\<not> fe_pullBlocked fe" "\<not> window_open fe w k" using assms(2) unfolding no_contact_def by blast+
  obtain r w1 where u: "fetch_unlocked fe pol k p [] (cached_copy fe w k p) w = (r, w1)" by fastforce
  note U = unlocked_answers [OF u]
  have r: "r = None" using U(2) q by blast
  note cong = lookup_cong [of w1 w fe k p]
  have l: "fetch_locked H fe row cfg pol k p [] (cached_copy fe w k p) w1 =
      contactUpstream H fe row cfg pol k p [] (cached_copy fe w k p) w1"
    using locked_contacts [of fe w1 k p H row cfg pol "[]"] q U(1) assms(3) cong by simp
  have "Fetch H fe ps k p w = map_prod Some id (contactUpstream H fe row cfg pol k p [] (cached_copy fe w k p) w1)"
    using assms(1,4) q(1,2) u r by (simp add: Fetch_def fetchFlow_def attempt_copy [OF assms(3)] l map_prod_def id_def split: prod.splits)
  then show thesis using that U(1) U(4) [OF r] by blast
qed


section \<open>The assumed-offline window as a circuit breaker\<close>

datatype breaker = Closed nat | Opened time

definition breaker_of :: "world \<Rightarrow> string \<Rightarrow> breaker" where
  "breaker_of w k = (case wd_offline w k of Some until \<Rightarrow> Opened until | None \<Rightarrow> Closed (wd_faults w k))"

lemma breaker_cong: "wd_offline w' k = wd_offline w k \<Longrightarrow> wd_faults w' k = wd_faults w k \<Longrightarrow> breaker_of w' k = breaker_of w k"
  by (simp add: breaker_of_def split: option.split)

datatype outcome = Settled | ServerFault | TransportFault | BodyFault | Screened


text \<open>
  The contract, as the comments of the code give it: a server fault opens the window at once, and so
  does the second fault in a row of the transport, a body that breaks off counting as one.
\<close>

fun breaker_step :: "time \<Rightarrow> outcome \<Rightarrow> breaker \<Rightarrow> breaker" where
  "breaker_step until ServerFault b = Opened until"
| "breaker_step until TransportFault (Closed n) = (if n = 0 then Closed 1 else Opened until)"
| "breaker_step until Settled b = Closed 0"
| "breaker_step until BodyFault (Closed n) = (if n = 0 then Closed 1 else Opened until)"
| "breaker_step until o1 b = b"

definition status_outcome :: "nat \<Rightarrow> outcome" where
  "status_outcome s = (if s = 304 \<or> 400 \<le> s \<and> s < 500 then Settled else ServerFault)"

definition fault_outcome :: "client_error \<Rightarrow> outcome" where
  "fault_outcome e = (if IsRejection e \<or> e = ErrBodyTooLarge then Screened else TransportFault)"

lemma status_breaker:
  assumes "mapUpstreamStatus fe k p cfg pol node status False w = (r, w')" "wd_offline w k = None"
  shows "breaker_of w' k = (if status_outcome status = Settled then breaker_of w k else Opened (offline_until fe pol))"
proof (cases "status_outcome status = Settled")
  case True
  then have "status \<noteq> 404 \<and> status = 304 \<or> 400 \<le> status \<and> status < 500" by (auto simp: status_outcome_def split: if_splits)
  then have "wd_offline w' k = wd_offline w k \<and> wd_faults w' k = wd_faults w k"
    using assms(1) unfolding mapUpstreamStatus_def Let_def
    by (auto simp: world_simps split: if_splits option.splits prod.splits)
  then show ?thesis using True breaker_cong [of w' k w] by simp
next
  case False
  then have "downgrade fe node k pol False False (markOffline k (offline_until fe pol) w) = (r, w')"
    using assms(1) by (auto simp: status_outcome_def mapUpstreamStatus_def Let_def split: if_splits)
  then show ?thesis using downgrade_frame False by (auto simp: breaker_of_def world_simps)
qed

lemma fault_breaker:
  assumes "mapTransportFault fe k pol node err False w = (r, w')" "wd_offline w k = None"
    "o1 = (case err of None \<Rightarrow> TransportFault | Some e \<Rightarrow> fault_outcome e)"
  shows "breaker_of w' k = breaker_step (offline_until fe pol) o1 (Closed (wd_faults w k))"
proof (cases "o1 = Screened")
  case True
  then have "w' = w" using assms(1,3) by (auto simp: mapTransportFault_def fault_outcome_def split: option.splits if_splits)
  then show ?thesis using True assms(2) by (simp add: breaker_of_def)
next
  case False
  define w2 where "w2 = (let (open1, w1) = noteTransportFault k w in if open1 then markOffline k (offline_until fe pol) w1 else w1)"
  have o1: "o1 = TransportFault" using False assms(3) by (auto simp: fault_outcome_def split: option.splits if_splits)
  have "downgrade fe node k pol False True w2 = (r, w')"
    using assms(1,3) False by (auto simp: mapTransportFault_def w2_def fault_outcome_def Let_def split: option.splits if_splits prod.splits)
  moreover have "breaker_of w2 k = (if wd_faults w k = 0 then Closed 1 else Opened (offline_until fe pol))"
    using assms(2) by (simp add: w2_def noteTransportFault_def offlineWindowFaultThreshold_def breaker_of_def world_simps)
  ultimately show ?thesis using breaker_cong [of w' k w2] downgrade_frame [of fe node k pol False True w2 r w'] o1 by simp
qed

lemma land_frame:
  "land H fe k p kind cfg pol resp w = (r, w') \<Longrightarrow> wd_offline w' = wd_offline w \<and> wd_faults w' = wd_faults w"
  unfolding land_def Let_def by (auto simp: world_simps split: if_splits sum.splits prod.splits)

text \<open>What a contact amounts to for the breaker.\<close>

definition contact_outcome :: "hash_suite \<Rightarrow> fenv \<Rightarrow> Repo \<Rightarrow> string \<Rightarrow> (client_error + response) \<Rightarrow> engine \<Rightarrow> outcome" where
  "contact_outcome H fe row p ans st =
     (case ans of
        Inl e \<Rightarrow> fault_outcome e
      | Inr resp \<Rightarrow>
          if rs_StatusCode resp \<noteq> 200 then status_outcome (rs_StatusCode resp)
          else if classifyPath fe (rp_PackageType row) p \<noteq> RemoteCacheKindMetadata \<and> fst (store_body H fe resp st) = Inl UpstreamBody then BodyFault
          else Settled)"

lemma land_body: "fst (land H fe k p kind cfg pol resp w) = Inl UpstreamBody \<longleftrightarrow> fst (store_body H fe resp (wd_st w)) = Inl UpstreamBody"
  unfolding land_def Let_def by (auto split: if_splits sum.splits prod.splits)

lemma exchange_cong: "wd_t w' = wd_t w \<Longrightarrow> exchange fe row k p node cr w' = exchange fe row k p node cr w"
  by (simp add: exchange_def)

lemma contact_breaker:
  assumes "contactUpstream H fe row cfg pol k p [] node w = (r, w')" "outbound fe row cfg pol k p [] = Inr cr"
    "exchange fe row k p node cr w = (ans, hops)" "wd_offline w k = None"
  shows "breaker_of w' k =
    (if contact_outcome H fe row p ans (wd_st w) = BodyFault then Closed 1
     else breaker_step (offline_until fe pol) (contact_outcome H fe row p ans (wd_st w)) (Closed (wd_faults w k)))"
proof (cases ans)
  case (Inl e)
  then have "mapTransportFault fe k pol node (Some e) False (log_sent k p hops w) = (r, w')"
    using assms(1) unfolding contact_answer [OF assms(2,3)] by simp
  from fault_breaker [OF this] show ?thesis using Inl assms(4) by (simp add: contact_outcome_def fault_outcome_def world_simps)
next
  case (Inr resp)
  let ?w = "upstreamReached k (log_sent k p hops w)" and ?kind = "classifyPath fe (rp_PackageType row) p"
  have w: "wd_offline ?w k = None" "breaker_of ?w k = Closed 0" using assms(4) by (simp_all add: world_simps breaker_of_def)
  note C = assms(1) [unfolded contact_answer [OF assms(2,3)] Inr Let_def sum.case, simplified]
  show ?thesis
  proof (cases "rs_StatusCode resp = 200")
    case False
    with C have "mapUpstreamStatus fe k p cfg pol node (rs_StatusCode resp) False ?w = (r, w')" by simp
    from status_breaker [OF this w(1)] show ?thesis
      using False Inr w(2) by (auto simp: contact_outcome_def status_outcome_def split: if_splits)
  next
    case True
    let ?resp = "if ?kind = RemoteCacheKindMetadata then resp\<lparr>rs_BodyOk := True\<rparr> else resp"
    obtain l w3 where l: "land H fe k p ?kind cfg pol ?resp ?w = (l, w3)" by fastforce
    note L = land_frame [OF l]
    have w3: "wd_offline w3 k = None" "wd_faults w3 k = 0" "breaker_of w3 k = Closed 0"
      using L w assms(4) by (simp_all add: world_simps breaker_of_def)
    show ?thesis
    proof (cases "?kind \<noteq> RemoteCacheKindMetadata \<and> l = Inl UpstreamBody")
      case True
      then have "mapTransportFault fe k pol node None False w3 = (r, w')" using C l \<open>rs_StatusCode resp = 200\<close> by simp
      from fault_breaker [OF this w3(1) refl] show ?thesis
        using True l land_body [of H fe k p ?kind cfg pol ?resp ?w] Inr w3 \<open>rs_StatusCode resp = 200\<close>
        by (simp add: contact_outcome_def world_simps)
    next
      case False
      then have "w' = w3" using C l \<open>rs_StatusCode resp = 200\<close> by (auto split: sum.splits land_error.splits if_splits)
      moreover have "contact_outcome H fe row p ans (wd_st w) = Settled"
        using False l land_body [of H fe k p ?kind cfg pol ?resp ?w] Inr \<open>rs_StatusCode resp = 200\<close>
        by (cases "?kind = RemoteCacheKindMetadata") (simp_all add: contact_outcome_def world_simps)
      ultimately show ?thesis using w3(3) by simp
    qed
  qed
qed


section \<open>The storage session of a landing\<close>

lemma begin_session:
  assumes "BeginSession n e = (Inr h, e')"
  shows "\<exists>s. e_heap e' h = Some s \<and> s_digests s = [] \<and> st_received (s_state s) = 0" "e_holds e' = e_holds e" "e_blobs e' = e_blobs e"
proof -
  obtain sid where sid: "n_uuid n = Some sid" "\<not> n_ctx n" "\<not> e_closed e" "\<not> n_fail n IoMkdir sid"
    using assms by (auto simp: BeginSession_def split: if_splits option.splits)
  define st where "st = \<lparr>st_version = Suc 0, st_id = sid, st_created = n_now n, st_received = 0\<rparr>"
  define row where "row = \<lparr>u_state = st, u_created = format_rfc3339 (n_now n), u_expires = format_rfc3339 (n_now n + session_ttl (e_opts e))\<rparr>"
  obtain r e2 where c: "(if o_sessions (e_opts e) then persist_create n sid row (mkdir_upload sid e) else (StoreOk, mkdir_upload sid e)) = (r, e2)"
    by fastforce
  have e2: "e_holds e2 = e_holds e" "e_blobs e2 = e_blobs e"
    using c persist_create_cases [of n sid row "mkdir_upload sid e" r e2] by (auto simp: eng_simps split: if_splits)
  have b: "begin_register n \<lparr>s_id = sid, s_state = st, s_digests = newDigesters, s_done = False, s_poisoned = False\<rparr>
      (put_data sid \<lparr>f_data = [], f_mtime = n_now n\<rparr> e2) = (Inr h, e')"
    using assms sid c by (auto simp: BeginSession_def Let_def st_def [symmetric] row_def [symmetric] split: if_splits)
  then show "\<exists>s. e_heap e' h = Some s \<and> s_digests s = [] \<and> st_received (s_state s) = 0" "e_holds e' = e_holds e" "e_blobs e' = e_blobs e"
    using e2 by (auto simp: begin_register_def register_session_def newDigesters_def st_def eng_simps split: if_splits)
qed

lemma append_body:
  assumes "Append n h (body_events fe resp) e = (Inr written, e')" "e_heap e h = Some s" "s_digests s = []" "st_received (s_state s) = 0"
  shows "\<exists>s'. e_heap e' h = Some s' \<and> s_digests s' = rs_Body resp" "e_holds e' = e_holds e" "e_blobs e' = e_blobs e"
    "rs_BodyOk resp" "written = length (rs_Body resp)"
proof -
  obtain w d where c: "copyWithCtx (body_events fe resp) [] [] = (w, d, True)"
    using assms by (auto simp: Append_def Let_def split: if_splits prod.splits)
  then have wd: "w = rs_Body resp" "d = rs_Body resp" "rs_BodyOk resp"
    by (auto simp: body_events_def digest_write_def split: if_splits)
  let ?st = "(s_state s)\<lparr>st_received := length w\<rparr>"
  obtain res e2 where p: "persistStateLocked n (s_id s) ?st (file_write (n_now n) (s_id s) 0 w e) = (res, e2)" by fastforce
  note P = persist_state_fields [OF p]
  have "written = length w" "e' = put_session h (s\<lparr>s_digests := d, s_state := ?st\<rparr>) e2"
    using assms c p by (auto simp: Append_def Let_def split: if_splits)
  then show "\<exists>s'. e_heap e' h = Some s' \<and> s_digests s' = rs_Body resp" "e_holds e' = e_holds e" "e_blobs e' = e_blobs e"
    "rs_BodyOk resp" "written = length (rs_Body resp)"
    using wd P by (auto simp: eng_simps)
qed

text \<open>
  The session of a landing stores the bytes of the answer under their digest, and registers a
  hold on it. The identifier of the session is one no open session has.
\<close>

definition fresh_session :: "fenv \<Rightarrow> engine \<Rightarrow> bool" where
  "fresh_session fe st \<longleftrightarrow> (\<forall>sid. n_uuid (fe_storage fe 0) = Some sid \<longrightarrow> \<not> isLiveSession st sid)"

definition body_ref :: "hash_suite \<Rightarrow> bytes \<Rightarrow> BlobRef" where
  "body_ref H b = \<lparr>Sha256 = sum_sha256 (sums H b), Sha1 = sum_sha1 (sums H b), Md5 = sum_md5 (sums H b), Size = length b\<rparr>"

lemma store_body_stored:
  assumes "engine_reachable H st" "sized_hashes H" "fresh_session fe st" "store_body H fe resp st = (Inr (ref, written), st')"
  shows "ref = body_ref H (rs_Body resp)" "rs_BodyOk resp" "written = length (rs_Body resp)" "engine_reachable H st'"
    "\<exists>f. blob_get (Sha256 ref) st' = Some f \<and> (blob_get (Sha256 ref) st = None \<longrightarrow> f_data f = rs_Body resp)"
    "x \<noteq> Sha256 ref \<Longrightarrow> blob_get x st' = blob_get x st"
    "hold_registrations (e_holds st') (Sha256 ref) = hold_registrations (e_holds st) (Sha256 ref) + 1"
proof -
  obtain h st1 where b: "BeginSession (fe_storage fe 0) st = (Inr h, st1)" using assms(4) by (auto simp: store_body_def split: sum.splits prod.splits)
  note B = begin_session [OF b]
  obtain s where s: "e_heap st1 h = Some s" "s_digests s = []" "st_received (s_state s) = 0" using B(1) by blast
  obtain st2 where a: "Append (fe_storage fe 1) h (body_events fe resp) st1 = (Inr written, st2)"
    and c: "Commit H (fe_storage fe 2) h \<lparr>Sha256 = [], Sha1 = [], Md5 = [], Size = 0\<rparr> st2 = (Inr ref, st')"
    using assms(4) b by (auto simp: store_body_def split: sum.splits prod.splits)
  note A = append_body [OF a s]
  have r1: "engine_reachable H st1"
    by (rule engine_reachable.step [OF assms(1)]) (use engine_step.begin_session [of "fe_storage fe 0" st] assms(3) b in \<open>auto simp: fresh_session_def\<close>)
  have r2: "engine_reachable H st2"
    by (rule engine_reachable.step [OF r1]) (use engine_step.append [of H st1 "fe_storage fe 1" h "body_events fe resp"] a in simp)
  show "engine_reachable H st'"
    by (rule engine_reachable.step [OF r2]) (use engine_step.commit [of H st2 "fe_storage fe 2" h] c in \<open>metis snd_conv\<close>)
  show "rs_BodyOk resp" "written = length (rs_Body resp)" by (rule A(4), rule A(5))
  obtain s' f p where S: "e_heap st2 h = Some s'" "data_file (s_id s') st2 = Some f" "f_data f = s_digests s'" "ref = actual_ref H s'"
    "publish (fe_storage fe 2) (s_id s') (Sha256 ref) (hold_acquire (n_now (fe_storage fe 2)) (Sha256 ref) st2) = (True, p)"
    "st' = finishLocked (fe_storage fe 2) h s' p" using Commit_successE [OF r2 assms(2) c] .
  note P = publish_blobs [OF S(5)]
  have d: "s_digests s' = rs_Body resp" using A(1) S(1) by auto
  show ref: "ref = body_ref H (rs_Body resp)" using S(4) d by (simp add: actual_ref_def body_ref_def)
  have g: "blob_get x st' = blob_get x p" "blob_get x st2 = blob_get x st" for x
    using A(3) B(3) by (simp_all add: S(6) blob_get_def finish_fields)
  have df: "data_file (s_id s') (hold_acquire (n_now (fe_storage fe 2)) (Sha256 ref) st2) = Some f"
    using S(2) data_file_cong [of "hold_acquire (n_now (fe_storage fe 2)) (Sha256 ref) st2" st2] by (simp add: eng_simps)
  show "\<exists>f. blob_get (Sha256 ref) st' = Some f \<and> (blob_get (Sha256 ref) st = None \<longrightarrow> f_data f = rs_Body resp)"
    using P(2,3) df S(3) d g by (cases "blob_get (Sha256 ref) st") auto
  show "x \<noteq> Sha256 ref \<Longrightarrow> blob_get x st' = blob_get x st" using P(1) g by simp
  show "hold_registrations (e_holds st') (Sha256 ref) = hold_registrations (e_holds st) (Sha256 ref) + 1"
    by (simp add: S(6) finish_fields P(4) eng_simps hs.cnt_acq A(2) B(2))
qed


lemma rows_after [simp]:
  "nd_RepoKey n = k \<Longrightarrow> nd_Path n = p \<Longrightarrow> \<not> fl (NodeRow k p) \<Longrightarrow> nodeStore_Get fl (nodeStore_Put n t) k p = Inr n"
  "ce_RepoKey e = k \<Longrightarrow> ce_Path e = p \<Longrightarrow> \<not> fl (CacheRow k p) \<Longrightarrow> remoteStore_GetCache fl (remoteStore_PutCache e t) k p = Some e"
  "nodeStore_Get fl (remoteStore_PutCache e t) k p = nodeStore_Get fl t k p"
  "repos_Get fl (remoteStore_PutCache e t) k = repos_Get fl t k" "repos_Get fl (nodeStore_Put n t) k = repos_Get fl t k"
  "repos_Get fl (blobStore_Put b t) k = repos_Get fl t k"
  "remoteStore_GetConfig fl (remoteStore_PutCache e t) k = remoteStore_GetConfig fl t k"
  "remoteStore_GetConfig fl (nodeStore_Put n t) k = remoteStore_GetConfig fl t k"
  "remoteStore_GetConfig fl (blobStore_Put b t) k = remoteStore_GetConfig fl t k"
  using find_upsert [of "\<lambda>m. nd_RepoKey m = nd_RepoKey n \<and> nd_Path m = nd_Path n" n "tb_nodes t"]
    find_upsert [of "\<lambda>m. ce_RepoKey m = ce_RepoKey e \<and> ce_Path m = ce_Path e" e "tb_cache t"]
  by (auto simp: nodeStore_Get_def nodeStore_Put_def remoteStore_GetCache_def remoteStore_PutCache_def repos_Get_def blobStore_Put_def
      remoteStore_GetConfig_def)

lemma blob_addressed:
  "engine_reachable H st \<Longrightarrow> validSha256 sha \<Longrightarrow> blob_get sha st = Some f \<Longrightarrow> sum_sha256 (sums H (f_data f)) = sha"
  using reachable_inv [of H st] by (auto simp: engine_inv_def blobs_ok_def)

lemma ref_sha_valid: "sized_hashes H \<Longrightarrow> validSha256 (Sha256 (body_ref H b))"
  by (simp add: body_ref_def sums_valid)

abbreviation row_ttl :: "string \<Rightarrow> RemoteConfig \<Rightarrow> repoPolicy \<Rightarrow> int" where
  "row_ttl kind cfg pol \<equiv> ttlFor kind (rc_ContentTTLSeconds cfg) (rc_MetadataTTLSeconds cfg) (po_MissedRetrievalCachePeriodSecs pol)"

text \<open>A landing that succeeds leaves the node, the row and the blob behind.\<close>

lemma land_lands:
  assumes "land H fe k p kind cfg pol resp w = (Inr res, w')" "engine_reachable H (wd_st w)" "sized_hashes H" "fresh_session fe (wd_st w)"
  defines "sha \<equiv> sum_sha256 (sums H (rs_Body resp))"
  shows "fr_CacheState res = CacheMiss" "nd_Sha256 (fr_Node res) = sha" "nd_Size (fr_Node res) = length (rs_Body resp)"
    "\<not> fl (NodeRow k p) \<Longrightarrow> nodeStore_Get fl (wd_t w') k p = Inr (fr_Node res)"
    "\<not> fl (CacheRow k p) \<Longrightarrow> remoteStore_GetCache fl (wd_t w') k p =
       Some (contentEntry k p (header_get (rs_Header resp) ''ETag'') (header_get (rs_Header resp) ''Last-Modified'') kind (fe_done fe) (row_ttl kind cfg pol))"
    "\<exists>f. blob_get sha (wd_st w') = Some f \<and> fr_Body res = f_data f \<and> sum_sha256 (sums H (f_data f)) = sha \<and>
       (blob_get sha (wd_st w) = None \<longrightarrow> f_data f = rs_Body resp)"
    "engine_reachable H (wd_st w')" "rs_BodyOk resp"
    "hold_registrations (e_holds (wd_st w')) sha = hold_registrations (e_holds (wd_st w)) sha + 1"
proof -
  obtain ref written st where b: "store_body H fe resp (wd_st w) = (Inr (ref, written), st)"
    using assms(1) by (auto simp: land_def Let_def split: sum.splits prod.splits)
  note S = store_body_stored [OF assms(2-4) b]
  have sha: "sha = Sha256 ref" by (simp add: sha_def S(1) body_ref_def)
  note L = assms(1) [unfolded land_def Let_def b sum.case prod.case]
  define t1 where "t1 = blobStore_Put \<lparr>bl_Sha256 = Sha256 ref, bl_Sha1 = Sha1 ref, bl_Md5 = Md5 ref, bl_Size = Size ref,
       bl_CreatedAt = format_rfc3339 (fe_done fe)\<rparr> (wd_t w)"
  define node where "node = landed_node k p ref (rs_Header resp) (fe_done fe) (existing_node fe t1 k p)"
  define e where "e = contentEntry k p (header_get (rs_Header resp) ''ETag'')
      (header_get (rs_Header resp) ''Last-Modified'') kind (fe_done fe) (row_ttl kind cfg pol)"
  define x where "x = (let w3 = w\<lparr>wd_st := st, wd_t := remoteStore_PutCache e (nodeStore_Put node t1)\<rparr>
     in if kind = RemoteCacheKindContent \<and> propertiesSyncOn pol then syncUpstreamProperties fe cfg pol k p w3 else w3)"
  have n: "nd_Sha256 node = Sha256 ref" "nd_Size node = Size ref" "nd_RepoKey node = k" "nd_Path node = p"
    by (simp_all add: node_def) (simp_all add: landed_node_def Let_def)
  have X: "serveCopy fe x node CacheMiss False = Inr res" "w' = bump k (add_miss written) x"
    using L by (auto simp: x_def Let_def e_def node_def t1_def split: if_splits sum.splits)
  have W: "wd_st w' = st" "wd_t w' = remoteStore_PutCache e (nodeStore_Put node t1)" "wd_st x = st"
    using X(2) by (simp_all add: world_simps x_def Let_def)
  obtain body ref' where o: "Open (fe_storage fe 3) sha st = Inr (body, ref')" and res: "res =
      \<lparr>fr_Node = node, fr_Body = body, fr_CacheState = CacheMiss, fr_UpstreamError = False, fr_HasCopy = True\<rparr>"
    using X(1) W(3) n(1) sha by (auto simp: serveCopy_def split: sum.splits prod.splits)
  show "fr_CacheState res = CacheMiss" "nd_Sha256 (fr_Node res) = sha" "nd_Size (fr_Node res) = length (rs_Body resp)"
    using res n sha S(1) by (simp_all add: body_ref_def)
  show "\<not> fl (NodeRow k p) \<Longrightarrow> nodeStore_Get fl (wd_t w') k p = Inr (fr_Node res)"
    "\<not> fl (CacheRow k p) \<Longrightarrow> remoteStore_GetCache fl (wd_t w') k p =
       Some (contentEntry k p (header_get (rs_Header resp) ''ETag'') (header_get (rs_Header resp) ''Last-Modified'') kind (fe_done fe) (row_ttl kind cfg pol))"
    using W(2) res n by (simp_all add: e_def)
  show "engine_reachable H (wd_st w')" "rs_BodyOk resp" using S W by auto
  show "hold_registrations (e_holds (wd_st w')) sha = hold_registrations (e_holds (wd_st w)) sha + 1" using S(7) W sha by simp
  obtain f where f: "blob_get sha st = Some f" "blob_get sha (wd_st w) = None \<longrightarrow> f_data f = rs_Body resp" using S(5) sha by auto
  have "sum_sha256 (sums H (f_data f)) = sha"
    using blob_addressed [OF S(4) _ f(1)] ref_sha_valid [OF assms(3), of "rs_Body resp"] S(1) sha by simp
  moreover have "body = f_data f" using o f(1) by (auto simp: Open_def split: if_splits option.splits)
  ultimately show "\<exists>f. blob_get sha (wd_st w') = Some f \<and> fr_Body res = f_data f \<and> sum_sha256 (sums H (f_data f)) = sha \<and>
       (blob_get sha (wd_st w) = None \<longrightarrow> f_data f = rs_Body resp)" using f W res by auto
qed


lemma land_served: "land H fe k p kind cfg pol resp w = (Inr res, w') \<Longrightarrow> \<not> fr_UpstreamError res \<and> fr_HasCopy res"
  unfolding land_def Let_def by (auto simp: serveCopy_def split: if_splits sum.splits prod.splits)


section \<open>Where a MISS comes from\<close>

lemma state_names: "CacheMiss \<noteq> CacheStale" "CacheMiss \<noteq> CacheHit" "CacheMiss \<noteq> CacheRevalidated"
  by (simp_all add: CacheMiss_def CacheStale_def CacheHit_def CacheRevalidated_def)

lemma serveCopy_state: "serveCopy fe w n s b = Inr res \<Longrightarrow> fr_CacheState res = s"
  by (auto simp: serveCopy_def split: sum.splits)

lemma downgrade_state: "downgrade fe node k pol ext fault w = (Inr res, w') \<Longrightarrow> fr_CacheState res = CacheStale"
  by (auto simp: downgrade_def serveStale_def Let_def dest: serveCopy_state split: if_splits)

lemma fault_state: "mapTransportFault fe k pol node err ext w = (Inr res, w') \<Longrightarrow> fr_CacheState res = CacheStale"
  by (auto simp: mapTransportFault_def Let_def dest: downgrade_state split: if_splits prod.splits)

lemma status_state: "mapUpstreamStatus fe k p cfg pol node status ext w = (Inr res, w') \<Longrightarrow> fr_CacheState res \<noteq> CacheMiss"
  unfolding mapUpstreamStatus_def Let_def serveStale_def
  by (auto simp: state_names dest!: downgrade_state serveCopy_state split: if_splits option.splits prod.splits)

lemma unlocked_state: "fetch_unlocked fe pol k p target node w = (Some (Inr res), w') \<Longrightarrow> fr_CacheState res \<noteq> CacheMiss"
  unfolding fetch_unlocked_def Let_def
  by (auto simp: state_names dest!: downgrade_state serveCopy_state split: if_splits bool.splits prod.splits)

lemma contact_miss:
  assumes "contactUpstream H fe row cfg pol k p target node w = (Inr res, w')" "fr_CacheState res = CacheMiss"
  obtains cr resp hops where "outbound fe row cfg pol k p target = Inr cr" "exchange fe row k p node cr w = (Inr resp, hops)"
    "rs_StatusCode resp = 200"
    "land H fe k p (classifyPath fe (rp_PackageType row) p) cfg pol
       (if classifyPath fe (rp_PackageType row) p = RemoteCacheKindMetadata then resp\<lparr>rs_BodyOk := True\<rparr> else resp)
       (if target \<noteq> [] then log_sent k p hops w else upstreamReached k (log_sent k p hops w)) = (Inr res, w')"
proof (cases "outbound fe row cfg pol k p target")
  case (Inl e)
  then show thesis using assms(1) by (simp add: contactUpstream_def Let_def)
next
  case (Inr cr)
  obtain ans hops where e: "exchange fe row k p node cr w = (ans, hops)" by fastforce
  note C = assms(1) [unfolded contact_answer [OF Inr e] Let_def]
  show thesis
  proof (cases ans)
    case (Inl err)
    then show thesis using C assms(2) fault_state state_names by fastforce
  next
    case resp: (Inr resp)
    note C' = C [unfolded resp sum.case]
    have ok: "rs_StatusCode resp = 200"
      using C' assms(2) status_state by (metis (no_types, lifting))
    show thesis
      by (rule that [OF Inr e [unfolded resp] ok])
        (use C' ok assms(2) fault_state state_names(1) in \<open>fastforce split: prod.splits sum.splits land_error.splits if_splits\<close>)
  qed
qed

lemma fetch_miss:
  assumes "Fetch H fe ps k p w = (Some (Inr res), w')" "fr_CacheState res = CacheMiss" "\<And>limit. fe_flight fe limit = FlightWon"
  obtains row cfg pol cr resp hops w1 where "loadRepo fe (wd_t w) k = Inr (row, cfg, pol)" "\<not> rc_BlockedOut cfg"
    "outbound fe row cfg pol k p [] = Inr cr"
    "exchange fe row k p (cached_copy fe w k p) cr w = (Inr resp, hops)" "rs_StatusCode resp = 200" "wd_st w1 = wd_st w" "wd_t w1 = wd_t w"
    "land H fe k p (classifyPath fe (rp_PackageType row) p) cfg pol
       (if classifyPath fe (rp_PackageType row) p = RemoteCacheKindMetadata then resp\<lparr>rs_BodyOk := True\<rparr> else resp) w1 = (Inr res, w')"
proof -
  obtain row cfg pol where load: "loadRepo fe (wd_t w) k = Inr (row, cfg, pol)"
    using assms(1) by (auto simp: Fetch_def fetchFlow_def split: sum.splits)
  have fail: "\<not> fe_fail fe (NodeRow k p)"
    using assms(1) load attempt_store_error [of fe k p H row cfg pol "[]" w] by (auto simp: Fetch_def fetchFlow_def split: if_splits)
  have bl: "\<not> rc_BlockedOut cfg" "\<not> negativeFresh fe w k p" using assms(1) load by (auto simp: Fetch_def fetchFlow_def split: if_splits)
  have "\<not> no_contact fe w cfg k p"
  proof
    assume q: "no_contact fe w cfg k p"
    obtain r w1 where u: "fetch_unlocked fe pol k p [] (cached_copy fe w k p) w = (r, w1)" by fastforce
    have "r \<noteq> None" using unlocked_answers(2) [OF u] q bl unfolding no_contact_def by blast
    then have "r = Some (Inr res)" using assms(1) load bl u by (auto simp: Fetch_def fetchFlow_def attempt_copy [OF fail])
    then show False using unlocked_state u assms(2) by blast
  qed
  then obtain w1 where w1: "Fetch H fe ps k p w = map_prod Some id (contactUpstream H fe row cfg pol k p [] (cached_copy fe w k p) w1)"
    "wd_t w1 = wd_t w" "wd_st w1 = wd_st w" using fetch_contacts [OF load _ fail assms(3)] by metis
  have "contactUpstream H fe row cfg pol k p [] (cached_copy fe w k p) w1 = (Inr res, w')"
    using w1(1) assms(1) by (cases "contactUpstream H fe row cfg pol k p [] (cached_copy fe w k p) w1") auto
  then obtain cr resp hops where c: "outbound fe row cfg pol k p [] = Inr cr" "exchange fe row k p (cached_copy fe w k p) cr w1 = (Inr resp, hops)"
    "rs_StatusCode resp = 200" "land H fe k p (classifyPath fe (rp_PackageType row) p) cfg pol
       (if classifyPath fe (rp_PackageType row) p = RemoteCacheKindMetadata then resp\<lparr>rs_BodyOk := True\<rparr> else resp)
       (upstreamReached k (log_sent k p hops w1)) = (Inr res, w')"
    by (rule contact_miss [OF _ assms(2)]) auto
  show thesis
    by (rule that [OF load bl(1) c(1) _ c(3) _ _ c(4)]) (use c(2) exchange_cong [OF w1(2)] w1 in \<open>simp_all add: world_simps\<close>)
qed


section \<open>Remembered answers\<close>

lemma expiry_fresh:
  assumes "0 < ttl" "printable_time (now + seconds64 ttl)"
  shows "entryFresh (expiry now ttl) t \<longleftrightarrow> t < (now + seconds64 ttl) div second * second"
  using assms parse_format_rfc3339 [OF assms(2)] by (simp add: entryFresh_def expiry_def)

text \<open>A later read of the same repository row finds the same configuration.\<close>

lemma loadRepo_kept:
  assumes "loadRepo fe (wd_t w) k = Inr (row, cfg, pol)" "keeps_others k p w w'" "\<And>c. \<not> fe_fail fe2 c" "fe_policy fe2 = fe_policy fe"
  shows "loadRepo fe2 (wd_t w') k = Inr (row, cfg, pol)"
proof -
  have q: "repos_Get (fe_fail fe2) (wd_t w') k = repos_Get (fe_fail fe) (wd_t w) k" "remoteStore_GetConfig (fe_fail fe2) (wd_t w') k = remoteStore_GetConfig (fe_fail fe) (wd_t w) k"
    using assms(1-3) by (auto simp: loadRepo_def repos_Get_def remoteStore_GetConfig_def keeps_others_def keeps_tables_def
        split: if_splits sum.splits option.splits)
  show ?thesis unfolding loadRepo_def q assms(4) by (rule assms(1) [unfolded loadRepo_def])
qed

lemma fetch_keeps:
  assumes "Fetch H fe ps k p w = (r, w')" "loadRepo fe (wd_t w) k = Inr (row, cfg, pol)" "\<And>limit. fe_flight fe limit = FlightWon"
  shows "keeps_others k p w w'"
proof -
  have "Fetch H fe ps k p w = Fetch H fe [] k p w"
    using assms(2) by (auto simp: Fetch_def fetchFlow_def attempt_def Let_def assms(3) split: sum.splits repo_error.splits prod.splits option.splits)
  then show ?thesis using assms(1) keeps_flow [of H fe k p "[]" w r w'] by (simp add: Fetch_def)
qed

text \<open>A read in the window of a copy serves it.\<close>

lemma fetch_hit:
  assumes "loadRepo fe (wd_t w) k = Inr (row, cfg, pol)" "\<not> rc_BlockedOut cfg" "\<And>c. \<not> fe_fail fe c"
    "nodeStore_Get (fe_fail fe) (wd_t w) k p = Inr n" "hasCacheableCopy (Some n)"
    "remoteStore_GetCache (fe_fail fe) (wd_t w) k p = Some e" "ce_Kind e \<noteq> cacheKindNegative" "entryFresh (ce_ExpiresAt e) (fe_now fe)"
  shows "Fetch H fe ps k p w = (Some (serveCopy fe (bump k add_hit w) n CacheHit False), bump k add_hit w)"
proof -
  have "\<not> negativeFresh fe w k p" "copyFresh fe w k p" "cached_copy fe w k p = Some n"
    using assms(4-8) by (auto simp: negativeFresh_def copyFresh_def cached_copy_def)
  then show ?thesis using assms(1-3) by (simp add: Fetch_def fetchFlow_def attempt_copy fetch_unlocked_def Let_def)
qed

lemma classify_kinds: "classifyPath fe pkg p \<noteq> cacheKindNegative"
  by (simp add: classifyPath_def RemoteCacheKindMetadata_def RemoteCacheKindContent_def cacheKindNegative_def)


section \<open>What the contract leaves out\<close>

text \<open>
  A body that breaks off never opens the window: the arrival of the headers has already reset the
  count, so any number of them in a row leaves it at one.
\<close>

lemma broken_bodies_never_open:
  assumes "contactUpstream H fe row cfg pol k p [] node w = (r, w')" "outbound fe row cfg pol k p [] = Inr cr"
    "exchange fe row k p node cr w = (Inr resp, hops)" "wd_offline w k = None" "rs_StatusCode resp = 200"
    "classifyPath fe (rp_PackageType row) p = RemoteCacheKindContent" "fst (store_body H fe resp (wd_st w)) = Inl UpstreamBody"
  shows "breaker_of w' k = Closed 1"
  using contact_breaker [OF assms(1-4)] assms(5-7) by (simp add: contact_outcome_def RemoteCacheKindContent_def RemoteCacheKindMetadata_def)

text \<open>A file write that fails while the body is stored is classified as a fault of the upstream.\<close>

lemma local_write_blamed_on_upstream:
  assumes "BeginSession (fe_storage fe 0) st = (Inr h, st1)" "rs_BodyOk resp" "rs_Body resp \<noteq> []" "fe_short fe \<noteq> None" "\<not> fe_busy fe"
  shows "fst (store_body H fe resp st) = Inl UpstreamBody"
proof -
  have "\<exists>e st2. Append (fe_storage fe 1) h (body_events fe resp) st1 = (Inl e, st2)"
    using assms(3,4) by (auto simp: Append_def body_events_def Let_def split: option.splits)
  then show ?thesis using assms(1,5) by (auto simp: store_body_def)
qed

text \<open>A caller that hangs up counts as a fault of the upstream: the second one opens the window.\<close>

lemma cancellation_opens_window:
  assumes "mapTransportFault fe k pol node (Some (TransportFailed DoCanceled)) False w = (r, w')" "breaker_of w k = Closed 1"
  shows "breaker_of w' k = Opened (offline_until fe pol)"
proof -
  have "wd_offline w k = None" "wd_faults w k = 1" using assms(2) by (auto simp: breaker_of_def split: option.splits)
  then show ?thesis using fault_breaker [OF assms(1) _ refl] by (simp add: fault_outcome_def IsRejection_def)
qed

text \<open>An unsolicited 304 to a path whose lapsed row is a miss renews the miss, though the copy was just confirmed.\<close>

lemma not_modified_renews_miss:
  assumes "remoteStore_GetCache (fe_fail fe) (wd_t w) k p = Some e" "ce_Kind e = cacheKindNegative" "fe_write fe (CacheWrite k p) 0 = StoreOk"
    "mapUpstreamStatus fe k p cfg pol (Some n) 304 False w = (r, w')" "\<not> fl (CacheRow k p)"
  shows "\<exists>e'. remoteStore_GetCache fl (wd_t w') k p = Some e' \<and> ce_Kind e' = cacheKindNegative \<and>
    ce_ExpiresAt e' = expiry (fe_done fe) (po_MissedRetrievalCachePeriodSecs pol)"
  using assms by (auto simp: mapUpstreamStatus_def Let_def cacheKindNegative_def world_simps ttlFor_def RemoteCacheKindMetadata_def)
    (simp_all add: contentEntry_def)


section \<open>A repository to run the properties on\<close>

definition demo_answer :: "nat \<Rightarrow> response" where
  "demo_answer status = \<lparr>rs_StatusCode = status, rs_Status = [], rs_Header = [(''ETag'', ''v1'')], rs_ContentLength = 3, rs_Body = ''abc'', rs_BodyOk = True\<rparr>"

definition demo_fenv :: "time \<Rightarrow> do_error + response \<Rightarrow> fenv" where
  "demo_fenv now ans = \<lparr>fe_now = now, fe_done = now, fe_fail = (\<lambda>_. False), fe_retry = DefaultBusyRetry, fe_write = (\<lambda>_ _. StoreOk),
     fe_ctxAfter = (\<lambda>_. False), fe_pullBlocked = False, fe_flight = (\<lambda>_. FlightWon), fe_metaWait = 0, fe_isMetadata = (\<lambda>_ _. False),
     fe_upstreamPath = (\<lambda>_ p. p), fe_policy = (\<lambda>_. None), fe_decrypt = Some, fe_propsURL = (\<lambda>_ _. None),
     fe_storage = (\<lambda>i. demo_env (if i = 0 then 0 else int i + 4) ''s1''), fe_short = None, fe_busy = False,
     fe_client = demo_cenv\<lparr>ev_net := (\<lambda>k. (ev_net demo_cenv k)\<lparr>n_url := (\<lambda>s. Some demo_home)\<rparr>), ev_exchange := (\<lambda>_ _ _ _ _. ans)\<rparr>,
     fe_syncClient = demo_cenv\<rparr>"

definition demo_row :: Repo where
  "demo_row = \<lparr>rp_RepoKey = ''central'', rp_Type = TypeRemote, rp_PackageType = ''maven'', rp_Config = []\<rparr>"

definition demo_config :: RemoteConfig where
  "demo_config = \<lparr>rc_RepoKey = ''central'', rc_URL = ''home'', rc_Username = [], rc_Password = [], rc_ContentTTLSeconds = 60,
     rc_MetadataTTLSeconds = 10, rc_AllowPrivateUpstream = False, rc_BlockedOut = False, rc_SocketTimeoutMs = 0,
     rc_MetadataRetrievalTimeoutSecs = 0\<rparr>"

definition demo_world :: "nat \<Rightarrow> world" where
  "demo_world n = \<lparr>wd_t = \<lparr>tb_repos = [demo_row], tb_members = [], tb_configs = [demo_config], tb_nodes = [], tb_blobs = [], tb_cache = [], tb_marks = []\<rparr>,
     wd_st = empty_engine Storage_Contract.demo_options, wd_offline = (\<lambda>_. None), wd_faults = (\<lambda>_. n),
     wd_stats = (\<lambda>_. \<lparr>ct_hits = 0, ct_misses = 0, ct_negatives = 0, ct_stales = 0, ct_bytes = 0\<rparr>), wd_sent = []\<rparr>"

definition demo_out :: "client \<times> Request" where
  "demo_out = (\<lparr>cl_opts = resolve_options (upstream_options ''central'' ''home'' [] [] False demo_config defaultPolicy),
     cl_guard = \<lparr>g_repoKey = ''central'', g_allowPrivate = False\<rparr>, cl_baseURL = Some demo_home\<rparr>, plain_request [] ''a'')"

lemma demo_load: "loadRepo (demo_fenv now ans) (wd_t (demo_world n)) ''central'' = Inr (demo_row, demo_config, defaultPolicy)"
  by (simp add: loadRepo_def repos_Get_def remoteStore_GetConfig_def demo_world_def demo_fenv_def demo_row_def demo_config_def
      TypeRemote_def ResolveContentTTLSeconds_def)

lemma demo_outbound: "outbound (demo_fenv now ans) demo_row demo_config defaultPolicy ''central'' ''a'' [] = Inr demo_out"
  by (simp add: outboundFor_def chartsBaseFor_def clientFor_def defaultPolicy_def demo_fenv_def demo_config_def NewClient_def Let_def
      resolve_options_def upstream_options_def demo_home_def new_guard_def demo_out_def)

lemma demo_lookup: "\<not> no_contact (demo_fenv now ans) (demo_world n) demo_config ''central'' ''a''"
  "cached_copy (demo_fenv now ans) (demo_world n) ''central'' ''a'' = None"
  by (simp_all add: no_contact_def demo_config_def negativeFresh_def copyFresh_def remoteStore_GetCache_def demo_world_def demo_fenv_def
      cached_copy_def nodeStore_Get_def)

lemma demo_fields: "fe_fail (demo_fenv now ans) c = False" "fe_flight (demo_fenv now ans) limit = FlightWon" "fe_now (demo_fenv now ans) = now"
  "fe_done (demo_fenv now ans) = now" "fe_policy (demo_fenv now ans) = (\<lambda>_. None)" "classifyPath (demo_fenv now ans) pkg p = RemoteCacheKindContent"
  "wd_st (demo_world n) = empty_engine Storage_Contract.demo_options" "wd_sent (demo_world n) = []"
  by (simp_all add: demo_fenv_def demo_world_def classifyPath_def)


lemma demo_exchanges:
  "fst (send (fe_client (demo_fenv 0 (Inr (demo_answer 200)))) (fst demo_out) (snd demo_out)) = Inr (demo_answer 200)"
  "fst (send (fe_client (demo_fenv 0 (Inr (demo_answer 404)))) (fst demo_out) (snd demo_out)) = Inr (demo_answer 404)"
  "fst (send (fe_client (demo_fenv 0 (Inl DoTimeout))) (fst demo_out) (snd demo_out)) = Inl (TransportFailed DoTimeout)"
  by code_simp+

lemma demo_exchange: "exchange (demo_fenv now ans) demo_row ''central'' ''a'' node demo_out w = send (fe_client (demo_fenv 0 ans)) (fst demo_out) (snd demo_out)"
  by (simp add: exchange_def demo_fields conditional_def client_Stream_def RemoteCacheKindContent_def RemoteCacheKindMetadata_def Let_def)
    (simp add: demo_fenv_def)


definition demo_ref :: BlobRef where
  "demo_ref = \<lparr>Sha256 = demo_sha, Sha1 = sum_sha1 (sums demo_hashes ''abc''), Md5 = sum_md5 (sums demo_hashes ''abc''), Size = 3\<rparr>"

lemma demo_storage: "fe_storage (demo_fenv now ans) i = demo_env (if i = 0 then 0 else int i + 4) ''s1''"
  by (simp add: demo_fenv_def)

lemma demo_store: "store_body demo_hashes (demo_fenv now ans) (demo_answer 200) (empty_engine Storage_Contract.demo_options) = (Inr (demo_ref, 3), demo_stored)"
proof -
  let ?e1 = "snd (BeginSession (demo_env 0 ''s1'') (empty_engine Storage_Contract.demo_options))"
  have a: "Append (demo_env 5 ''s1'') 0 (body_events (demo_fenv now ans) (demo_answer 200)) ?e1 = (Inr 3, demo_uploading)"
    unfolding demo_begin demo_uploading_eq
    by (simp add: Append_def Let_def body_events_def demo_answer_def demo_fenv_def digest_write_def demo_env_def empty_engine_def
      file_write_def data_file_def write_at_def put_data_def persistStateLocked_def Storage_Contract.demo_options_def
      us_get_def us_setState_def demo_retry put_session_def numeral_3_eq_3)
  have "Commit demo_hashes (demo_env 6 ''s1'') 0 demo_expect demo_uploading = (Inr demo_ref, demo_stored)"
    using demo_commit(1) unfolding demo_stored_def demo_ref_def by (metis prod.collapse)
  then show ?thesis using a by (simp add: store_body_def demo_storage demo_begin demo_expect_def)
qed

lemma demo_open: "Open (demo_env t s) demo_sha demo_stored = Inr (''abc'', \<lparr>Sha256 = demo_sha, Sha1 = [], Md5 = [], Size = 3\<rparr>)"
  using demo_commit(2) demo_sha_valid(1) by (simp add: Open_def demo_env_def blobPath_def)

lemma demo_land:
  assumes "wd_st w = empty_engine Storage_Contract.demo_options"
  shows "\<exists>res w'. land demo_hashes (demo_fenv now ans) k p RemoteCacheKindContent cfg defaultPolicy (demo_answer 200) w = (Inr res, w') \<and>
    fr_CacheState res = CacheMiss \<and> fr_Body res = ''abc'' \<and> nd_Sha256 (fr_Node res) = demo_sha"
proof -
  have "retryBusy (demo_fenv now ans) c" for c by (simp add: retryBusy_def demo_fenv_def demo_retry)
  moreover have "\<not> propertiesSyncOn defaultPolicy" by (simp add: propertiesSyncOn_def defaultPolicy_def)
  moreover have "nd_Sha256 (landed_node k p demo_ref h t x) = demo_sha" for h t x by (simp add: landed_node_def demo_ref_def Let_def)
  ultimately show ?thesis unfolding land_def Let_def assms demo_store by (simp add: serveCopy_def demo_storage demo_open)
qed

lemma demo_miss:
  obtains res w' where "Fetch demo_hashes (demo_fenv 0 (Inr (demo_answer 200))) [] ''central'' ''a'' (demo_world 0) = (Some (Inr res), w')"
    "fr_CacheState res = CacheMiss" "fr_Body res = ''abc''" "nd_Sha256 (fr_Node res) = demo_sha"
proof -
  let ?fe = "demo_fenv 0 (Inr (demo_answer 200))"
  obtain w1 where w1: "Fetch demo_hashes ?fe [] ''central'' ''a'' (demo_world 0) =
      map_prod Some id (contactUpstream demo_hashes ?fe demo_row demo_config defaultPolicy ''central'' ''a'' [] None w1)" "wd_st w1 = wd_st (demo_world 0)"
    by (rule fetch_contacts [OF demo_load demo_lookup(1)]) (simp_all add: demo_fields demo_lookup)
  obtain hops where e: "exchange ?fe demo_row ''central'' ''a'' None demo_out w1 = (Inr (demo_answer 200), hops)"
    using demo_exchanges(1) demo_exchange by (metis prod.collapse)
  have s: "rs_StatusCode (demo_answer 200) = 200" "RemoteCacheKindContent \<noteq> RemoteCacheKindMetadata"
    by (simp_all add: demo_answer_def RemoteCacheKindContent_def RemoteCacheKindMetadata_def)
  let ?w = "upstreamReached ''central'' (log_sent ''central'' ''a'' hops w1)"
  obtain res w' where l: "land demo_hashes ?fe ''central'' ''a'' RemoteCacheKindContent demo_config defaultPolicy (demo_answer 200) ?w = (Inr res, w')"
    "fr_CacheState res = CacheMiss" "fr_Body res = ''abc''" "nd_Sha256 (fr_Node res) = demo_sha"
    using demo_land [of ?w 0 "Inr (demo_answer 200)" "''central''" "''a''" demo_config] w1(2) by (force simp: world_simps demo_fields)
  have "contactUpstream demo_hashes ?fe demo_row demo_config defaultPolicy ''central'' ''a'' [] None w1 = (Inr res, w')"
    using s l(1) by (subst contact_answer [OF demo_outbound e]) (simp add: demo_fields)
  then show thesis using that l w1(1) by simp
qed

lemma demo_start: "engine_reachable H (wd_st (demo_world n))" "fresh_session fe (wd_st (demo_world n))"
  unfolding demo_fields by (rule engine_reachable.init) (simp add: fresh_session_def isLiveSession_def empty_engine_def)

lemma demo_ttls: "row_ttl RemoteCacheKindContent demo_config defaultPolicy = 60" "po_MissedRetrievalCachePeriodSecs defaultPolicy = 1800"
  "seconds64 60 = 60 * second" "seconds64 1800 = 1800 * second" "printable_time (60 * second)" "printable_time (1800 * second)"
  by (simp_all add: ttlFor_def RemoteCacheKindContent_def RemoteCacheKindMetadata_def cacheKindNegative_def demo_config_def defaultPolicy_def
      seconds64_def wrap64_def duration_defs printable_time_def abs_seconds_def unix_to_internal_def)


section \<open>Properties\<close>

text \<open>
  C14: A read of a remote repository is confined to its own path: every node row and cache row of
  another path or repository, the repository and configuration rows, and the windows, fault counts
  and counters of other repositories are what they were, and every request it added to the log was
  made for this path, whatever the upstream answers and whichever store calls fail.
\<close>

theorem read_confined: "keeps_others k p w (snd (fetchFlow H fe [] k p target w))"
  by (rule keeps_flow) (rule prod.collapse [symmetric])

text \<open>
  C9: When the upstream is contacted. A read that wins its flight, in a repository whose outbound
  client can be built, does not call the client exactly when the repository is blacked out, the
  path is a remembered miss, a copy is inside its window, pulling is blocked or the repository is
  assumed offline; such a read leaves the tables, the blobs and the windows as they were, and any
  other read makes a call that is logged under its own path, with no hop where the client's first
  check refused the URL.
\<close>

theorem contact_exact:
  assumes "loadRepo fe (wd_t w) k = Inr (row, cfg, pol)" "outbound fe row cfg pol k p [] = Inr cr"
    "\<not> fe_fail fe (NodeRow k p)" "\<And>limit. fe_flight fe limit = FlightWon" "Fetch H fe ps k p w = (r, w')"
  shows "(wd_sent w' = wd_sent w \<longleftrightarrow> no_contact fe w cfg k p) \<and> (no_contact fe w cfg k p \<longrightarrow> same_world w w') \<and> r \<noteq> None"
proof (cases "no_contact fe w cfg k p")
  case True
  show ?thesis using fetch_quiet [OF assms(1) True, of H ps] assms(5) True by auto
next
  case False
  obtain w1 where w1: "Fetch H fe ps k p w = map_prod Some id (contactUpstream H fe row cfg pol k p [] (cached_copy fe w k p) w1)"
    "wd_sent w1 = wd_sent w" by (rule fetch_contacts [OF assms(1) False assms(3,4)])
  obtain a where c: "contactUpstream H fe row cfg pol k p [] (cached_copy fe w k p) w1 = (a, w')" "r = Some a"
    using w1(1) assms(5) by (cases "contactUpstream H fe row cfg pol k p [] (cached_copy fe w k p) w1") auto
  obtain ys where "wd_sent w' = wd_sent w @ [(k, p, snd (exchange fe row k p (cached_copy fe w k p) cr w1))] @ ys"
    using contact_logged [OF c(1) assms(2)] w1(2) by (auto simp: keeps_others_def world_simps)
  then show ?thesis using False c(2) by simp
qed

theorem contact_exact_witness:
  "wd_sent (snd (Fetch demo_hashes (demo_fenv 0 (Inl DoTimeout)) [] ''central'' ''a'' (demo_world 0))) \<noteq> []"
proof -
  obtain r w' where f: "Fetch demo_hashes (demo_fenv 0 (Inl DoTimeout)) [] ''central'' ''a'' (demo_world 0) = (r, w')" by fastforce
  show ?thesis using contact_exact [OF demo_load demo_outbound _ _ f] demo_lookup by (simp add: demo_fields f)
qed



text \<open>
  C7: What a read downloads is what it serves and stores. When a read answers MISS, the upstream
  answered 200 and delivered its body completely; the bytes served hash to the digest of the node
  row, which is the digest of the bytes received, and are those bytes if the store did not hold
  them already; the node row has their length, and the rows of the path are in the tables. The
  commit registered a hold on the digest, and the read ends with that hold still registered.
\<close>

theorem landing_faithful:
  assumes "Fetch H fe ps k p w = (Some (Inr res), w')" "fr_CacheState res = CacheMiss" "\<And>limit. fe_flight fe limit = FlightWon"
    "engine_reachable H (wd_st w)" "sized_hashes H" "fresh_session fe (wd_st w)"
  shows "\<exists>row cfg pol cr resp hops. loadRepo fe (wd_t w) k = Inr (row, cfg, pol) \<and> outbound fe row cfg pol k p [] = Inr cr \<and>
    exchange fe row k p (cached_copy fe w k p) cr w = (Inr resp, hops) \<and> rs_StatusCode resp = 200 \<and>
    nd_Sha256 (fr_Node res) = sum_sha256 (sums H (rs_Body resp)) \<and> nd_Sha256 (fr_Node res) = sum_sha256 (sums H (fr_Body res)) \<and>
    nd_Size (fr_Node res) = length (rs_Body resp) \<and>
    (blob_get (nd_Sha256 (fr_Node res)) (wd_st w) = None \<longrightarrow> fr_Body res = rs_Body resp) \<and>
    nodeStore_Get (\<lambda>_. False) (wd_t w') k p = Inr (fr_Node res) \<and> remoteStore_GetCache (\<lambda>_. False) (wd_t w') k p \<noteq> None \<and>
    (classifyPath fe (rp_PackageType row) p = RemoteCacheKindContent \<longrightarrow> rs_BodyOk resp) \<and>
    hold_registrations (e_holds (wd_st w')) (nd_Sha256 (fr_Node res)) = hold_registrations (e_holds (wd_st w)) (nd_Sha256 (fr_Node res)) + 1"
proof -
  obtain row cfg pol cr resp hops w1 where m: "loadRepo fe (wd_t w) k = Inr (row, cfg, pol)" "outbound fe row cfg pol k p [] = Inr cr"
    "exchange fe row k p (cached_copy fe w k p) cr w = (Inr resp, hops)" "rs_StatusCode resp = 200" "wd_st w1 = wd_st w"
    "land H fe k p (classifyPath fe (rp_PackageType row) p) cfg pol
       (if classifyPath fe (rp_PackageType row) p = RemoteCacheKindMetadata then resp\<lparr>rs_BodyOk := True\<rparr> else resp) w1 = (Inr res, w')"
    by (rule fetch_miss [OF assms(1-3)])
  note L = land_lands [OF m(6), unfolded m(5), OF assms(4-6)]
  let ?resp = "if classifyPath fe (rp_PackageType row) p = RemoteCacheKindMetadata then resp\<lparr>rs_BodyOk := True\<rparr> else resp"
  have b: "rs_Body ?resp = rs_Body resp" "rs_Header ?resp = rs_Header resp" by simp_all
  have ok: "classifyPath fe (rp_PackageType row) p = RemoteCacheKindContent \<longrightarrow> rs_BodyOk resp"
    using L(8) by (auto simp: RemoteCacheKindMetadata_def RemoteCacheKindContent_def)
  show ?thesis
    using m(1-4) ok L(2,3,6,9) [unfolded b] L(4,5) [of "\<lambda>_. False", unfolded b]
    by (intro exI [of _ row] exI [of _ cfg] exI [of _ pol] exI [of _ cr] exI [of _ resp] exI [of _ hops]) auto
qed

theorem landing_faithful_witness:
  "\<exists>res w'. Fetch demo_hashes (demo_fenv 0 (Inr (demo_answer 200))) [] ''central'' ''a'' (demo_world 0) = (Some (Inr res), w') \<and>
     fr_Body res = ''abc'' \<and> nd_Sha256 (fr_Node res) = sum_sha256 (sums demo_hashes ''abc'') \<and>
     hold_registrations (e_holds (wd_st w')) demo_sha = 1"
proof -
  obtain res w' where f: "Fetch demo_hashes (demo_fenv 0 (Inr (demo_answer 200))) [] ''central'' ''a'' (demo_world 0) = (Some (Inr res), w')"
    "fr_CacheState res = CacheMiss" "fr_Body res = ''abc''" "nd_Sha256 (fr_Node res) = demo_sha" by (rule demo_miss)
  have "hold_registrations (e_holds (wd_st (demo_world 0))) demo_sha = 0"
    by (simp add: demo_fields empty_engine_def hold_registrations_def newHoldSet_def)
  then show ?thesis using landing_faithful [OF f(1,2) _ demo_start(1) demo_hashes_sized demo_start(2)] f by (auto simp: demo_fields)
qed

text \<open>
  C8: Pull through, then serve from the cache. After a read that answered MISS, a second read inside
  the window of the class of the path, by an instance whose reads do not fail, serves the same
  bytes and the same node as a HIT and sends nothing upstream.
\<close>

theorem landed_served:
  assumes "Fetch H fe ps k p w = (Some (Inr res), w')" "fr_CacheState res = CacheMiss" "\<And>limit. fe_flight fe limit = FlightWon"
    "engine_reachable H (wd_st w)" "sized_hashes H" "fresh_session fe (wd_st w)"
    "loadRepo fe (wd_t w) k = Inr (row, cfg, pol)" "ttl = row_ttl (classifyPath fe (rp_PackageType row) p) cfg pol" "0 < ttl"
    "printable_time (fe_done fe + seconds64 ttl)" "nd_Sha256 (fr_Node res) \<noteq> emptyFolderSHA"
    "\<And>c. \<not> fe_fail fe2 c" "fe_policy fe2 = fe_policy fe" "Storage_Contract.quiet (fe_storage fe2 3)"
    "fe_now fe2 < (fe_done fe + seconds64 ttl) div second * second"
  shows "\<exists>w''. Fetch H fe2 ps2 k p w' = (Some (Inr (res\<lparr>fr_CacheState := CacheHit\<rparr>)), w'') \<and> wd_sent w'' = wd_sent w'"
proof -
  let ?kind = "classifyPath fe (rp_PackageType row) p"
  obtain row1 cfg1 pol1 cr resp hops w1 where m: "loadRepo fe (wd_t w) k = Inr (row1, cfg1, pol1)" "\<not> rc_BlockedOut cfg1" "wd_st w1 = wd_st w"
    "land H fe k p (classifyPath fe (rp_PackageType row1) p) cfg1 pol1
       (if classifyPath fe (rp_PackageType row1) p = RemoteCacheKindMetadata then resp\<lparr>rs_BodyOk := True\<rparr> else resp) w1 = (Inr res, w')"
    by (rule fetch_miss [OF assms(1-3)])
  have same: "row1 = row" "cfg1 = cfg" "pol1 = pol" using m(1) assms(7) by simp_all
  note L = land_lands [OF m(4) [unfolded same], unfolded m(3), OF assms(4-6)]
  obtain f where f: "blob_get (nd_Sha256 (fr_Node res)) (wd_st w') = Some f" "fr_Body res = f_data f" using L(2,6) by auto
  have v: "validSha256 (nd_Sha256 (fr_Node res))" "nd_Sha256 (fr_Node res) \<noteq> []"
    using L(2) sums_valid [OF assms(5)] sums_nonempty(1) [OF assms(5)] by simp_all
  have res: "res = \<lparr>fr_Node = fr_Node res, fr_Body = f_data f, fr_CacheState = CacheMiss, fr_UpstreamError = False, fr_HasCopy = True\<rparr>"
    using land_served [OF m(4)] f(2) assms(2) by (cases res) auto
  have "serveCopy fe2 (bump k add_hit w') (fr_Node res) CacheHit False = Inr (res\<lparr>fr_CacheState := CacheHit\<rparr>)"
    using f v assms(14) by (subst res) (simp add: serveCopy_def Open_def Storage_Contract.quiet_def blobPath_def world_simps)
  moreover have "Fetch H fe2 ps2 k p w' = (Some (serveCopy fe2 (bump k add_hit w') (fr_Node res) CacheHit False), bump k add_hit w')"
    by (rule fetch_hit [OF loadRepo_kept [OF assms(7) fetch_keeps [OF assms(1,7,3)] assms(12,13)] _ assms(12) L(4) [of "fe_fail fe2", OF assms(12)] _ L(5) [of "fe_fail fe2", OF assms(12)]])
      (use m(2) same assms(8,9,11,15) v(2) expiry_fresh [OF assms(9,10)] classify_kinds in \<open>simp_all add: hasCacheableCopy_def contentEntry_def\<close>)
  ultimately show ?thesis by (simp add: world_simps)
qed

theorem landed_served_witness:
  "\<exists>res w' w''. Fetch demo_hashes (demo_fenv 0 (Inr (demo_answer 200))) [] ''central'' ''a'' (demo_world 0) = (Some (Inr res), w') \<and>
     Fetch demo_hashes (demo_fenv (59 * second) (Inl DoTimeout)) [] ''central'' ''a'' w' = (Some (Inr (res\<lparr>fr_CacheState := CacheHit\<rparr>)), w'') \<and>
     fr_Body res = ''abc'' \<and> wd_sent w'' = wd_sent w'"
proof -
  let ?fe2 = "demo_fenv (59 * second) (Inl DoTimeout)"
  obtain res w' where f: "Fetch demo_hashes (demo_fenv 0 (Inr (demo_answer 200))) [] ''central'' ''a'' (demo_world 0) = (Some (Inr res), w')"
    "fr_CacheState res = CacheMiss" "fr_Body res = ''abc''" "nd_Sha256 (fr_Node res) = demo_sha" by (rule demo_miss)
  have "demo_sha \<noteq> emptyFolderSHA" unfolding demo_sha_def emptyFolderSHA_def by code_simp
  moreover have "Storage_Contract.quiet (fe_storage ?fe2 3)" by (simp add: demo_storage Storage_Contract.quiet_def demo_env_def)
  ultimately have "\<exists>w''. Fetch demo_hashes ?fe2 [] ''central'' ''a'' w' = (Some (Inr (res\<lparr>fr_CacheState := CacheHit\<rparr>)), w'') \<and> wd_sent w'' = wd_sent w'"
    using f(4) demo_ttls by (intro landed_served [OF f(1,2) _ demo_start(1) demo_hashes_sized demo_start(2) demo_load refl])
      (simp_all add: demo_fields duration_defs)
  then show ?thesis using f by blast
qed

text \<open>
  C13: An upstream 404 is remembered. The read that meets it serves the expired copy if there is one,
  marked stale, and the not-found answer otherwise; until the missed-retrieval period is over every
  read of the path is answered not-found, with or without a copy, and sends nothing upstream.
\<close>

theorem miss_remembered:
  assumes "loadRepo fe (wd_t w) k = Inr (row, cfg, pol)" "outbound fe row cfg pol k p [] = Inr cr"
    "\<not> fe_fail fe (NodeRow k p)" "\<And>limit. fe_flight fe limit = FlightWon" "\<not> no_contact fe w cfg k p"
    "exchange fe row k p (cached_copy fe w k p) cr w = (Inr resp, hops)" "rs_StatusCode resp = 404" "retryBusy fe (CacheWrite k p)"
    "ttl = po_MissedRetrievalCachePeriodSecs pol" "0 < ttl" "printable_time (fe_done fe + seconds64 ttl)"
    "Fetch H fe ps k p w = (r, w')" "\<And>c. \<not> fe_fail fe2 c" "fe_policy fe2 = fe_policy fe"
    "fe_now fe2 < (fe_done fe + seconds64 ttl) div second * second"
  shows "r = Some (case cached_copy fe w k p of None \<Rightarrow> Inl unfoundMissing | Some n \<Rightarrow> serveCopy fe w n CacheStale True) \<and>
    (\<exists>w''. Fetch H fe2 ps2 k p w' = (Some (Inl unfoundMissing), w'') \<and> wd_sent w'' = wd_sent w')"
proof -
  obtain w1 where w1: "Fetch H fe ps k p w = map_prod Some id (contactUpstream H fe row cfg pol k p [] (cached_copy fe w k p) w1)"
    "wd_t w1 = wd_t w" "wd_st w1 = wd_st w" by (rule fetch_contacts [OF assms(1,5,3,4)])
  obtain a where c: "contactUpstream H fe row cfg pol k p [] (cached_copy fe w k p) w1 = (a, w')" "r = Some a"
    using w1(1) assms(12) by (cases "contactUpstream H fe row cfg pol k p [] (cached_copy fe w k p) w1") auto
  have e: "exchange fe row k p (cached_copy fe w k p) cr w1 = (Inr resp, hops)" using assms(6) exchange_cong [OF w1(2)] by simp
  have s: "mapUpstreamStatus fe k p cfg pol (cached_copy fe w k p) 404 False (upstreamReached k (log_sent k p hops w1)) = (a, w')"
    using c(1) assms(7) unfolding contact_answer [OF assms(2) e] by simp
  let ?e = "negativeEntry k p (fe_done fe) ttl"
  have "a = (case cached_copy fe w k p of None \<Rightarrow> Inl unfoundMissing | Some n \<Rightarrow> serveCopy fe w n CacheStale True)"
    and t: "wd_t w' = remoteStore_PutCache ?e (wd_t w)"
    using s assms(8,9) w1 by (auto simp: mapUpstreamStatus_def Let_def ttlFor_def serveStale_def serveCopy_def world_simps
        RemoteCacheKindMetadata_def cacheKindNegative_def split: option.splits)
  moreover have "negativeFresh fe2 w' k p"
    using t assms(13,15) expiry_fresh [OF assms(10,11)] by (simp add: negativeFresh_def) (simp add: negativeEntry_def)
  moreover have "loadRepo fe2 (wd_t w') k = Inr (row, cfg, pol)"
    by (rule loadRepo_kept [OF assms(1) fetch_keeps [OF assms(12,1,4)] assms(13,14)])
  moreover have "\<not> rc_BlockedOut cfg" using assms(5) by (simp add: no_contact_def)
  ultimately show ?thesis using c(2) by (simp add: Fetch_def fetchFlow_def world_simps)
qed

theorem miss_remembered_witness:
  "\<exists>w' w''. Fetch demo_hashes (demo_fenv 0 (Inr (demo_answer 404))) [] ''central'' ''a'' (demo_world 0) = (Some (Inl unfoundMissing), w') \<and>
     Fetch demo_hashes (demo_fenv (1799 * second) (Inr (demo_answer 200))) [] ''central'' ''a'' w' = (Some (Inl unfoundMissing), w'') \<and>
     wd_sent w'' = wd_sent w'"
proof -
  let ?fe = "demo_fenv 0 (Inr (demo_answer 404))" and ?fe2 = "demo_fenv (1799 * second) (Inr (demo_answer 200))"
  obtain r w' where f: "Fetch demo_hashes ?fe [] ''central'' ''a'' (demo_world 0) = (r, w')" by fastforce
  obtain hops where e: "exchange ?fe demo_row ''central'' ''a'' None demo_out (demo_world 0) = (Inr (demo_answer 404), hops)"
    using demo_exchanges(2) demo_exchange by (metis prod.collapse)
  have "retryBusy ?fe (CacheWrite ''central'' ''a'')" by (simp add: retryBusy_def demo_fenv_def demo_retry)
  moreover have "rs_StatusCode (demo_answer 404) = 404" by (simp add: demo_answer_def)
  ultimately show ?thesis
    using miss_remembered [OF demo_load demo_outbound _ _ demo_lookup(1) _ _ _ refl _ _ f, of "demo_answer 404" hops ?fe2 "[]"] e f demo_ttls
    by (simp add: demo_fields demo_lookup(2) duration_defs)
qed

end
