(* ===== verification/Repo_Virtual.thy ===== *)
theory Repo_Virtual
  imports Meta_Nodes "HOL-Library.Multiset"
begin

text \<open>
  Virtual repositories: \<open>internal/repo/virtual.go\<close> over the repository, member, node and cache rows
  of the metadata store (\<open>internal/metadata/substores_remote_virtual.go\<close>, \<open>substores.go\<close>).

  A request reads tables and an environment. The environment holds what other components decide:
  the probes of a repository's config blob, whether a blob opens, the answer of the remote engine
  for a member and path and what answering did to the tables, the upstream rows of the optional
  remote browse, the read gate, the clock, and which store calls fail. Download
  statistics are recorded as marks; response headers, seekability of bodies and log lines are left
  out.
\<close>


section \<open>The environment\<close>

datatype fetch_answer = Copy Node | Copyless | Unfound | Refused nat string | EngineError

record venv =
  ve_priority :: "string \<Rightarrow> bool"
  ve_snapshots :: "string \<Rightarrow> bool"
  ve_route :: "string \<Rightarrow> string"
  ve_opens :: "string \<Rightarrow> bool"
  ve_engine :: bool
  ve_fetch :: "string \<Rightarrow> string \<Rightarrow> tables \<Rightarrow> fetch_answer \<times> tables"
  ve_browse :: "string \<Rightarrow> string \<Rightarrow> Node list \<times> string"
  ve_browseFolder :: "string \<Rightarrow> string \<Rightarrow> bool"
  ve_now :: time
  ve_fail :: "store_call \<Rightarrow> bool"


section \<open>The resolution order\<close>

datatype Facet = FacetPlain | FacetCache

record virtualMember =
  m_key :: string
  m_typ :: string
  m_pkg :: string
  m_facet :: Facet
  m_priority :: bool
  m_handleSnapshots :: bool

record expansion =
  ex_visited :: "string list"
  ex_locals :: "virtualMember list"
  ex_remotes :: "virtualMember list"

definition member_step :: "venv \<Rightarrow> Repo \<Rightarrow> virtualMember" where
  "member_step ev r =
     \<lparr>m_key = rp_RepoKey r, m_typ = rp_Type r, m_pkg = rp_PackageType r, m_facet = FacetPlain,
      m_priority = ve_priority ev (rp_Config r), m_handleSnapshots = ve_snapshots ev (rp_Config r)\<rparr>"

text \<open>
  \<open>expandVirtualMembers\<close>: the loop over a member list, which descends into a nested virtual before
  it goes on. The visited keys cut cycles and repetitions.
\<close>

function expand_rows :: "venv \<Rightarrow> tables \<Rightarrow> string list \<Rightarrow> expansion \<Rightarrow> repo_error + expansion" where
  "expand_rows ev t [] x = Inr x"
| "expand_rows ev t (row # rows) x =
     (case repos_Get (ve_fail ev) t row of
        Inl e \<Rightarrow> if e = ErrRepoNotFound then expand_rows ev t rows x else Inl e
      | Inr member \<Rightarrow>
          if row \<in> set (ex_visited x) then expand_rows ev t rows x
          else if rp_Type member = TypeLocal then
            expand_rows ev t rows (x\<lparr>ex_visited := row # ex_visited x, ex_locals := ex_locals x @ [member_step ev member]\<rparr>)
          else if rp_Type member = TypeRemote then
            expand_rows ev t rows (x\<lparr>ex_visited := row # ex_visited x, ex_remotes := ex_remotes x @ [member_step ev member]\<rparr>)
          else if rp_Type member = TypeVirtual then
            (case virtualStore_ListMembers (ve_fail ev) t row of
               Inl e \<Rightarrow> Inl e
             | Inr nested \<Rightarrow>
                 (case expand_rows ev t nested (x\<lparr>ex_visited := row # ex_visited x\<rparr>) of
                    Inl e \<Rightarrow> Inl e
                  | Inr x' \<Rightarrow> expand_rows ev t rows x'))
          else expand_rows ev t rows x)"
  by pat_completeness auto

lemma repos_Get_key: "repos_Get (ve_fail ev) t row = Inr r \<Longrightarrow> rp_RepoKey r = row \<and> r \<in> set (tb_repos t)"
  by (auto simp: repos_Get_def find_Some_iff split: if_splits option.splits)

definition unvisited :: "tables \<Rightarrow> expansion \<Rightarrow> nat" where
  "unvisited t x = card (rp_RepoKey ` set (tb_repos t) - set (ex_visited x))"

lemma unvisited_less:
  "r \<in> set (tb_repos t) \<Longrightarrow> rp_RepoKey r \<notin> set (ex_visited x) \<Longrightarrow>
   rp_RepoKey r \<in> set (ex_visited y) \<Longrightarrow> set (ex_visited x) \<subseteq> set (ex_visited y) \<Longrightarrow> unvisited t y < unvisited t x"
  unfolding unvisited_def by (intro psubset_card_mono) auto

lemma unvisited_le: "set (ex_visited x) \<subseteq> set (ex_visited y) \<Longrightarrow> unvisited t y \<le> unvisited t x"
  unfolding unvisited_def by (intro card_mono) auto

lemma expand_rows_grows:
  assumes "expand_rows_dom (ev, t, rows, x)" "expand_rows ev t rows x = Inr y"
  shows "set (ex_visited x) \<subseteq> set (ex_visited y)"
  using assms
proof (induction arbitrary: y rule: expand_rows.pinduct)
  case (2 ev t row rows x)
  note step = "2.prems" [unfolded expand_rows.psimps(2) [OF "2.hyps"]]
  show ?case
  proof (cases "repos_Get (ve_fail ev) t row")
    case (Inl e)
    then have "e = ErrRepoNotFound" "expand_rows ev t rows x = Inr y" using step by (simp_all split: if_splits)
    then show ?thesis using "2.IH"(1) [OF Inl] by blast
  next
    case (Inr member)
    note cont = "2.IH"(2-7) [OF Inr]
    show ?thesis
    proof (cases "row \<in> set (ex_visited x)")
      case True
      then show ?thesis using step Inr cont(1) by simp
    next
      case False
      consider (l) "rp_Type member = TypeLocal" | (r) "rp_Type member \<noteq> TypeLocal" "rp_Type member = TypeRemote"
        | (v) "rp_Type member \<noteq> TypeLocal" "rp_Type member \<noteq> TypeRemote" "rp_Type member = TypeVirtual"
        | (o) "rp_Type member \<noteq> TypeLocal" "rp_Type member \<noteq> TypeRemote" "rp_Type member \<noteq> TypeVirtual"
        by blast
      then show ?thesis
      proof cases
        case l
        then show ?thesis using step Inr False cont(2) [OF False l] by simp
      next
        case r
        then show ?thesis using step Inr False cont(3) [OF False r] by simp
      next
        case v
        then obtain nested where n: "virtualStore_ListMembers (ve_fail ev) t row = Inr nested"
          using step Inr False by (auto split: sum.splits)
        then obtain x' where x': "expand_rows ev t nested (x\<lparr>ex_visited := row # ex_visited x\<rparr>) = Inr x'" "expand_rows ev t rows x' = Inr y"
          using step Inr False v by (auto split: sum.splits)
        then show ?thesis using cont(4) [OF False v n x'(1)] cont(5) [OF False v n x'] by auto
      next
        case o
        then show ?thesis using step Inr False cont by simp
      qed
    qed
  qed
qed (simp add: expand_rows.psimps)

termination expand_rows
proof (relation "measures [\<lambda>(ev, t, rows, x). unvisited t x, \<lambda>(ev, t, rows, x). length rows]", goal_cases)
  case (6 ev t row rows x member nested)
  then have "unvisited t (x\<lparr>ex_visited := row # ex_visited x\<rparr>) < unvisited t x"
    using repos_Get_key [OF 6(1)] by (intro unvisited_less [of member]) auto
  then show ?case by simp
next
  case (7 ev t row rows x member nested x')
  then have "set (row # ex_visited x) \<subseteq> set (ex_visited x')" using expand_rows_grows by force
  then have "unvisited t x' < unvisited t x"
    using repos_Get_key [OF 7(1)] 7(2) by (intro unvisited_less [of member]) auto
  then show ?case by simp
qed (auto simp: le_less dest!: repos_Get_key intro!: unvisited_less)

declare expand_rows.simps(2) [simp del]

definition expandVirtualMembers :: "venv \<Rightarrow> tables \<Rightarrow> string \<Rightarrow> expansion \<Rightarrow> repo_error + expansion" where
  "expandVirtualMembers ev t virtualKey x =
     (case virtualStore_ListMembers (ve_fail ev) t virtualKey of Inl e \<Rightarrow> Inl e | Inr rows \<Rightarrow> expand_rows ev t rows x)"

definition cache_facet :: "virtualMember \<Rightarrow> virtualMember" where
  "cache_facet m = m\<lparr>m_facet := FacetCache\<rparr>"

definition virtualMemberOrder :: "venv \<Rightarrow> tables \<Rightarrow> string \<Rightarrow> repo_error + virtualMember list" where
  "virtualMemberOrder ev t virtualKey =
     (case expandVirtualMembers ev t virtualKey \<lparr>ex_visited = [virtualKey], ex_locals = [], ex_remotes = []\<rparr> of
        Inl e \<Rightarrow> Inl e
      | Inr x \<Rightarrow>
          Inr (concat (map (\<lambda>prio.
                 filter (\<lambda>m. m_priority m = prio) (ex_locals x) @
                 map cache_facet (filter (\<lambda>m. m_priority m = prio) (ex_remotes x)) @
                 filter (\<lambda>m. m_priority m = prio) (ex_remotes x)) [True, False])))"

definition plainSteps :: "virtualMember list \<Rightarrow> virtualMember list" where
  "plainSteps order = filter (\<lambda>m. m_facet m \<noteq> FacetCache) order"


section \<open>Reading a file through a virtual repository\<close>

definition contains_str :: "string \<Rightarrow> string \<Rightarrow> bool" where
  "contains_str s p \<longleftrightarrow> str_index s p \<noteq> None"

definition isSnapshotResolutionPath :: "string \<Rightarrow> bool" where
  "isSnapshotResolutionPath path \<longleftrightarrow>
     contains_str path ''[INTEGRATION]'' \<or>
     list_ex (\<lambda>seg. has_suffix seg ''-SNAPSHOT'') (split_on (CHR ''/'') path)"

definition isFolderNode :: "string \<Rightarrow> bool" where
  "isFolderNode path = has_suffix path ''/''"

definition probeLocalMember :: "venv \<Rightarrow> tables \<Rightarrow> string \<Rightarrow> string \<Rightarrow> repo_error + Node option" where
  "probeLocalMember ev t member path =
     (case nodeStore_Get (ve_fail ev) t member path of
        Inl e \<Rightarrow> if e = ErrNodeNotFound then Inr None else Inl e
      | Inr n \<Rightarrow>
          if nd_Sha256 n = emptyFolderSHA then Inr None
          else if \<not> ve_opens ev (nd_Sha256 n) then Inl ErrBlobMissing
          else Inr (Some n))"

definition negativeEntryKind :: string where "negativeEntryKind = ''negative''"

definition hasFreshNegative :: "venv \<Rightarrow> tables \<Rightarrow> string \<Rightarrow> string \<Rightarrow> bool" where
  "hasFreshNegative ev t member path =
     (case remoteStore_GetCache (ve_fail ev) t member path of
        None \<Rightarrow> False
      | Some e \<Rightarrow>
          ce_Kind e = negativeEntryKind \<and>
          (case parse_rfc3339 (ce_ExpiresAt e) of None \<Rightarrow> False | Some expires \<Rightarrow> ve_now ev < expires))"

definition clearProbedNegative :: "venv \<Rightarrow> tables \<Rightarrow> string \<Rightarrow> string \<Rightarrow> tables" where
  "clearProbedNegative ev t member path = remoteStore_DeleteCache (ve_fail ev) t member path"

definition probeRemoteMember :: "venv \<Rightarrow> tables \<Rightarrow> string \<Rightarrow> string \<Rightarrow> (repo_error + Node option) \<times> tables" where
  "probeRemoteMember ev t member path =
     (if \<not> ve_engine ev then (Inl ErrRepoTypeNotSupported, t)
      else
        (let had = hasFreshNegative ev t member path
         in case ve_fetch ev member path t of
              (Copy n, t') \<Rightarrow> (Inr (Some n), t')
            | (Copyless, t') \<Rightarrow> (Inr None, t')
            | (Unfound, t') \<Rightarrow> (Inr None, if had then t' else clearProbedNegative ev t' member path)
            | (Refused code msg, t') \<Rightarrow> (Inl (StatusErr code msg), t')
            | (EngineError, t') \<Rightarrow> (Inl ErrStore, t')))"

definition skipped :: "bool \<Rightarrow> virtualMember \<Rightarrow> bool" where
  "skipped snapshotPath m =
     (if m_facet m = FacetCache then snapshotPath else snapshotPath \<and> \<not> m_handleSnapshots m)"

definition probe :: "venv \<Rightarrow> tables \<Rightarrow> string \<Rightarrow> virtualMember \<Rightarrow> (repo_error + Node option) \<times> tables" where
  "probe ev t path m =
     (if m_facet m = FacetCache then (probeLocalMember ev t (m_key m) path, t)
      else if m_typ m = TypeRemote then probeRemoteMember ev t (m_key m) path
      else (probeLocalMember ev t (m_key m) path, t))"

fun walk :: "venv \<Rightarrow> string \<Rightarrow> string \<Rightarrow> virtualMember list \<Rightarrow> tables \<Rightarrow> (repo_error + Node \<times> string) \<times> tables" where
  "walk ev virtualKey path [] t = (Inl ErrNodeNotFound, t)"
| "walk ev virtualKey path (m # ms) t =
     (if skipped (isSnapshotResolutionPath path) m then walk ev virtualKey path ms t
      else (case probe ev t path m of
              (Inl e, t') \<Rightarrow> (Inl e, t')
            | (Inr None, t') \<Rightarrow> walk ev virtualKey path ms t'
            | (Inr (Some n), t') \<Rightarrow>
                (Inr (n, m_key m), t'\<lparr>tb_marks := tb_marks t' @ [(virtualKey, m_key m, path, m_typ m = TypeRemote)]\<rparr>)))"

fun folder_marker :: "venv \<Rightarrow> tables \<Rightarrow> string \<Rightarrow> virtualMember list \<Rightarrow> repo_error option" where
  "folder_marker ev t path [] = None"
| "folder_marker ev t path (m # ms) =
     (case nodeStore_Get (ve_fail ev) t (m_key m) path of
        Inr n \<Rightarrow> Some (ErrIsFolder n)
      | Inl e \<Rightarrow> if e = ErrNodeNotFound then folder_marker ev t path ms else Some e)"

fun folder_children :: "venv \<Rightarrow> tables \<Rightarrow> string \<Rightarrow> Node \<Rightarrow> virtualMember list \<Rightarrow> repo_error option" where
  "folder_children ev t dir marker [] = None"
| "folder_children ev t dir marker (m # ms) =
     (case nodeStore_ListByPrefix (ve_fail ev) t (m_key m) dir of
        Inl e \<Rightarrow> Some e
      | Inr kids \<Rightarrow>
          if list_ex (\<lambda>k. has_prefix (nd_Path k) (dir @ ''/'')) kids then Some (ErrIsFolder marker)
          else folder_children ev t dir marker ms)"

definition folder_row :: "string \<Rightarrow> string \<Rightarrow> Node" where
  "folder_row key path = \<lparr>nd_RepoKey = key, nd_Path = path, nd_Sha256 = emptyFolderSHA, nd_Size = 0, nd_Mime = [], nd_CreatedBy = [], nd_CreatedAt = [], nd_UpdatedAt = []\<rparr>"

definition getVirtualFolder :: "venv \<Rightarrow> tables \<Rightarrow> string \<Rightarrow> string \<Rightarrow> virtualMember list \<Rightarrow> repo_error" where
  "getVirtualFolder ev t virtualKey path order0 =
     (let order = plainSteps order0; dir = trim_suffix path ''/'' in
      case folder_marker ev t path order of
        Some e \<Rightarrow> e
      | None \<Rightarrow>
          (case folder_children ev t dir (folder_row virtualKey path) order of
             Some e \<Rightarrow> e
           | None \<Rightarrow>
               if list_ex (\<lambda>m. m_typ m = TypeRemote \<and> ve_browseFolder ev (m_key m) dir) order
               then ErrIsFolder (folder_row virtualKey path) else ErrNodeNotFound))"

definition getVirtual :: "venv \<Rightarrow> tables \<Rightarrow> string \<Rightarrow> string \<Rightarrow> (repo_error + Node \<times> string) \<times> tables" where
  "getVirtual ev t virtualKey path =
     (case virtualMemberOrder ev t virtualKey of
        Inl e \<Rightarrow> (Inl e, t)
      | Inr order \<Rightarrow>
          if isFolderNode path then (Inl (getVirtualFolder ev t virtualKey path order), t)
          else walk ev virtualKey path order t)"


section \<open>Listing and member documents\<close>

record union =
  un_merged :: "Node list"
  un_cached :: "string list"
  un_notes :: "string list"

definition owned :: "union \<Rightarrow> string \<Rightarrow> bool" where
  "owned u path \<longleftrightarrow> path \<in> nd_Path ` set (un_merged u)"

definition merge_stored :: "Node \<Rightarrow> union \<Rightarrow> union" where
  "merge_stored n u =
     (let u' = u\<lparr>un_cached := trim_suffix (nd_Path n) ''/'' # un_cached u\<rparr>
      in if owned u (nd_Path n) then u' else u'\<lparr>un_merged := un_merged u @ [n]\<rparr>)"

definition merge_derived :: "Node \<Rightarrow> union \<Rightarrow> union" where
  "merge_derived n u =
     (if trim_suffix (nd_Path n) ''/'' \<in> set (un_cached u) \<or> owned u (nd_Path n) then u
      else u\<lparr>un_merged := un_merged u @ [n]\<rparr>)"

fun merge_members :: "venv \<Rightarrow> tables \<Rightarrow> string \<Rightarrow> virtualMember list \<Rightarrow> union \<Rightarrow> repo_error + union" where
  "merge_members ev t pfx [] u = Inr u"
| "merge_members ev t pfx (m # ms) u =
     (case nodeStore_ListByPrefix (ve_fail ev) t (m_key m) pfx of
        Inl e \<Rightarrow> Inl e
      | Inr nodes \<Rightarrow>
          (let (derived, note) = (if m_typ m = TypeRemote then ve_browse ev (m_key m) pfx else ([], []));
               u1 = (if note \<noteq> [] then u\<lparr>un_notes := un_notes u @ [note]\<rparr> else u)
           in merge_members ev t pfx ms (fold merge_derived derived (fold merge_stored nodes u1))))"

definition listVirtual :: "venv \<Rightarrow> tables \<Rightarrow> string \<Rightarrow> string \<Rightarrow> repo_error + (Node list \<times> string list)" where
  "listVirtual ev t virtualKey pfx =
     (case virtualMemberOrder ev t virtualKey of
        Inl e \<Rightarrow> Inl e
      | Inr order \<Rightarrow>
          (case merge_members ev t pfx (plainSteps order) \<lparr>un_merged = [], un_cached = [], un_notes = []\<rparr> of
             Inl e \<Rightarrow> Inl e
           | Inr u \<Rightarrow> Inr (sort_key nd_Path (un_merged u), un_notes u)))"

definition maxNodePathLen :: nat where "maxNodePathLen = 512"

definition validateNodePath :: "string \<Rightarrow> bool" where
  "validateNodePath path \<longleftrightarrow>
     path \<noteq> [] \<and> path \<noteq> ''/'' \<and> length path \<le> maxNodePathLen \<and> \<not> contains_str path ''//'' \<and>
     CHR 0x5C \<notin> set path \<and> hd path \<noteq> CHR ''/'' \<and>
     list_all (\<lambda>seg. seg \<noteq> ''.'' \<and> seg \<noteq> ''..'' \<and> seg \<noteq> []) (split_on (CHR ''/'') (trim_suffix path ''/''))"

definition readRemoteMemberDoc :: "venv \<Rightarrow> tables \<Rightarrow> string \<Rightarrow> string \<Rightarrow> string \<Rightarrow> (repo_error + Node) \<times> tables" where
  "readRemoteMemberDoc ev t virtualKey member path =
     (if \<not> ve_engine ev then (Inl ErrRepoTypeNotSupported, t)
      else
        (case ve_fetch ev member path t of
           (Copy n, t') \<Rightarrow> (Inr n, t'\<lparr>tb_marks := tb_marks t' @ [(virtualKey, member, path, True)]\<rparr>)
         | (Copyless, t') \<Rightarrow> (Inl ErrNodeNotFound, t')
         | (Unfound, t') \<Rightarrow> (Inl ErrNodeNotFound, t')
         | (Refused code msg, t') \<Rightarrow> (Inl (StatusErr code msg), t')
         | (EngineError, t') \<Rightarrow> (Inl ErrStore, t')))"

definition ReadVirtualMember :: "venv \<Rightarrow> tables \<Rightarrow> string \<Rightarrow> string \<Rightarrow> string \<Rightarrow> (repo_error + Node) \<times> tables" where
  "ReadVirtualMember ev t virtualKey member path =
     (if \<not> validateNodePath path then (Inl ErrInvalidPath, t)
      else (case virtualMemberOrder ev t virtualKey of
              Inl e \<Rightarrow> (Inl e, t)
            | Inr order \<Rightarrow>
                (case find (\<lambda>m. m_key m = member) order of
                   None \<Rightarrow> (Inl ErrRepoNotFound, t)
                 | Some step \<Rightarrow>
                     if m_typ step = TypeRemote then readRemoteMemberDoc ev t virtualKey member path
                     else (case probeLocalMember ev t member path of
                             Inl e \<Rightarrow> (Inl e, t)
                           | Inr None \<Rightarrow> (Inl ErrNodeNotFound, t)
                           | Inr (Some n) \<Rightarrow> (Inr n, t\<lparr>tb_marks := tb_marks t @ [(virtualKey, member, path, False)]\<rparr>)))))"

definition ListVirtualMember :: "venv \<Rightarrow> tables \<Rightarrow> string \<Rightarrow> string \<Rightarrow> string \<Rightarrow> repo_error + Node list" where
  "ListVirtualMember ev t virtualKey member pfx0 =
     (let pfx = (if pfx0 = [] then pfx0 else trim_suffix pfx0 ''/'') in
      if pfx0 \<noteq> [] \<and> \<not> validateNodePath pfx then Inl ErrInvalidPath
      else (case virtualMemberOrder ev t virtualKey of
              Inl e \<Rightarrow> Inl e
            | Inr order \<Rightarrow>
                (case find (\<lambda>m. m_key m = member) order of
                   None \<Rightarrow> Inl ErrRepoNotFound
                 | Some step \<Rightarrow>
                     if m_typ step \<noteq> TypeLocal then Inl ErrRepoTypeNotSupported
                     else nodeStore_ListByPrefix (ve_fail ev) t member pfx)))"


section \<open>Writing through a virtual repository\<close>

definition routeVirtualWrite :: "venv \<Rightarrow> Repo \<Rightarrow> repo_error + string" where
  "routeVirtualWrite ev row =
     (if ve_route ev (rp_Config row) \<noteq> [] then Inr (ve_route ev (rp_Config row)) else Inl (StatusErr 405 (rp_RepoKey row)))"

definition refuseNonLocalWrite :: "Repo \<Rightarrow> repo_error option" where
  "refuseNonLocalWrite row =
     (if rp_Type row = TypeRemote \<or> rp_Type row = TypeVirtual then Some (StatusErr 405 (rp_RepoKey row)) else None)"

definition resolveWriteRepo :: "venv \<Rightarrow> tables \<Rightarrow> string \<Rightarrow> repo_error + Repo" where
  "resolveWriteRepo ev t repoKey =
     (let finish = (\<lambda>row. case refuseNonLocalWrite row of None \<Rightarrow> Inr row | Some e \<Rightarrow> Inl e) in
      case repos_Get (ve_fail ev) t repoKey of
        Inl e \<Rightarrow> Inl e
      | Inr row \<Rightarrow>
          if rp_Type row = TypeVirtual then
            (case routeVirtualWrite ev row of
               Inl e \<Rightarrow> Inl e
             | Inr target \<Rightarrow> (case repos_Get (ve_fail ev) t target of Inl e \<Rightarrow> Inl e | Inr row' \<Rightarrow> finish row'))
          else finish row)"



section \<open>The cache projection of a remote\<close>

text \<open>
  \<open>K-cache\<close> addresses the stored copies of the remote \<open>K\<close> with the semantics of a local repository. The
  read gate is asked on the parent; \<open>anon\<close> tells an anonymous caller from a refused one.
\<close>

datatype projection_error = ErrUnauthorized | ErrForbidden | Read repo_error

definition cacheProjectionSuffix :: string where "cacheProjectionSuffix = ''-cache''"

definition CacheProjectionTarget :: "string \<Rightarrow> string option" where
  "CacheProjectionTarget repoKey =
     (if \<not> has_suffix repoKey cacheProjectionSuffix then None
      else let parent = trim_suffix repoKey cacheProjectionSuffix in if parent = [] then None else Some parent)"

definition listCacheRows :: "venv \<Rightarrow> tables \<Rightarrow> string \<Rightarrow> string \<Rightarrow> repo_error + Node list" where
  "listCacheRows ev t parent pfx = nodeStore_ListByPrefix (ve_fail ev) t parent pfx"

definition cacheProjectionFolder :: "venv \<Rightarrow> tables \<Rightarrow> string \<Rightarrow> string \<Rightarrow> string \<Rightarrow> repo_error" where
  "cacheProjectionFolder ev t projKey parent path =
     (case nodeStore_Get (ve_fail ev) t parent path of
        Inr n \<Rightarrow> ErrIsFolder n
      | Inl e \<Rightarrow>
          if e \<noteq> ErrNodeNotFound then e
          else (let dir = trim_suffix path ''/'' in
                case nodeStore_ListByPrefix (ve_fail ev) t parent dir of
                  Inl e \<Rightarrow> e
                | Inr kids \<Rightarrow>
                    if list_ex (\<lambda>k. has_prefix (nd_Path k) (dir @ ''/'')) kids then ErrIsFolder (folder_row projKey path)
                    else ErrNodeNotFound))"

definition getCacheProjection :: "venv \<Rightarrow> tables \<Rightarrow> bool \<Rightarrow> bool \<Rightarrow> string \<Rightarrow> string \<Rightarrow> string \<Rightarrow> (projection_error + Node) \<times> tables" where
  "getCacheProjection ev t allowed anon projKey parent path =
     (if \<not> allowed then (Inl (if anon then ErrUnauthorized else ErrForbidden), t)
      else if isFolderNode path then (Inl (Read (cacheProjectionFolder ev t projKey parent path)), t)
      else (case probeLocalMember ev t parent path of
              Inl e \<Rightarrow> (Inl (Read e), t)
            | Inr None \<Rightarrow> (Inl (Read ErrNodeNotFound), t)
            | Inr (Some n) \<Rightarrow> (Inr n, t\<lparr>tb_marks := tb_marks t @ [(projKey, parent, path, True)]\<rparr>)))"

definition resolveCacheProjectionMeta :: "venv \<Rightarrow> tables \<Rightarrow> bool \<Rightarrow> bool \<Rightarrow> string \<Rightarrow> string \<Rightarrow> string \<Rightarrow> projection_error + Node" where
  "resolveCacheProjectionMeta ev t allowed anon projKey parent path =
     (if \<not> allowed then Inl (if anon then ErrUnauthorized else ErrForbidden)
      else (case listCacheRows ev t parent (trim_suffix path ''/'') of
              Inl e \<Rightarrow> Inl (Read e)
            | Inr nodes \<Rightarrow>
                (case find (\<lambda>n. nd_Path n = path) nodes of
                   Some n \<Rightarrow> Inr n
                 | None \<Rightarrow>
                     (let folder = trim_suffix path ''/'' @ ''/'' in
                      if list_ex (\<lambda>n. has_prefix (nd_Path n) folder) nodes
                      then Inr \<lparr>nd_RepoKey = projKey, nd_Path = folder, nd_Sha256 = [], nd_Size = 0, nd_Mime = [], nd_CreatedBy = [], nd_CreatedAt = [], nd_UpdatedAt = []\<rparr>
                      else Inl (Read ErrNodeNotFound)))))"


section \<open>What the expansion collects\<close>

text \<open>The class of a key in the repository table, when it is one of the three known classes.\<close>

definition repo_kind :: "venv \<Rightarrow> tables \<Rightarrow> string \<Rightarrow> string option" where
  "repo_kind ev t k =
     (case repos_Get (ve_fail ev) t k of
        Inr r \<Rightarrow> if rp_Type r \<in> {TypeLocal, TypeRemote, TypeVirtual} then Some (rp_Type r) else None
      | Inl _ \<Rightarrow> None)"

lemma types_distinct [simp]:
  "TypeLocal \<noteq> TypeRemote" "TypeLocal \<noteq> TypeVirtual" "TypeRemote \<noteq> TypeVirtual"
  "TypeRemote \<noteq> TypeLocal" "TypeVirtual \<noteq> TypeLocal" "TypeVirtual \<noteq> TypeRemote"
  by (simp_all add: TypeLocal_def TypeRemote_def TypeVirtual_def)

lemma repo_kind_Get:
  "repos_Get (ve_fail ev) t k = Inr r \<Longrightarrow> rp_Type r = TypeLocal \<Longrightarrow> repo_kind ev t k = Some TypeLocal"
  "repos_Get (ve_fail ev) t k = Inr r \<Longrightarrow> rp_Type r = TypeRemote \<Longrightarrow> repo_kind ev t k = Some TypeRemote"
  "repos_Get (ve_fail ev) t k = Inr r \<Longrightarrow> rp_Type r = TypeVirtual \<Longrightarrow> repo_kind ev t k = Some TypeVirtual"
  by (simp_all add: repo_kind_def)

text \<open>The successful runs of the traversal as a relation.\<close>

inductive expands :: "venv \<Rightarrow> tables \<Rightarrow> string list \<Rightarrow> expansion \<Rightarrow> expansion \<Rightarrow> bool" for ev t where
  Nil: "expands ev t [] x x"
| Skip: "repo_kind ev t row \<noteq> None \<longrightarrow> row \<in> set (ex_visited x) \<Longrightarrow> expands ev t rows x y \<Longrightarrow> expands ev t (row # rows) x y"
| Local: "row \<notin> set (ex_visited x) \<Longrightarrow> repos_Get (ve_fail ev) t row = Inr r \<Longrightarrow> rp_Type r = TypeLocal \<Longrightarrow>
    expands ev t rows (x\<lparr>ex_visited := row # ex_visited x, ex_locals := ex_locals x @ [member_step ev r]\<rparr>) y \<Longrightarrow>
    expands ev t (row # rows) x y"
| Remote: "row \<notin> set (ex_visited x) \<Longrightarrow> repos_Get (ve_fail ev) t row = Inr r \<Longrightarrow> rp_Type r = TypeRemote \<Longrightarrow>
    expands ev t rows (x\<lparr>ex_visited := row # ex_visited x, ex_remotes := ex_remotes x @ [member_step ev r]\<rparr>) y \<Longrightarrow>
    expands ev t (row # rows) x y"
| Virtual: "row \<notin> set (ex_visited x) \<Longrightarrow> repos_Get (ve_fail ev) t row = Inr r \<Longrightarrow> rp_Type r = TypeVirtual \<Longrightarrow>
    virtualStore_ListMembers (ve_fail ev) t row = Inr nested \<Longrightarrow>
    expands ev t nested (x\<lparr>ex_visited := row # ex_visited x\<rparr>) x' \<Longrightarrow> expands ev t rows x' y \<Longrightarrow>
    expands ev t (row # rows) x y"

lemma expand_rows_expands: "expand_rows ev t rows x = Inr y \<Longrightarrow> expands ev t rows x y"
proof (induction ev t rows x arbitrary: y rule: expand_rows.induct)
  case (2 ev t row rows x)
  note step = "2.prems" [unfolded expand_rows.simps(2)]
  show ?case
  proof (cases "repos_Get (ve_fail ev) t row")
    case (Inl e)
    then have "e = ErrRepoNotFound" "expand_rows ev t rows x = Inr y" using step by (simp_all split: if_splits)
    then show ?thesis using "2.IH"(1) [OF Inl] Inl by (auto intro!: Skip simp: repo_kind_def)
  next
    case (Inr r)
    note IH = "2.IH"(2-7) [OF Inr]
    show ?thesis
    proof (cases "row \<in> set (ex_visited x)")
      case True
      then show ?thesis using step Inr IH(1) by (auto intro!: Skip)
    next
      case False
      note new = this
      consider (l) "rp_Type r = TypeLocal" | (r) "rp_Type r = TypeRemote" | (v) "rp_Type r = TypeVirtual"
        | (o) "rp_Type r \<noteq> TypeLocal" "rp_Type r \<noteq> TypeRemote" "rp_Type r \<noteq> TypeVirtual" by blast
      then show ?thesis
      proof cases
        case l
        then show ?thesis using step Inr new IH(2) [OF new l] by (auto intro: Local)
      next
        case r
        then show ?thesis using step Inr new IH(3) [OF new _ r] by (auto intro: Remote)
      next
        case v
        then obtain nested where n: "virtualStore_ListMembers (ve_fail ev) t row = Inr nested"
          using step Inr new by (auto split: sum.splits)
        then obtain x' where x': "expand_rows ev t nested (x\<lparr>ex_visited := row # ex_visited x\<rparr>) = Inr x'" "expand_rows ev t rows x' = Inr y"
          using step Inr new v by (auto split: sum.splits)
        then show ?thesis
          using IH(4) [OF new _ _ v n x'(1)] IH(5) [OF new _ _ v n x'] Virtual [OF new Inr v n] v by simp
      next
        case o
        then show ?thesis using step Inr new IH(6) [OF new o] by (auto intro!: Skip simp: repo_kind_def)
      qed
    qed
  qed
qed (auto intro: Nil)

lemma expands_grows: "expands ev t rows x y \<Longrightarrow> set (ex_visited x) \<subseteq> set (ex_visited y)"
  by (induction rule: expands.induct) auto

lemma expands_covers:
  "expands ev t rows x y \<Longrightarrow> row \<in> set rows \<Longrightarrow> repo_kind ev t row \<noteq> None \<Longrightarrow> row \<in> set (ex_visited y)"
proof (induction rule: expands.induct)
  case (Virtual row' x r nested x' rows y)
  then show ?case using expands_grows [OF Virtual.hyps(5)] expands_grows [OF Virtual.hyps(6)] by auto
qed (auto dest: expands_grows)

lemma expands_closed:
  "expands ev t rows x y \<Longrightarrow> k \<in> set (ex_visited y) \<Longrightarrow> k \<notin> set (ex_visited x) \<Longrightarrow> repo_kind ev t k = Some TypeVirtual \<Longrightarrow>
   \<exists>nested. virtualStore_ListMembers (ve_fail ev) t k = Inr nested \<and>
     (\<forall>n\<in>set nested. repo_kind ev t n \<noteq> None \<longrightarrow> n \<in> set (ex_visited y))"
proof (induction arbitrary: k rule: expands.induct)
  case (Virtual row x r nested x' rows y)
  have xy: "set (ex_visited x') \<subseteq> set (ex_visited y)" using expands_grows [OF Virtual.hyps(6)] .
  consider "k = row" | "k \<noteq> row" "k \<in> set (ex_visited x')" | "k \<notin> set (ex_visited x')" by blast
  then show ?case
  proof cases
    case 1
    then show ?thesis using Virtual.hyps(4) expands_covers [OF Virtual.hyps(5)] xy by blast
  next
    case 2
    then show ?thesis using Virtual.IH(1) [of k] Virtual.prems xy by auto
  next
    case 3
    then show ?thesis using Virtual.IH(2) [of k] Virtual.prems by blast
  qed
next
  case (Local row x r rows y)
  then show ?case using repo_kind_Get(1) [OF Local.hyps(2,3)] by (cases "k = row") auto
next
  case (Remote row x r rows y)
  then show ?case using repo_kind_Get(2) [OF Remote.hyps(2,3)] by (cases "k = row") auto
qed auto

text \<open>One list names the members of another key's list, directly or through nested virtuals.\<close>

inductive reaches :: "venv \<Rightarrow> tables \<Rightarrow> string list \<Rightarrow> string \<Rightarrow> bool" for ev t where
  Direct: "row \<in> set rows \<Longrightarrow> repo_kind ev t row \<noteq> None \<Longrightarrow> reaches ev t rows row"
| Nested: "row \<in> set rows \<Longrightarrow> repo_kind ev t row = Some TypeVirtual \<Longrightarrow> virtualStore_ListMembers (ve_fail ev) t row = Inr nested \<Longrightarrow>
    reaches ev t nested k \<Longrightarrow> reaches ev t rows k"

lemma reaches_mono: "reaches ev t rows k \<Longrightarrow> set rows \<subseteq> set rows' \<Longrightarrow> reaches ev t rows' k"
  by (erule reaches.cases) (auto intro: reaches.intros)

lemma expands_reaches:
  "expands ev t rows x y \<Longrightarrow> k \<in> set (ex_visited y) \<Longrightarrow> k \<notin> set (ex_visited x) \<Longrightarrow> reaches ev t rows k"
proof (induction arbitrary: k rule: expands.induct)
  case (Skip row x rows y)
  then show ?case using reaches_mono [of ev t rows k "row # rows"] by auto
next
  case (Local row x r rows y)
  then show ?case using reaches_mono [of ev t rows k "row # rows"] repo_kind_Get(1) [OF Local.hyps(2,3)]
    by (cases "k = row") (auto intro: Direct)
next
  case (Remote row x r rows y)
  then show ?case using reaches_mono [of ev t rows k "row # rows"] repo_kind_Get(2) [OF Remote.hyps(2,3)]
    by (cases "k = row") (auto intro: Direct)
next
  case (Virtual row x r nested x' rows y)
  note kind = repo_kind_Get(3) [OF Virtual.hyps(2,3)]
  consider "k = row" | "k \<noteq> row" "k \<in> set (ex_visited x')" | "k \<notin> set (ex_visited x')" by blast
  then show ?case
  proof cases
    case 1
    then show ?thesis using kind by (auto intro: Direct)
  next
    case 2
    then show ?thesis using Virtual.IH(1) [of k] Virtual.prems Virtual.hyps(4) kind by (auto intro: Nested [of row])
  next
    case 3
    then show ?thesis using Virtual.IH(2) [of k] Virtual.prems reaches_mono [of ev t rows k "row # rows"] by auto
  qed
qed auto

lemma reaches_closed:
  assumes "reaches ev t rows k" "\<forall>r\<in>set rows. repo_kind ev t r \<noteq> None \<longrightarrow> r \<in> V"
    "\<And>v nested n. v \<in> V \<Longrightarrow> repo_kind ev t v = Some TypeVirtual \<Longrightarrow> virtualStore_ListMembers (ve_fail ev) t v = Inr nested \<Longrightarrow>
       n \<in> set nested \<Longrightarrow> repo_kind ev t n \<noteq> None \<Longrightarrow> n \<in> V"
  shows "k \<in> V"
  using assms(1,2) by (induction rule: reaches.induct) (use assms(3) in \<open>auto\<close>)

definition keys_of_kind :: "venv \<Rightarrow> tables \<Rightarrow> string \<Rightarrow> string set \<Rightarrow> string set" where
  "keys_of_kind ev t kind V = {k \<in> V. repo_kind ev t k = Some kind}"

definition steps_for :: "venv \<Rightarrow> tables \<Rightarrow> string \<Rightarrow> virtualMember list \<Rightarrow> string set \<Rightarrow> bool" where
  "steps_for ev t kind ms V \<longleftrightarrow>
     distinct (map m_key ms) \<and> m_key ` set ms = keys_of_kind ev t kind V \<and>
     (\<forall>m\<in>set ms. \<exists>r. repos_Get (ve_fail ev) t (m_key m) = Inr r \<and> m = member_step ev r)"

lemma steps_for_append:
  "steps_for ev t kind ms V \<Longrightarrow> steps_for ev t kind ns W \<Longrightarrow> V \<inter> W = {} \<Longrightarrow> steps_for ev t kind (ms @ ns) (V \<union> W)"
  by (auto simp: steps_for_def keys_of_kind_def)

lemma steps_for_other: "steps_for ev t kind [] V \<longleftrightarrow> keys_of_kind ev t kind V = {}"
  by (auto simp: steps_for_def)

lemma steps_for_single:
  "repos_Get (ve_fail ev) t row = Inr r \<Longrightarrow> repo_kind ev t row = Some kind \<Longrightarrow> steps_for ev t kind [member_step ev r] {row}"
  using repos_Get_key [of ev t row r] by (auto simp: steps_for_def keys_of_kind_def member_step_def)

lemma expands_steps:
  "expands ev t rows x y \<Longrightarrow>
   \<exists>L R. ex_locals y = ex_locals x @ L \<and> ex_remotes y = ex_remotes x @ R \<and>
     steps_for ev t TypeLocal L (set (ex_visited y) - set (ex_visited x)) \<and>
     steps_for ev t TypeRemote R (set (ex_visited y) - set (ex_visited x))"
proof (induction rule: expands.induct)
  case (Nil x)
  then show ?case by (simp add: steps_for_other keys_of_kind_def)
next
  case (Local row x r rows y)
  let ?W = "set (ex_visited y) - insert row (set (ex_visited x))"
  obtain L R where LR: "ex_locals y = ex_locals x @ [member_step ev r] @ L" "ex_remotes y = ex_remotes x @ R"
      "steps_for ev t TypeLocal L ?W" "steps_for ev t TypeRemote R ?W"
    using Local.IH by auto
  have split: "set (ex_visited y) - set (ex_visited x) = {row} \<union> ?W"
    using expands_grows [OF Local.hyps(4)] Local.hyps(1) by auto
  note kind = repo_kind_Get(1) [OF Local.hyps(2,3)]
  have "steps_for ev t TypeLocal ([member_step ev r] @ L) ({row} \<union> ?W)" "steps_for ev t TypeRemote ([] @ R) ({row} \<union> ?W)"
    using LR(3,4) steps_for_single [OF Local.hyps(2) kind] kind
    by (intro steps_for_append; auto simp: steps_for_other keys_of_kind_def)+
  then show ?case using LR(1,2) unfolding split by auto
next
  case (Remote row x r rows y)
  let ?W = "set (ex_visited y) - insert row (set (ex_visited x))"
  obtain L R where LR: "ex_locals y = ex_locals x @ L" "ex_remotes y = ex_remotes x @ [member_step ev r] @ R"
      "steps_for ev t TypeLocal L ?W" "steps_for ev t TypeRemote R ?W"
    using Remote.IH by auto
  have split: "set (ex_visited y) - set (ex_visited x) = {row} \<union> ?W"
    using expands_grows [OF Remote.hyps(4)] Remote.hyps(1) by auto
  note kind = repo_kind_Get(2) [OF Remote.hyps(2,3)]
  have "steps_for ev t TypeRemote ([member_step ev r] @ R) ({row} \<union> ?W)" "steps_for ev t TypeLocal ([] @ L) ({row} \<union> ?W)"
    using LR(3,4) steps_for_single [OF Remote.hyps(2) kind] kind
    by (intro steps_for_append; auto simp: steps_for_other keys_of_kind_def)+
  then show ?case using LR(1,2) unfolding split by auto
next
  case (Virtual row x r nested x' rows y)
  let ?U = "set (ex_visited x') - insert row (set (ex_visited x))" and ?W = "set (ex_visited y) - set (ex_visited x')"
  obtain L R where LR: "ex_locals x' = ex_locals x @ L" "ex_remotes x' = ex_remotes x @ R"
      "steps_for ev t TypeLocal L ?U" "steps_for ev t TypeRemote R ?U"
    using Virtual.IH(1) by auto
  obtain L' R' where LR': "ex_locals y = ex_locals x' @ L'" "ex_remotes y = ex_remotes x' @ R'"
      "steps_for ev t TypeLocal L' ?W" "steps_for ev t TypeRemote R' ?W"
    using Virtual.IH(2) by auto
  have split: "set (ex_visited y) - set (ex_visited x) = {row} \<union> (?U \<union> ?W)"
    using expands_grows [OF Virtual.hyps(5)] expands_grows [OF Virtual.hyps(6)] Virtual.hyps(1) by auto
  note kind = repo_kind_Get(3) [OF Virtual.hyps(2,3)]
  have row: "row \<in> set (ex_visited x')" using expands_grows [OF Virtual.hyps(5)] by simp
  have "steps_for ev t TypeLocal ([] @ L @ L') ({row} \<union> (?U \<union> ?W))" "steps_for ev t TypeRemote ([] @ R @ R') ({row} \<union> (?U \<union> ?W))"
    using LR(3,4) LR'(3,4) kind row by (intro steps_for_append; auto simp: steps_for_other keys_of_kind_def)+
  then show ?case using LR(1,2) LR'(1,2) unfolding split by auto
qed auto

text \<open>The six runs of the order: the priority class, and in it real locals, cache facets, remote bodies.\<close>

definition segment :: "virtualMember \<Rightarrow> nat" where
  "segment m = (if m_priority m then 0 else 3) +
     (if m_facet m = FacetCache then 1 else if m_typ m = TypeRemote then 2 else 0)"

definition resolvable :: "venv \<Rightarrow> tables \<Rightarrow> string \<Rightarrow> string list \<Rightarrow> string \<Rightarrow> string set" where
  "resolvable ev t v rows kind = {k. reaches ev t rows k \<and> k \<noteq> v \<and> repo_kind ev t k = Some kind}"

lemma order_steps:
  assumes "virtualMemberOrder ev t v = Inr order" "virtualStore_ListMembers (ve_fail ev) t v = Inr rows"
  obtains L R where "order = concat (map (\<lambda>prio. filter (\<lambda>m. m_priority m = prio) L @
        map cache_facet (filter (\<lambda>m. m_priority m = prio) R) @ filter (\<lambda>m. m_priority m = prio) R) [True, False])"
    "steps_for ev t TypeLocal L (resolvable ev t v rows TypeLocal)"
    "steps_for ev t TypeRemote R (resolvable ev t v rows TypeRemote)"
proof -
  let ?x = "\<lparr>ex_visited = [v], ex_locals = [], ex_remotes = []\<rparr>"
  obtain y where y: "expand_rows ev t rows ?x = Inr y" and
    ord: "order = concat (map (\<lambda>prio. filter (\<lambda>m. m_priority m = prio) (ex_locals y) @
        map cache_facet (filter (\<lambda>m. m_priority m = prio) (ex_remotes y)) @ filter (\<lambda>m. m_priority m = prio) (ex_remotes y)) [True, False])"
    using assms by (auto simp: virtualMemberOrder_def expandVirtualMembers_def split: sum.splits)
  note ex = expand_rows_expands [OF y]
  have V: "set (ex_visited y) - {v} = {k. reaches ev t rows k \<and> k \<noteq> v}"
  proof (intro set_eqI iffI)
    fix k assume "k \<in> set (ex_visited y) - {v}"
    then show "k \<in> {k. reaches ev t rows k \<and> k \<noteq> v}" using expands_reaches [OF ex, of k] by simp
  next
    fix k assume k: "k \<in> {k. reaches ev t rows k \<and> k \<noteq> v}"
    have "k \<in> set (ex_visited y)"
    proof (rule reaches_closed [of ev t rows])
      show "reaches ev t rows k" using k by simp
      show "\<forall>r\<in>set rows. repo_kind ev t r \<noteq> None \<longrightarrow> r \<in> set (ex_visited y)" using expands_covers [OF ex] by blast
      show "n \<in> set (ex_visited y)"
        if "w \<in> set (ex_visited y)" "repo_kind ev t w = Some TypeVirtual" "virtualStore_ListMembers (ve_fail ev) t w = Inr nested"
          "n \<in> set nested" "repo_kind ev t n \<noteq> None" for w nested n
        using expands_closed [OF ex that(1) _ that(2)] expands_covers [OF ex, of n] that(3-5) assms(2) by (cases "w = v") auto
    qed
    then show "k \<in> set (ex_visited y) - {v}" using k by simp
  qed
  have *: "keys_of_kind ev t kind (set (ex_visited y) - {v}) = keys_of_kind ev t kind (resolvable ev t v rows kind)" for kind
    unfolding V by (auto simp: keys_of_kind_def resolvable_def)
  have "steps_for ev t TypeLocal (ex_locals y) (resolvable ev t v rows TypeLocal)"
    "steps_for ev t TypeRemote (ex_remotes y) (resolvable ev t v rows TypeRemote)"
    using expands_steps [OF ex] * by (auto simp: steps_for_def)
  then show ?thesis using that ord by blast
qed

lemma steps_for_members:
  assumes "steps_for ev t kind ms (resolvable ev t v rows kind)"
  shows "m_key ` set ms = resolvable ev t v rows kind" "distinct (map m_key ms)"
    "\<And>m. m \<in> set ms \<Longrightarrow> m_typ m = kind \<and> m_facet m = FacetPlain"
proof -
  show "m_key ` set ms = resolvable ev t v rows kind" "distinct (map m_key ms)"
    using assms by (auto simp: steps_for_def keys_of_kind_def resolvable_def)
  fix m assume m: "m \<in> set ms"
  then obtain r where r: "repos_Get (ve_fail ev) t (m_key m) = Inr r" "m = member_step ev r" using assms by (auto simp: steps_for_def)
  moreover have "repo_kind ev t (m_key m) = Some kind" using assms m by (auto simp: steps_for_def keys_of_kind_def)
  ultimately show "m_typ m = kind \<and> m_facet m = FacetPlain"
    by (auto simp: repo_kind_def member_step_def split: if_splits)
qed

lemma segments_mset:
  "mset (concat (map (\<lambda>prio. filter (\<lambda>m. m_priority m = prio) L @ map cache_facet (filter (\<lambda>m. m_priority m = prio) R) @
      filter (\<lambda>m. m_priority m = prio) R) [True, False])) = mset (L @ map cache_facet R @ R)" (is "mset ?o = _")
proof -
  have part: "mset (filter m_priority xs) + mset (filter (\<lambda>m. \<not> m_priority m) xs) = mset xs" for xs
    by (induction xs) auto
  have mix: "a + (c + b) + (a' + (c' + b')) = (a + a') + ((c + c') + (b + b'))" for a a' b b' c c' :: "virtualMember multiset"
    by (simp only: ac_simps)
  have "mset ?o = mset (filter m_priority L) + (image_mset cache_facet (mset (filter m_priority R)) + mset (filter m_priority R)) +
      (mset (filter (\<lambda>m. \<not> m_priority m) L) + (image_mset cache_facet (mset (filter (\<lambda>m. \<not> m_priority m) R)) + mset (filter (\<lambda>m. \<not> m_priority m) R)))"
    by simp
  also have "\<dots> = mset (L @ map cache_facet R @ R)"
    unfolding mix image_mset_union [symmetric] part by simp
  finally show ?thesis .
qed

lemma order_distinct:
  assumes "virtualMemberOrder ev t v = Inr order" "virtualStore_ListMembers (ve_fail ev) t v = Inr rows"
  shows "distinct (map (\<lambda>m. (m_key m, m_facet m)) order)"
    "set (map (\<lambda>m. (m_key m, m_facet m)) order) =
      resolvable ev t v rows TypeLocal \<times> {FacetPlain} \<union> resolvable ev t v rows TypeRemote \<times> {FacetPlain, FacetCache}"
proof -
  obtain L R where o: "order = concat (map (\<lambda>prio. filter (\<lambda>m. m_priority m = prio) L @
        map cache_facet (filter (\<lambda>m. m_priority m = prio) R) @ filter (\<lambda>m. m_priority m = prio) R) [True, False])"
      and sL: "steps_for ev t TypeLocal L (resolvable ev t v rows TypeLocal)"
      and sR: "steps_for ev t TypeRemote R (resolvable ev t v rows TypeRemote)"
    using order_steps [OF assms] .
  note L = steps_for_members [OF sL] and R = steps_for_members [OF sR]
  have ms0: "mset order = mset (L @ map cache_facet R @ R)" unfolding o by (rule segments_mset)
  have ms: "mset (map (\<lambda>m. (m_key m, m_facet m)) order) = mset (map (\<lambda>m. (m_key m, m_facet m)) (L @ map cache_facet R @ R))"
    using ms0 by (simp only: mset_map)
  have "map (\<lambda>m. (m_key m, m_facet m)) L = map (\<lambda>k. (k, FacetPlain)) (map m_key L)"
    "map (\<lambda>m. (m_key m, m_facet m)) R = map (\<lambda>k. (k, FacetPlain)) (map m_key R)"
    "map (\<lambda>m. (m_key m, m_facet m)) (map cache_facet R) = map (\<lambda>k. (k, FacetCache)) (map m_key R)"
    using L(3) R(3) by (simp_all add: cache_facet_def)
  note keys = this
  have dj: "m_key ` set L \<inter> m_key ` set R = {}" unfolding L(1) R(1) by (auto simp: resolvable_def)
  have "distinct (map (\<lambda>m. (m_key m, m_facet m)) (L @ map cache_facet R @ R))"
    unfolding map_append keys using L(2) R(2) dj by (auto simp: distinct_map inj_on_def)
  then show "distinct (map (\<lambda>m. (m_key m, m_facet m)) order)" using mset_eq_imp_distinct_iff [OF ms] by simp
  show "set (map (\<lambda>m. (m_key m, m_facet m)) order) =
      resolvable ev t v rows TypeLocal \<times> {FacetPlain} \<union> resolvable ev t v rows TypeRemote \<times> {FacetPlain, FacetCache}"
    unfolding mset_eq_setD [OF ms] map_append keys L(1) [symmetric] R(1) [symmetric] by auto
qed

text \<open>
  C33: The resolution order of a virtual repository. The traversal of the member lists ends whatever
  cycles the nested virtuals form, and the order it yields contains each local repository reachable
  through member lists exactly once, each reachable remote exactly twice (its cache and its body),
  and nothing else; priority repositories come before the others, and within each class locals
  come before caches and caches before remote bodies.
\<close>

theorem virtual_order_exact:
  assumes "virtualMemberOrder ev t v = Inr order" "virtualStore_ListMembers (ve_fail ev) t v = Inr rows"
  shows "sorted (map segment order) \<and> distinct (map (\<lambda>m. (m_key m, m_facet m)) order) \<and>
    (\<lambda>m. (m_key m, m_facet m)) ` set order =
      resolvable ev t v rows TypeLocal \<times> {FacetPlain} \<union> resolvable ev t v rows TypeRemote \<times> {FacetPlain, FacetCache}"
proof -
  obtain L R where o: "order = concat (map (\<lambda>prio. filter (\<lambda>m. m_priority m = prio) L @
        map cache_facet (filter (\<lambda>m. m_priority m = prio) R) @ filter (\<lambda>m. m_priority m = prio) R) [True, False])"
      and sL: "steps_for ev t TypeLocal L (resolvable ev t v rows TypeLocal)"
      and sR: "steps_for ev t TypeRemote R (resolvable ev t v rows TypeRemote)"
    using order_steps [OF assms] .
  note L = steps_for_members [OF sL] and R = steps_for_members [OF sR]
  have cf [simp]: "m_key (cache_facet m) = m_key m" "m_facet (cache_facet m) = FacetCache" "m_priority (cache_facet m) = m_priority m"
    "m_typ (cache_facet m) = m_typ m" for m
    by (simp_all add: cache_facet_def)
  have blk: "map segment xs = replicate (length xs) c" if "\<And>m. m \<in> set xs \<Longrightarrow> segment m = c" for xs c
    using that by (induction xs) auto
  have "map segment (filter (\<lambda>m. m_priority m = p) L) = replicate (length (filter (\<lambda>m. m_priority m = p) L)) (if p then 0 else 3)" for p
    by (rule blk) (auto simp: segment_def dest!: L(3))
  moreover have "map segment (map cache_facet (filter (\<lambda>m. m_priority m = p) R)) =
      replicate (length (map cache_facet (filter (\<lambda>m. m_priority m = p) R))) (if p then 1 else 4)" for p
    by (rule blk) (auto simp: segment_def)
  moreover have "map segment (filter (\<lambda>m. m_priority m = p) R) = replicate (length (filter (\<lambda>m. m_priority m = p) R)) (if p then 2 else 5)" for p
    by (rule blk) (auto simp: segment_def dest!: R(3))
  ultimately have "map segment order = concat (map (\<lambda>p. replicate (length (filter (\<lambda>m. m_priority m = p) L)) (if p then 0 else 3) @
      replicate (length (map cache_facet (filter (\<lambda>m. m_priority m = p) R))) (if p then 1 else 4) @
      replicate (length (filter (\<lambda>m. m_priority m = p) R)) (if p then 2 else 5)) [True, False])"
    unfolding o by (simp only: concat.simps list.map map_append)
  then have "sorted (map segment order)" by (auto simp: sorted_append)
  then show ?thesis using order_distinct [OF assms] by simp
qed



section \<open>What a read answers\<close>

definition answer :: "venv \<Rightarrow> tables \<Rightarrow> string \<Rightarrow> virtualMember \<Rightarrow> repo_error + Node option" where
  "answer ev t path m = fst (probe ev t path m)"

abbreviation asks_engine :: "virtualMember \<Rightarrow> bool" where
  "asks_engine m \<equiv> m_facet m \<noteq> FacetCache \<and> m_typ m = TypeRemote"

definition only_fresh_misses :: "venv \<Rightarrow> tables \<Rightarrow> string \<Rightarrow> bool" where
  "only_fresh_misses ev t path \<longleftrightarrow>
     (\<forall>e\<in>set (tb_cache t). ce_Path e = path \<longrightarrow> hasFreshNegative ev t (ce_RepoKey e) path)"

lemma same_cache: "\<exists>c. t = t\<lparr>tb_cache := c\<rparr>"
  by (rule exI [of _ "tb_cache t"]) simp

lemma other_rows_kept:
  assumes "filter (\<lambda>e. \<not> own_row k p e) c = filter (\<lambda>e. \<not> own_row k p e) d" "j \<noteq> k"
  shows "filter (own_row j p) c = filter (own_row j p) d"
proof -
  have "filter (own_row j p) xs = filter (own_row j p) (filter (\<lambda>e. \<not> own_row k p e) xs)" for xs
    using assms(2) by (induction xs) (auto simp: own_row_def)
  then show ?thesis using assms(1) by metis
qed

lemma confined_marks: "keeps_tables k p t t' \<Longrightarrow> tb_marks t' = tb_marks t"
  by (simp add: keeps_tables_def)

lemma confined_nodes: "keeps_tables k p t t' \<Longrightarrow> filter (\<lambda>n. nd_Path n \<noteq> p) (tb_nodes t') = filter (\<lambda>n. nd_Path n \<noteq> p) (tb_nodes t)"
proof -
  assume "keeps_tables k p t t'"
  moreover have "filter (\<lambda>n. nd_Path n \<noteq> p) xs = filter (\<lambda>n. nd_Path n \<noteq> p) (filter (\<lambda>n. \<not> own_node k p n) xs)" for xs
    by (induction xs) (auto simp: own_node_def)
  ultimately show ?thesis unfolding keeps_tables_def by metis
qed

text \<open>
  What the walk relies on in the remote engine: answering a path changes no row but that path's, a
  miss writes nothing but its cache row, a standing fresh miss is answered without writing, a
  success carries a copy, and the answer does not depend on the cache rows of other paths.
\<close>

locale pull_engine =
  fixes ev :: venv
  assumes confined: "ve_fetch ev k p t = (a, t') \<Longrightarrow> keeps_tables k p t t'"
    and missed: "ve_fetch ev k p t = (Unfound, t') \<Longrightarrow> \<exists>c. t' = t\<lparr>tb_cache := c\<rparr>"
    and remembered: "hasFreshNegative ev t k p \<Longrightarrow> ve_fetch ev k p t = (a, t') \<Longrightarrow> t' = t"
    and copied: "ve_fetch ev k p t \<noteq> (Copyless, t')"
    and local: "filter (own_row k p) c = filter (own_row k p) (tb_cache t) \<Longrightarrow> fst (ve_fetch ev k p (t\<lparr>tb_cache := c\<rparr>)) = fst (ve_fetch ev k p t)"
begin

lemma probe_confined: "probe ev t path m = (a, t') \<Longrightarrow> keeps_tables (m_key m) path t t'"
  by (auto simp: probe_def probeRemoteMember_def clearProbedNegative_def Let_def keeps_drop
      split: if_splits prod.splits fetch_answer.splits dest!: confined)

lemma answer_local:
  assumes "asks_engine m \<Longrightarrow> filter (own_row (m_key m) path) c = filter (own_row (m_key m) path) (tb_cache t)"
  shows "answer ev (t\<lparr>tb_cache := c\<rparr>) path m = answer ev t path m"
proof (cases "asks_engine m")
  case True
  have "fst (ve_fetch ev (m_key m) path (t\<lparr>tb_cache := c\<rparr>)) = fst (ve_fetch ev (m_key m) path t)" using assms True local by blast
  then show ?thesis using True by (auto simp: answer_def probe_def probeRemoteMember_def Let_def split: prod.splits fetch_answer.splits)
qed (auto simp: answer_def probe_def probeLocalMember_def nodeStore_Get_def)

text \<open>A step that misses changes at most the cache row it was asked about.\<close>

lemma miss_step:
  assumes "probe ev t path m = (Inr None, t')"
  shows "\<exists>c. t' = t\<lparr>tb_cache := c\<rparr>" "j \<noteq> m_key m \<or> \<not> asks_engine m \<Longrightarrow> filter (own_row j path) (tb_cache t') = filter (own_row j path) (tb_cache t)"
proof -
  show "\<exists>c. t' = t\<lparr>tb_cache := c\<rparr>"
  proof (cases "asks_engine m")
    case True
    then obtain t1 where "ve_fetch ev (m_key m) path t = (Unfound, t1)" "t' = t1 \<or> t' = remoteStore_DeleteCache (ve_fail ev) t1 (m_key m) path"
      using assms copied by (auto simp: probe_def probeRemoteMember_def clearProbedNegative_def Let_def split: if_splits prod.splits fetch_answer.splits)
    then show ?thesis using missed by (fastforce simp: remoteStore_DeleteCache_def)
  next
    case False
    then have "t' = t\<lparr>tb_cache := tb_cache t\<rparr>" using assms by (auto simp: probe_def split: if_splits)
    then show ?thesis by blast
  qed
  show "j \<noteq> m_key m \<or> \<not> asks_engine m \<Longrightarrow> filter (own_row j path) (tb_cache t') = filter (own_row j path) (tb_cache t)"
    using other_rows_kept [of "m_key m" path "tb_cache t'" "tb_cache t" j] probe_confined [OF assms] assms
    by (auto simp: keeps_tables_def probe_def split: if_splits)
qed

lemma walk_result:
  assumes "distinct (map (\<lambda>m. (m_key m, m_facet m)) order)"
    "\<And>m. m \<in> set order \<Longrightarrow> asks_engine m \<Longrightarrow> filter (own_row (m_key m) path) c = filter (own_row (m_key m) path) (tb_cache t)"
  shows "fst (walk ev v path order (t\<lparr>tb_cache := c\<rparr>)) =
     (case find (\<lambda>m. \<not> skipped (isSnapshotResolutionPath path) m \<and> answer ev t path m \<noteq> Inr None) order of
        None \<Rightarrow> Inl ErrNodeNotFound
      | Some m \<Rightarrow> (case answer ev t path m of Inl e \<Rightarrow> Inl e | Inr None \<Rightarrow> Inl ErrNodeNotFound | Inr (Some n) \<Rightarrow> Inr (n, m_key m)))"
  using assms
proof (induction order arbitrary: c)
  case (Cons m ms)
  obtain a t' where p: "probe ev (t\<lparr>tb_cache := c\<rparr>) path m = (a, t')" by fastforce
  then have a: "a = answer ev t path m" using answer_local [of m path c t] Cons.prems(2) by (simp add: answer_def)
  have IH: "fst (walk ev v path ms (t\<lparr>tb_cache := d\<rparr>)) =
     (case find (\<lambda>m. \<not> skipped (isSnapshotResolutionPath path) m \<and> answer ev t path m \<noteq> Inr None) ms of
        None \<Rightarrow> Inl ErrNodeNotFound
      | Some m \<Rightarrow> (case answer ev t path m of Inl e \<Rightarrow> Inl e | Inr None \<Rightarrow> Inl ErrNodeNotFound | Inr (Some n) \<Rightarrow> Inr (n, m_key m)))"
    if "\<And>x. x \<in> set ms \<Longrightarrow> asks_engine x \<Longrightarrow> filter (own_row (m_key x) path) d = filter (own_row (m_key x) path) c" for d
    using Cons.IH [of d] Cons.prems that by simp
  show ?case
  proof (cases "skipped (isSnapshotResolutionPath path) m")
    case False
    show ?thesis
    proof (cases "a = Inr None")
      case True
      note M = miss_step [OF p [unfolded True]]
      have "t' = t\<lparr>tb_cache := tb_cache t'\<rparr>" using M(1) by auto
      moreover have "filter (own_row (m_key x) path) (tb_cache t') = filter (own_row (m_key x) path) c" if "x \<in> set ms" "asks_engine x" for x
      proof -
        have "(m_key x, m_facet x) \<noteq> (m_key m, m_facet m)" using Cons.prems(1) that(1) by (auto simp: image_iff)
        then have "m_key x \<noteq> m_key m \<or> \<not> asks_engine m" using that(2) by (cases "m_facet m"; cases "m_facet x") simp_all
        then show ?thesis using M(2) by simp
      qed
      ultimately show ?thesis using IH [of "tb_cache t'"] p True a False by simp
    qed (use p a False in \<open>auto split: sum.splits option.splits\<close>)
  qed (use IH [of c] in simp)
qed simp

lemma walk_nodes:
  "filter (\<lambda>n. nd_Path n \<noteq> path) (tb_nodes (snd (walk ev v path order t))) = filter (\<lambda>n. nd_Path n \<noteq> path) (tb_nodes t)"
proof (induction order arbitrary: t)
  case (Cons m ms)
  obtain a t' where p: "probe ev t path m = (a, t')" by fastforce
  show ?case using Cons.IH [of t] Cons.IH [of t'] p confined_nodes [OF probe_confined [OF p]] by (auto split: sum.splits option.splits)
qed simp

lemma walk_marks:
  "length (tb_marks (snd (walk ev v path order t))) = length (tb_marks t) + (case fst (walk ev v path order t) of Inl _ \<Rightarrow> 0 | Inr _ \<Rightarrow> 1)"
proof (induction order arbitrary: t)
  case (Cons m ms)
  obtain a t' where p: "probe ev t path m = (a, t')" by fastforce
  show ?case using Cons.IH [of t] Cons.IH [of t'] p confined_marks [OF probe_confined [OF p]] by (auto split: sum.splits option.splits)
qed simp

lemma probe_miss_clean:
  assumes "only_fresh_misses ev t path" "\<And>k. \<not> ve_fail ev (CacheDrop k path)" "probe ev t path m = (Inr None, t')"
  shows "t' = t"
proof (cases "asks_engine m")
  case True
  let ?k = "m_key m"
  obtain t1 where f: "ve_fetch ev ?k path t = (Unfound, t1)" "t' = (if hasFreshNegative ev t ?k path then t1 else remoteStore_DeleteCache (ve_fail ev) t1 ?k path)"
    using assms(3) True copied by (auto simp: probe_def probeRemoteMember_def Let_def clearProbedNegative_def split: if_splits prod.splits fetch_answer.splits)
  show ?thesis
  proof (cases "hasFreshNegative ev t ?k path")
    case True
    then show ?thesis using f remembered by simp
  next
    case False
    then have "\<forall>e\<in>set (tb_cache t). \<not> own_row ?k path e"
      using assms(1) by (auto simp: only_fresh_misses_def own_row_def)
    then have "filter (\<lambda>e. \<not> own_row ?k path e) (tb_cache t1) = tb_cache t" using confined [OF f(1)] by (simp add: keeps_tables_def)
    then have "filter (\<lambda>e. \<not> (ce_RepoKey e = ?k \<and> ce_Path e = path)) (tb_cache t1) = tb_cache t" by (simp add: own_row_def)
    then show ?thesis using f(2) False missed [OF f(1)] assms(2) by (auto simp: remoteStore_DeleteCache_def)
  qed
qed (use assms(3) in \<open>auto simp: probe_def split: if_splits\<close>)

lemma walk_miss_clean:
  assumes "only_fresh_misses ev t path" "\<And>k. \<not> ve_fail ev (CacheDrop k path)"
    "\<forall>m\<in>set order. skipped (isSnapshotResolutionPath path) m \<or> answer ev t path m = Inr None"
  shows "walk ev v path order t = (Inl ErrNodeNotFound, t)"
  using assms(3)
proof (induction order)
  case (Cons m ms)
  obtain a t' where p: "probe ev t path m = (a, t')" by fastforce
  show ?case
  proof (cases "skipped (isSnapshotResolutionPath path) m")
    case False
    then have "a = Inr None" using Cons.prems p by (auto simp: answer_def)
    then show ?thesis using probe_miss_clean [OF assms(1,2)] p Cons False by auto
  qed (use Cons in simp)
qed simp

end

text \<open>
  First hit wins. A file read through a virtual repository is answered by the first step of the
  resolution order that is not skipped and does not miss: its copy is served and credited to that
  member, or its failure is passed on; only when every step misses is the file not found. On
  snapshot paths the steps skipped are the caches and the members that refuse snapshots. The walk
  changes no node row of another path, and the download is counted exactly once and only when it
  is served.
\<close>

theorem virtual_first_hit:
  assumes "pull_engine ev" "virtualMemberOrder ev t v = Inr order" "\<not> isFolderNode path"
  shows "fst (getVirtual ev t v path) =
      (case find (\<lambda>m. \<not> skipped (isSnapshotResolutionPath path) m \<and> answer ev t path m \<noteq> Inr None) order of
         None \<Rightarrow> Inl ErrNodeNotFound
       | Some m \<Rightarrow> (case answer ev t path m of Inl e \<Rightarrow> Inl e | Inr None \<Rightarrow> Inl ErrNodeNotFound | Inr (Some n) \<Rightarrow> Inr (n, m_key m))) \<and>
    filter (\<lambda>n. nd_Path n \<noteq> path) (tb_nodes (snd (getVirtual ev t v path))) = filter (\<lambda>n. nd_Path n \<noteq> path) (tb_nodes t) \<and>
    length (tb_marks (snd (getVirtual ev t v path))) =
      length (tb_marks t) + (case fst (getVirtual ev t v path) of Inl _ \<Rightarrow> 0 | Inr _ \<Rightarrow> 1)"
proof -
  have g: "getVirtual ev t v path = walk ev v path order t" using assms by (simp add: getVirtual_def)
  obtain rows where "virtualStore_ListMembers (ve_fail ev) t v = Inr rows"
    using assms(2) by (auto simp: virtualMemberOrder_def expandVirtualMembers_def split: sum.splits)
  note d = order_distinct(1) [OF assms(2) this]
  show ?thesis
    unfolding g using pull_engine.walk_result [OF assms(1) d, where c = "tb_cache t" and t = t and path = path and v = v]
      pull_engine.walk_nodes [OF assms(1)] pull_engine.walk_marks [OF assms(1)] by simp
qed

text \<open>
  A scan that finds nothing leaves no trace. When the path has no cache row but fresh misses
  and the misses can be dropped, a virtual read that answers not found leaves every table exactly
  as it was, although each remote member was asked.
\<close>

theorem virtual_miss_leaves_no_residue:
  assumes "pull_engine ev" "only_fresh_misses ev t path" "\<And>k. \<not> ve_fail ev (CacheDrop k path)"
    and "virtualMemberOrder ev t v = Inr order"
    and "\<forall>m\<in>set order. skipped (isSnapshotResolutionPath path) m \<or> answer ev t path m = Inr None"
  shows "getVirtual ev t v path = (Inl (if isFolderNode path then getVirtualFolder ev t v path order else ErrNodeNotFound), t)"
  using pull_engine.walk_miss_clean [OF assms(1-3,5)] assms(4) by (simp add: getVirtual_def)



section \<open>A small instance\<close>

text \<open>
  Two virtual repositories that list each other, a local repository and a remote whose upstream
  does not have the file and remembers misses for an hour.
\<close>

definition demo_miss :: "string \<Rightarrow> string \<Rightarrow> RemoteCacheEntry" where
  "demo_miss m p = \<lparr>ce_RepoKey = m, ce_Path = p, ce_ETag = [], ce_LastModified = [], ce_FetchedAt = [], ce_ExpiresAt = ''1970-01-01T01:00:00Z'', ce_Kind = negativeEntryKind\<rparr>"

definition demo_venv :: venv where
  "demo_venv = \<lparr>ve_priority = (\<lambda>c. False), ve_snapshots = (\<lambda>c. c \<noteq> ''no snapshots''), ve_route = (\<lambda>c. []), ve_opens = (\<lambda>s. True),
     ve_engine = True,
     ve_fetch = (\<lambda>m p t. (Unfound, if list_ex (own_row m p) (tb_cache t) then t else t\<lparr>tb_cache := demo_miss m p # tb_cache t\<rparr>)),
     ve_browse = (\<lambda>m p. ([], [])), ve_browseFolder = (\<lambda>m d. False), ve_now = 0, ve_fail = (\<lambda>r. False)\<rparr>"

definition demo_repo :: "string \<Rightarrow> string \<Rightarrow> string \<Rightarrow> Repo" where
  "demo_repo k ty cfg = \<lparr>rp_RepoKey = k, rp_Type = ty, rp_PackageType = ''generic'', rp_Config = cfg\<rparr>"

definition demo_tables :: tables where
  "demo_tables = \<lparr>tb_repos = [demo_repo ''all'' TypeVirtual [], demo_repo ''team'' TypeVirtual [], demo_repo ''up'' TypeRemote [], demo_repo ''libs'' TypeLocal []],
     tb_members = [\<lparr>vm_VirtualRepo = ''all'', vm_MemberRepo = ''team'', vm_Position = 0\<rparr>, \<lparr>vm_VirtualRepo = ''team'', vm_MemberRepo = ''all'', vm_Position = 0\<rparr>,
       \<lparr>vm_VirtualRepo = ''team'', vm_MemberRepo = ''up'', vm_Position = 1\<rparr>, \<lparr>vm_VirtualRepo = ''team'', vm_MemberRepo = ''libs'', vm_Position = 2\<rparr>],
     tb_configs = [], tb_nodes = [\<lparr>nd_RepoKey = ''libs'', nd_Path = ''a.jar'', nd_Sha256 = ''aa'', nd_Size = 3, nd_Mime = [], nd_CreatedBy = [], nd_CreatedAt = [], nd_UpdatedAt = []\<rparr>], tb_blobs = [], tb_cache = [], tb_marks = []\<rparr>"

definition demo_order :: "virtualMember list" where
  "demo_order = [member_step demo_venv (demo_repo ''libs'' TypeLocal []),
     cache_facet (member_step demo_venv (demo_repo ''up'' TypeRemote [])), member_step demo_venv (demo_repo ''up'' TypeRemote [])]"

lemma demo_order: "virtualMemberOrder demo_venv demo_tables ''all'' = Inr demo_order"
  by code_simp

lemma demo_members: "virtualStore_ListMembers (ve_fail demo_venv) demo_tables ''all'' = Inr [''team'']"
  by code_simp

theorem virtual_order_exact_witness:
  "sorted (map segment demo_order) \<and>
   resolvable demo_venv demo_tables ''all'' [''team''] TypeLocal = {''libs''}"
proof -
  let ?A = "resolvable demo_venv demo_tables ''all'' [''team''] TypeLocal" and ?B = "resolvable demo_venv demo_tables ''all'' [''team''] TypeRemote"
  have "(\<lambda>m. (m_key m, m_facet m)) ` set demo_order = {(''libs'', FacetPlain), (''up'', FacetCache), (''up'', FacetPlain)}"
    by (simp add: demo_order_def member_step_def demo_repo_def cache_facet_def)
  then have eq: "?A \<times> {FacetPlain} \<union> ?B \<times> {FacetPlain, FacetCache} = {(''libs'', FacetPlain), (''up'', FacetCache), (''up'', FacetPlain)}"
    using virtual_order_exact [OF demo_order demo_members] by simp
  have "repo_kind demo_venv demo_tables ''up'' = Some TypeRemote" by code_simp
  then have "''up'' \<notin> ?A" by (simp add: resolvable_def)
  moreover have "x = ''libs'' \<or> x = ''up''" if "x \<in> ?A" for x
  proof -
    have "(x, FacetPlain) \<in> ?A \<times> {FacetPlain} \<union> ?B \<times> {FacetPlain, FacetCache}" using that by simp
    then show ?thesis unfolding eq by simp
  qed
  moreover have "''libs'' \<in> ?A"
  proof -
    have "(''libs'', FacetPlain) \<in> ?A \<times> {FacetPlain} \<union> ?B \<times> {FacetPlain, FacetCache}"
      "(''libs'', FacetCache) \<notin> ?A \<times> {FacetPlain} \<union> ?B \<times> {FacetPlain, FacetCache}" unfolding eq by simp_all
    then show ?thesis by simp
  qed
  ultimately have "?A = {''libs''}" by blast
  then show ?thesis using virtual_order_exact [OF demo_order demo_members] by simp
qed

lemma demo_engine: "pull_engine demo_venv"
proof
  fix t k p a t' assume f: "hasFreshNegative demo_venv t k p" "ve_fetch demo_venv k p t = (a, t')"
  have "list_ex (own_row k p) (tb_cache t)"
    using f(1) by (auto simp: hasFreshNegative_def remoteStore_GetCache_def list_ex_iff find_Some_iff own_row_def split: option.splits if_splits)
  then show "t' = t" using f(2) by (simp add: demo_venv_def)
qed (auto simp: demo_venv_def keeps_tables_def own_row_def demo_miss_def same_cache)

theorem virtual_first_hit_witness:
  "fst (getVirtual demo_venv demo_tables ''all'' ''a.jar'') =
     Inr (\<lparr>nd_RepoKey = ''libs'', nd_Path = ''a.jar'', nd_Sha256 = ''aa'', nd_Size = 3, nd_Mime = [], nd_CreatedBy = [], nd_CreatedAt = [], nd_UpdatedAt = []\<rparr>, ''libs'')"
proof -
  have "\<not> isFolderNode ''a.jar''" by code_simp
  moreover have "find (\<lambda>m. \<not> skipped (isSnapshotResolutionPath ''a.jar'') m \<and> answer demo_venv demo_tables ''a.jar'' m \<noteq> Inr None) demo_order =
      Some (member_step demo_venv (demo_repo ''libs'' TypeLocal []))" by code_simp
  moreover have "answer demo_venv demo_tables ''a.jar'' (member_step demo_venv (demo_repo ''libs'' TypeLocal [])) =
      Inr (Some \<lparr>nd_RepoKey = ''libs'', nd_Path = ''a.jar'', nd_Sha256 = ''aa'', nd_Size = 3, nd_Mime = [], nd_CreatedBy = [], nd_CreatedAt = [], nd_UpdatedAt = []\<rparr>)" by code_simp
  ultimately show ?thesis using virtual_first_hit [OF demo_engine demo_order, of "''a.jar''"] by (simp add: member_step_def demo_repo_def)
qed

theorem virtual_miss_leaves_no_residue_witness:
  "getVirtual demo_venv demo_tables ''all'' ''b.jar'' = (Inl ErrNodeNotFound, demo_tables)"
proof -
  have "only_fresh_misses demo_venv demo_tables ''b.jar''" by (simp add: only_fresh_misses_def demo_tables_def)
  moreover have "\<not> ve_fail demo_venv (CacheDrop k ''b.jar'')" for k by (simp add: demo_venv_def)
  moreover have "list_all (\<lambda>m. answer demo_venv demo_tables ''b.jar'' m = Inr None) demo_order" by code_simp
  then have "\<forall>m\<in>set demo_order. skipped (isSnapshotResolutionPath ''b.jar'') m \<or> answer demo_venv demo_tables ''b.jar'' m = Inr None"
    by (simp add: list_all_iff)
  moreover have "\<not> isFolderNode ''b.jar''" by code_simp
  ultimately show ?thesis using virtual_miss_leaves_no_residue [OF demo_engine _ _ demo_order, of "''b.jar''"] by simp
qed

text \<open>
  The clean-up is wider than the row the probe wrote. A remote that is blacked out answers unfound
  before it looks at its cache and writes nothing; the walk then drops the row of a copy that was
  fetched earlier.
\<close>

definition demo_content :: RemoteCacheEntry where
  "demo_content = \<lparr>ce_RepoKey = ''up'', ce_Path = ''b.jar'', ce_ETag = [], ce_LastModified = [], ce_FetchedAt = [], ce_ExpiresAt = ''1970-01-01T01:00:00Z'', ce_Kind = ''content''\<rparr>"

lemma blocked_out_probe_drops_content_row:
  "tb_cache (snd (getVirtual (demo_venv\<lparr>ve_fetch := (\<lambda>m p t. (Unfound, t))\<rparr>) (demo_tables\<lparr>tb_cache := [demo_content]\<rparr>) ''all'' ''b.jar'')) = []"
  by code_simp

text \<open>
  Browsing and downloading can name different owners of a snapshot: the listing walks every
  member, the download skips the members that refuse snapshots.
\<close>

definition demo_snapshots :: tables where
  "demo_snapshots = demo_tables\<lparr>
     tb_repos := [demo_repo ''all'' TypeVirtual [], demo_repo ''old'' TypeLocal ''no snapshots'', demo_repo ''libs'' TypeLocal []],
     tb_members := [\<lparr>vm_VirtualRepo = ''all'', vm_MemberRepo = ''old'', vm_Position = 0\<rparr>, \<lparr>vm_VirtualRepo = ''all'', vm_MemberRepo = ''libs'', vm_Position = 1\<rparr>],
     tb_nodes := [\<lparr>nd_RepoKey = ''old'', nd_Path = ''1-SNAPSHOT/a'', nd_Sha256 = ''aa'', nd_Size = 3, nd_Mime = [], nd_CreatedBy = [], nd_CreatedAt = [], nd_UpdatedAt = []\<rparr>,
       \<lparr>nd_RepoKey = ''libs'', nd_Path = ''1-SNAPSHOT/a'', nd_Sha256 = ''bb'', nd_Size = 4, nd_Mime = [], nd_CreatedBy = [], nd_CreatedAt = [], nd_UpdatedAt = []\<rparr>]\<rparr>"

lemma browse_and_download_disagree:
  "map_sum id (map nd_RepoKey \<circ> fst) (listVirtual demo_venv demo_snapshots ''all'' []) = Inr [''old'']"
  "map_sum id snd (fst (getVirtual demo_venv demo_snapshots ''all'' ''1-SNAPSHOT/a'')) = Inr ''libs''"
  by code_simp+

end
