(* ===== verification/Remote_Virtual.thy ===== *)
theory Remote_Virtual
  imports Remote_Cache Repo_Virtual
begin

text \<open>
  Virtual repositories over the pull-through engine: the read of \<open>internal/remote/fetcher.go\<close>, seen
  through \<open>probeRemoteMember\<close> of \<open>internal/repo/virtual.go\<close>, keeps every law the virtual walk relies
  on.
\<close>


section \<open>The engine as the walk sees it\<close>

text \<open>\<open>msg\<close> renders the message of a classified error.\<close>

definition answer_of :: "(fetch_reason \<Rightarrow> string) \<Rightarrow> (fetch_error + FetchResult) option \<Rightarrow> fetch_answer" where
  "answer_of msg r =
     (case r of
        Some (Inr res) \<Rightarrow> if fr_HasCopy res then Copy (fr_Node res) else Copyless
      | Some (Inl (FetchError status reason unfound)) \<Rightarrow> if unfound then Unfound else Refused status (msg reason)
      | _ \<Rightarrow> EngineError)"

text \<open>
  One probe, seen from the walk: the tables are threaded from probe to probe, while the storage
  engine, the offline windows and the fault counts are those of one given world \<open>w\<close> at the start of
  every probe. It serves only to show that the engine keeps the laws of \<open>pull_engine\<close>, which speak
  of a single probe on arbitrary tables: the laws hold for every \<open>w\<close>, so for the one a run of the
  walk has reached too.
\<close>

definition engine_fetch :: "hash_suite \<Rightarrow> (string \<Rightarrow> string \<Rightarrow> fenv) \<Rightarrow> (fetch_reason \<Rightarrow> string) \<Rightarrow> world \<Rightarrow> string \<Rightarrow> string \<Rightarrow> tables \<Rightarrow> fetch_answer \<times> tables" where
  "engine_fetch H E msg w k p t =
     (case Fetch H (E k p) [] k p (w\<lparr>wd_t := t\<rparr>) of (r, w') \<Rightarrow> (answer_of msg r, wd_t w'))"

text \<open>The probes of all members run on one clock and one store.\<close>

definition shared_clock :: "venv \<Rightarrow> (string \<Rightarrow> string \<Rightarrow> fenv) \<Rightarrow> string \<Rightarrow> string \<Rightarrow> fenv" where
  "shared_clock ev E k p = (E k p)\<lparr>fe_now := ve_now ev, fe_fail := ve_fail ev\<rparr>"

definition over_engine :: "hash_suite \<Rightarrow> (string \<Rightarrow> string \<Rightarrow> fenv) \<Rightarrow> (fetch_reason \<Rightarrow> string) \<Rightarrow> world \<Rightarrow> venv \<Rightarrow> venv" where
  "over_engine H E msg w ev = ev\<lparr>ve_engine := True, ve_fetch := engine_fetch H (shared_clock ev E) msg w\<rparr>"


section \<open>Successes carry a copy, misses write at most a cache row\<close>

definition tidy :: "world \<Rightarrow> (fetch_error + FetchResult) \<times> world \<Rightarrow> bool" where
  "tidy w x \<longleftrightarrow>
     (case fst x of
        Inr res \<Rightarrow> fr_HasCopy res
      | Inl (FetchError status reason unfound) \<Rightarrow> (\<exists>c. wd_t (snd x) = (wd_t w)\<lparr>tb_cache := c\<rparr>)
      | Inl _ \<Rightarrow> True)"

lemma tidy_copy: "tidy w (serveCopy fe v n s b, w')"
  by (auto simp: tidy_def serveCopy_def split: sum.split)

lemma tidy_same: "wd_t w' = wd_t w \<Longrightarrow> tidy w (Inl e, w')"
  by (simp add: tidy_def same_cache split: fetch_error.split)

lemma tidy_cong:
  assumes "wd_t v = wd_t w"
  shows "tidy v x = tidy w x"
  unfolding tidy_def assms ..

lemma tidy_downgrade: "tidy w (downgrade fe node k pol ext fault w)"
  by (simp add: downgrade_def serveStale_def Let_def tidy_copy tidy_same)

lemma tidy_fault: "tidy w (mapTransportFault fe k pol node err ext w)"
proof -
  define v where "v = (if ext then w else let (open1, w1) = noteTransportFault k w in if open1 then markOffline k (offline_until fe pol) w1 else w1)"
  have "wd_t v = wd_t w" by (simp add: v_def noteTransportFault_def world_simps)
  then have "tidy w (downgrade fe node k pol ext True v)" using tidy_downgrade tidy_cong by blast
  then show ?thesis by (auto simp: mapTransportFault_def v_def Let_def tidy_same split: prod.splits if_splits)
qed

lemma tidy_status: "tidy w (mapUpstreamStatus fe k p cfg pol node status ext w)"
proof -
  define v where "v = (if ext then w else markOffline k (offline_until fe pol) w)"
  have "wd_t v = wd_t w" by (simp add: v_def world_simps)
  then have d: "tidy w (downgrade fe node k pol ext False v)" using tidy_downgrade tidy_cong by blast
  have m: "tidy w (Inl unfoundMissing, w\<lparr>wd_t := remoteStore_PutCache e (wd_t w)\<rparr>)" for e
    by (auto simp: tidy_def unfoundMissing_def remoteStore_PutCache_def)
  show ?thesis
    unfolding mapUpstreamStatus_def Let_def v_def [symmetric] serveStale_def
    by (auto simp: d m tidy_copy tidy_same split: option.splits prod.splits)
qed

lemma land_fault:
  "land H fe k p kind cfg pol resp w = (Inl UpstreamBody, w') \<Longrightarrow> wd_t w' = wd_t w"
  "land H fe k p kind cfg pol resp w = (Inl (LocalFault e), w') \<Longrightarrow> \<exists>c. e = WriteFailed c \<or> e = StorageFailed"
  unfolding land_def Let_def
  by (auto simp: serveCopy_def store_body_def split: if_splits sum.splits prod.splits)

lemma tidy_contact:
  assumes "contactUpstream H fe row cfg pol k p target node w = (r, w')"
  shows "tidy w (r, w')"
proof (cases "outbound fe row cfg pol k p target")
  case (Inl e)
  then show ?thesis using assms by (auto simp: contactUpstream_def Let_def tidy_same)
next
  case (Inr cr)
  obtain ans hops where e: "exchange fe row k p node cr w = (ans, hops)" by fastforce
  let ?w1 = "log_sent k p hops w" and ?kind = "classifyPath fe (rp_PackageType row) p"
  note C = assms [unfolded contact_answer [OF Inr e] Let_def]
  show ?thesis
  proof (cases ans)
    case (Inl err)
    have "tidy ?w1 (r, w')" using C tidy_fault [of ?w1 fe k pol node "Some err" "target \<noteq> []"] by (simp add: Inl)
    then show ?thesis using tidy_cong [of ?w1 w] by (simp add: world_simps)
  next
    case (Inr resp)
    define w2 where "w2 = (if target \<noteq> [] then ?w1 else upstreamReached k ?w1)"
    have w2: "wd_t w2 = wd_t w" by (simp add: w2_def world_simps)
    show ?thesis
    proof (cases "rs_StatusCode resp = 200")
      case False
      then have "tidy w2 (r, w')" using C tidy_status [of w2 fe k p cfg pol node "rs_StatusCode resp" "target \<noteq> []"] by (simp add: Inr w2_def)
      then show ?thesis using tidy_cong [OF w2] by simp
    next
      case True
      let ?resp = "if ?kind = RemoteCacheKindMetadata then resp\<lparr>rs_BodyOk := True\<rparr> else resp"
      obtain l w3 where l: "land H fe k p ?kind cfg pol ?resp w2 = (l, w3)" by fastforce
      note C3 = C [unfolded Inr sum.case w2_def [symmetric], simplified True, simplified, unfolded l prod.case]
      consider res where "l = Inr res" | f where "l = Inl (LocalFault f)" | "l = Inl UpstreamBody" by (cases l) (auto elim: land_error.exhaust)
      then show ?thesis
      proof cases
        case 1
        then show ?thesis using C3 land_served l by (auto simp: tidy_def)
      next
        case 2
        then show ?thesis using C3 land_fault(2) l by (fastforce simp: tidy_def)
      next
        case 3
        then have "tidy w3 (r, w')" using C3 tidy_fault [of w3 fe k pol node None "target \<noteq> []"] by (auto simp: tidy_same split: if_splits)
        then show ?thesis using tidy_cong [of w3 w] land_fault(1) l 3 w2 by auto
      qed
    qed
  qed
qed

lemma tidy_locked: "tidy w (fetch_locked H fe row cfg pol k p target node w)"
  using tidy_contact [of H fe row cfg pol k p target _ w] unfolding fetch_locked_def Let_def
  by (auto simp: tidy_copy tidy_same world_simps) (metis surj_pair)+

lemma tidy_unlocked:
  assumes "fetch_unlocked fe pol k p target node w = (Some r, w')"
  shows "tidy w (r, w')"
proof -
  obtain b v where o: "offlineWindow k (fe_now fe) w = (b, v)" by fastforce
  have "tidy w (downgrade fe node k pol False False v)" "tidy w (downgrade fe node k pol False False w)"
    using tidy_downgrade tidy_cong window_frame [OF o] by blast+
  then show ?thesis using assms o
    by (auto simp: fetch_unlocked_def Let_def tidy_copy tidy_same split: if_splits bool.splits prod.splits)
qed

lemma tidy_fetch:
  assumes "Fetch H fe [] k p w = (Some r, w')"
  shows "tidy w (r, w')"
proof (cases "loadRepo fe (wd_t w) k")
  case (Inl e)
  then show ?thesis using assms by (auto simp: Fetch_def fetchFlow_def tidy_same)
next
  case (Inr x)
  obtain row cfg pol where x: "x = (row, cfg, pol)" by (metis prod_cases3)
  show ?thesis
  proof (cases "rc_BlockedOut cfg \<or> negativeFresh fe w k p \<or> fe_fail fe (NodeRow k p)")
    case True
    then show ?thesis using assms Inr x attempt_store_error [of fe k p H row cfg pol "[]" w]
      by (auto simp: Fetch_def fetchFlow_def tidy_same world_simps split: if_splits)
  next
    case False
    obtain u w1 where u: "fetch_unlocked fe pol k p [] (cached_copy fe w k p) w = (u, w1)" by fastforce
    have a: "attempt H fe row cfg pol k p [] w = (Answer r, w')" using assms Inr x False
      by (auto simp: Fetch_def fetchFlow_def split: if_splits prod.splits pass.splits)
    have w1: "wd_t w1 = wd_t w" using unlocked_answers(1) [OF u] by simp
    show ?thesis
    proof (cases u)
      case (Some r')
      then show ?thesis using a u False tidy_unlocked by (simp add: attempt_copy)
    next
      case None
      then have A: "attempt H fe row cfg pol k p [] w = (Answer r, w')" "u = None" using a by simp_all
      have l: "tidy w (fetch_locked H fe row cfg pol k p [] (cached_copy fe w k p) w1)" using tidy_locked tidy_cong [OF w1] by blast
      show ?thesis
        using A u l w1 False
        by (auto simp: attempt_copy Let_def tidy_copy tidy_same split: flight.splits prod.splits if_splits)
    qed
  qed
qed


section \<open>The answer depends on the path's own rows\<close>

definition alike :: "string \<Rightarrow> string \<Rightarrow> world \<Rightarrow> world \<Rightarrow> bool" where
  "alike k p w v \<longleftrightarrow> wd_st v = wd_st w \<and> wd_offline v = wd_offline w \<and> wd_faults v = wd_faults w \<and>
     tb_repos (wd_t v) = tb_repos (wd_t w) \<and> tb_configs (wd_t v) = tb_configs (wd_t w) \<and> tb_nodes (wd_t v) = tb_nodes (wd_t w) \<and>
     (\<forall>fl. remoteStore_GetCache fl (wd_t v) k p = remoteStore_GetCache fl (wd_t w) k p)"

lemma alike_lookup:
  assumes "alike k p w v"
  shows "negativeFresh fe v k p = negativeFresh fe w k p" "copyFresh fe v k p = copyFresh fe w k p" "cached_copy fe v k p = cached_copy fe w k p"
    "existing_node fe (wd_t v) k p = existing_node fe (wd_t w) k p" "loadRepo fe (wd_t v) k = loadRepo fe (wd_t w) k"
    "exchange fe row k p node cr v = exchange fe row k p node cr w" "serveCopy fe v n s b = serveCopy fe w n s b"
proof -
  have st: "wd_st v = wd_st w" and rows: "repos_Get fl (wd_t v) k = repos_Get fl (wd_t w) k" "remoteStore_GetConfig fl (wd_t v) k = remoteStore_GetConfig fl (wd_t w) k"
    "nodeStore_Get fl (wd_t v) k p = nodeStore_Get fl (wd_t w) k p" "remoteStore_GetCache fl (wd_t v) k p = remoteStore_GetCache fl (wd_t w) k p" for fl
    using assms by (simp_all add: alike_def repos_Get_def remoteStore_GetConfig_def nodeStore_Get_def)
  show "negativeFresh fe v k p = negativeFresh fe w k p" "copyFresh fe v k p = copyFresh fe w k p" "cached_copy fe v k p = cached_copy fe w k p"
    "existing_node fe (wd_t v) k p = existing_node fe (wd_t w) k p" "loadRepo fe (wd_t v) k = loadRepo fe (wd_t w) k"
    "exchange fe row k p node cr v = exchange fe row k p node cr w" "serveCopy fe v n s b = serveCopy fe w n s b"
    unfolding negativeFresh_def copyFresh_def cached_copy_def existing_node_def loadRepo_def exchange_def conditional_def serveCopy_def rows st
    by (rule refl)+
qed

text \<open>Serving and downgrading as functions of the blob store alone.\<close>

definition copy_at :: "fenv \<Rightarrow> engine \<Rightarrow> Node \<Rightarrow> string \<Rightarrow> bool \<Rightarrow> fetch_error + FetchResult" where
  "copy_at fe st n s b =
     (case Open (fe_storage fe 3) (nd_Sha256 n) st of
        Inl _ \<Rightarrow> Inl StorageFailed
      | Inr (body, _) \<Rightarrow> Inr \<lparr>fr_Node = n, fr_Body = body, fr_CacheState = s, fr_UpstreamError = b, fr_HasCopy = True\<rparr>)"

definition downgrade_at :: "fenv \<Rightarrow> Node option \<Rightarrow> repoPolicy \<Rightarrow> bool \<Rightarrow> bool \<Rightarrow> engine \<Rightarrow> fetch_error + FetchResult" where
  "downgrade_at fe node pol ext fault st =
     (if hasCacheableCopy node then copy_at fe st (the node) CacheStale True
      else if po_HardFail pol then Inl (FetchError 502 HardFailed False)
      else Inl (FetchError 404 (if ext then ExternalUnavailable else if fault then RetrievalFault else AssumedOffline) True))"

lemma serveCopy_at: "serveCopy fe w n s b = copy_at fe (wd_st w) n s b"
  by (simp add: serveCopy_def copy_at_def)

lemma fst_downgrade: "fst (downgrade fe node k pol ext fault w) = downgrade_at fe node pol ext fault (wd_st w)"
  by (simp add: downgrade_def serveStale_def Let_def serveCopy_at downgrade_at_def world_simps)

lemma fst_fault:
  "fst (mapTransportFault fe k pol node err ext w) =
     (if (case err of None \<Rightarrow> False | Some e \<Rightarrow> IsRejection e) then Inl (FetchError 400 TargetRefused False)
      else if err = Some ErrBodyTooLarge then Inl (FetchError 502 BodyTooLarge False)
      else downgrade_at fe node pol ext True (wd_st w))"
  by (simp add: mapTransportFault_def Let_def noteTransportFault_def fst_downgrade world_simps)

lemma fst_status:
  assumes "wd_st v = wd_st w"
  shows "fst (mapUpstreamStatus fe k p cfg pol node status ext v) = fst (mapUpstreamStatus fe k p cfg pol node status ext w)"
  unfolding mapUpstreamStatus_def Let_def serveStale_def
  by (auto simp: serveCopy_at fst_downgrade assms world_simps split: option.split prod.split)

text \<open>The result of a landing as a function of the stored body and the standing node.\<close>

lemma fst_land:
  "fst (land H fe k p kind cfg pol resp w) =
     (case store_body H fe resp (wd_st w) of
        (Inl e, st) \<Rightarrow> Inl e
      | (Inr (ref, written), st) \<Rightarrow>
          if \<not> retryBusy fe (BlobWrite (Sha256 ref)) then Inl (LocalFault (WriteFailed (BlobWrite (Sha256 ref))))
          else if \<not> retryBusy fe (NodeWrite k p) then Inl (LocalFault (WriteFailed (NodeWrite k p)))
          else if \<not> retryBusy fe (CacheWrite k p) then Inl (LocalFault (WriteFailed (CacheWrite k p)))
          else map_sum LocalFault id (copy_at fe st (landed_node k p ref (rs_Header resp) (fe_done fe) (existing_node fe (wd_t w) k p)) CacheMiss False))"
proof -
  have x: "existing_node fe (blobStore_Put b t) k p = existing_node fe t k p" for b t
    by (simp add: existing_node_def nodeStore_Get_def blobStore_Put_def)
  show ?thesis
    unfolding land_def Let_def serveCopy_at x
    by (auto simp: world_simps x split: prod.split sum.split)
qed

lemma land_same:
  assumes "wd_st v = wd_st w" "existing_node fe (wd_t v) k p = existing_node fe (wd_t w) k p"
  shows "fst (land H fe k p kind cfg pol resp v) = fst (land H fe k p kind cfg pol resp w)"
  unfolding fst_land assms ..

lemma land_broken: "land H fe k p kind cfg pol resp w = (Inl UpstreamBody, w') \<Longrightarrow> wd_st w' = snd (store_body H fe resp (wd_st w))"
  unfolding land_def Let_def by (auto split: if_splits sum.splits prod.splits)

lemma fst_contact:
  assumes "alike k p w v"
  shows "fst (contactUpstream H fe row cfg pol k p target node v) = fst (contactUpstream H fe row cfg pol k p target node w)"
proof (cases "outbound fe row cfg pol k p target")
  case (Inl e)
  then show ?thesis by (simp add: contactUpstream_def Let_def)
next
  case out: (Inr cr)
  obtain ans hops where e: "exchange fe row k p node cr w = (ans, hops)" by fastforce
  have e': "exchange fe row k p node cr v = (ans, hops)" using e alike_lookup(6) [OF assms] by simp
  have st: "wd_st v = wd_st w" using assms by (simp add: alike_def)
  let ?kind = "classifyPath fe (rp_PackageType row) p"
  show ?thesis
  proof (cases ans)
    case (Inl err)
    then show ?thesis unfolding contact_answer [OF out e] contact_answer [OF out e'] by (simp add: fst_fault world_simps st)
  next
    case (Inr resp)
    let ?resp = "if ?kind = RemoteCacheKindMetadata then resp\<lparr>rs_BodyOk := True\<rparr> else resp"
    let ?w = "\<lambda>u. if target \<noteq> [] then log_sent k p hops u else upstreamReached k (log_sent k p hops u)"
    have eq: "wd_st (?w v) = wd_st (?w w)" "existing_node fe (wd_t (?w v)) k p = existing_node fe (wd_t (?w w)) k p"
      using st alike_lookup(4) [OF assms, of fe] by (simp_all add: world_simps)
    obtain l w3 l' v3 where l: "land H fe k p ?kind cfg pol ?resp (?w w) = (l, w3)" "land H fe k p ?kind cfg pol ?resp (?w v) = (l', v3)" by fastforce
    have ll: "l' = l" using land_same [OF eq, of H ?kind cfg pol ?resp] l by (metis fst_conv)
    have "wd_st v3 = wd_st w3" if "l = Inl UpstreamBody" using land_broken l ll that eq(1) by metis
    then show ?thesis
      unfolding contact_answer [OF out e] contact_answer [OF out e'] Let_def Inr sum.case l ll
      by (auto simp: fst_status [OF eq(1)] fst_fault split: sum.split land_error.split)
  qed
qed

lemma fst_window: "alike k p w v \<Longrightarrow> fst (offlineWindow k now v) = fst (offlineWindow k now w) \<and> alike k p (snd (offlineWindow k now w)) (snd (offlineWindow k now v))"
  by (auto simp: alike_def offlineWindow_def split: option.split)

lemma fst_unlocked:
  assumes "alike k p w v"
  shows "fst (fetch_unlocked fe pol k p [] node v) = fst (fetch_unlocked fe pol k p [] node w) \<and>
    alike k p (snd (fetch_unlocked fe pol k p [] node w)) (snd (fetch_unlocked fe pol k p [] node v))"
proof -
  have st: "wd_st v = wd_st w" using assms by (simp add: alike_def)
  obtain b w1 v1 where o: "offlineWindow k (fe_now fe) w = (b, w1)" "offlineWindow k (fe_now fe) v = (b, v1)" "alike k p w1 v1"
    using fst_window [OF assms, of "fe_now fe"] by (cases "offlineWindow k (fe_now fe) w"; cases "offlineWindow k (fe_now fe) v") auto
  have al: "alike k p (bump k f w') (bump k f v')" if "alike k p w' v'" for f w' v' using that by (simp add: alike_def world_simps)
  have dg: "\<exists>r w2 v2. downgrade fe node k pol False False w' = (r, w2) \<and> downgrade fe node k pol False False v' = (r, v2) \<and> alike k p w2 v2"
    if "alike k p w' v'" for w' v'
    using that by (auto simp: downgrade_def Let_def serveStale_def serveCopy_at al world_simps) (auto simp: alike_def)
  obtain r w2 v2 where d: "downgrade fe node k pol False False w = (r, w2)" "downgrade fe node k pol False False v = (r, v2)" "alike k p w2 v2"
    using dg [OF assms] by blast
  obtain r' w3 v3 where d': "downgrade fe node k pol False False w1 = (r', w3)" "downgrade fe node k pol False False v1 = (r', v3)" "alike k p w3 v3"
    using dg [OF o(3)] by blast
  show ?thesis
    using assms o d d' st unfolding fetch_unlocked_def Let_def alike_lookup(2) [OF assms]
    by (auto simp: serveCopy_at al world_simps split: bool.split)
qed

lemma fst_locked:
  assumes "alike k p w v"
  shows "fst (fetch_locked H fe row cfg pol k p target node v) = fst (fetch_locked H fe row cfg pol k p target node w)"
  using fst_contact [OF assms] assms unfolding fetch_locked_def Let_def alike_lookup(1,2,4) [OF assms]
  by (auto simp: serveCopy_at world_simps alike_def)

lemma fst_Fetch:
  assumes "alike k p w v"
  shows "fst (Fetch H fe [] k p v) = fst (Fetch H fe [] k p w)"
proof (cases "fe_fail fe (NodeRow k p)")
  case True
  then show ?thesis unfolding Fetch_def fetchFlow_def alike_lookup(5) [OF assms]
    by (auto simp: attempt_store_error alike_lookup(1) [OF assms] split: sum.split)
next
  case False
  have "fst (fetch_passes H [(fe, id)] row cfg pol k p [] v) = fst (fetch_passes H [(fe, id)] row cfg pol k p [] w)" for row cfg pol
  proof -
    let ?node = "cached_copy fe w k p"
    obtain r w1 v1 where u: "fetch_unlocked fe pol k p [] ?node w = (r, w1)" "fetch_unlocked fe pol k p [] ?node v = (r, v1)" "alike k p w1 v1"
      using fst_unlocked [OF assms, of fe pol ?node]
      by (cases "fetch_unlocked fe pol k p [] ?node w"; cases "fetch_unlocked fe pol k p [] ?node v") auto
    have "fst (fetch_locked H fe row cfg pol k p [] ?node v1) = fst (fetch_locked H fe row cfg pol k p [] ?node w1)" by (rule fst_locked [OF u(3)])
    moreover have "wd_st v1 = wd_st w1" using u(3) by (simp add: alike_def)
    ultimately show ?thesis
      using u by (auto simp: attempt_copy [OF False] alike_lookup(1,3) [OF assms] Let_def serveCopy_at world_simps
          split: option.split flight.split prod.split)
  qed
  then show ?thesis unfolding Fetch_def fetchFlow_def alike_lookup(5) [OF assms] by (auto split: sum.split)
qed


section \<open>The engine keeps the walk's laws\<close>

lemma find_own: "find (own_row k p) xs = (case filter (own_row k p) xs of [] \<Rightarrow> None | x # _ \<Rightarrow> Some x)"
  by (induction xs) auto

lemma cache_of_own: "remoteStore_GetCache fl t k p = (if fl (CacheRow k p) then None else find (own_row k p) (tb_cache t))"
proof -
  have "(\<lambda>e. ce_RepoKey e = k \<and> ce_Path e = p) = own_row k p" by (auto simp: own_row_def)
  then show ?thesis by (simp add: remoteStore_GetCache_def)
qed

lemma alike_rows:
  "filter (own_row k p) c = filter (own_row k p) (tb_cache t) \<Longrightarrow> alike k p (w\<lparr>wd_t := t\<rparr>) (w\<lparr>wd_t := t\<lparr>tb_cache := c\<rparr>\<rparr>)"
  by (simp add: alike_def cache_of_own find_own)

lemma negative_as_probed:
  "hasFreshNegative ev t k p \<Longrightarrow> fe_now fe = ve_now ev \<Longrightarrow> fe_fail fe = ve_fail ev \<Longrightarrow> negativeFresh fe (w\<lparr>wd_t := t\<rparr>) k p"
  by (auto simp: hasFreshNegative_def negativeFresh_def negativeEntryKind_def cacheKindNegative_def entryFresh_def parse_rfc3339_def
      split: option.splits)

lemma negative_answer: "negativeFresh fe w k p \<Longrightarrow> wd_t (snd (Fetch H fe ps k p w)) = wd_t w"
  by (auto simp: Fetch_def fetchFlow_def world_simps split: sum.split)

lemma answer_cases:
  "answer_of msg r = Unfound \<Longrightarrow> \<exists>s reason. r = Some (Inl (FetchError s reason True))"
  "answer_of msg r = Copyless \<Longrightarrow> \<exists>res. r = Some (Inr res) \<and> \<not> fr_HasCopy res"
  by (auto simp: answer_of_def split: option.splits sum.splits fetch_error.splits if_splits)

lemma engine_laws: "pull_engine (over_engine H E msg w ev)"
proof
  let ?ev = "over_engine H E msg w ev"
  fix k p t a t' c
  let ?fe = "shared_clock ev E k p"
  obtain r w' where f: "Fetch H ?fe [] k p (w\<lparr>wd_t := t\<rparr>) = (r, w')" by fastforce
  have ve: "ve_fetch ?ev k p t = (answer_of msg r, wd_t w')" using f by (simp add: over_engine_def engine_fetch_def)
  show "keeps_tables k p t t'" if "ve_fetch ?ev k p t = (a, t')"
    using keeps_flow [OF f [unfolded Fetch_def]] that ve by (auto simp: keeps_others_def)
  show "\<exists>d. t' = t\<lparr>tb_cache := d\<rparr>" if "ve_fetch ?ev k p t = (Unfound, t')"
    using answer_cases(1) [of msg r] that ve tidy_fetch [of H ?fe k p "w\<lparr>wd_t := t\<rparr>" _ w'] f by (fastforce simp: tidy_def)
  show "t' = t" if "hasFreshNegative ?ev t k p" "ve_fetch ?ev k p t = (a, t')"
  proof -
    have "hasFreshNegative ev t k p" using that(1) by (auto simp: hasFreshNegative_def over_engine_def split: option.splits)
    then have "negativeFresh ?fe (w\<lparr>wd_t := t\<rparr>) k p" by (rule negative_as_probed) (simp_all add: shared_clock_def)
    then show ?thesis using negative_answer [of ?fe "w\<lparr>wd_t := t\<rparr>" k p H "[]"] f that(2) ve by simp
  qed
  show "ve_fetch ?ev k p t \<noteq> (Copyless, t')"
    using answer_cases(2) [of msg r] ve tidy_fetch [of H ?fe k p "w\<lparr>wd_t := t\<rparr>" _ w'] f by (fastforce simp: tidy_def)
  show "fst (ve_fetch ?ev k p (t\<lparr>tb_cache := c\<rparr>)) = fst (ve_fetch ?ev k p t)" if "filter (own_row k p) c = filter (own_row k p) (tb_cache t)"
    using fst_Fetch [OF alike_rows [OF that, of w], of H ?fe] by (auto simp: over_engine_def engine_fetch_def split: prod.splits)
qed

interpretation eng: pull_engine "over_engine H E msg w ev" for H E msg w ev
  by (rule engine_laws)

end
