(* ===== verification/Repo_Governance.thy ===== *)
theory Repo_Governance
  imports Auth_Paths GoJson Meta_Nodes
begin

text \<open>
  What a repository's configuration and the shape rules allow to be written: the include and
  exclude patterns and the quota of \<open>internal/repo/governance.go\<close>, the blackout mark of
  \<open>internal/repo/blackedout.go\<close>, and the property rules of \<open>internal/metadata/props.go\<close>. A
  configuration text that is not a JSON document of the expected types counts as no configuration.

  The lemmas show that the pattern matcher, which repeats the code of the permission patterns, agrees
  with it on every pattern and path, and what the two pattern lists admit together.
\<close>


section \<open>The configuration text\<close>

text \<open>\<open>json.Unmarshal\<close> into a \<open>*int64\<close> and a \<open>bool\<close>: \<open>None\<close> is a type error; the last member of a name wins.\<close>

fun int_field :: "int option \<Rightarrow> json list \<Rightarrow> int option option" where
  "int_field acc [] = Some acc"
| "int_field acc (v # vs) =
     (case v of
        JNull \<Rightarrow> int_field None vs
      | JNumber s \<Rightarrow> (case parse_int s of Inr i \<Rightarrow> int_field (Some i) vs | Inl _ \<Rightarrow> None)
      | _ \<Rightarrow> None)"

fun bool_field :: "bool \<Rightarrow> json list \<Rightarrow> bool option" where
  "bool_field acc [] = Some acc"
| "bool_field acc (v # vs) =
     (case v of JNull \<Rightarrow> bool_field acc vs | JBool b \<Rightarrow> bool_field b vs | _ \<Rightarrow> None)"

text \<open>The members of the document: \<open>null\<close> leaves a struct as it is, anything but an object is an error.\<close>

definition config_members :: "string \<Rightarrow> (string \<times> json) list option" where
  "config_members config =
     (case json_parse config of
        Some JNull \<Rightarrow> Some []
      | Some (JObject ms) \<Rightarrow> Some ms
      | _ \<Rightarrow> None)"

record governance =
  g_includes :: "string list"
  g_excludes :: "string list"
  g_quotaBytes :: int

definition no_governance :: governance where
  "no_governance = \<lparr>g_includes = [], g_excludes = [], g_quotaBytes = 0\<rparr>"

definition splitPatterns :: "string \<Rightarrow> string list" where
  "splitPatterns v =
     (if trim_space v = [] then [] else filter (\<lambda>p. p \<noteq> []) (map trim_space (split_on (CHR '','') v)))"

definition parseGovernance :: "string \<Rightarrow> governance" where
  "parseGovernance config =
     (case config_members config of
        None \<Rightarrow> no_governance
      | Some ms \<Rightarrow>
          (case (string_field [] (members_of ''includesPattern'' ms), string_field [] (members_of ''excludesPattern'' ms),
                 int_field None (members_of ''quotaBytes'' ms)) of
             (Some inc, Some exc, Some q) \<Rightarrow>
               \<lparr>g_includes = splitPatterns inc, g_excludes = splitPatterns exc,
                g_quotaBytes = (case q of Some b \<Rightarrow> if 0 < b then b else 0 | None \<Rightarrow> 0)\<rparr>
           | _ \<Rightarrow> no_governance))"

definition matchesAllPattern :: "string list \<Rightarrow> bool" where
  "matchesAllPattern patterns = (case patterns of [p] \<Rightarrow> p = [] \<or> p = ''**'' \<or> p = ''**/*'' | _ \<Rightarrow> False)"

definition defaulted :: "governance \<Rightarrow> bool" where
  "defaulted g \<longleftrightarrow> g_excludes g = [] \<and> (g_includes g = [] \<or> matchesAllPattern (g_includes g)) \<and> g_quotaBytes g = 0"

text \<open>The fast path looks for the letters of the key before the document is parsed.\<close>

definition blackedOut :: "string \<Rightarrow> bool" where
  "blackedOut config =
     (if str_index config ''blackedOut'' = None then False
      else (case config_members config of
              None \<Rightarrow> False
            | Some ms \<Rightarrow> (case bool_field False (members_of ''blackedOut'' ms) of Some b \<Rightarrow> b | None \<Rightarrow> False)))"


section \<open>The pattern matcher\<close>

fun govMidLiterals :: "string list \<Rightarrow> string \<Rightarrow> bool" where
  "govMidLiterals [] s = True"
| "govMidLiterals (mid # mids) s =
     (if mid = [] then govMidLiterals mids s
      else (case str_index s mid of
              None \<Rightarrow> False
            | Some idx \<Rightarrow> govMidLiterals mids (drop (idx + length mid) s)))"

definition govWildcardEqual :: "string \<Rightarrow> string \<Rightarrow> bool" where
  "govWildcardEqual pattern s =
     (let parts = split_on (CHR ''*'') pattern in
      if length parts = 1 then pattern = s
      else if \<not> has_prefix s (hd parts) then False
      else
        (let s1 = drop (length (hd parts)) s in
         if \<not> has_suffix s1 (last parts) then False
         else govMidLiterals (butlast (tl parts)) (take (length s1 - length (last parts)) s1)))"

definition govSegmentMatch :: "string \<Rightarrow> string \<Rightarrow> bool" where
  "govSegmentMatch pattern segment =
     (if CHR ''*'' \<notin> set pattern then pattern = segment else govWildcardEqual pattern segment)"

text \<open>The loop at the indices \<open>pi\<close> and \<open>ti\<close>: what is left of both lists; \<open>advanced\<close> is \<open>pi > 0\<close>.\<close>

fun govSegsLoop :: "string list \<Rightarrow> string list \<Rightarrow> bool \<Rightarrow> bool \<Rightarrow> bool \<Rightarrow> bool" where
  "govSegsLoop [] tSegs isFolder lastPlain advanced = (tSegs = [] \<or> isFolder \<and> lastPlain \<and> advanced)"
| "govSegsLoop (seg # rest) tSegs isFolder lastPlain advanced =
     (if seg = ''**'' then
        list_ex (\<lambda>skip. govSegsLoop rest (drop skip tSegs) isFolder False False) [0..<Suc (length tSegs)]
      else (case tSegs of
              [] \<Rightarrow> False
            | t # ts \<Rightarrow> govSegmentMatch seg t \<and> govSegsLoop rest ts isFolder (CHR ''*'' \<notin> set seg) True))"

definition govSegsMatch :: "string list \<Rightarrow> string list \<Rightarrow> bool \<Rightarrow> bool" where
  "govSegsMatch pSegs tSegs isFolder = govSegsLoop pSegs tSegs isFolder False False"

definition splitGovSegments :: "string \<Rightarrow> string list" where
  "splitGovSegments s = filter (\<lambda>seg. seg \<noteq> []) (map trim_space (split_on (CHR ''/'') s))"

definition govMatch :: "string \<Rightarrow> string \<Rightarrow> bool" where
  "govMatch pattern path0 =
     (if pattern = [] \<or> pattern = ''**'' \<or> pattern = ''**/*'' then True
      else
        (let path = trim_space path0 in
         if path = [] then False
         else govSegsMatch (splitGovSegments pattern) (splitGovSegments path) (has_suffix path ''/'')))"

definition allowsPath :: "governance \<Rightarrow> string \<Rightarrow> bool" where
  "allowsPath g path =
     (if list_ex (\<lambda>p. govMatch p path) (g_excludes g) then False
      else if g_includes g = [] then True
      else list_ex (\<lambda>p. govMatch p path) (g_includes g))"

text \<open>Which of the two lists a refusal names.\<close>

definition excluded :: "governance \<Rightarrow> string \<Rightarrow> bool" where
  "excluded g path = list_ex (\<lambda>p. govMatch p path) (g_excludes g)"


section \<open>Properties of a node\<close>

definition MaxPropKeyLen :: nat where "MaxPropKeyLen = 64"
definition MaxPropValueLen :: nat where "MaxPropValueLen = 1024"
definition MaxNodePropKeys :: nat where "MaxNodePropKeys = 64"
definition MaxPropValues :: nat where "MaxPropValues = 32"

definition prop_letter :: "char \<Rightarrow> bool" where
  "prop_letter c \<longleftrightarrow> is_lower_alpha c \<or> is_upper_alpha c"

definition ValidatePropKey :: "string \<Rightarrow> bool" where
  "ValidatePropKey key \<longleftrightarrow>
     key \<noteq> [] \<and> length key \<le> MaxPropKeyLen \<and> prop_letter (hd key) \<and>
     list_all (\<lambda>c. prop_letter c \<or> is_digit c \<or> c \<in> {CHR ''_'', CHR ''.'', CHR ''-''}) (tl key)"

definition ValidatePropValue :: "string \<Rightarrow> bool" where
  "ValidatePropValue v \<longleftrightarrow>
     v \<noteq> [] \<and> length v \<le> MaxPropValueLen \<and> \<not> list_ex (\<lambda>c. byte_of c < 0x20 \<or> byte_of c = 0x7F) v"

text \<open>A property set is a map: the list has one entry per key.\<close>

type_synonym prop_set = "(string \<times> string list) list"

definition ValidatePropSet :: "prop_set \<Rightarrow> bool" where
  "ValidatePropSet props \<longleftrightarrow>
     length props \<le> MaxNodePropKeys \<and>
     list_all (\<lambda>(key, values). ValidatePropKey key \<and> length values \<le> MaxPropValues \<and>
        list_all ValidatePropValue values \<and> distinct values) props"


section \<open>The duplicated matcher\<close>

lemma star_char: "CHR ''*'' = star"
  by (simp add: star_def)

lemma govMidLiterals_eq: "govMidLiterals ms s = midLiterals ms s"
  by (induction ms arbitrary: s) (auto split: option.splits)

lemma govSegmentMatch_eq: "govSegmentMatch p s = segmentMatch p s"
  by (simp add: govSegmentMatch_def segmentMatch_def govWildcardEqual_def wildcardEqual_def contains_star_def
      govMidLiterals_eq star_char Let_def)

lemma govSegsLoop_eq: "govSegsLoop ps ts f lp adv = segsLoop ps ts f lp adv"
proof (induction ps arbitrary: ts lp adv)
  case (Cons seg rest)
  show ?case
  proof (cases "seg = ''**''")
    case True
    then show ?thesis using Cons by (simp del: upt_Suc)
  next
    case False
    then show ?thesis using Cons by (cases ts) (auto simp: govSegmentMatch_eq contains_star_def star_char)
  qed
qed simp

lemma govMatch_eq: "govMatch p path = matchPath p path"
  by (simp add: govMatch_def matchPath_def govSegsMatch_def segsMatch_def splitGovSegments_def splitSegments_def
      govSegsLoop_eq Let_def)

lemma allowsPath_iff:
  "allowsPath g path \<longleftrightarrow> \<not> matchesAny (g_excludes g) path \<and> (g_includes g = [] \<or> matchesAny (g_includes g) path)"
  by (simp add: allowsPath_def matchesAny_def govMatch_eq)

lemma defaulted_allows: "defaulted g \<Longrightarrow> allowsPath g path"
  by (auto simp: defaulted_def matchesAllPattern_def allowsPath_def govMatch_def split: list.splits)

lemma quota_nonneg: "0 \<le> g_quotaBytes (parseGovernance c)"
  by (auto simp: parseGovernance_def no_governance_def split: option.splits)

end
