(* ===== verification/Repo_Content.thy ===== *)
theory Repo_Content
  imports Remote_Virtual Auth_Rbac Repo_Governance
begin

text \<open>
  The rows a content write leaves (\<open>internal/repo/service.go\<close>, \<open>internal/metadata/substores_usage.go\<close>,
  \<open>substores_nodeprops.go\<close>): the node row with its usage counter in one transaction, the folder rows of
  every ancestor, the properties, and the removal of rows with the pruning of emptied folders.

  The state of the service is the world of the remote engine (tables and storage engine) with the
  usage counters, the property rows and the log of audit and notification events. The foreign keys
  of the schema are part of the statements: a node row needs its repository and its blob ledger
  row, and a property row goes with its node. The columns with the client's digests are left out.

  The lemmas show what a landing keeps: all rows but the target and its ancestors, the exact usage
  of every repository, and that every row has the folder rows above it.
\<close>


section \<open>The state\<close>

datatype log_event =
    Audited string string string string
  | Hooked string string string string nat
  | Replicated string string string

record service =
  sv_w :: world
  sv_usage :: "string \<Rightarrow> int"
  sv_props :: "(string \<times> string \<times> string \<times> string) list"
  sv_log :: "log_event list"

definition tbl :: "service \<Rightarrow> tables" where "tbl s = wd_t (sv_w s)"
definition eng :: "service \<Rightarrow> engine" where "eng s = wd_st (sv_w s)"

definition has_node :: "tables \<Rightarrow> string \<Rightarrow> string \<Rightarrow> bool" where
  "has_node t k p = list_ex (own_node k p) (tb_nodes t)"

text \<open>\<open>ON DELETE CASCADE\<close>: with the tables, the property rows of vanished nodes go.\<close>

definition set_tbl :: "tables \<Rightarrow> service \<Rightarrow> service" where
  "set_tbl t s = s\<lparr>sv_w := (sv_w s)\<lparr>wd_t := t\<rparr>, sv_props := filter (\<lambda>(k, p, _). has_node t k p) (sv_props s)\<rparr>"

definition set_eng :: "engine \<Rightarrow> service \<Rightarrow> service" where
  "set_eng e s = s\<lparr>sv_w := (sv_w s)\<lparr>wd_st := e\<rparr>\<rparr>"

definition emit :: "log_event \<Rightarrow> service \<Rightarrow> service" where
  "emit e s = s\<lparr>sv_log := sv_log s @ [e]\<rparr>"

lemma state_simps [simp]:
  "tbl (set_tbl t s) = t" "eng (set_tbl t s) = eng s" "sv_usage (set_tbl t s) = sv_usage s"
  "tbl (set_eng e s) = tbl s" "eng (set_eng e s) = e" "sv_usage (set_eng e s) = sv_usage s"
  "tbl (emit v s) = tbl s" "eng (emit v s) = eng s" "sv_usage (emit v s) = sv_usage s"
  "tbl (s\<lparr>sv_usage := u\<rparr>) = tbl s" "eng (s\<lparr>sv_usage := u\<rparr>) = eng s"
  "tbl (s\<lparr>sv_props := q\<rparr>) = tbl s" "eng (s\<lparr>sv_props := q\<rparr>) = eng s"
  "sv_props (set_eng e s) = sv_props s" "sv_props (emit v s) = sv_props s"
  "sv_log (set_tbl t s) = sv_log s" "sv_log (set_eng e s) = sv_log s"
  by (simp_all add: tbl_def eng_def set_tbl_def set_eng_def emit_def)


section \<open>Usage-aware node writes\<close>

definition node_size :: "tables \<Rightarrow> string \<Rightarrow> string \<Rightarrow> int" where
  "node_size t k p = (case find (own_node k p) (tb_nodes t) of None \<Rightarrow> 0 | Some n \<Rightarrow> int (nd_Size n))"

definition PutNodeWithUsage :: "(store_call \<Rightarrow> bool) \<Rightarrow> Node \<Rightarrow> service \<Rightarrow> repo_error option \<times> service" where
  "PutNodeWithUsage fl n s =
     (let k = nd_RepoKey n; t = tbl s in
      if fl (NodeWrite k (nd_Path n)) \<or> \<not> list_ex (\<lambda>r. rp_RepoKey r = k) (tb_repos t)
         \<or> \<not> list_ex (\<lambda>b. bl_Sha256 b = nd_Sha256 n) (tb_blobs t)
      then (Some repo_error.ErrStore, s)
      else (None, (set_tbl (nodeStore_Put n t) s)
              \<lparr>sv_usage := (sv_usage s)(k := sv_usage s k + (int (nd_Size n) - node_size t k (nd_Path n)))\<rparr>))"

definition DeleteNodeWithUsage :: "(store_call \<Rightarrow> bool) \<Rightarrow> string \<Rightarrow> string \<Rightarrow> service \<Rightarrow> repo_error option \<times> service" where
  "DeleteNodeWithUsage fl k p s =
     (case nodeStore_Delete fl (tbl s) k p of
        (Some e, _) \<Rightarrow> (Some e, s)
      | (None, t) \<Rightarrow> (None, (set_tbl t s)\<lparr>sv_usage := (sv_usage s)(k := sv_usage s k - node_size (tbl s) k p)\<rparr>))"

definition usage_Get :: "(store_call \<Rightarrow> bool) \<Rightarrow> service \<Rightarrow> string \<Rightarrow> repo_error + int" where
  "usage_Get fl s k = (if fl (UsageRow k) then Inl repo_error.ErrStore else Inr (sv_usage s k))"

text \<open>
  \<open>Merge\<close>: per named key the value set is replaced, other keys keep their rows; one transaction,
  which the key on the node refuses when the node is missing.
\<close>

definition merge_rows :: "string \<Rightarrow> string \<Rightarrow> prop_set \<Rightarrow> (string \<times> string \<times> string \<times> string) list \<Rightarrow> (string \<times> string \<times> string \<times> string) list" where
  "merge_rows k p props rows =
     filter (\<lambda>(k', p', name, _). \<not> (k' = k \<and> p' = p \<and> name \<in> fst ` set props)) rows @
     concat (map (\<lambda>(name, vs). map (\<lambda>v. (k, p, name, v)) (sort vs)) (sort_key fst props))"

definition nodeProps_Merge :: "(store_call \<Rightarrow> bool) \<Rightarrow> string \<Rightarrow> string \<Rightarrow> prop_set \<Rightarrow> service \<Rightarrow> repo_error option \<times> service" where
  "nodeProps_Merge fl k p props s =
     (if props = [] then (None, s)
      else if fl (PropWrite k p) \<or> (\<not> has_node (tbl s) k p \<and> (\<exists>x\<in>set props. snd x \<noteq> [])) then (Some repo_error.ErrStore, s)
      else (None, s\<lparr>sv_props := merge_rows k p props (sv_props s)\<rparr>))"

text \<open>The keys a node carries.\<close>

definition prop_keys :: "service \<Rightarrow> string \<Rightarrow> string \<Rightarrow> string set" where
  "prop_keys s k p = {name. \<exists>v. (k, p, name, v) \<in> set (sv_props s)}"


section \<open>Paths\<close>

definition parentPrefix :: "string \<Rightarrow> string" where
  "parentPrefix path =
     (case rev (split_on (CHR ''/'') (trim_suffix path ''/'')) of
        _ # s # segs \<Rightarrow> join_with (CHR ''/'') (rev (s # segs)) @ ''/''
      | _ \<Rightarrow> [])"

definition ancestorDirs :: "string \<Rightarrow> string list" where
  "ancestorDirs path =
     (let segs = split_on (CHR ''/'') (trim_suffix path ''/'')
      in map (\<lambda>i. join_with (CHR ''/'') (take i segs) @ ''/'') [1..<length segs])"


section \<open>Landing rows\<close>

definition folderMime :: string where "folderMime = ''application/octet-stream''"

text \<open>\<open>now\<close> in whole seconds and \<open>nodeNow\<close> with milliseconds, in UTC.\<close>

definition node_stamp :: "time \<Rightarrow> string" where
  "node_stamp t = butlast (format_rfc3339 t) @ ''.'' @ pad_digits 3 (nat (t mod second div 1000000)) @ ''Z''"

definition ensureFolderLedger :: "(store_call \<Rightarrow> bool) \<Rightarrow> time \<Rightarrow> service \<Rightarrow> repo_error option \<times> service" where
  "ensureFolderLedger fl now s =
     (if fl (BlobWrite emptyFolderSHA) then (Some repo_error.ErrStore, s)
      else (None, set_tbl (blobStore_Put \<lparr>bl_Sha256 = emptyFolderSHA, bl_Sha1 = [], bl_Md5 = [], bl_Size = 0,
                             bl_CreatedAt = node_stamp now\<rparr> (tbl s)) s))"

definition written :: "Node \<Rightarrow> repo_error option \<times> service \<Rightarrow> (repo_error + Node) \<times> service" where
  "written n r = (case r of (Some e, s) \<Rightarrow> (Inl e, s) | (None, s) \<Rightarrow> (Inr n, s))"

text \<open>A row read before the write: absent is \<open>Inr None\<close>.\<close>

definition standing :: "(store_call \<Rightarrow> bool) \<Rightarrow> tables \<Rightarrow> string \<Rightarrow> string \<Rightarrow> repo_error + Node option" where
  "standing fl t k p =
     (case nodeStore_Get fl t k p of
        Inr n \<Rightarrow> Inr (Some n)
      | Inl e \<Rightarrow> if e = ErrNodeNotFound then Inr None else Inl e)"

definition kept_origin :: "Node option \<Rightarrow> Node \<Rightarrow> Node" where
  "kept_origin old n = (case old of None \<Rightarrow> n | Some m \<Rightarrow> n\<lparr>nd_CreatedBy := nd_CreatedBy m, nd_CreatedAt := nd_CreatedAt m\<rparr>)"

definition putFolderRow :: "(store_call \<Rightarrow> bool) \<Rightarrow> time \<Rightarrow> string \<Rightarrow> string \<Rightarrow> string \<Rightarrow> string \<Rightarrow> service \<Rightarrow> (repo_error + Node) \<times> service" where
  "putFolderRow fl now who k folderPath mime s =
     (case standing fl (tbl s) k folderPath of
        Inl e \<Rightarrow> (Inl e, s)
      | Inr old \<Rightarrow>
          if (case old of Some m \<Rightarrow> nd_Sha256 m = emptyFolderSHA | None \<Rightarrow> False)
          then let n = (the old)\<lparr>nd_Mime := mime, nd_UpdatedAt := node_stamp now\<rparr> in written n (PutNodeWithUsage fl n s)
          else
            (case ensureFolderLedger fl now s of
               (Some e, s1) \<Rightarrow> (Inl e, s1)
             | (None, s1) \<Rightarrow>
                 let n = kept_origin old \<lparr>nd_RepoKey = k, nd_Path = folderPath, nd_Sha256 = emptyFolderSHA, nd_Size = 0, nd_Mime = mime,
                           nd_CreatedBy = who, nd_CreatedAt = format_rfc3339 now, nd_UpdatedAt = format_rfc3339 now\<rparr>
                 in written n (PutNodeWithUsage fl n s1)))"

fun put_folders :: "(store_call \<Rightarrow> bool) \<Rightarrow> time \<Rightarrow> string \<Rightarrow> string \<Rightarrow> string list \<Rightarrow> service \<Rightarrow> repo_error option \<times> service" where
  "put_folders fl now who k [] s = (None, s)"
| "put_folders fl now who k (dir # dirs) s =
     (case putFolderRow fl now who k dir folderMime s of
        (Inl e, s1) \<Rightarrow> (Some e, s1)
      | (Inr _, s1) \<Rightarrow> put_folders fl now who k dirs s1)"

definition materializeAncestors :: "(store_call \<Rightarrow> bool) \<Rightarrow> time \<Rightarrow> string \<Rightarrow> string \<Rightarrow> string \<Rightarrow> service \<Rightarrow> repo_error option \<times> service" where
  "materializeAncestors fl now who k path s = put_folders fl now who k (ancestorDirs path) s"

definition putFileRow :: "(store_call \<Rightarrow> bool) \<Rightarrow> time \<Rightarrow> string \<Rightarrow> string \<Rightarrow> string \<Rightarrow> BlobRef \<Rightarrow> string \<Rightarrow> service \<Rightarrow> (repo_error + Node) \<times> service" where
  "putFileRow fl now who k path ref mime s =
     (case standing fl (tbl s) k path of
        Inl e \<Rightarrow> (Inl e, s)
      | Inr old \<Rightarrow>
          if (case old of Some m \<Rightarrow> nd_Sha256 m = Sha256 ref | None \<Rightarrow> False)
          then let n = (the old)\<lparr>nd_Mime := mime, nd_UpdatedAt := node_stamp now\<rparr> in written n (PutNodeWithUsage fl n s)
          else if fl (BlobWrite (Sha256 ref)) then (Inl repo_error.ErrStore, s)
          else
            let s1 = set_tbl (blobStore_Put \<lparr>bl_Sha256 = Sha256 ref, bl_Sha1 = Sha1 ref, bl_Md5 = Md5 ref, bl_Size = Size ref,
                                bl_CreatedAt = format_rfc3339 now\<rparr> (tbl s)) s;
                n = kept_origin old \<lparr>nd_RepoKey = k, nd_Path = path, nd_Sha256 = Sha256 ref, nd_Size = Size ref, nd_Mime = mime,
                      nd_CreatedBy = who, nd_CreatedAt = node_stamp now, nd_UpdatedAt = node_stamp now\<rparr>
            in written n (PutNodeWithUsage fl n s1))"

definition applyDeployProps :: "(store_call \<Rightarrow> bool) \<Rightarrow> string \<Rightarrow> string \<Rightarrow> prop_set \<Rightarrow> service \<Rightarrow> repo_error option \<times> service" where
  "applyDeployProps fl k path props s = (if props = [] then (None, s) else nodeProps_Merge fl k path props s)"

text \<open>\<open>putNode\<close>: ancestors first, then the folder or file row, then the properties of the target.\<close>

definition putNode :: "(store_call \<Rightarrow> bool) \<Rightarrow> time \<Rightarrow> string \<Rightarrow> string \<Rightarrow> string \<Rightarrow> BlobRef option \<Rightarrow> string \<Rightarrow> prop_set \<Rightarrow> service
    \<Rightarrow> (repo_error + Node) \<times> service" where
  "putNode fl now who k path content mime props s =
     (case materializeAncestors fl now who k path s of
        (Some e, s1) \<Rightarrow> (Inl e, s1)
      | (None, s1) \<Rightarrow>
          (case (case content of
                   None \<Rightarrow> putFolderRow fl now who k path mime s1
                 | Some ref \<Rightarrow> putFileRow fl now who k path ref mime s1) of
             (Inl e, s2) \<Rightarrow> (Inl e, s2)
           | (Inr n, s2) \<Rightarrow> written n (applyDeployProps fl k path props s2)))"


section \<open>Removing rows\<close>

text \<open>The removal of listed rows one by one: a row that is gone is skipped, another error ends it.\<close>

fun drop_rows :: "(store_call \<Rightarrow> bool) \<Rightarrow> string \<Rightarrow> string list \<Rightarrow> nat \<Rightarrow> service \<Rightarrow> (repo_error + nat) \<times> service" where
  "drop_rows fl k [] removed s = (Inr removed, s)"
| "drop_rows fl k (p # ps) removed s =
     (case DeleteNodeWithUsage fl k p s of
        (None, s1) \<Rightarrow> drop_rows fl k ps (removed + 1) s1
      | (Some e, s1) \<Rightarrow> if e = ErrNodeNotFound then drop_rows fl k ps removed s1 else (Inl e, s1))"

definition hasDeletedPrefix :: "string \<Rightarrow> string list \<Rightarrow> bool" where
  "hasDeletedPrefix p deleted = list_ex (\<lambda>d. length d < length p \<and> has_prefix p d) deleted"

text \<open>The walk upwards from a folder, with the folders it has deleted on the way.\<close>

function prune_up :: "(store_call \<Rightarrow> bool) \<Rightarrow> string \<Rightarrow> string \<Rightarrow> string list \<Rightarrow> service \<Rightarrow> repo_error option \<times> service" where
  "prune_up fl k folder deleted s =
     (if folder = [] then (None, s)
      else
        (case nodeStore_ListByPrefix fl (tbl s) k (trim_suffix folder ''/'') of
           Inl e \<Rightarrow> (Some e, s)
         | Inr children \<Rightarrow>
             if list_ex (\<lambda>c. \<not> (nd_Path c = folder \<or> nd_Path c \<in> set deleted \<or> hasDeletedPrefix (nd_Path c) deleted)) children
             then (None, s)
             else
               (case nodeStore_Delete fl (tbl s) k folder of
                  (None, t) \<Rightarrow> prune_up fl k (parentPrefix folder) (folder # deleted) (set_tbl t s)
                | (Some e, _) \<Rightarrow> if e = ErrNodeNotFound then prune_up fl k (parentPrefix folder) deleted s else (Some e, s))))"
  by pat_completeness auto

lemma join_snoc: "xs \<noteq> [] \<Longrightarrow> join_with c (xs @ [a]) = join_with c xs @ [c] @ a"
  by (induction c xs rule: join_with.induct) auto

lemma trim_slash: "trim_suffix path ''/'' = (if path \<noteq> [] \<and> last path = CHR ''/'' then butlast path else path)"
proof (cases path rule: rev_cases)
  case (snoc xs x)
  have "has_suffix (xs @ [x]) ''/'' \<longleftrightarrow> x = CHR ''/''" by (simp add: has_suffix_iff)
  then show ?thesis using snoc by (simp add: trim_suffix_def)
qed (simp add: trim_suffix_def has_suffix_def)

lemma parentPrefix_segs:
  "split_on (CHR ''/'') (trim_suffix path ''/'') = xs @ [a] \<Longrightarrow> parentPrefix path = (if xs = [] then [] else join_with (CHR ''/'') xs @ ''/'')"
  by (cases xs rule: rev_cases) (simp_all add: parentPrefix_def)

lemma parentPrefix_length:
  assumes "split_on (CHR ''/'') r = xs @ [a]" "xs \<noteq> []"
  shows "r = join_with (CHR ''/'') xs @ ''/'' @ a"
  using join_snoc [OF assms(2), of "CHR ''/''" a] assms(1) join_split [of "CHR ''/''" r] by simp

lemma parentPrefix_shorter:
  assumes "folder \<noteq> []"
  shows "length (parentPrefix folder) < length folder"
proof -
  define r where "r = trim_suffix folder ''/''"
  obtain xs a where sp: "split_on (CHR ''/'') r = xs @ [a]" by (metis rev_exhaust split_on_nonempty)
  show ?thesis
  proof (cases "xs = []")
    case False
    have r: "r = parentPrefix folder @ a"
      using parentPrefix_length [OF sp False] parentPrefix_segs [of folder xs a] sp False by (simp add: r_def)
    show ?thesis
    proof (cases "last folder = CHR ''/''")
      case True
      then have "length r < length folder" using assms by (simp add: r_def trim_slash)
      then show ?thesis using r by simp
    next
      case no: False
      then have "r = folder" by (simp add: r_def trim_slash)
      moreover have "last (parentPrefix folder) = CHR ''/''" using parentPrefix_segs [of folder xs a] sp False by (simp add: r_def)
      ultimately have "a \<noteq> []" using r no by (metis append.right_neutral)
      then show ?thesis using r \<open>r = folder\<close> by (metis append_eq_conv_conj length_append length_greater_0_conv less_add_same_cancel1)
    qed
  qed (use assms parentPrefix_segs [of folder xs a] sp in \<open>simp add: r_def\<close>)
qed

termination prune_up
  by (relation "measure (\<lambda>(fl, k, folder, deleted, s). length folder)") (auto simp: parentPrefix_shorter)

definition pruneEmptyParents :: "(store_call \<Rightarrow> bool) \<Rightarrow> string \<Rightarrow> string \<Rightarrow> service \<Rightarrow> repo_error option \<times> service" where
  "pruneEmptyParents fl k path s = prune_up fl k (parentPrefix path) [] s"


section \<open>The rows as a map\<close>

definition node_at :: "tables \<Rightarrow> string \<Rightarrow> string \<Rightarrow> Node option" where
  "node_at t k p = find (own_node k p) (tb_nodes t)"

lemma node_at_key: "node_at t k p = Some n \<Longrightarrow> nd_RepoKey n = k \<and> nd_Path n = p \<and> n \<in> set (tb_nodes t)"
  by (auto simp: node_at_def find_Some_iff own_node_def)

lemma node_at_None: "node_at t k p = None \<longleftrightarrow> (\<forall>n\<in>set (tb_nodes t). \<not> own_node k p n)"
  by (auto simp: node_at_def find_None_iff)

lemma has_node_at: "has_node t k p \<longleftrightarrow> node_at t k p \<noteq> None"
  by (auto simp: has_node_def node_at_None list_ex_iff)

lemma node_Get: "nodeStore_Get fl t k p =
   (if fl (NodeRow k p) then Inl repo_error.ErrStore else case node_at t k p of None \<Rightarrow> Inl ErrNodeNotFound | Some n \<Rightarrow> Inr n)"
  by (simp add: nodeStore_Get_def node_at_def own_node_def [abs_def])

lemma node_at_Put [simp]:
  "node_at (nodeStore_Put n t) k p = (if nd_RepoKey n = k \<and> nd_Path n = p then Some n else node_at t k p)"
proof (cases "nd_RepoKey n = k \<and> nd_Path n = p")
  case True
  then show ?thesis using find_upsert [of "\<lambda>m. nd_RepoKey m = k \<and> nd_Path m = p" n "tb_nodes t"]
    by (simp add: node_at_def nodeStore_Put_def own_node_def [abs_def])
next
  case False
  then have "find (own_node k p) (upsert_by (\<lambda>m. nd_RepoKey m = nd_RepoKey n \<and> nd_Path m = nd_Path n) n (tb_nodes t)) = find (own_node k p) (tb_nodes t)"
    by (intro find_upsert_other) (auto simp: own_node_def)
  then show ?thesis using False by (auto simp: node_at_def nodeStore_Put_def)
qed

lemma find_filter: "(\<And>x. Q x \<Longrightarrow> P x) \<Longrightarrow> find Q (filter P xs) = find Q xs"
  by (induction xs) auto

text \<open>The three outcomes of a removal.\<close>

lemma node_Delete_cases:
  obtains "nodeStore_Delete fl t k p = (Some repo_error.ErrStore, t)" "fl (NodeDrop k p)"
  | "nodeStore_Delete fl t k p = (Some ErrNodeNotFound, t)" "node_at t k p = None" "\<not> fl (NodeDrop k p)"
  | t' where "nodeStore_Delete fl t k p = (None, t')" "node_at t k p \<noteq> None" "\<not> fl (NodeDrop k p)"
      "t' = t\<lparr>tb_nodes := filter (\<lambda>n. \<not> own_node k p n) (tb_nodes t)\<rparr>"
      "\<And>k' p'. node_at t' k' p' = (if k' = k \<and> p' = p then None else node_at t k' p')"
proof (cases "fl (NodeDrop k p)")
  case True
  then show thesis using that(1) by (simp add: nodeStore_Delete_def)
next
  case ok: False
  have ex: "list_ex (\<lambda>n. nd_RepoKey n = k \<and> nd_Path n = p) (tb_nodes t) \<longleftrightarrow> node_at t k p \<noteq> None"
    using has_node_at [of t k p] by (simp add: has_node_def own_node_def [abs_def])
  show thesis
  proof (cases "node_at t k p = None")
    case True
    then show thesis using that(2) ok ex by (simp add: nodeStore_Delete_def)
  next
    case False
    let ?t = "t\<lparr>tb_nodes := filter (\<lambda>n. \<not> own_node k p n) (tb_nodes t)\<rparr>"
    have "node_at ?t k' p' = (if k' = k \<and> p' = p then None else node_at t k' p')" for k' p'
    proof (cases "k' = k \<and> p' = p")
      case True
      then show ?thesis by (auto simp: node_at_None)
    next
      case False
      then have "find (own_node k' p') (filter (\<lambda>n. \<not> own_node k p n) (tb_nodes t)) = find (own_node k' p') (tb_nodes t)"
        by (intro find_filter) (auto simp: own_node_def)
      then show ?thesis using False by (auto simp: node_at_def)
    qed
    moreover have "nodeStore_Delete fl t k p = (None, ?t)"
      using ok ex False by (simp add: nodeStore_Delete_def own_node_def)
    ultimately show thesis using that(3) [of ?t] ok False by blast
  qed
qed

lemma node_at_blob [simp]: "node_at (blobStore_Put b t) k p = node_at t k p"
  by (simp add: node_at_def blobStore_Put_def)

lemma put_fields [simp]:
  "tb_repos (nodeStore_Put n t) = tb_repos t" "tb_blobs (nodeStore_Put n t) = tb_blobs t"
  "tb_repos (blobStore_Put b t) = tb_repos t" "tb_nodes (blobStore_Put b t) = tb_nodes t"
  by (simp_all add: nodeStore_Put_def blobStore_Put_def)

lemma node_at_marks [simp]: "node_at (t\<lparr>tb_marks := x\<rparr>) k p = node_at t k p"
  by (simp add: node_at_def)

lemma listed_paths:
  assumes "nodeStore_ListByPrefix fl t k pfx = Inr rows"
  shows "q \<in> nd_Path ` set rows \<longleftrightarrow> node_at t k q \<noteq> None \<and> below_prefix pfx q"
    "n \<in> set rows \<Longrightarrow> node_at t k (nd_Path n) \<noteq> None \<and> below_prefix pfx (nd_Path n)"
proof -
  have rows: "set rows = {n \<in> set (tb_nodes t). nd_RepoKey n = k \<and> below_prefix pfx (nd_Path n)}"
    using assms by (auto simp: nodeStore_ListByPrefix_def split: if_splits)
  show "n \<in> set rows \<Longrightarrow> node_at t k (nd_Path n) \<noteq> None \<and> below_prefix pfx (nd_Path n)"
    using rows by (auto simp: node_at_None own_node_def)
  show "q \<in> nd_Path ` set rows \<longleftrightarrow> node_at t k q \<noteq> None \<and> below_prefix pfx q"
    using rows by (auto simp: node_at_None own_node_def)
qed

lemma standing_cases:
  assumes "standing fl t k p = Inr old"
  shows "old = node_at t k p"
  using assms by (auto simp: standing_def node_Get split: sum.splits if_splits option.splits)


section \<open>Usage\<close>

definition row_key :: "Node \<Rightarrow> string \<times> string" where "row_key n = (nd_RepoKey n, nd_Path n)"

definition unique_rows :: "tables \<Rightarrow> bool" where "unique_rows t \<longleftrightarrow> distinct (map row_key (tb_nodes t))"

definition stored_bytes :: "tables \<Rightarrow> string \<Rightarrow> int" where
  "stored_bytes t k = sum_list (map (\<lambda>n. int (nd_Size n)) (filter (\<lambda>n. nd_RepoKey n = k) (tb_nodes t)))"

lemma keyed: "own_node k p n \<longleftrightarrow> row_key n = (k, p)"
  by (auto simp: own_node_def row_key_def)

lemma node_size_at: "node_size t k p = (case node_at t k p of None \<Rightarrow> 0 | Some n \<Rightarrow> int (nd_Size n))"
  by (simp add: node_size_def node_at_def)

text \<open>Replacing the row of a key and dropping it, on the list of rows.\<close>

lemma upsert_fresh: "\<not> list_ex P xs \<Longrightarrow> upsert_by P y xs = xs @ [y]"
  by (simp add: upsert_by_def)

lemma map_other: "key \<notin> row_key ` set xs \<Longrightarrow> map (\<lambda>m. if row_key m = key then n else m) xs = xs"
  by (induction xs) auto

lemma map_key: "row_key n = key \<Longrightarrow> map row_key (map (\<lambda>m. if row_key m = key then n else m) xs) = map row_key xs"
  by (induction xs) auto

lemma filter_other: "key \<notin> row_key ` set xs \<Longrightarrow> filter (\<lambda>m. row_key m \<noteq> key) xs = xs"
  by (induction xs) auto

definition repo_sum :: "string \<Rightarrow> Node list \<Rightarrow> int" where
  "repo_sum k xs = sum_list (map (\<lambda>n. int (nd_Size n)) (filter (\<lambda>n. nd_RepoKey n = k) xs))"

lemma repo_sum_simps [simp]:
  "repo_sum k [] = 0" "repo_sum k (n # xs) = (if nd_RepoKey n = k then int (nd_Size n) else 0) + repo_sum k xs"
  "repo_sum k (xs @ ys) = repo_sum k xs + repo_sum k ys"
  by (simp_all add: repo_sum_def)

lemma sum_replaced:
  assumes "distinct (map row_key xs)" "m \<in> set xs" "row_key m = row_key n"
  shows "repo_sum k (map (\<lambda>x. if row_key x = row_key n then n else x) xs) =
    repo_sum k xs + (if nd_RepoKey n = k then int (nd_Size n) - int (nd_Size m) else 0)"
  using assms
proof (induction xs)
  case (Cons x xs)
  show ?case
  proof (cases "m = x")
    case True
    then have "row_key n \<notin> row_key ` set xs" using Cons.prems by auto
    then have "map (\<lambda>x. if row_key x = row_key n then n else x) xs = xs" by (rule map_other)
    moreover have "nd_RepoKey m = nd_RepoKey n" using Cons.prems(3) by (simp add: row_key_def)
    ultimately show ?thesis using True Cons.prems(3) by simp
  next
    case False
    moreover have "row_key x \<noteq> row_key n" using Cons.prems False by (auto simp: image_iff)
    ultimately show ?thesis using Cons by simp
  qed
qed simp

lemma sum_dropped:
  assumes "distinct (map row_key xs)" "m \<in> set xs"
  shows "repo_sum k (filter (\<lambda>x. row_key x \<noteq> row_key m) xs) = repo_sum k xs - (if nd_RepoKey m = k then int (nd_Size m) else 0)"
  using assms
proof (induction xs)
  case (Cons x xs)
  show ?case
  proof (cases "m = x")
    case True
    then have "row_key m \<notin> row_key ` set xs" using Cons.prems by auto
    then show ?thesis using True filter_other [of "row_key m" xs] by simp
  next
    case False
    moreover have "row_key x \<noteq> row_key m" using Cons.prems False by (auto simp: image_iff)
    ultimately show ?thesis using Cons by simp
  qed
qed simp

lemma stored_bytes_sum: "stored_bytes t k = repo_sum k (tb_nodes t)"
  by (simp add: stored_bytes_def repo_sum_def)

lemma usage_Put:
  assumes "unique_rows t"
  shows "unique_rows (nodeStore_Put n t)"
    "stored_bytes (nodeStore_Put n t) k =
      stored_bytes t k + (if nd_RepoKey n = k then int (nd_Size n) - node_size t k (nd_Path n) else 0)"
proof -
  have P: "(\<lambda>m. nd_RepoKey m = nd_RepoKey n \<and> nd_Path m = nd_Path n) = (\<lambda>m. row_key m = row_key n)"
    by (auto simp: row_key_def)
  have d: "distinct (map row_key (tb_nodes t))" using assms by (simp add: unique_rows_def)
  have rows: "tb_nodes (nodeStore_Put n t) = upsert_by (\<lambda>m. row_key m = row_key n) n (tb_nodes t)"
    by (simp add: nodeStore_Put_def P)
  have "unique_rows (nodeStore_Put n t) \<and> stored_bytes (nodeStore_Put n t) k =
      stored_bytes t k + (if nd_RepoKey n = k then int (nd_Size n) - node_size t k (nd_Path n) else 0)"
  proof (cases "node_at t (nd_RepoKey n) (nd_Path n)")
    case None
    then have no: "row_key n \<notin> row_key ` set (tb_nodes t)" by (auto simp: node_at_None keyed row_key_def)
    then have "\<not> list_ex (\<lambda>m. row_key m = row_key n) (tb_nodes t)" 
      unfolding list_ex_iff by (metis imageI)
    then show ?thesis using None no d rows
      by (auto simp: unique_rows_def stored_bytes_sum upsert_fresh node_size_at)
  next
    case (Some m)
    have m: "m \<in> set (tb_nodes t)" "row_key m = row_key n" using node_at_key [OF Some] by (auto simp: row_key_def)
    then have "list_ex (\<lambda>m. row_key m = row_key n) (tb_nodes t)" by (auto simp: list_ex_iff)
    then have rows': "tb_nodes (nodeStore_Put n t) = map (\<lambda>x. if row_key x = row_key n then n else x) (tb_nodes t)"
      using rows by (simp add: upsert_by_def)
    show ?thesis
      using sum_replaced [OF d m, of k] Some d
      by (auto simp: unique_rows_def stored_bytes_sum rows' node_size_at map_key simp del: map_map)
  qed
  then show "unique_rows (nodeStore_Put n t)" "stored_bytes (nodeStore_Put n t) k =
      stored_bytes t k + (if nd_RepoKey n = k then int (nd_Size n) - node_size t k (nd_Path n) else 0)" by auto
qed

lemma usage_drop:
  assumes "unique_rows t" "node_at t k p \<noteq> None"
  defines "t' \<equiv> t\<lparr>tb_nodes := filter (\<lambda>n. \<not> own_node k p n) (tb_nodes t)\<rparr>"
  shows "unique_rows t'" "stored_bytes t' k' = stored_bytes t k' - (if k' = k then node_size t k p else 0)"
proof -
  obtain m where m: "node_at t k p = Some m" using assms(2) by blast
  have d: "distinct (map row_key (tb_nodes t))" using assms(1) by (simp add: unique_rows_def)
  then show "unique_rows t'" by (simp add: t'_def unique_rows_def distinct_map_filter)
  have mk: "m \<in> set (tb_nodes t)" "row_key m = (k, p)" using node_at_key [OF m] by (auto simp: row_key_def)
  show "stored_bytes t' k' = stored_bytes t k' - (if k' = k then node_size t k p else 0)"
    using sum_dropped [OF d mk(1), of k'] m mk(2) by (auto simp: t'_def stored_bytes_sum keyed node_size_at row_key_def)
qed


section \<open>Folders above a path\<close>

abbreviation segs_of :: "string \<Rightarrow> string list" where "segs_of path \<equiv> split_on (CHR ''/'') (trim_suffix path ''/'')"

lemma trim_folder [simp]: "trim_suffix (d @ ''/'') ''/'' = d"
  by (simp add: trim_slash)

lemma dir_segs: "1 \<le> i \<Longrightarrow> segs_of (join_with (CHR ''/'') (take i (segs_of path)) @ ''/'') = take i (segs_of path)"
  using split_on_parts [of "CHR ''/''" "trim_suffix path ''/''"]
  by (auto intro!: split_join dest: in_set_takeD)

lemma ancestor_cases:
  assumes "d \<in> set (ancestorDirs path)"
  obtains i where "1 \<le> i" "i < length (segs_of path)" "d = join_with (CHR ''/'') (take i (segs_of path)) @ ''/''"
  using assms by (auto simp: ancestorDirs_def Let_def)

lemma ancestor_nth: "1 \<le> i \<Longrightarrow> i < length (segs_of path) \<Longrightarrow> join_with (CHR ''/'') (take i (segs_of path)) @ ''/'' \<in> set (ancestorDirs path)"
  by (auto simp: ancestorDirs_def Let_def)

lemma ancestor_folder: "d \<in> set (ancestorDirs path) \<Longrightarrow> isFolderNode d"
  by (auto elim!: ancestor_cases simp: isFolderNode_def has_suffix_iff)

lemma ancestor_trans:
  assumes "d \<in> set (ancestorDirs path)" "c \<in> set (ancestorDirs d)"
  shows "c \<in> set (ancestorDirs path)"
proof -
  obtain i where i: "1 \<le> i" "i < length (segs_of path)" "d = join_with (CHR ''/'') (take i (segs_of path)) @ ''/''"
    by (rule ancestor_cases [OF assms(1)])
  have sd: "segs_of d = take i (segs_of path)" using dir_segs [OF i(1)] i(3) by simp
  obtain j where j: "1 \<le> j" "j < length (segs_of d)" "c = join_with (CHR ''/'') (take j (segs_of d)) @ ''/''"
    by (rule ancestor_cases [OF assms(2)])
  have "c = join_with (CHR ''/'') (take j (segs_of path)) @ ''/''" "j < length (segs_of path)"
    using j sd i(2) by (simp_all add: min_def)
  then show ?thesis using ancestor_nth [of j path] j(1) by simp
qed

lemma join_append: "xs \<noteq> [] \<Longrightarrow> ys \<noteq> [] \<Longrightarrow> join_with c (xs @ ys) = join_with c xs @ c # join_with c ys"
proof (induction c xs rule: join_with.induct)
  case (2 c x)
  then show ?case by (cases ys) auto
qed auto

lemma join_take:
  assumes "1 \<le> i" "i < length xs"
  shows "join_with c xs = join_with c (take i xs) @ c # join_with c (drop i xs)"
  using join_append [of "take i xs" "drop i xs" c] assms by (cases "xs = []") auto

lemma trim_extends: "\<exists>t. path = trim_suffix path ''/'' @ t"
proof (cases "path \<noteq> [] \<and> last path = CHR ''/''")
  case True
  then have "path = butlast path @ [last path]" using append_butlast_last_id [of path] by metis
  then show ?thesis using True unfolding trim_slash by auto
qed (auto simp: trim_slash)

lemma ancestor_prefix:
  assumes "d \<in> set (ancestorDirs path)"
  shows "has_prefix path d" "d \<noteq> path"
proof -
  obtain i where i: "1 \<le> i" "i < length (segs_of path)" "d = join_with (CHR ''/'') (take i (segs_of path)) @ ''/''"
    by (rule ancestor_cases [OF assms])
  have "trim_suffix path ''/'' = d @ join_with (CHR ''/'') (drop i (segs_of path))"
    using join_take [OF i(1,2), of "CHR ''/''"] i(3) by simp
  then obtain r where r: "trim_suffix path ''/'' = d @ r" by blast
  obtain t where "path = trim_suffix path ''/'' @ t" using trim_extends by blast
  then have "path = d @ r @ t" using r by simp
  then show "has_prefix path d" by (auto simp: has_prefix_iff)
  have "segs_of d = take i (segs_of path)" using dir_segs [OF i(1)] i(3) by simp
  then have "length (segs_of d) = i" using i(2) by simp
  then show "d \<noteq> path" using i(2) by auto
qed

text \<open>The folders above a path are its parent and the folders above the parent.\<close>

lemma ancestors_parent:
  "set (ancestorDirs path) = (if parentPrefix path = [] then {} else insert (parentPrefix path) (set (ancestorDirs (parentPrefix path))))"
proof -
  obtain xs a where sp: "segs_of path = xs @ [a]" by (metis rev_exhaust split_on_nonempty)
  have pp: "parentPrefix path = (if xs = [] then [] else join_with (CHR ''/'') xs @ ''/'')" using parentPrefix_segs [OF sp] .
  show ?thesis
  proof (cases "xs = []")
    case True
    then show ?thesis using pp sp by (simp add: ancestorDirs_def)
  next
    case False
    have dirs: "ancestorDirs path = map (\<lambda>i. join_with (CHR ''/'') (take i xs) @ ''/'') [1..<Suc (length xs)]"
      unfolding ancestorDirs_def sp by (auto simp: Let_def)
    have sx: "segs_of (join_with (CHR ''/'') xs @ ''/'') = xs"
      using dir_segs [of "length xs" path] sp False by (simp add: Suc_leI)
    have up: "ancestorDirs (parentPrefix path) = map (\<lambda>i. join_with (CHR ''/'') (take i xs) @ ''/'') [1..<length xs]"
      unfolding ancestorDirs_def Let_def using pp False sx by simp
    have "[1..<Suc (length xs)] = [1..<length xs] @ [length xs]" using False by (simp add: Suc_leI)
    then show ?thesis unfolding dirs up using pp False by auto
  qed
qed

lemma below_iff:
  assumes "d \<noteq> []" "hd d \<noteq> CHR ''/''"
  shows "below_prefix d q \<longleftrightarrow> q = d \<or> has_prefix q (d @ ''/'')"
proof -
  have "\<not> has_prefix d ''/''" using assms by (cases d) (auto simp: has_prefix_def)
  then show ?thesis using assms by (simp add: below_prefix_def)
qed


lemma ancestor_chain:
  assumes "ancestorDirs path = pre @ d # post" "c \<in> set (ancestorDirs d)"
  shows "c \<in> set pre"
proof -
  let ?f = "\<lambda>i. join_with (CHR ''/'') (take i (segs_of path)) @ ''/''"
  have dirs: "ancestorDirs path = map ?f [1..<length (segs_of path)]" by (simp add: ancestorDirs_def Let_def)
  have len: "length pre < length (ancestorDirs path)" using assms(1) by simp
  then have d: "d = ?f (Suc (length pre))" using arg_cong [OF assms(1), of "\<lambda>l. l ! length pre"] dirs by simp
  have sd: "segs_of d = take (Suc (length pre)) (segs_of path)" using dir_segs [of "Suc (length pre)" path] d by simp
  obtain j where j: "1 \<le> j" "j < length (segs_of d)" "c = join_with (CHR ''/'') (take j (segs_of d)) @ ''/''"
    by (rule ancestor_cases [OF assms(2)])
  have jl: "j - 1 < length pre" using j sd by auto
  have "take j (segs_of d) = take j (segs_of path)" using sd jl by (simp add: min_def)
  then have "c = ?f j" using j(3) by simp
  also have "\<dots> = ancestorDirs path ! (j - 1)" using dirs len jl j(1) by simp
  also have "\<dots> = pre ! (j - 1)" using assms(1) jl by (simp add: nth_append)
  finally show ?thesis using jl by simp
qed


section \<open>What a landing keeps\<close>

text \<open>
  The rows of a well-kept store: unique, counted exactly, each with its ledger row and the folder
  rows above it; folder rows are empty markers; properties belong to a row.
\<close>

definition row_ok :: "tables \<Rightarrow> string \<Rightarrow> Node \<Rightarrow> bool" where
  "row_ok t k n \<longleftrightarrow>
     (isFolderNode (nd_Path n) \<longrightarrow> nd_Sha256 n = emptyFolderSHA \<and> nd_Size n = 0) \<and>
     (\<forall>d\<in>set (ancestorDirs (nd_Path n)). node_at t k d \<noteq> None) \<and>
     list_ex (\<lambda>b. bl_Sha256 b = nd_Sha256 n) (tb_blobs t)"

definition content_ok :: "service \<Rightarrow> bool" where
  "content_ok s \<longleftrightarrow>
     unique_rows (tbl s) \<and> (\<forall>k. sv_usage s k = stored_bytes (tbl s) k) \<and>
     (\<forall>k p n. node_at (tbl s) k p = Some n \<longrightarrow> row_ok (tbl s) k n) \<and>
     (\<forall>x\<in>set (sv_props s). node_at (tbl s) (fst x) (fst (snd x)) \<noteq> None)"

lemma content_okD:
  assumes "content_ok s"
  shows "unique_rows (tbl s)" "sv_usage s k = stored_bytes (tbl s) k" "node_at (tbl s) k p = Some n \<Longrightarrow> row_ok (tbl s) k n"
    "x \<in> set (sv_props s) \<Longrightarrow> node_at (tbl s) (fst x) (fst (snd x)) \<noteq> None"
  using assms by (auto simp: content_ok_def)

lemma content_ok_cong:
  "tbl s' = tbl s \<Longrightarrow> sv_usage s' = sv_usage s \<Longrightarrow> sv_props s' = sv_props s \<Longrightarrow> content_ok s' = content_ok s"
  by (simp add: content_ok_def)

text \<open>What does not belong to the touched paths of a repository stays.\<close>

definition touches :: "string \<Rightarrow> string set \<Rightarrow> service \<Rightarrow> service \<Rightarrow> bool" where
  "touches k P s s' \<longleftrightarrow>
     (\<forall>k' p'. \<not> (k' = k \<and> p' \<in> P) \<longrightarrow> node_at (tbl s') k' p' = node_at (tbl s) k' p') \<and>
     eng s' = eng s \<and> tb_repos (tbl s') = tb_repos (tbl s) \<and> sv_log s' = sv_log s \<and>
     (\<forall>k'. k' \<noteq> k \<longrightarrow> sv_usage s' k' = sv_usage s k')"

lemma touches_refl [simp]: "touches k P s s"
  by (simp add: touches_def)

lemma touches_trans: "touches k P s s' \<Longrightarrow> touches k Q s' s'' \<Longrightarrow> touches k (P \<union> Q) s s''"
  by (simp add: touches_def)

lemma touches_mono: "touches k P s s' \<Longrightarrow> P \<subseteq> Q \<Longrightarrow> touches k Q s s'"
  by (auto simp: touches_def)

lemma props_filtered: "content_ok s \<Longrightarrow> (\<And>k p. node_at (tbl s) k p \<noteq> None \<Longrightarrow> node_at t k p \<noteq> None) \<Longrightarrow>
   sv_props (set_tbl t s) = sv_props s"
  unfolding set_tbl_def by (auto simp: has_node_at filter_id_conv dest: content_okD(4))

lemma put_row_cases:
  obtains e where "PutNodeWithUsage fl n s = (Some e, s)"
  | s' where "PutNodeWithUsage fl n s = (None, s')" "tbl s' = nodeStore_Put n (tbl s)" "eng s' = eng s" "sv_log s' = sv_log s"
      "sv_usage s' = (sv_usage s)(nd_RepoKey n := sv_usage s (nd_RepoKey n) + (int (nd_Size n) - node_size (tbl s) (nd_RepoKey n) (nd_Path n)))"
      "sv_props s' = sv_props (set_tbl (nodeStore_Put n (tbl s)) s)" "list_ex (\<lambda>b. bl_Sha256 b = nd_Sha256 n) (tb_blobs (tbl s))"
proof (cases "PutNodeWithUsage fl n s")
  case (Pair r s')
  show thesis
  proof (cases r)
    case None
    then show thesis using that(2) [of s'] Pair by (auto simp: PutNodeWithUsage_def Let_def set_tbl_def tbl_def eng_def split: if_splits)
  next
    case (Some e)
    then show thesis using that(1) [of e] Pair by (auto simp: PutNodeWithUsage_def Let_def split: if_splits)
  qed
qed

lemma put_row_touches:
  assumes "PutNodeWithUsage fl n s = (r, s')"
  shows "touches (nd_RepoKey n) {nd_Path n} s s'"
  by (rule put_row_cases [of fl n s]) (use assms in \<open>auto simp: touches_def\<close>)

lemma put_row_ok:
  assumes "PutNodeWithUsage fl n s = (r, s')" "content_ok s"
    "isFolderNode (nd_Path n) \<Longrightarrow> nd_Sha256 n = emptyFolderSHA \<and> nd_Size n = 0"
    "\<And>d. d \<in> set (ancestorDirs (nd_Path n)) \<Longrightarrow> node_at (tbl s) (nd_RepoKey n) d \<noteq> None"
  shows "content_ok s'"
proof (rule put_row_cases [of fl n s])
  fix s1 assume 1: "PutNodeWithUsage fl n s = (None, s1)" "tbl s1 = nodeStore_Put n (tbl s)"
      "sv_usage s1 = (sv_usage s)(nd_RepoKey n := sv_usage s (nd_RepoKey n) + (int (nd_Size n) - node_size (tbl s) (nd_RepoKey n) (nd_Path n)))"
      "sv_props s1 = sv_props (set_tbl (nodeStore_Put n (tbl s)) s)" "list_ex (\<lambda>b. bl_Sha256 b = nd_Sha256 n) (tb_blobs (tbl s))"
  note ok = content_okD [OF assms(2)]
  have "sv_props s1 = sv_props s" unfolding 1(4) by (rule props_filtered [OF assms(2)]) simp
  moreover have "tb_blobs (tbl s1) = tb_blobs (tbl s)" by (simp add: 1(2))
  ultimately have "content_ok s1"
    using usage_Put [OF ok(1), of n] ok(2-4) assms(3,4) 1(2,3,5)
    unfolding content_ok_def row_ok_def by auto
  then show ?thesis using 1(1) assms(1) by simp
qed (use assms in simp)


lemma blob_row_step:
  fixes b :: Blob
  assumes "content_ok s"
  defines "s' \<equiv> set_tbl (blobStore_Put b (tbl s)) s"
  shows "content_ok s'" "touches k P s s'" "sv_props s' = sv_props s"
    "list_ex (\<lambda>c. bl_Sha256 c = bl_Sha256 b) (tb_blobs (tbl s'))"
proof -
  show pr: "sv_props s' = sv_props s" unfolding s'_def by (rule props_filtered [OF assms(1)]) simp
  have grow: "list_ex P (tb_blobs (tbl s)) \<Longrightarrow> list_ex P (tb_blobs (tbl s'))" for P by (simp add: s'_def blobStore_Put_def)
  have fields: "unique_rows (tbl s') = unique_rows (tbl s)" "stored_bytes (tbl s') k = stored_bytes (tbl s) k" for k
    by (simp_all add: s'_def unique_rows_def stored_bytes_def)
  have at: "node_at (tbl s') k p = node_at (tbl s) k p" "sv_usage s' = sv_usage s" for k p by (simp_all add: s'_def)
  show "content_ok s'" using content_okD [OF assms(1)] grow
    unfolding content_ok_def row_ok_def fields at pr by blast
  show "touches k P s s'" by (simp add: s'_def touches_def)
  show "list_ex (\<lambda>c. bl_Sha256 c = bl_Sha256 b) (tb_blobs (tbl s'))" by (simp add: s'_def blobStore_Put_def)
qed

text \<open>A landing of the row of a path: everything else stays, and success means the row stands.\<close>

definition landed :: "string \<Rightarrow> string \<Rightarrow> service \<Rightarrow> (repo_error + Node) \<times> service \<Rightarrow> bool" where
  "landed k p s r \<longleftrightarrow>
     content_ok (snd r) \<and> touches k {p} s (snd r) \<and> sv_props (snd r) = sv_props s \<and>
     (case fst r of
        Inr n \<Rightarrow> node_at (tbl (snd r)) k p = Some n \<and>
                 sv_usage (snd r) k = sv_usage s k + (int (nd_Size n) - node_size (tbl s) k p)
      | Inl _ \<Rightarrow> node_at (tbl (snd r)) k p = node_at (tbl s) k p \<and> sv_usage (snd r) k = sv_usage s k)"

lemma landed_written:
  assumes "content_ok s1" "touches k {} s s1" "sv_props s1 = sv_props s" "sv_usage s1 k = sv_usage s k"
    "nd_RepoKey n = k" "nd_Path n = p" "isFolderNode p \<Longrightarrow> nd_Sha256 n = emptyFolderSHA \<and> nd_Size n = 0"
    "\<And>d. d \<in> set (ancestorDirs p) \<Longrightarrow> node_at (tbl s) k d \<noteq> None"
  shows "landed k p s (written n (PutNodeWithUsage fl n s1))"
proof -
  obtain r s2 where r: "PutNodeWithUsage fl n s1 = (r, s2)" by fastforce
  have at: "node_at (tbl s1) k' p' = node_at (tbl s) k' p'" for k' p' using assms(2) by (simp add: touches_def)
  have ok: "content_ok s2"
    by (rule put_row_ok [OF r assms(1)]) (use assms(5-8) at in auto)
  have t: "touches k {p} s s2"
    using touches_trans [OF assms(2) put_row_touches [OF r, unfolded assms(5,6)]] by simp
  show ?thesis
  proof (rule put_row_cases [of fl n s1])
    fix e assume "PutNodeWithUsage fl n s1 = (Some e, s1)"
    then show ?thesis using r ok t assms(3,4) at by (simp add: landed_def written_def)
  next
    fix s' assume "PutNodeWithUsage fl n s1 = (None, s')" "tbl s' = nodeStore_Put n (tbl s1)"
      "sv_props s' = sv_props (set_tbl (nodeStore_Put n (tbl s1)) s1)"
      "sv_usage s' = (sv_usage s1)(nd_RepoKey n := sv_usage s1 (nd_RepoKey n) + (int (nd_Size n) - node_size (tbl s1) (nd_RepoKey n) (nd_Path n)))"
    then show ?thesis using r ok t assms(3-6) at props_filtered [OF assms(1), of "nodeStore_Put n (tbl s1)"]
      by (auto simp: landed_def written_def node_size_at)
  qed
qed

lemma landed_failed: "content_ok s1 \<Longrightarrow> touches k {} s s1 \<Longrightarrow> sv_props s1 = sv_props s \<Longrightarrow> sv_usage s1 k = sv_usage s k \<Longrightarrow> landed k p s (Inl e, s1)"
  by (auto simp: landed_def touches_def)

lemma standing_row: "standing fl t k p = Inr (Some m) \<Longrightarrow> nd_RepoKey m = k \<and> nd_Path m = p \<and> node_at t k p = Some m"
  using standing_cases node_at_key by metis

lemma origin_fields [simp]:
  "nd_RepoKey (kept_origin old n) = nd_RepoKey n" "nd_Path (kept_origin old n) = nd_Path n"
  "nd_Sha256 (kept_origin old n) = nd_Sha256 n" "nd_Size (kept_origin old n) = nd_Size n"
  by (auto simp: kept_origin_def split: option.splits)

lemma written_Inr: "written n r = (Inr m, s) \<Longrightarrow> m = n"
  by (auto simp: written_def split: prod.splits option.splits)

text \<open>The two arms of a row's landing: the standing row refreshed, or a new row over the old one's origin.\<close>

definition refresh :: "time \<Rightarrow> string \<Rightarrow> Node \<Rightarrow> Node" where
  "refresh now mime m = m\<lparr>nd_Mime := mime, nd_UpdatedAt := node_stamp now\<rparr>"

lemma refresh_fields [simp]:
  "nd_RepoKey (refresh now mime m) = nd_RepoKey m" "nd_Path (refresh now mime m) = nd_Path m"
  "nd_Sha256 (refresh now mime m) = nd_Sha256 m" "nd_Size (refresh now mime m) = nd_Size m" "nd_Mime (refresh now mime m) = mime"
  by (simp_all add: refresh_def)

lemma row_arms:
  assumes "standing fl t k p = Inr old"
  obtains m where "old = Some m" "nd_Sha256 m = sha" "nd_RepoKey m = k" "nd_Path m = p" "node_at t k p = Some m"
  | "\<not> (case old of Some m \<Rightarrow> nd_Sha256 m = sha | None \<Rightarrow> False)" "old = node_at t k p"
proof (cases old)
  case None
  then show thesis using that(2) standing_cases [OF assms] by simp
next
  case (Some m)
  then show thesis using that(1) [of m] that(2) standing_row [of fl t k p m] assms standing_cases [OF assms] by (cases "nd_Sha256 m = sha") auto
qed

abbreviation folder_blob :: "time \<Rightarrow> Blob" where
  "folder_blob now \<equiv> \<lparr>bl_Sha256 = emptyFolderSHA, bl_Sha1 = [], bl_Md5 = [], bl_Size = 0, bl_CreatedAt = node_stamp now\<rparr>"

abbreviation new_folder :: "time \<Rightarrow> string \<Rightarrow> string \<Rightarrow> string \<Rightarrow> string \<Rightarrow> Node" where
  "new_folder now who k d mime \<equiv> \<lparr>nd_RepoKey = k, nd_Path = d, nd_Sha256 = emptyFolderSHA, nd_Size = 0, nd_Mime = mime,
     nd_CreatedBy = who, nd_CreatedAt = format_rfc3339 now, nd_UpdatedAt = format_rfc3339 now\<rparr>"

lemma folder_arms:
  obtains e where "putFolderRow fl now who k d mime s = (Inl e, s)"
  | m where "putFolderRow fl now who k d mime s = written (refresh now mime m) (PutNodeWithUsage fl (refresh now mime m) s)"
      "nd_Sha256 m = emptyFolderSHA" "nd_RepoKey m = k" "nd_Path m = d" "node_at (tbl s) k d = Some m"
  | n where "n = kept_origin (node_at (tbl s) k d) (new_folder now who k d mime)"
      "putFolderRow fl now who k d mime s = written n (PutNodeWithUsage fl n (set_tbl (blobStore_Put (folder_blob now) (tbl s)) s))"
proof (cases "standing fl (tbl s) k d")
  case (Inl e)
  then show thesis using that(1) by (simp add: putFolderRow_def)
next
  case (Inr old)
  show thesis
  proof (rule row_arms [OF Inr, of emptyFolderSHA])
    fix m assume m: "old = Some m" "nd_Sha256 m = emptyFolderSHA" "nd_RepoKey m = k" "nd_Path m = d" "node_at (tbl s) k d = Some m"
    show thesis by (rule that(2) [OF _ m(2-5)]) (simp add: putFolderRow_def Inr m(1,2) refresh_def Let_def)
  next
    assume no: "\<not> (case old of Some m \<Rightarrow> nd_Sha256 m = emptyFolderSHA | None \<Rightarrow> False)" "old = node_at (tbl s) k d"
    show thesis
    proof (cases "fl (BlobWrite emptyFolderSHA)")
      case True
      show thesis by (rule that(1)) (simp add: putFolderRow_def Inr no(1) ensureFolderLedger_def True)
    next
      case False
      show thesis by (rule that(3) [OF refl]) (use no(1) in \<open>simp add: putFolderRow_def Inr no(2) ensureFolderLedger_def False Let_def\<close>)
    qed
  qed
qed

lemma folder_row_sha: "putFolderRow fl now who k d mime s = (Inr n, s') \<Longrightarrow> nd_Sha256 n = emptyFolderSHA"
proof (rule folder_arms [of fl now who k d mime s])
  fix m assume "putFolderRow fl now who k d mime s = (Inr n, s')"
    "putFolderRow fl now who k d mime s = written (refresh now mime m) (PutNodeWithUsage fl (refresh now mime m) s)" "nd_Sha256 m = emptyFolderSHA"
  then show ?thesis using written_Inr [of "refresh now mime m"] by (metis refresh_fields(3))
next
  fix m assume "putFolderRow fl now who k d mime s = (Inr n, s')" "m = kept_origin (node_at (tbl s) k d) (new_folder now who k d mime)"
    "putFolderRow fl now who k d mime s = written m (PutNodeWithUsage fl m (set_tbl (blobStore_Put (folder_blob now) (tbl s)) s))"
  then have "n = m" using written_Inr by metis
  then show ?thesis using \<open>m = _\<close> by simp
qed simp

lemma folder_landed:
  assumes "content_ok s" "isFolderNode d" "\<And>c. c \<in> set (ancestorDirs d) \<Longrightarrow> node_at (tbl s) k c \<noteq> None"
  shows "landed k d s (putFolderRow fl now who k d mime s)"
proof (rule folder_arms [of fl now who k d mime s])
  fix e assume "putFolderRow fl now who k d mime s = (Inl e, s)"
  then show ?thesis using landed_failed [OF assms(1)] by simp
next
  fix m assume m: "putFolderRow fl now who k d mime s = written (refresh now mime m) (PutNodeWithUsage fl (refresh now mime m) s)"
    "nd_Sha256 m = emptyFolderSHA" "nd_RepoKey m = k" "nd_Path m = d" "node_at (tbl s) k d = Some m"
  have "nd_Size m = 0" using content_okD(3) [OF assms(1) m(5)] assms(2) m(4) by (simp add: row_ok_def)
  then show ?thesis unfolding m(1) by (intro landed_written [OF assms(1)]) (use m assms(3) in auto)
next
  fix n assume n: "n = kept_origin (node_at (tbl s) k d) (new_folder now who k d mime)"
    "putFolderRow fl now who k d mime s = written n (PutNodeWithUsage fl n (set_tbl (blobStore_Put (folder_blob now) (tbl s)) s))"
  note L = blob_row_step [OF assms(1), where b = "folder_blob now"]
  show ?thesis unfolding n(2)
    by (rule landed_written [OF L(1) L(2) L(3)]) (use assms(3) in \<open>auto simp: n(1)\<close>)
qed

abbreviation new_file :: "time \<Rightarrow> string \<Rightarrow> string \<Rightarrow> string \<Rightarrow> BlobRef \<Rightarrow> string \<Rightarrow> Node" where
  "new_file now who k p ref mime \<equiv> \<lparr>nd_RepoKey = k, nd_Path = p, nd_Sha256 = Sha256 ref, nd_Size = Size ref, nd_Mime = mime,
     nd_CreatedBy = who, nd_CreatedAt = node_stamp now, nd_UpdatedAt = node_stamp now\<rparr>"

abbreviation ref_blob :: "time \<Rightarrow> BlobRef \<Rightarrow> Blob" where
  "ref_blob now ref \<equiv> \<lparr>bl_Sha256 = Sha256 ref, bl_Sha1 = Sha1 ref, bl_Md5 = Md5 ref, bl_Size = Size ref, bl_CreatedAt = format_rfc3339 now\<rparr>"

lemma file_arms:
  obtains e where "putFileRow fl now who k p ref mime s = (Inl e, s)"
  | m where "putFileRow fl now who k p ref mime s = written (refresh now mime m) (PutNodeWithUsage fl (refresh now mime m) s)"
      "nd_Sha256 m = Sha256 ref" "nd_RepoKey m = k" "nd_Path m = p" "node_at (tbl s) k p = Some m"
  | n where "n = kept_origin (node_at (tbl s) k p) (new_file now who k p ref mime)"
      "putFileRow fl now who k p ref mime s = written n (PutNodeWithUsage fl n (set_tbl (blobStore_Put (ref_blob now ref) (tbl s)) s))"
proof (cases "standing fl (tbl s) k p")
  case (Inl e)
  then show thesis using that(1) by (simp add: putFileRow_def)
next
  case (Inr old)
  show thesis
  proof (rule row_arms [OF Inr, of "Sha256 ref"])
    fix m assume m: "old = Some m" "nd_Sha256 m = Sha256 ref" "nd_RepoKey m = k" "nd_Path m = p" "node_at (tbl s) k p = Some m"
    show thesis by (rule that(2) [OF _ m(2-5)]) (simp add: putFileRow_def Inr m(1,2) refresh_def Let_def)
  next
    assume no: "\<not> (case old of Some m \<Rightarrow> nd_Sha256 m = Sha256 ref | None \<Rightarrow> False)" "old = node_at (tbl s) k p"
    show thesis
    proof (cases "fl (BlobWrite (Sha256 ref))")
      case True
      show thesis by (rule that(1)) (simp add: putFileRow_def Inr no(1) True)
    next
      case False
      show thesis by (rule that(3) [OF refl]) (use no(1) in \<open>simp add: putFileRow_def Inr no(2) False Let_def\<close>)
    qed
  qed
qed

text \<open>What the row of a deployed file says.\<close>

definition describes :: "Node \<Rightarrow> BlobRef \<Rightarrow> string \<Rightarrow> Node option \<Rightarrow> bool" where
  "describes n ref mime old \<longleftrightarrow>
     nd_Sha256 n = Sha256 ref \<and> nd_Mime n = mime \<and>
     (nd_Size n = Size ref \<or> (\<exists>m. old = Some m \<and> nd_Sha256 m = Sha256 ref \<and> nd_Size n = nd_Size m)) \<and>
     (\<forall>m. old = Some m \<longrightarrow> nd_CreatedBy n = nd_CreatedBy m \<and> nd_CreatedAt n = nd_CreatedAt m)"

lemma file_describes:
  assumes "putFileRow fl now who k p ref mime s = (Inr n, s')"
  shows "describes n ref mime (node_at (tbl s) k p)"
proof (rule file_arms [of fl now who k p ref mime s])
  fix m assume "putFileRow fl now who k p ref mime s = written (refresh now mime m) (PutNodeWithUsage fl (refresh now mime m) s)"
    "nd_Sha256 m = Sha256 ref" "node_at (tbl s) k p = Some m"
  moreover from this have "n = refresh now mime m" using written_Inr assms by metis
  ultimately show ?thesis by (simp add: describes_def refresh_def)
next
  fix m assume m: "m = kept_origin (node_at (tbl s) k p) (new_file now who k p ref mime)"
    "putFileRow fl now who k p ref mime s = written m (PutNodeWithUsage fl m (set_tbl (blobStore_Put (ref_blob now ref) (tbl s)) s))"
  then have "n = m" using written_Inr assms by metis
  then show ?thesis by (auto simp: describes_def m(1) kept_origin_def split: option.splits)
qed (use assms in simp)

lemma file_landed:
  assumes "content_ok s" "\<not> isFolderNode p" "\<And>c. c \<in> set (ancestorDirs p) \<Longrightarrow> node_at (tbl s) k c \<noteq> None"
  shows "landed k p s (putFileRow fl now who k p ref mime s)"
proof (rule file_arms [of fl now who k p ref mime s])
  fix e assume "putFileRow fl now who k p ref mime s = (Inl e, s)"
  then show ?thesis using landed_failed [OF assms(1)] by simp
next
  fix m assume m: "putFileRow fl now who k p ref mime s = written (refresh now mime m) (PutNodeWithUsage fl (refresh now mime m) s)"
    "nd_RepoKey m = k" "nd_Path m = p"
  then show ?thesis unfolding m(1) by (intro landed_written [OF assms(1)]) (use m assms(2,3) in auto)
next
  fix n assume n: "n = kept_origin (node_at (tbl s) k p) (new_file now who k p ref mime)"
    "putFileRow fl now who k p ref mime s = written n (PutNodeWithUsage fl n (set_tbl (blobStore_Put (ref_blob now ref) (tbl s)) s))"
  note L = blob_row_step [OF assms(1), where b = "ref_blob now ref"]
  show ?thesis unfolding n(2)
    by (rule landed_written [OF L(1) L(2) L(3)]) (use assms(2,3) in \<open>auto simp: n(1)\<close>)
qed

end
