(* ===== verification/Repo_Service.thy ===== *)
theory Repo_Service
  imports Repo_Content
begin

text \<open>
  The content operations of the repository service (\<open>internal/repo/service.go\<close>): the deploys \<open>Put\<close>,
  \<open>PutWithOptions\<close>, \<open>PutFromBlob\<close> and \<open>PutLandedBlob\<close>, the read \<open>Get\<close> and the removal \<open>Delete\<close> (\<open>service_Delete\<close>), with
  their gates in the order of the code: authentication, path shape, repository class, blackout,
  patterns, permissions, then bytes, quota and rows.

  The environment of a call has the clock, the store calls that fail (before and after the first
  write), the authorizer (\<open>None\<close>: none wired), the surroundings of the virtual walk and of the
  remote engine, those of the storage calls, and the trash capture (\<open>None\<close>: the trash can is off).
  The log holds the events handed to the audit log, the webhooks and the replicator.

  The properties are in \<open>Repo_Deploy\<close>.
\<close>


section \<open>Results and surroundings\<close>

datatype service_error =
    Unauthorized | Forbidden | BadPath | SystemRepo | BadProperties | RepoBlackedOut
  | PatternRejected bool | QuotaExceeded int int int | OrphanBlob | DigestRequired
  | MetaError repo_error | StorageError storage_error | RemoteError fetch_error | StillWaiting

record senv =
  se_now :: time
  se_land :: "store_call \<Rightarrow> bool"
  se_az :: "(Principal option \<Rightarrow> string \<Rightarrow> string \<Rightarrow> string \<Rightarrow> bool) option"
  se_virtual :: venv
  se_remote :: fenv
  se_passes :: "(fenv \<times> (world \<Rightarrow> world)) list"
  se_storage :: "nat \<Rightarrow> env"
  se_trash :: "(string \<Rightarrow> string \<Rightarrow> service \<Rightarrow> service_error option \<times> service) option"

abbreviation se_gate :: "senv \<Rightarrow> store_call \<Rightarrow> bool" where "se_gate en \<equiv> ve_fail (se_virtual en)"

record PutOptions =
  pu_SkipOverwriteCheck :: bool
  pu_Properties :: prop_set

definition AuditActionDeploy :: string where "AuditActionDeploy = ''deploy''"
definition AuditActionDelete :: string where "AuditActionDelete = ''delete''"
definition AuditActionQuotaExceeded :: string where "AuditActionQuotaExceeded = ''quota.exceeded''"
definition TypeArtifactDeployed :: string where "TypeArtifactDeployed = ''deployed''"
definition TypeArtifactDeleted :: string where "TypeArtifactDeleted = ''deleted''"
definition TypeArtifactCached :: string where "TypeArtifactCached = ''cached''"

definition TrashRepoKey :: string where "TrashRepoKey = ''auto-trashcan''"


section \<open>Gates\<close>

definition guardSystemRepo :: "string \<Rightarrow> bool" where
  "guardSystemRepo repoKey \<longleftrightarrow> repoKey \<noteq> TrashRepoKey"

definition allow :: "senv \<Rightarrow> Principal option \<Rightarrow> string \<Rightarrow> string \<Rightarrow> string \<Rightarrow> bool" where
  "allow en p repoKey path action =
     (if (case p of Some q \<Rightarrow> p_Admin q | None \<Rightarrow> False) then True
      else (case se_az en of None \<Rightarrow> False | Some can \<Rightarrow> can p repoKey path action))"

text \<open>The block every deploy runs: the target repository, its blackout mark, its patterns.\<close>

definition write_target :: "senv \<Rightarrow> string \<Rightarrow> string \<Rightarrow> service \<Rightarrow> service_error + Repo \<times> governance" where
  "write_target en repoKey path s =
     (case resolveWriteRepo (se_virtual en) (tbl s) repoKey of
        Inl e \<Rightarrow> Inl (MetaError e)
      | Inr row \<Rightarrow>
          if blackedOut (rp_Config row) then Inl RepoBlackedOut
          else
            (let gov = parseGovernance (rp_Config row)
             in if \<not> allowsPath gov path then Inl (PatternRejected (excluded gov path)) else Inr (row, gov)))"

definition isIdempotentRedeploy :: "senv \<Rightarrow> string \<Rightarrow> string \<Rightarrow> string \<Rightarrow> service \<Rightarrow> repo_error + bool \<times> Node option" where
  "isIdempotentRedeploy en repoKey path declaredSha256 s =
     (case nodeStore_Get (se_gate en) (tbl s) repoKey path of
        Inl e \<Rightarrow> if e = ErrNodeNotFound then Inr (False, None) else Inl e
      | Inr existing \<Rightarrow> Inr (nd_Sha256 existing \<noteq> [] \<and> nd_Sha256 existing = declaredSha256, Some existing))"

definition authorizeContentPut :: "senv \<Rightarrow> Principal option \<Rightarrow> string \<Rightarrow> string \<Rightarrow> string \<Rightarrow> bool \<Rightarrow> service \<Rightarrow> service_error + bool \<times> Node option" where
  "authorizeContentPut en p repoKey path declaredSha256 skipOverwrite s =
     (case isIdempotentRedeploy en repoKey path declaredSha256 s of
        Inl e \<Rightarrow> Inl (MetaError e)
      | Inr (idempotent, existing) \<Rightarrow>
          if idempotent then Inr (True, existing)
          else if existing \<noteq> None \<and> \<not> skipOverwrite \<and> \<not> allow en p repoKey path ActionDelete then Inl Forbidden
          else if \<not> allow en p repoKey path ActionWrite then Inl Forbidden
          else Inr (False, existing))"

definition actor :: "Principal option \<Rightarrow> string" where
  "actor p = (case p of None \<Rightarrow> ''anonymous'' | Some q \<Rightarrow> p_Name q)"

text \<open>\<open>checkQuota\<close>: a refusal leaves an audit event.\<close>

definition checkQuota :: "senv \<Rightarrow> Principal option \<Rightarrow> governance \<Rightarrow> string \<Rightarrow> string \<Rightarrow> int \<Rightarrow> int \<Rightarrow> service \<Rightarrow> service_error option \<times> service" where
  "checkQuota en p g repoKey path incoming replaced s =
     (let delta = incoming - replaced in
      if g_quotaBytes g \<le> 0 \<or> delta \<le> 0 then (None, s)
      else (case usage_Get (se_land en) s repoKey of
              Inl e \<Rightarrow> (Some (MetaError e), s)
            | Inr used \<Rightarrow>
                if used + delta \<le> g_quotaBytes g then (None, s)
                else (Some (QuotaExceeded used (g_quotaBytes g) delta),
                      emit (Audited (actor p) AuditActionQuotaExceeded repoKey path) s)))"

definition replaced_size :: "Node option \<Rightarrow> int" where
  "replaced_size existing = (case existing of None \<Rightarrow> 0 | Some n \<Rightarrow> int (nd_Size n))"

definition default_mime :: "string \<Rightarrow> string" where
  "default_mime mime = (if mime = [] then ''application/octet-stream'' else mime)"


section \<open>Bytes\<close>

definition commitBlob :: "hash_suite \<Rightarrow> senv \<Rightarrow> read_ev list \<Rightarrow> BlobRef \<Rightarrow> engine \<Rightarrow> (storage_error + BlobRef) \<times> engine" where
  "commitBlob H en body expect st =
     (case BeginSession (se_storage en 0) st of
        (Inl e, st1) \<Rightarrow> (Inl e, st1)
      | (Inr h, st1) \<Rightarrow>
          (case Append (se_storage en 1) h body st1 of
             (Inl e, st2) \<Rightarrow> (Inl e, Abort (se_storage en 1) h st2)
           | (Inr _, st2) \<Rightarrow>
               (case Commit H (se_storage en 2) h expect st2 of
                  (Inl e, st3) \<Rightarrow> (Inl e, Abort (se_storage en 2) h st3)
                | (Inr ref, st3) \<Rightarrow> (Inr ref, st3))))"

definition releaseGCHold :: "string \<Rightarrow> service \<Rightarrow> service" where
  "releaseGCHold sha s = (if sha = [] \<or> sha = emptyFolderSHA then s else set_eng (ReleaseGCHold sha (eng s)) s)"

fun countReader :: "read_ev list \<Rightarrow> nat \<Rightarrow> nat \<times> bool" where
  "countReader [] n = (n, True)"
| "countReader (ev # evs) n =
     (case r_end ev of
        ReadMore \<Rightarrow> countReader evs (n + length (r_data ev))
      | ReadEOF \<Rightarrow> (n + length (r_data ev), True)
      | ReadErr \<Rightarrow> (n + length (r_data ev), False))"


section \<open>Deploys\<close>

definition no_ref :: BlobRef where "no_ref = \<lparr>Sha256 = [], Sha1 = [], Md5 = [], Size = 0\<rparr>"

definition notifyReplicator :: "string \<Rightarrow> string \<Rightarrow> string \<Rightarrow> service \<Rightarrow> service" where
  "notifyReplicator repoKey path sha s = (if sha = [] then s else emit (Replicated repoKey path sha) s)"

text \<open>The row of a committed blob: quota, rows; the error value of the store is kept.\<close>

definition land_content :: "senv \<Rightarrow> Principal \<Rightarrow> governance \<Rightarrow> string \<Rightarrow> string \<Rightarrow> BlobRef \<Rightarrow> Node option \<Rightarrow> string \<Rightarrow> prop_set \<Rightarrow> service
    \<Rightarrow> (service_error + Node) \<times> service" where
  "land_content en p gov repoKey path ref existing mime props s =
     (case checkQuota en (Some p) gov repoKey path (int (Size ref)) (replaced_size existing) s of
        (Some e, s1) \<Rightarrow> (Inl e, s1)
      | (None, s1) \<Rightarrow>
          (case putNode (se_land en) (se_now en) (p_Name p) repoKey path (Some ref) mime props s1 of
             (Inl e, s2) \<Rightarrow> (Inl (MetaError e), s2)
           | (Inr n, s2) \<Rightarrow> (Inr n, s2)))"

definition put_file :: "hash_suite \<Rightarrow> senv \<Rightarrow> Principal \<Rightarrow> governance \<Rightarrow> string \<Rightarrow> string \<Rightarrow> read_ev list \<Rightarrow> BlobRef \<Rightarrow> string \<Rightarrow> PutOptions
    \<Rightarrow> service \<Rightarrow> (service_error + Node) \<times> service" where
  "put_file H en p gov repoKey path body expect mime opts s =
     (case authorizeContentPut en (Some p) repoKey path (Sha256 expect) (pu_SkipOverwriteCheck opts) s of
        Inl e \<Rightarrow> (Inl e, s)
      | Inr (idempotent, existing) \<Rightarrow>
          (case commitBlob H en body expect (eng s) of
             (Inl e, st) \<Rightarrow> (Inl (StorageError e), set_eng st s)
           | (Inr committed, st) \<Rightarrow>
               (case land_content en p gov repoKey path committed existing mime (pu_Properties opts) (set_eng st s) of
                  (Inl e, s1) \<Rightarrow> (Inl e, s1)
                | (Inr n, s1) \<Rightarrow>
                    (Inr n, notifyReplicator repoKey path (nd_Sha256 n)
                       (emit (Hooked TypeArtifactDeployed repoKey path (nd_Sha256 n) (nd_Size n))
                         (emit (Audited (p_Name p) AuditActionDeploy repoKey path)
                           (releaseGCHold (Sha256 committed) s1)))))))"

definition put_folder :: "senv \<Rightarrow> Principal \<Rightarrow> string \<Rightarrow> string \<Rightarrow> read_ev list \<Rightarrow> string \<Rightarrow> PutOptions \<Rightarrow> service \<Rightarrow> (service_error + Node) \<times> service" where
  "put_folder en p repoKey path body mime opts s =
     (if \<not> allow en (Some p) repoKey path ActionWrite then (Inl Forbidden, s)
      else if countReader body 0 \<noteq> (0, True) then (Inl BadPath, s)
      else (case putNode (se_land en) (se_now en) (p_Name p) repoKey path None mime (pu_Properties opts) s of
              (Inl e, s1) \<Rightarrow> (Inl (MetaError e), s1)
            | (Inr n, s1) \<Rightarrow> (Inr n, emit (Audited (p_Name p) AuditActionDeploy repoKey path) s1)))"

definition PutWithOptions :: "hash_suite \<Rightarrow> senv \<Rightarrow> Principal option \<Rightarrow> string \<Rightarrow> string \<Rightarrow> read_ev list \<Rightarrow> BlobRef \<Rightarrow> string \<Rightarrow> PutOptions
    \<Rightarrow> service \<Rightarrow> (service_error + Node) \<times> service" where
  "PutWithOptions H en po repoKey path body expect mime opts s =
     (case po of
        None \<Rightarrow> (Inl Unauthorized, s)
      | Some p \<Rightarrow>
          if \<not> validateNodePath path then (Inl BadPath, s)
          else if \<not> guardSystemRepo repoKey then (Inl SystemRepo, s)
          else if \<not> ValidatePropSet (pu_Properties opts) then (Inl BadProperties, s)
          else
            (case write_target en repoKey path s of
               Inl e \<Rightarrow> (Inl e, s)
             | Inr (row, gov) \<Rightarrow>
                 if \<not> isFolderNode path then put_file H en p gov (rp_RepoKey row) path body expect (default_mime mime) opts s
                 else put_folder en p (rp_RepoKey row) path body (default_mime mime) opts s))"

definition Put :: "hash_suite \<Rightarrow> senv \<Rightarrow> Principal option \<Rightarrow> string \<Rightarrow> string \<Rightarrow> read_ev list \<Rightarrow> BlobRef \<Rightarrow> string \<Rightarrow> service
    \<Rightarrow> (service_error + Node) \<times> service" where
  "Put H en po repoKey path body expect mime s =
     PutWithOptions H en po repoKey path body expect mime \<lparr>pu_SkipOverwriteCheck = False, pu_Properties = []\<rparr> s"

text \<open>The front of the two deploys that carry no body.\<close>

definition blob_deploy_target :: "senv \<Rightarrow> Principal option \<Rightarrow> string \<Rightarrow> string \<Rightarrow> service \<Rightarrow> service_error + Principal \<times> Repo \<times> governance" where
  "blob_deploy_target en po repoKey path s =
     (case po of
        None \<Rightarrow> Inl Unauthorized
      | Some p \<Rightarrow>
          if \<not> validateNodePath path then Inl BadPath
          else if \<not> guardSystemRepo repoKey then Inl SystemRepo
          else if isFolderNode path then Inl BadPath
          else (case write_target en repoKey path s of Inl e \<Rightarrow> Inl e | Inr (row, gov) \<Rightarrow> Inr (p, row, gov)))"

text \<open>The digest a checksum deploy addresses: the declared sha256, or the ledger's for a sha1.\<close>

definition addressed_sha :: "senv \<Rightarrow> BlobRef \<Rightarrow> service \<Rightarrow> service_error + string" where
  "addressed_sha en ref s =
     (if Sha256 ref \<noteq> [] then Inr (Sha256 ref)
      else if Sha1 ref = [] then Inl DigestRequired
      else (case blobStore_GetBySha1 (se_gate en) (tbl s) (Sha1 ref) of
              Inl e \<Rightarrow> Inl (MetaError e)
            | Inr None \<Rightarrow> Inl (MetaError ErrNodeNotFound)
            | Inr (Some b) \<Rightarrow> Inr (bl_Sha256 b)))"

definition PutFromBlob :: "senv \<Rightarrow> Principal option \<Rightarrow> string \<Rightarrow> string \<Rightarrow> BlobRef \<Rightarrow> string \<Rightarrow> service \<Rightarrow> (service_error + Node) \<times> service" where
  "PutFromBlob en po repoKey0 path ref mime s =
     (case blob_deploy_target en po repoKey0 path s of
        Inl e \<Rightarrow> (Inl e, s)
      | Inr (p, row, gov) \<Rightarrow>
          (let repoKey = rp_RepoKey row in
           case addressed_sha en ref s of
             Inl e \<Rightarrow> (Inl e, s)
           | Inr sha \<Rightarrow>
               (case authorizeContentPut en (Some p) repoKey path sha False s of
                  Inl e \<Rightarrow> (Inl e, s)
                | Inr (idempotent, existing) \<Rightarrow>
                    (case Open (se_storage en 0) sha (eng s) of
                       Inl e \<Rightarrow> (Inl (if e = ErrBlobNotFound then MetaError ErrNodeNotFound else StorageError e), s)
                     | Inr (data, physRef) \<Rightarrow>
                         (case blobStore_Get (se_gate en) (tbl s) sha of
                            Inl e \<Rightarrow> (Inl (MetaError e), s)
                          | Inr None \<Rightarrow> (Inl OrphanBlob, s)
                          | Inr (Some b) \<Rightarrow>
                              (case land_content en p gov repoKey path
                                     \<lparr>Sha256 = (if bl_Sha256 b = [] then sha else bl_Sha256 b), Sha1 = bl_Sha1 b, Md5 = bl_Md5 b, Size = Size physRef\<rparr>
                                     existing (default_mime mime) [] s of
                                 (Inl e, s1) \<Rightarrow> (Inl e, s1)
                               | (Inr n, s1) \<Rightarrow>
                                   (Inr n, emit (Hooked TypeArtifactDeployed repoKey path (nd_Sha256 n) (nd_Size n))
                                      (emit (Audited (p_Name p) AuditActionDeploy repoKey path) s1))))))))"

definition PutLandedBlob :: "senv \<Rightarrow> Principal option \<Rightarrow> string \<Rightarrow> string \<Rightarrow> BlobRef \<Rightarrow> string \<Rightarrow> service \<Rightarrow> (service_error + Node) \<times> service" where
  "PutLandedBlob en po repoKey0 path ref mime s =
     (case blob_deploy_target en po repoKey0 path s of
        Inl e \<Rightarrow> (Inl e, s)
      | Inr (p, row, gov) \<Rightarrow>
          (let repoKey = rp_RepoKey row in
           if Sha256 ref = [] then (Inl DigestRequired, s)
           else
             (case authorizeContentPut en (Some p) repoKey path (Sha256 ref) False s of
                Inl e \<Rightarrow> (Inl e, s)
              | Inr (idempotent, existing) \<Rightarrow>
                  (case Open (se_storage en 0) (Sha256 ref) (eng s) of
                     Inl e \<Rightarrow> (Inl (StorageError e), s)
                   | Inr (data, phys) \<Rightarrow>
                       (case land_content en p gov repoKey path (ref\<lparr>Size := Size phys\<rparr>) existing (default_mime mime) [] s of
                          (Inl e, s1) \<Rightarrow> (Inl e, s1)
                        | (Inr n, s1) \<Rightarrow>
                            (Inr n, notifyReplicator repoKey path (nd_Sha256 n)
                               (emit (Audited (p_Name p) AuditActionDeploy repoKey path) (releaseGCHold (Sha256 ref) s1))))))))"


section \<open>Reads\<close>

datatype get_answer = Content bytes Node | Resolved Node string | Fetched FetchResult

text \<open>\<open>markDownload\<close>: the audited surface, the counted row, the path, and whether a remote served it.\<close>

definition markDownload :: "string \<Rightarrow> string \<Rightarrow> string \<Rightarrow> bool \<Rightarrow> service \<Rightarrow> service" where
  "markDownload auditRepo countRepo path remoteServed s =
     set_tbl ((tbl s)\<lparr>tb_marks := tb_marks (tbl s) @ [(auditRepo, countRepo, path, remoteServed)]\<rparr>) s"

definition PackagePypi :: string where "PackagePypi = ''pypi''"

definition trim_slashes :: "string \<Rightarrow> string" where
  "trim_slashes s = rev (dropWhile (\<lambda>c. c = CHR ''/'') (rev (dropWhile (\<lambda>c. c = CHR ''/'') s)))"

definition isRemotePyPIProjectIndex :: "string \<Rightarrow> string \<Rightarrow> bool" where
  "isRemotePyPIProjectIndex packageType path =
     (if packageType \<noteq> PackagePypi \<or> \<not> isFolderNode path then False
      else (let trimmed = trim_slashes path
            in has_prefix trimmed ''simple/'' \<and> length (filter (\<lambda>c. c = CHR ''/'') trimmed) = 1))"

definition getRemote :: "hash_suite \<Rightarrow> senv \<Rightarrow> string \<Rightarrow> string \<Rightarrow> service \<Rightarrow> (service_error + get_answer) \<times> service" where
  "getRemote H en repoKey path s =
     (if \<not> ve_engine (se_virtual en) then (Inl (MetaError ErrRepoTypeNotSupported), s)
      else
        (case Fetch H (se_remote en) (se_passes en) repoKey path (sv_w s) of
           (r, w) \<Rightarrow>
             (let s1 = set_tbl (wd_t w) (s\<lparr>sv_w := w\<rparr>) in
              case r of
                None \<Rightarrow> (Inl StillWaiting, s1)
              | Some (Inl e) \<Rightarrow> (Inl (RemoteError e), s1)
              | Some (Inr res) \<Rightarrow>
                  (let s2 = (if fr_CacheState res = CacheMiss
                             then emit (Hooked TypeArtifactCached repoKey path (nd_Sha256 (fr_Node res)) (nd_Size (fr_Node res)))
                                    (releaseGCHold (nd_Sha256 (fr_Node res)) s1)
                             else s1)
                   in (Inr (Fetched res), markDownload repoKey repoKey path True s2)))))"

text \<open>
  The folder face of a remote repository: the cached folder row, else a row made from cached
  children, else the enumerated upstream folder; \<open>None\<close> falls through to the engine.
\<close>

definition materialize :: "senv \<Rightarrow> Principal option \<Rightarrow> string \<Rightarrow> string \<Rightarrow> string \<Rightarrow> service \<Rightarrow> Node option \<times> service" where
  "materialize en po repoKey path dir s =
     (case po of
        None \<Rightarrow> (None, s)
      | Some p \<Rightarrow>
          (let browse = (\<lambda>s1. (if ve_browseFolder (se_virtual en) repoKey dir then Some (folder_row repoKey path) else None, s1)) in
           case nodeStore_ListByPrefix (se_gate en) (tbl s) repoKey dir of
             Inl _ \<Rightarrow> browse s
           | Inr kids \<Rightarrow>
               if kids = [] then browse s
               else (case putFolderRow (se_land en) (se_now en) (p_Name p) repoKey path folderMime s of
                       (Inr n, s1) \<Rightarrow> (Some n, s1)
                     | (Inl _, s1) \<Rightarrow> browse s1)))"

definition remote_folder_face :: "senv \<Rightarrow> Principal option \<Rightarrow> Repo \<Rightarrow> string \<Rightarrow> service \<Rightarrow> Node option \<times> service" where
  "remote_folder_face en po row path s =
     (let repoKey = rp_RepoKey row; dir = trim_suffix path ''/'' in
      case nodeStore_Get (se_gate en) (tbl s) repoKey path of
        Inr n \<Rightarrow> if nd_Sha256 n = emptyFolderSHA then (Some n, s) else materialize en po repoKey path dir s
      | Inl _ \<Rightarrow> materialize en po repoKey path dir s)"

text \<open>The local tail: patterns, the row, the bytes of its blob.\<close>

definition getLocal :: "senv \<Rightarrow> Repo \<Rightarrow> string \<Rightarrow> string \<Rightarrow> service \<Rightarrow> (service_error + get_answer) \<times> service" where
  "getLocal en row repoKey path s =
     (if \<not> allowsPath (parseGovernance (rp_Config row)) path then (Inl (MetaError ErrNodeNotFound), s)
      else
        (case nodeStore_Get (se_gate en) (tbl s) repoKey path of
           Inl e \<Rightarrow> (Inl (MetaError e), s)
         | Inr n \<Rightarrow>
             if nd_Sha256 n = emptyFolderSHA then (Inl (MetaError (ErrIsFolder n)), s)
             else
               (case Open (se_storage en 0) (nd_Sha256 n) (eng s) of
                  Inl e \<Rightarrow> (Inl (StorageError e), s)
                | Inr (data, _) \<Rightarrow> (Inr (Content data n), markDownload repoKey repoKey path False s))))"

definition Get :: "hash_suite \<Rightarrow> senv \<Rightarrow> Principal option \<Rightarrow> string \<Rightarrow> string \<Rightarrow> service \<Rightarrow> (service_error + get_answer) \<times> service" where
  "Get H en po repoKey path s =
     (if \<not> validateNodePath path then (Inl BadPath, s)
      else
        (case (case CacheProjectionTarget repoKey of
                 None \<Rightarrow> None
               | Some parent \<Rightarrow>
                   (case repos_Get (se_gate en) (tbl s) parent of
                      Inr row \<Rightarrow> if rp_Type row = TypeRemote then Some parent else None
                    | Inl _ \<Rightarrow> None)) of
           Some parent \<Rightarrow>
             (case getCacheProjection (se_virtual en) (tbl s) (allow en po parent path ActionRead) (po = None) repoKey parent path of
                (Inl ErrUnauthorized, t) \<Rightarrow> (Inl Unauthorized, set_tbl t s)
              | (Inl ErrForbidden, t) \<Rightarrow> (Inl Forbidden, set_tbl t s)
              | (Inl (Read e), t) \<Rightarrow> (Inl (MetaError e), set_tbl t s)
              | (Inr n, t) \<Rightarrow> (Inr (Resolved n parent), set_tbl t s))
         | None \<Rightarrow>
             (case repos_Get (se_gate en) (tbl s) repoKey of
                Inl e \<Rightarrow> (Inl (MetaError e), s)
              | Inr row \<Rightarrow>
                  if \<not> allow en po repoKey path ActionRead then (Inl (if po = None then Unauthorized else Forbidden), s)
                  else if rp_Type row = TypeRemote then
                    (case (if isFolderNode path \<and> \<not> isRemotePyPIProjectIndex (rp_PackageType row) path
                           then remote_folder_face en po row path s else (None, s)) of
                       (Some n, s1) \<Rightarrow> (Inl (MetaError (ErrIsFolder n)), s1)
                     | (None, s1) \<Rightarrow> getRemote H en repoKey path s1)
                  else if rp_Type row = TypeVirtual then
                    (case getVirtual (se_virtual en) (tbl s) repoKey path of
                       (Inl e, t) \<Rightarrow> (Inl (MetaError e), set_tbl t s)
                     | (Inr (n, member), t) \<Rightarrow> (Inr (Resolved n member), set_tbl t s))
                  else if rp_Type row \<noteq> TypeLocal then (Inl (MetaError ErrRepoTypeNotSupported), s)
                  else getLocal en row repoKey path s)))"


section \<open>Removals\<close>

definition SystemInternalPathPrefixes :: "string list" where "SystemInternalPathPrefixes = [''.jfrog'']"

text \<open>The regenerable index families the trash can does not take.\<close>

definition trashSkipPath :: "string \<Rightarrow> bool" where
  "trashSkipPath path =
     (let seg = hd (split_on (CHR ''/'') path); parts = split_on (CHR ''/'') (trim_suffix path ''/'');
          base = (if 1 < length parts then last parts else seg)
      in seg \<in> set SystemInternalPathPrefixes \<or> seg = ''dists'' \<or> has_prefix seg ''_tmp_''
         \<or> ''repodata'' \<in> set parts \<or> base = ''maven-metadata.xml'' \<or> has_prefix base ''maven-metadata.xml.'')"

definition deleteRemoteCache :: "senv \<Rightarrow> Principal \<Rightarrow> string \<Rightarrow> string \<Rightarrow> service \<Rightarrow> service_error option \<times> service" where
  "deleteRemoteCache en p repoKey path s =
     (if \<not> allow en (Some p) repoKey path ActionDelete then (Some Forbidden, s)
      else if \<not> ve_engine (se_virtual en) then (Some (MetaError ErrRepoTypeNotSupported), s)
      else
        (case Invalidate (se_land en) repoKey path (tbl s) of
           ((Some e, _), t) \<Rightarrow> (Some (MetaError e), set_tbl t s)
         | ((None, existed), t) \<Rightarrow>
             if \<not> existed then (Some (MetaError ErrNodeNotFound), set_tbl t s)
             else (None, emit (Audited (p_Name p) AuditActionDelete repoKey path) (set_tbl t s))))"

fun drop_plain :: "(store_call \<Rightarrow> bool) \<Rightarrow> string \<Rightarrow> string list \<Rightarrow> service \<Rightarrow> repo_error option \<times> service" where
  "drop_plain fl k [] s = (None, s)"
| "drop_plain fl k (p # ps) s =
     (case nodeStore_Delete fl (tbl s) k p of
        (None, t) \<Rightarrow> drop_plain fl k ps (set_tbl t s)
      | (Some e, _) \<Rightarrow> if e = ErrNodeNotFound then drop_plain fl k ps s else (Some e, s))"

definition dropSubtree :: "(store_call \<Rightarrow> bool) \<Rightarrow> string \<Rightarrow> string \<Rightarrow> service \<Rightarrow> repo_error option \<times> service" where
  "dropSubtree fl k dir s =
     (case nodeStore_ListByPrefix fl (tbl s) k dir of
        Inl e \<Rightarrow> (Some e, s)
      | Inr rows \<Rightarrow> drop_plain fl k (filter (\<lambda>q. q = dir @ ''/'' \<or> has_prefix q (dir @ ''/'')) (map nd_Path rows)) s)"

definition deleteVirtualOwnStorage :: "senv \<Rightarrow> Principal \<Rightarrow> string \<Rightarrow> string \<Rightarrow> service \<Rightarrow> service_error option \<times> service" where
  "deleteVirtualOwnStorage en p virtualKey path s =
     (if \<not> allow en (Some p) virtualKey path ActionDelete then (Some Forbidden, s)
      else
        (let dir = trim_suffix path ''/''; fl = se_land en;
             done = (\<lambda>r. case r of (Some e, s1) \<Rightarrow> (Some (MetaError e), s1)
                         | (None, s1) \<Rightarrow> (None, emit (Audited (p_Name p) AuditActionDelete virtualKey path) s1))
         in case nodeStore_Get fl (tbl s) virtualKey path of
              Inr n \<Rightarrow>
                (case nodeStore_Delete fl (tbl s) virtualKey path of
                   (Some e, _) \<Rightarrow> (Some (MetaError e), s)
                 | (None, t) \<Rightarrow>
                     if nd_Sha256 n = emptyFolderSHA then done (dropSubtree fl virtualKey dir (set_tbl t s)) else done (None, set_tbl t s))
            | Inl e \<Rightarrow>
                if e \<noteq> ErrNodeNotFound then (Some (MetaError e), s)
                else (case nodeStore_Get fl (tbl s) virtualKey (dir @ ''/'') of
                        Inl e' \<Rightarrow> (Some (MetaError e'), s)
                      | Inr _ \<Rightarrow> done (dropSubtree fl virtualKey dir s))))"

text \<open>A directory: its row and everything below it, not a file that has its name without the slash.\<close>

definition delete_folder :: "senv \<Rightarrow> Principal \<Rightarrow> string \<Rightarrow> string \<Rightarrow> service \<Rightarrow> service_error option \<times> service" where
  "delete_folder en p repoKey path s =
     (let dir = trim_suffix path ''/''; fl = se_land en in
      case nodeStore_ListByPrefix fl (tbl s) repoKey dir of
        Inl e \<Rightarrow> (Some (MetaError e), s)
      | Inr candidates \<Rightarrow>
          (case drop_rows fl repoKey (filter (\<lambda>q. q = path \<or> has_prefix q (dir @ ''/'')) (map nd_Path candidates)) 0 s of
             (Inl e, s1) \<Rightarrow> (Some (MetaError e), s1)
           | (Inr removed, s1) \<Rightarrow>
               if removed = 0 then (Some (MetaError ErrNodeNotFound), s1)
               else (case pruneEmptyParents fl repoKey path s1 of
                       (Some e, s2) \<Rightarrow> (Some (MetaError e), s2)
                     | (None, s2) \<Rightarrow> (None, emit (Audited (p_Name p) AuditActionDelete repoKey path) s2))))"

definition delete_file :: "senv \<Rightarrow> Principal \<Rightarrow> string \<Rightarrow> string \<Rightarrow> service \<Rightarrow> service_error option \<times> service" where
  "delete_file en p repoKey path s =
     (case nodeStore_Get (se_land en) (tbl s) repoKey path of
        Inl e \<Rightarrow> (Some (MetaError e), s)
      | Inr doomed \<Rightarrow>
          (case DeleteNodeWithUsage (se_land en) repoKey path s of
             (Some e, s1) \<Rightarrow> (Some (MetaError e), s1)
           | (None, s1) \<Rightarrow>
               (case pruneEmptyParents (se_land en) repoKey path s1 of
                  (Some e, s2) \<Rightarrow> (Some (MetaError e), s2)
                | (None, s2) \<Rightarrow>
                    (None, emit (Hooked TypeArtifactDeleted repoKey path (nd_Sha256 doomed) (nd_Size doomed))
                       (emit (Audited (p_Name p) AuditActionDelete repoKey path) s2)))))"

definition service_Delete :: "senv \<Rightarrow> Principal option \<Rightarrow> string \<Rightarrow> string \<Rightarrow> service \<Rightarrow> service_error option \<times> service" where
  "service_Delete en po repoKey path s =
     (case po of
        None \<Rightarrow> (Some Unauthorized, s)
      | Some p \<Rightarrow>
          if \<not> validateNodePath path then (Some BadPath, s)
          else if \<not> guardSystemRepo repoKey then (Some SystemRepo, s)
          else
            (case repos_Get (se_gate en) (tbl s) repoKey of
               Inl e \<Rightarrow> (Some (MetaError e), s)
             | Inr row \<Rightarrow>
                 if rp_Type row = TypeRemote then deleteRemoteCache en p repoKey path s
                 else if rp_Type row = TypeVirtual then deleteVirtualOwnStorage en p (rp_RepoKey row) path s
                 else if \<not> allow en po repoKey path ActionDelete then (Some Forbidden, s)
                 else
                   (case (if trashSkipPath path then (None, s)
                          else (case se_trash en of None \<Rightarrow> (None, s) | Some capture \<Rightarrow> capture repoKey path s)) of
                      (Some e, s1) \<Rightarrow> (Some e, s1)
                    | (None, s1) \<Rightarrow> if isFolderNode path then delete_folder en p repoKey path s1 else delete_file en p repoKey path s1)))"

end
