(* ===== verification/Repo_Tree.thy ===== *)
theory Repo_Tree
  imports Repo_Content
begin

text \<open>
  Whole landings and removals (\<open>putNode\<close>, \<open>pruneEmptyParents\<close> and the loops of \<open>Delete\<close> in
  \<open>internal/repo/service.go\<close>): a landing writes the folder rows above its target and the target, and
  a removal with its pruning takes exactly the rows below the target and the folders it empties.
  Both keep the store well kept, a landing also when a store call fails on the way.
\<close>


section \<open>Landings\<close>

lemma landedD:
  assumes "landed k p s (r, s')"
  shows "content_ok s'" "touches k {p} s s'" "sv_props s' = sv_props s"
    "r = Inr n \<Longrightarrow> node_at (tbl s') k p = Some n"
    "r = Inr n \<Longrightarrow> sv_usage s' k = sv_usage s k + (int (nd_Size n) - node_size (tbl s) k p)"
    "r = Inl e \<Longrightarrow> node_at (tbl s') k p = node_at (tbl s) k p" "r = Inl e \<Longrightarrow> sv_usage s' k = sv_usage s k"
  using assms by (auto simp: landed_def)

lemma touches_at: "touches k P s s' \<Longrightarrow> \<not> (k' = k \<and> p' \<in> P) \<Longrightarrow> node_at (tbl s') k' p' = node_at (tbl s) k' p'"
  by (simp add: touches_def)

text \<open>A folder row adds nothing to the usage and never removes a row.\<close>

lemma folder_step:
  assumes "content_ok s" "isFolderNode d" "\<And>c. c \<in> set (ancestorDirs d) \<Longrightarrow> node_at (tbl s) k c \<noteq> None"
    "putFolderRow fl now who k d mime s = (r, s')"
  shows "content_ok s'" "touches k {d} s s'" "sv_props s' = sv_props s" "sv_usage s' = sv_usage s"
    "node_at (tbl s) k' p' \<noteq> None \<Longrightarrow> node_at (tbl s') k' p' \<noteq> None" "r = Inr n \<Longrightarrow> node_at (tbl s') k d = Some n"
proof -
  have L: "landed k d s (r, s')" using folder_landed [OF assms(1-3)] assms(4) by metis
  note D = landedD [OF L]
  show "content_ok s'" "touches k {d} s s'" "sv_props s' = sv_props s" "r = Inr n \<Longrightarrow> node_at (tbl s') k d = Some n"
    using D(1-4) by auto
  have empty: "node_size t k d = 0" if "content_ok u" "tbl u = t" for u t
    using content_okD(3) [OF that(1), of k d] that(2) assms(2)
    by (auto simp: node_size_at row_ok_def split: option.splits dest: node_at_key)
  have "sv_usage s' k = sv_usage s k"
  proof (cases r)
    case (Inr n)
    have "node_size (tbl s') k d = int (nd_Size n)" using D(4) [OF Inr] by (simp add: node_size_at)
    then have "nd_Size n = 0" using empty [OF D(1)] by simp
    then show ?thesis using D(5) [OF Inr] empty [OF assms(1)] by simp
  qed (use D(7) in auto)
  then show "sv_usage s' = sv_usage s" using D(2) unfolding touches_def by (intro ext) metis
  show "node_at (tbl s) k' p' \<noteq> None \<Longrightarrow> node_at (tbl s') k' p' \<noteq> None"
    using touches_at [OF D(2), of k' p'] D(4,6) by (cases r; cases "k' = k \<and> p' = d") auto
qed

lemma folders_step:
  assumes "content_ok s" "\<forall>d\<in>set dirs. isFolderNode d"
    "\<And>pre d post c. dirs = pre @ d # post \<Longrightarrow> c \<in> set (ancestorDirs d) \<Longrightarrow> node_at (tbl s) k c \<noteq> None \<or> c \<in> set pre"
    "put_folders fl now who k dirs s = (r, s')"
  shows "content_ok s' \<and> touches k (set dirs) s s' \<and> sv_props s' = sv_props s \<and> sv_usage s' = sv_usage s
    \<and> (\<forall>k' p'. node_at (tbl s) k' p' \<noteq> None \<longrightarrow> node_at (tbl s') k' p' \<noteq> None)
    \<and> (r = None \<longrightarrow> (\<forall>d\<in>set dirs. node_at (tbl s') k d \<noteq> None))"
  using assms
proof (induction dirs arbitrary: s)
  case (Cons d dirs)
  obtain x s1 where x: "putFolderRow fl now who k d folderMime s = (x, s1)" by fastforce
  have anc: "c \<in> set (ancestorDirs d) \<Longrightarrow> node_at (tbl s) k c \<noteq> None" for c
    using Cons.prems(3) [of "[]" d dirs c] by simp
  note F = folder_step [OF Cons.prems(1) _ anc x] Cons.prems(2)
  have F': "content_ok s1" "touches k {d} s s1" "sv_props s1 = sv_props s" "sv_usage s1 = sv_usage s"
      "\<And>k' p'. node_at (tbl s) k' p' \<noteq> None \<Longrightarrow> node_at (tbl s1) k' p' \<noteq> None"
      "\<And>n. x = Inr n \<Longrightarrow> node_at (tbl s1) k d = Some n"
    using F by auto
  show ?case
  proof (cases x)
    case (Inl e)
    then have "s' = s1" "r \<noteq> None" using Cons.prems(4) x by auto
    then show ?thesis using F'(1,3-5) touches_mono [OF F'(2), of "set (d # dirs)"] by auto
  next
    case (Inr n)
    then have rest: "put_folders fl now who k dirs s1 = (r, s')" using Cons.prems(4) x by simp
    have dn: "node_at (tbl s1) k d \<noteq> None" using F'(6) Inr by simp
    have "node_at (tbl s1) k c \<noteq> None \<or> c \<in> set pre" if "dirs = pre @ e # post" "c \<in> set (ancestorDirs e)" for pre e post c
      using Cons.prems(3) [of "d # pre" e post c] that F'(5) dn by auto
    then have I: "content_ok s' \<and> touches k (set dirs) s1 s' \<and> sv_props s' = sv_props s1 \<and> sv_usage s' = sv_usage s1
        \<and> (\<forall>k' p'. node_at (tbl s1) k' p' \<noteq> None \<longrightarrow> node_at (tbl s') k' p' \<noteq> None)
        \<and> (r = None \<longrightarrow> (\<forall>d\<in>set dirs. node_at (tbl s') k d \<noteq> None))"
      using Cons.IH [OF F'(1) _ _ rest] Cons.prems(2) by simp
    then show ?thesis using F'(3-5) dn touches_trans [OF F'(2), of "set dirs" s'] by auto
  qed
qed simp

lemma ancestors_step:
  assumes "content_ok s" "materializeAncestors fl now who k path s = (r, s')"
  shows "content_ok s'" "touches k (set (ancestorDirs path)) s s'" "sv_props s' = sv_props s" "sv_usage s' = sv_usage s"
    "r = None \<Longrightarrow> d \<in> set (ancestorDirs path) \<Longrightarrow> node_at (tbl s') k d \<noteq> None"
proof -
  have "content_ok s' \<and> touches k (set (ancestorDirs path)) s s' \<and> sv_props s' = sv_props s \<and> sv_usage s' = sv_usage s
    \<and> (\<forall>k' p'. node_at (tbl s) k' p' \<noteq> None \<longrightarrow> node_at (tbl s') k' p' \<noteq> None)
    \<and> (r = None \<longrightarrow> (\<forall>d\<in>set (ancestorDirs path). node_at (tbl s') k d \<noteq> None))"
    by (rule folders_step [OF assms(1), where fl = fl and now = now and who = who])
      (use ancestor_folder ancestor_chain assms(2) in \<open>auto simp: materializeAncestors_def\<close>)
  then show "content_ok s'" "touches k (set (ancestorDirs path)) s s'" "sv_props s' = sv_props s" "sv_usage s' = sv_usage s"
    "r = None \<Longrightarrow> d \<in> set (ancestorDirs path) \<Longrightarrow> node_at (tbl s') k d \<noteq> None" by auto
qed

lemma self_not_ancestor: "path \<notin> set (ancestorDirs path)"
  using ancestor_prefix(2) by blast

lemma props_step:
  assumes "content_ok s" "node_at (tbl s) k p \<noteq> None" "applyDeployProps fl k p props s = (r, s')"
  shows "content_ok s'" "tbl s' = tbl s" "eng s' = eng s" "sv_usage s' = sv_usage s" "sv_log s' = sv_log s"
    "props = [] \<Longrightarrow> r = None \<and> s' = s" "r \<noteq> None \<Longrightarrow> s' = s"
proof -
  have c: "s' = s \<or> s' = s\<lparr>sv_props := merge_rows k p props (sv_props s)\<rparr>" and "props = [] \<Longrightarrow> r = None \<and> s' = s"
      and "r \<noteq> None \<Longrightarrow> s' = s"
    using assms(3) by (auto simp: applyDeployProps_def nodeProps_Merge_def split: if_splits)
  then show "props = [] \<Longrightarrow> r = None \<and> s' = s" "r \<noteq> None \<Longrightarrow> s' = s" by auto
  from c show "tbl s' = tbl s" "eng s' = eng s" "sv_usage s' = sv_usage s" "sv_log s' = sv_log s" by auto
  have "\<forall>x\<in>set (merge_rows k p props (sv_props s)). x \<in> set (sv_props s) \<or> fst x = k \<and> fst (snd x) = p"
    by (auto simp: merge_rows_def)
  then have "\<forall>x\<in>set (merge_rows k p props (sv_props s)). node_at (tbl s) (fst x) (fst (snd x)) \<noteq> None"
    using content_okD(4) [OF assms(1)] assms(2) by metis
  then show "content_ok s'" using c assms(1) by (elim disjE) (simp_all add: content_ok_def)
qed

text \<open>The rows a \<open>putNode\<close> may touch are the target and the folders above it.\<close>

lemma putNode_step:
  assumes "content_ok s" "isFolderNode path = (content = None)"
    "putNode fl now who k path content mime props s = (r, s')"
  shows "content_ok s'" "touches k (insert path (set (ancestorDirs path))) s s'"
    "r = Inr n \<Longrightarrow> node_at (tbl s') k path = Some n \<and> sv_usage s' k = sv_usage s k + (int (nd_Size n) - node_size (tbl s) k path)
       \<and> (\<forall>d\<in>set (ancestorDirs path). node_at (tbl s') k d \<noteq> None)
       \<and> (\<forall>ref. content = Some ref \<longrightarrow> describes n ref mime (node_at (tbl s) k path))"
    "r = Inl e \<Longrightarrow> props = [] \<Longrightarrow>
       touches k (set (ancestorDirs path)) s s' \<and> sv_usage s' = sv_usage s \<and> sv_props s' = sv_props s"
    "r = Inr n \<Longrightarrow> props = [] \<Longrightarrow> sv_props s' = sv_props s"
proof -
  obtain a s1 where a: "materializeAncestors fl now who k path s = (a, s1)" by fastforce
  note A = ancestors_step [OF assms(1) a]
  have old: "node_at (tbl s1) k path = node_at (tbl s) k path" using touches_at [OF A(2), of k path] self_not_ancestor by blast
  have G: "content_ok s' \<and> touches k (insert path (set (ancestorDirs path))) s s'
    \<and> (r = Inr n \<longrightarrow> node_at (tbl s') k path = Some n \<and> sv_usage s' k = sv_usage s k + (int (nd_Size n) - node_size (tbl s) k path)
       \<and> (\<forall>d\<in>set (ancestorDirs path). node_at (tbl s') k d \<noteq> None)
       \<and> (\<forall>ref. content = Some ref \<longrightarrow> describes n ref mime (node_at (tbl s) k path)))
    \<and> (r = Inl e \<longrightarrow> props = [] \<longrightarrow> touches k (set (ancestorDirs path)) s s' \<and> sv_usage s' = sv_usage s \<and> sv_props s' = sv_props s)
    \<and> (r = Inr n \<longrightarrow> props = [] \<longrightarrow> sv_props s' = sv_props s)"
  proof (cases a)
    case (Some e')
    then have "r = Inl e'" "s' = s1" using assms(3) a by (auto simp: putNode_def)
    then show ?thesis using A touches_mono [OF A(2), of "insert path (set (ancestorDirs path))"] by auto
  next
    case None
    define row where "row = (case content of None \<Rightarrow> putFolderRow fl now who k path mime s1 | Some ref \<Rightarrow> putFileRow fl now who k path ref mime s1)"
    obtain b s2 where b: "row = (b, s2)" by fastforce
    have anc: "c \<in> set (ancestorDirs path) \<Longrightarrow> node_at (tbl s1) k c \<noteq> None" for c using A(5) None by blast
    have L: "landed k path s1 (b, s2)"
      using folder_landed [OF A(1) _ anc] file_landed [OF A(1) _ anc] assms(2) b
      unfolding row_def by (cases content) (metis option.simps(4), metis option.simps(5) option.distinct(1))
    note D = landedD [OF L]
    have t2: "touches k (insert path (set (ancestorDirs path))) s s2" using touches_trans [OF A(2) D(2)] by simp
    have keep: "d \<in> set (ancestorDirs path) \<Longrightarrow> node_at (tbl s2) k d \<noteq> None" for d
      using touches_at [OF D(2), of k d] anc self_not_ancestor by (metis singletonD)
    show ?thesis
    proof (cases b)
      case (Inl e')
      then have r: "r = Inl e'" "s' = s2" using assms(3) a None b by (auto simp: putNode_def row_def)
      have "touches k {} s1 s2" using D(2,6,7) Inl by (auto simp: touches_def)
      then have "touches k (set (ancestorDirs path)) s s2" using touches_trans [OF A(2)] by fastforce
      moreover have "sv_usage s2 = sv_usage s" using D(7) [OF Inl] D(2) A(4) unfolding touches_def by (intro ext) metis
      ultimately show ?thesis using r D(1,3) A(3) t2 by simp
    next
      case (Inr m)
      obtain c s3 where c: "applyDeployProps fl k path props s2 = (c, s3)" by fastforce
      have rw: "(r, s') = written m (c, s3)" using assms(3) a None b c Inr by (simp add: putNode_def row_def)
      have at: "node_at (tbl s2) k path = Some m" by (rule D(4) [OF Inr])
      note P = props_step [OF D(1) _ c]
      have P': "content_ok s3" "tbl s3 = tbl s2" "eng s3 = eng s2" "sv_usage s3 = sv_usage s2" "sv_log s3 = sv_log s2"
        "props = [] \<Longrightarrow> c = None \<and> s3 = s2" using P at by auto
      have s3: "s' = s3" "r = (case c of None \<Rightarrow> Inr m | Some x \<Rightarrow> Inl x)" using rw by (auto simp: written_def split: option.splits)
      have t3: "touches k (insert path (set (ancestorDirs path))) s s3" using t2 P' by (simp add: touches_def)
      have u: "sv_usage s2 k = sv_usage s k + (int (nd_Size m) - node_size (tbl s) k path)"
        using D(5) [OF Inr] A(4) old by (simp add: node_size_at)
      have ds: "content = Some ref \<Longrightarrow> describes m ref mime (node_at (tbl s) k path)" for ref
        using file_describes [of fl now who k path ref mime s1 m s2] b Inr old by (simp add: row_def)
      show ?thesis using s3 P' t3 u ds at keep A(3) D(3) by (cases c) auto
    qed
  qed
  then show "content_ok s'" "touches k (insert path (set (ancestorDirs path))) s s'" by auto
  show "r = Inr n \<Longrightarrow> node_at (tbl s') k path = Some n \<and> sv_usage s' k = sv_usage s k + (int (nd_Size n) - node_size (tbl s) k path)
       \<and> (\<forall>d\<in>set (ancestorDirs path). node_at (tbl s') k d \<noteq> None)
       \<and> (\<forall>ref. content = Some ref \<longrightarrow> describes n ref mime (node_at (tbl s) k path))" using G by blast
  show "r = Inl e \<Longrightarrow> props = [] \<Longrightarrow>
       touches k (set (ancestorDirs path)) s s' \<and> sv_usage s' = sv_usage s \<and> sv_props s' = sv_props s" using G by blast
  show "r = Inr n \<Longrightarrow> props = [] \<Longrightarrow> sv_props s' = sv_props s" using G by blast
qed


section \<open>Removals\<close>

definition counted :: "service \<Rightarrow> bool" where
  "counted s \<longleftrightarrow> unique_rows (tbl s) \<and> (\<forall>k. sv_usage s k = stored_bytes (tbl s) k) \<and>
     (\<forall>x\<in>set (sv_props s). node_at (tbl s) (fst x) (fst (snd x)) \<noteq> None)"

lemma content_counted: "content_ok s \<longleftrightarrow> counted s \<and> (\<forall>k p n. node_at (tbl s) k p = Some n \<longrightarrow> row_ok (tbl s) k n)"
  by (auto simp: content_ok_def counted_def)

text \<open>The rows that are left when the given paths of a repository go; ledger, repositories and files stay.\<close>

definition removes :: "string \<Rightarrow> string set \<Rightarrow> service \<Rightarrow> service \<Rightarrow> bool" where
  "removes k P s s' \<longleftrightarrow>
     (\<forall>k' p'. node_at (tbl s') k' p' = (if k' = k \<and> p' \<in> P then None else node_at (tbl s) k' p')) \<and>
     tb_blobs (tbl s') = tb_blobs (tbl s) \<and> tb_repos (tbl s') = tb_repos (tbl s) \<and> eng s' = eng s \<and> sv_log s' = sv_log s"

lemma removes_refl [simp]: "removes k {} s s"
  by (simp add: removes_def)

lemma removes_trans: "removes k P s s' \<Longrightarrow> removes k Q s' s'' \<Longrightarrow> removes k (P \<union> Q) s s''"
  by (simp add: removes_def)

lemma removes_absent: "removes k P s s' \<Longrightarrow> node_at (tbl s) k p = None \<Longrightarrow> removes k (insert p P) s s'"
  by (auto simp: removes_def)

lemma drop_counted:
  assumes "counted s" "nodeStore_Delete fl (tbl s) k p = (None, t)"
  defines "s1 \<equiv> (set_tbl t s)\<lparr>sv_usage := (sv_usage s)(k := sv_usage s k - node_size (tbl s) k p)\<rparr>"
  shows "counted s1" "removes k {p} s s1" "node_at (tbl s) k p \<noteq> None" "removes k {p} s (set_tbl t s)"
proof -
  have d: "node_at (tbl s) k p \<noteq> None \<and> t = (tbl s)\<lparr>tb_nodes := filter (\<lambda>n. \<not> own_node k p n) (tb_nodes (tbl s))\<rparr>
      \<and> (\<forall>k' p'. node_at t k' p' = (if k' = k \<and> p' = p then None else node_at (tbl s) k' p'))"
    by (rule node_Delete_cases [of fl "tbl s" k p]) (use assms(2) in auto)
  then have at: "node_at t k' p' = (if k' = k \<and> p' = p then None else node_at (tbl s) k' p')" for k' p' by blast
  show there: "node_at (tbl s) k p \<noteq> None" using d by blast
  have t: "t = (tbl s)\<lparr>tb_nodes := filter (\<lambda>n. \<not> own_node k p n) (tb_nodes (tbl s))\<rparr>" using d by blast
  then have "tb_blobs t = tb_blobs (tbl s)" "tb_repos t = tb_repos (tbl s)" by simp_all
  then show "removes k {p} s s1" "removes k {p} s (set_tbl t s)" using at by (auto simp: removes_def s1_def)
  have c: "unique_rows (tbl s)" "\<And>k. sv_usage s k = stored_bytes (tbl s) k" using assms(1) by (auto simp: counted_def)
  note U = usage_drop [OF c(1) there, folded t]
  have "\<forall>x\<in>set (sv_props s1). node_at t (fst x) (fst (snd x)) \<noteq> None"
    by (auto simp: s1_def set_tbl_def has_node_at)
  then show "counted s1" using U c(2) by (auto simp: counted_def s1_def)
qed

lemma drop_rows_step:
  assumes "counted s" "drop_rows fl k ps m s = (Inr m', s')"
  shows "counted s' \<and> removes k (set ps) s s' \<and> (m' = m \<longleftrightarrow> (\<forall>p\<in>set ps. node_at (tbl s) k p = None)) \<and> m \<le> m'"
  using assms
proof (induction ps arbitrary: m s)
  case (Cons p ps)
  show ?case
  proof (rule node_Delete_cases [of fl "tbl s" k p])
    assume "nodeStore_Delete fl (tbl s) k p = (Some repo_error.ErrStore, tbl s)"
    then show ?thesis using Cons.prems(2) by (simp add: DeleteNodeWithUsage_def)
  next
    assume d: "nodeStore_Delete fl (tbl s) k p = (Some ErrNodeNotFound, tbl s)" "node_at (tbl s) k p = None"
    then have "drop_rows fl k ps m s = (Inr m', s')" using Cons.prems(2) by (simp add: DeleteNodeWithUsage_def)
    then show ?thesis using Cons.IH [OF Cons.prems(1)] d(2) removes_absent by auto
  next
    fix t assume d: "nodeStore_Delete fl (tbl s) k p = (None, t)"
    define s1 where "s1 = (set_tbl t s)\<lparr>sv_usage := (sv_usage s)(k := sv_usage s k - node_size (tbl s) k p)\<rparr>"
    note D = drop_counted [OF Cons.prems(1) d, folded s1_def]
    have r: "drop_rows fl k ps (m + 1) s1 = (Inr m', s')" using Cons.prems(2) d by (simp add: DeleteNodeWithUsage_def s1_def)
    have I: "counted s'" "removes k (set ps) s1 s'" "m + 1 \<le> m'" using Cons.IH [OF D(1) r] by auto
    show ?thesis using I(1,3) removes_trans [OF D(2) I(2)] D(3) by auto
  qed
qed simp

lemma drop_rows_total:
  "\<forall>p\<in>set ps. \<not> fl (NodeDrop k p) \<Longrightarrow> \<exists>m'. fst (drop_rows fl k ps m s) = Inr m'"
  by (induction ps arbitrary: m s) (auto simp: DeleteNodeWithUsage_def nodeStore_Delete_def)

text \<open>Rows without a removed row above them stay well kept.\<close>

lemma removed_ok:
  assumes "content_ok s" "counted s'" "removes k P s s'"
    "\<And>q d. node_at (tbl s) k q \<noteq> None \<Longrightarrow> q \<notin> P \<Longrightarrow> d \<in> set (ancestorDirs q) \<Longrightarrow> d \<notin> P"
  shows "content_ok s'"
proof -
  have "row_ok (tbl s') k' n" if "node_at (tbl s') k' p = Some n" for k' p n
  proof -
    have n: "node_at (tbl s) k' p = Some n" "\<not> (k' = k \<and> p \<in> P)"
      using that assms(3) by (auto simp: removes_def split: if_splits)
    have "nd_Path n = p" using node_at_key [OF n(1)] by simp
    then show ?thesis using content_okD(3) [OF assms(1) n(1)] assms(3,4) n unfolding row_ok_def removes_def by auto
  qed
  then show ?thesis using assms(2) by (simp add: content_counted)
qed


section \<open>Pruning\<close>

definition clean :: "string \<Rightarrow> bool" where
  "clean path \<longleftrightarrow> [] \<notin> set (segs_of path)"

lemma clean_trim:
  assumes "clean path"
  shows "trim_suffix path ''/'' \<noteq> []" "hd (trim_suffix path ''/'') \<noteq> CHR ''/''"
proof -
  let ?r = "trim_suffix path ''/''"
  show ne: "?r \<noteq> []" using assms by (auto simp: clean_def)
  obtain x xs where x: "segs_of path = x # xs" by (meson list.exhaust split_on_nonempty)
  have "x \<noteq> []" "CHR ''/'' \<notin> set x" using assms x split_on_parts [of "CHR ''/''" ?r] by (auto simp: clean_def)
  moreover have "?r = x @ (if xs = [] then [] else CHR ''/'' # join_with (CHR ''/'') xs)"
    using join_split [of "CHR ''/''" ?r] x by (cases xs) auto
  ultimately show "hd ?r \<noteq> CHR ''/''" by (metis hd_append2 hd_in_set)
qed

lemma validate_clean: "validateNodePath path \<Longrightarrow> clean path"
  by (auto simp: validateNodePath_def clean_def list_all_iff)

lemma ancestor_trim:
  assumes "d \<in> set (ancestorDirs path)" "clean path"
  shows "has_prefix (trim_suffix path ''/'') d" "trim_suffix path ''/'' \<noteq> d" "clean d"
proof -
  obtain i where i: "1 \<le> i" "i < length (segs_of path)" "d = join_with (CHR ''/'') (take i (segs_of path)) @ ''/''"
    by (rule ancestor_cases [OF assms(1)])
  have eq: "trim_suffix path ''/'' = d @ join_with (CHR ''/'') (drop i (segs_of path))"
    using join_take [OF i(1,2), of "CHR ''/''"] i(3) by simp
  then show "has_prefix (trim_suffix path ''/'') d" by (auto simp: has_prefix_iff)
  obtain x xs where x: "drop i (segs_of path) = x # xs" using i(2) by (metis Cons_nth_drop_Suc)
  then have "x \<in> set (segs_of path)" by (metis in_set_dropD list.set_intros(1))
  then have "x \<noteq> []" using assms(2) by (auto simp: clean_def)
  then have "join_with (CHR ''/'') (drop i (segs_of path)) \<noteq> []" using x by (cases xs) auto
  then show "trim_suffix path ''/'' \<noteq> d" using eq by auto
  have "segs_of d = take i (segs_of path)" using dir_segs [OF i(1)] i(3) by simp
  then show "clean d" using assms(2) by (auto simp: clean_def dest: in_set_takeD)
qed

lemma parent_facts:
  assumes "parentPrefix path \<noteq> []"
  shows "parentPrefix path \<in> set (ancestorDirs path)" "insert (parentPrefix path) (set (ancestorDirs (parentPrefix path))) = set (ancestorDirs path)"
  using ancestors_parent [of path] assms by auto

text \<open>
  What pruning from a folder upwards does: it removes folders of the chain only, none with a row
  below it, and, when no store call fails, leaves no folder of the chain without one.
\<close>

definition pruned :: "string \<Rightarrow> string set \<Rightarrow> repo_error option \<Rightarrow> service \<Rightarrow> service \<Rightarrow> bool" where
  "pruned k C r s s' \<longleftrightarrow>
     content_ok s' \<and> sv_usage s' = sv_usage s \<and>
     (\<exists>P \<subseteq> C. removes k P s s' \<and> (\<forall>d\<in>P. \<forall>q. has_prefix q d \<longrightarrow> node_at (tbl s') k q = None)) \<and>
     (r = None \<longrightarrow> (\<forall>d\<in>C. node_at (tbl s') k d \<noteq> None \<longrightarrow>
        (\<exists>q. q \<noteq> d \<and> node_at (tbl s') k q \<noteq> None \<and> below_prefix (trim_suffix d ''/'') q)))"


lemma folder_eq: "isFolderNode d \<Longrightarrow> trim_suffix d ''/'' @ ''/'' = d"
  by (auto simp: isFolderNode_def has_suffix_iff)

lemma below_clean: "isFolderNode d \<Longrightarrow> clean d \<Longrightarrow> below_prefix (trim_suffix d ''/'') q \<longleftrightarrow> q = trim_suffix d ''/'' \<or> has_prefix q d"
  using below_iff clean_trim folder_eq by metis

lemma prefix_trans: "has_prefix q p \<Longrightarrow> has_prefix p d \<Longrightarrow> has_prefix q d"
  by (auto simp: has_prefix_iff)

text \<open>What lies below a folder lies below every folder above it.\<close>

lemma below_up:
  assumes "d \<in> set (ancestorDirs folder)" "isFolderNode folder" "clean folder" "below_prefix (trim_suffix folder ''/'') q"
  shows "q \<noteq> d" "below_prefix (trim_suffix d ''/'') q"
proof -
  note A = ancestor_trim [OF assms(1,3)] ancestor_prefix [OF assms(1)]
  have q: "has_prefix q d"
    using assms(4) A(1,4) prefix_trans unfolding below_clean [OF assms(2,3)] by blast
  then show "below_prefix (trim_suffix d ''/'') q" using below_clean [OF ancestor_folder [OF assms(1)] A(3)] by blast
  show "q \<noteq> d"
  proof
    assume "q = d"
    then consider "d = trim_suffix folder ''/''" | "has_prefix d folder"
      using assms(4) unfolding below_clean [OF assms(2,3)] by auto
    then show False
    proof cases
      case 2
      then have "length folder \<le> length d" "length d \<le> length folder" using A(4) by (auto simp: has_prefix_iff)
      then show False using A(4,5) by (auto simp: has_prefix_iff)
    qed (use A(2) in auto)
  qed
qed

lemma pruned_stop:
  assumes "content_ok s" "r = None \<Longrightarrow> node_at (tbl s) k q \<noteq> None \<and> q \<noteq> folder \<and> below_prefix (trim_suffix folder ''/'') q"
    "isFolderNode folder" "clean folder"
  shows "pruned k (insert folder (set (ancestorDirs folder))) r s s"
proof -
  have "\<exists>q. q \<noteq> d \<and> node_at (tbl s) k q \<noteq> None \<and> below_prefix (trim_suffix d ''/'') q"
    if "r = None" "d \<in> insert folder (set (ancestorDirs folder))" for d
    using assms(2) [OF that(1)] below_up [OF _ assms(3,4), of d q] that(2) by (cases "d = folder") auto
  then show ?thesis using assms(1) removes_refl [of k s] unfolding pruned_def by blast
qed

lemma pruned_gone:
  assumes "pruned k C r s1 s'" "removes k D s s1" "D \<subseteq> {folder}" "sv_usage s1 = sv_usage s" "node_at (tbl s1) k folder = None"
    "\<And>q. folder \<in> D \<Longrightarrow> has_prefix q folder \<Longrightarrow> node_at (tbl s1) k q = None"
  shows "pruned k (insert folder C) r s s'"
proof -
  obtain P where P: "P \<subseteq> C" "removes k P s1 s'" "\<forall>d\<in>P. \<forall>q. has_prefix q d \<longrightarrow> node_at (tbl s') k q = None"
    using assms(1) by (auto simp: pruned_def)
  have keep: "node_at (tbl s1) k q = None \<Longrightarrow> node_at (tbl s') k q = None" for q using P(2) by (simp add: removes_def)
  have "\<forall>d\<in>D \<union> P. \<forall>q. has_prefix q d \<longrightarrow> node_at (tbl s') k q = None"
    using P(3) assms(3,6) keep by blast
  moreover have "D \<union> P \<subseteq> insert folder C" using P(1) assms(3) by blast
  ultimately have ex: "\<exists>P \<subseteq> insert folder C. removes k P s s' \<and> (\<forall>d\<in>P. \<forall>q. has_prefix q d \<longrightarrow> node_at (tbl s') k q = None)"
    using removes_trans [OF assms(2) P(2)] by blast
  have "r = None \<longrightarrow> (\<forall>d\<in>insert folder C. node_at (tbl s') k d \<noteq> None \<longrightarrow>
        (\<exists>q. q \<noteq> d \<and> node_at (tbl s') k q \<noteq> None \<and> below_prefix (trim_suffix d ''/'') q))"
    using assms(1) keep [OF assms(5)] by (auto simp: pruned_def)
  then show ?thesis using assms(1,4) ex by (simp add: pruned_def)
qed

lemma prune_step:
  assumes "content_ok s" "folder \<noteq> [] \<Longrightarrow> isFolderNode folder \<and> clean folder"
    "\<And>d q. d \<in> set deleted \<Longrightarrow> has_prefix q d \<Longrightarrow> node_at (tbl s) k q = None"
    "prune_up fl k folder deleted s = (r, s')"
  shows "pruned k (if folder = [] then {} else insert folder (set (ancestorDirs folder))) r s s'"
  using assms
proof (induction fl k folder deleted s rule: prune_up.induct)
  case (1 fl k folder deleted s)
  show ?case
  proof (cases "folder = []")
    case True
    then show ?thesis using "1.prems"(1,4) removes_refl [of k s] by (auto simp: pruned_def)
  next
    case ne: False
    have F: "isFolderNode folder" "clean folder" using "1.prems"(2) ne by auto
    let ?up = "parentPrefix folder"
    have chain: "(if ?up = [] then {} else insert ?up (set (ancestorDirs ?up))) = set (ancestorDirs folder)"
      using ancestors_parent [of folder] by simp
    have up: "?up \<noteq> [] \<Longrightarrow> isFolderNode ?up \<and> clean ?up"
      using parent_facts(1) ancestor_folder ancestor_trim(3) F(2) by blast
    note unf = "1.prems"(4) [unfolded prune_up.simps [of fl k folder deleted s]]
    show ?thesis
    proof (cases "nodeStore_ListByPrefix fl (tbl s) k (trim_suffix folder ''/'')")
      case (Inl e)
      then have "r = Some e" "s' = s" using unf ne by auto
      then show ?thesis using pruned_stop [of s r k _ folder] "1.prems"(1) F ne by simp
    next
      case (Inr children)
      let ?live = "\<lambda>c. \<not> (nd_Path c = folder \<or> nd_Path c \<in> set deleted \<or> hasDeletedPrefix (nd_Path c) deleted)"
      show ?thesis
      proof (cases "list_ex ?live children")
        case True
        then obtain c where "c \<in> set children" "nd_Path c \<noteq> folder" by (auto simp: list_ex_iff)
        moreover have "r = None" "s' = s" using unf ne Inr True by auto
        ultimately show ?thesis using pruned_stop [of s r k "nd_Path c" folder] listed_paths(2) [OF Inr] "1.prems"(1) F ne by simp
      next
        case dead: False
        have only: "q = folder" if q: "node_at (tbl s) k q \<noteq> None" "below_prefix (trim_suffix folder ''/'') q" for q
        proof -
          obtain c where c: "c \<in> set children" "nd_Path c = q" using listed_paths(1) [OF Inr, of q] q by auto
          have "q \<notin> set deleted" using "1.prems"(3) [of q q] q(1) by (auto simp: has_prefix_iff)
          moreover have "\<not> hasDeletedPrefix q deleted" using "1.prems"(3) q(1) by (auto simp: hasDeletedPrefix_def list_ex_iff)
          ultimately show ?thesis using dead c by (auto simp: list_ex_iff)
        qed
        show ?thesis
        proof (rule node_Delete_cases [of fl "tbl s" k folder])
          assume "nodeStore_Delete fl (tbl s) k folder = (Some repo_error.ErrStore, tbl s)"
          then have "r = Some repo_error.ErrStore" "s' = s" using unf ne Inr dead by auto
          then show ?thesis using pruned_stop [of s r k _ folder] "1.prems"(1) F ne by simp
        next
          assume d: "nodeStore_Delete fl (tbl s) k folder = (Some ErrNodeNotFound, tbl s)" "node_at (tbl s) k folder = None"
          have "prune_up fl k ?up deleted s = (r, s')" using unf ne Inr dead d(1) by simp
          then have "pruned k (set (ancestorDirs folder)) r s s'"
            using "1.IH"(2) [OF ne Inr dead d(1) [symmetric] refl refl] "1.prems"(1,3) up chain by simp
          then show ?thesis using pruned_gone [of k _ r s s' "{}" s folder] d(2) ne by simp
        next
          fix t assume d: "nodeStore_Delete fl (tbl s) k folder = (None, t)"
          define s1 where "s1 = set_tbl t s"
          obtain n where n: "node_at (tbl s) k folder = Some n" using drop_counted(3) [OF _ d] "1.prems"(1) content_counted by blast
          have "nd_Size n = 0" using content_okD(3) [OF "1.prems"(1) n] node_at_key [OF n] F(1) by (simp add: row_ok_def)
          then have same: "s1 = (set_tbl t s)\<lparr>sv_usage := (sv_usage s)(k := sv_usage s k - node_size (tbl s) k folder)\<rparr>"
            using n by (simp add: s1_def node_size_at set_tbl_def)
          have D: "counted s1" "removes k {folder} s s1"
            using drop_counted(1,2) [OF _ d] "1.prems"(1) content_counted same by auto
          have gone: "node_at (tbl s1) k q = None" if "has_prefix q folder" for q
            using only [of q] below_clean [OF F] that D(2) by (cases "node_at (tbl s) k q") (auto simp: removes_def)
          have gone': "node_at (tbl s1) k q = None" if "d' \<in> set (folder # deleted)" "has_prefix q d'" for d' q
            using gone [of q] "1.prems"(3) [of d' q] that D(2) by (cases "d' = folder") (auto simp: removes_def)
          have ok: "content_ok s1"
          proof (rule removed_ok [OF "1.prems"(1) D])
            fix q d' assume "node_at (tbl s) k q \<noteq> None" "q \<notin> {folder}" "d' \<in> set (ancestorDirs q)"
            then show "d' \<notin> {folder}" using only [of q] below_clean [OF F] ancestor_prefix(1) by auto
          qed
          have "prune_up fl k ?up (folder # deleted) s1 = (r, s')" using unf ne Inr dead d by (simp add: s1_def)
          then have "pruned k (set (ancestorDirs folder)) r s1 s'"
            using "1.IH"(1) [OF ne Inr dead d [symmetric] refl, folded s1_def] ok gone' up chain by simp
          then show ?thesis using pruned_gone [OF _ D(2), of _ r s' folder] gone ne by (simp add: s1_def has_prefix_iff)
        qed
      qed
    qed
  qed
qed

lemma prune_parents:
  assumes "content_ok s" "clean path" "pruneEmptyParents fl k path s = (r, s')"
  shows "pruned k (set (ancestorDirs path)) r s s'"
proof -
  have "pruned k (if parentPrefix path = [] then {} else insert (parentPrefix path) (set (ancestorDirs (parentPrefix path)))) r s s'"
    by (rule prune_step [OF assms(1) _ _ assms(3) [unfolded pruneEmptyParents_def]])
      (use parent_facts(1) [of path] ancestor_folder ancestor_trim(3) [OF _ assms(2)] in auto)
  then show ?thesis using ancestors_parent [of path] by simp
qed

end
