(* ===== verification/Repo_Deploy.thy ===== *)
theory Repo_Deploy
  imports Repo_Service Repo_Tree
begin

text \<open>
  What the content operations of the repository service promise (\<open>internal/repo/service.go\<close>): the
  round trip of a deploy and a read, the grants a deploy needs, what a failed deploy leaves, the
  exact rows a removal takes, the quota bound, and the invariant of every history of them.
\<close>


section \<open>Committed bytes\<close>

definition fresh_upload :: "senv \<Rightarrow> engine \<Rightarrow> bool" where
  "fresh_upload en st \<longleftrightarrow> (\<forall>sid. n_uuid (se_storage en 0) = Some sid \<longrightarrow> \<not> isLiveSession st sid)"

lemma begin_failed: "BeginSession n e = (Inl err, e') \<Longrightarrow> e_holds e' = e_holds e \<and> e_blobs e' = e_blobs e"
  by (auto simp: BeginSession_def begin_register_def register_session_def Let_def eng_simps split: if_splits option.splits prod.splits
      dest!: persist_create_cases)

lemma persist_keeps: "persistStateLocked n sid st e = (r, e') \<Longrightarrow> e_holds e' = e_holds e \<and> e_blobs e' = e_blobs e"
  using persist_state_fields(4,6) by metis

lemma append_fields: "Append n h r e = (x, e') \<Longrightarrow> e_holds e' = e_holds e \<and> e_blobs e' = e_blobs e"
  by (auto simp: Append_def Let_def eng_simps split: if_splits option.splits prod.splits dest!: persist_keeps)

lemma append_bytes:
  assumes "Append n h body e = (Inr w0, e')" "e_heap e h = Some s" "s_digests s = []"
  shows "\<exists>s' data. e_heap e' h = Some s' \<and> s_digests s' = data \<and> copyWithCtx body [] [] = (data, data, True)"
proof -
  obtain w d where c: "copyWithCtx body [] [] = (w, d, True)"
    using assms by (auto simp: Append_def Let_def split: if_splits prod.splits)
  then have "d = w" using copy_ok by fastforce
  then show ?thesis using assms c
    by (auto simp: Append_def Let_def eng_simps split: if_splits prod.splits)
qed

lemma abort_fields: "e_holds (Abort n h e) = e_holds e" "e_blobs (Abort n h e) = e_blobs e"
  by (auto simp: Abort_def finish_fields split: option.splits)

lemma commit_blob:
  assumes "engine_reachable H st" "sized_hashes H" "fresh_upload en st" "commitBlob H en body expect st = (Inr ref, st')"
  obtains data f where "copyWithCtx body [] [] = (data, data, True)" "ref = body_ref H data" "digests_match expect ref"
    "blob_get (Sha256 ref) st' = Some f" "blob_get (Sha256 ref) st = None \<longrightarrow> f_data f = data"
    "\<forall>x g. blob_get x st = Some g \<longrightarrow> blob_get x st' = Some g"
    "\<forall>x. hold_registrations (e_holds st') x = hold_registrations (e_holds st) x + (if x = Sha256 ref then 1 else 0)"
    "engine_reachable H st'"
proof -
  obtain h st1 where b: "BeginSession (se_storage en 0) st = (Inr h, st1)" using assms(4) by (auto simp: commitBlob_def split: sum.splits prod.splits)
  note B = begin_session [OF b]
  obtain s where s: "e_heap st1 h = Some s" "s_digests s = []" using B(1) by blast
  obtain w st2 where a: "Append (se_storage en 1) h body st1 = (Inr w, st2)" and c: "Commit H (se_storage en 2) h expect st2 = (Inr ref, st')"
    using assms(4) b by (auto simp: commitBlob_def split: sum.splits prod.splits)
  obtain s1 data where A: "e_heap st2 h = Some s1" "s_digests s1 = data" "copyWithCtx body [] [] = (data, data, True)"
    using append_bytes [OF a s] by blast
  note F = append_fields [OF a]
  have r1: "engine_reachable H st1"
    by (rule engine_reachable.step [OF assms(1)]) (use engine_step.begin_session [of "se_storage en 0" st] assms(3) b in \<open>auto simp: fresh_upload_def\<close>)
  have r2: "engine_reachable H st2"
    by (rule engine_reachable.step [OF r1]) (use engine_step.append [of H st1 "se_storage en 1" h body] a in simp)
  have r3: "engine_reachable H st'"
    by (rule engine_reachable.step [OF r2]) (use engine_step.commit [of H st2 "se_storage en 2" h] c in \<open>metis snd_conv\<close>)
  obtain s' f p where S: "e_heap st2 h = Some s'" "data_file (s_id s') st2 = Some f" "f_data f = s_digests s'" "ref = actual_ref H s'"
    "digests_match expect ref"
    "publish (se_storage en 2) (s_id s') (Sha256 ref) (hold_acquire (n_now (se_storage en 2)) (Sha256 ref) st2) = (True, p)"
    "st' = finishLocked (se_storage en 2) h s' p" using Commit_successE [OF r2 assms(2) c] .
  note P = publish_blobs [OF S(6)]
  have d: "s_digests s' = data" using A S(1) by auto
  have ref: "ref = body_ref H data" using S(4) d by (simp add: actual_ref_def body_ref_def)
  have g: "blob_get x st' = blob_get x p" "blob_get x st2 = blob_get x st" for x
    using F B(3) by (simp_all add: S(7) blob_get_def finish_fields)
  have df: "data_file (s_id s') (hold_acquire (n_now (se_storage en 2)) (Sha256 ref) st2) = Some f"
    using S(2) data_file_cong [of "hold_acquire (n_now (se_storage en 2)) (Sha256 ref) st2" st2] by (simp add: eng_simps)
  have ex: "\<exists>f. blob_get (Sha256 ref) st' = Some f \<and> (blob_get (Sha256 ref) st = None \<longrightarrow> f_data f = data)"
    using P(2,3) df S(3) d g by (cases "blob_get (Sha256 ref) st") auto
  have grow: "blob_get x st = Some y \<Longrightarrow> blob_get x st' = Some y" for x y using P(1,2) g by (cases "x = Sha256 ref") auto
  have "hold_registrations (e_holds st') x = hold_registrations (e_holds st) x + (if x = Sha256 ref then 1 else 0)" for x
    using F B(2) by (simp add: S(7) finish_fields P(4) eng_simps hs.cnt_acq)
  moreover obtain f' where "blob_get (Sha256 ref) st' = Some f'" "blob_get (Sha256 ref) st = None \<longrightarrow> f_data f' = data" using ex by (elim exE conjE)
  ultimately show thesis using that [OF A(3) ref S(5), of f'] grow r3 by simp
qed

lemma commit_blob_failed:
  assumes "engine_reachable H st" "fresh_upload en st" "commitBlob H en body expect st = (Inl e, st')"
  shows "engine_reachable H st'" "blob_get x st = Some g \<Longrightarrow> blob_get x st' = Some g"
    "hold_registrations (e_holds st') x = hold_registrations (e_holds st) x"
proof -
  obtain r st1 where b: "BeginSession (se_storage en 0) st = (r, st1)" by fastforce
  have r1: "engine_reachable H st1"
    by (rule engine_reachable.step [OF assms(1)]) (use engine_step.begin_session [of "se_storage en 0" st] assms(2) b in \<open>auto simp: fresh_upload_def\<close>)
  have B: "e_holds st1 = e_holds st" "e_blobs st1 = e_blobs st"
    using begin_failed [of "se_storage en 0" st _ st1] begin_session(2,3) [of "se_storage en 0" st _ st1] b by (cases r; simp)+
  have "engine_reachable H st' \<and> (\<forall>x g. blob_get x st = Some g \<longrightarrow> blob_get x st' = Some g) \<and>
      (\<forall>x. hold_registrations (e_holds st') x = hold_registrations (e_holds st) x)"
  proof (cases r)
    case (Inl a)
    then show ?thesis using assms(3) b r1 B by (simp add: commitBlob_def blob_get_def)
  next
    case (Inr h)
    obtain a st2 where a: "Append (se_storage en 1) h body st1 = (a, st2)" by fastforce
    note F = append_fields [OF a]
    have r2: "engine_reachable H st2"
      by (rule engine_reachable.step [OF r1]) (use engine_step.append [of H st1 "se_storage en 1" h body] a in simp)
    show ?thesis
    proof (cases a)
      case (Inl e')
      then have st': "st' = Abort (se_storage en 1) h st2" using assms(3) b Inr a by (simp add: commitBlob_def)
      have "engine_reachable H st'" unfolding st' by (rule engine_reachable.step [OF r2 engine_step.abort])
      then show ?thesis using F B by (simp add: st' abort_fields blob_get_def)
    next
      case w: (Inr w)
      obtain c st3 where c: "Commit H (se_storage en 2) h expect st2 = (c, st3)" by fastforce
      then obtain e' where e': "c = Inl e'" using assms(3) b Inr a w by (auto simp: commitBlob_def split: sum.splits)
      then have st': "st' = Abort (se_storage en 2) h st3" using assms(3) b Inr a w c by (simp add: commitBlob_def)
      have r3: "engine_reachable H st3"
        by (rule engine_reachable.step [OF r2]) (use engine_step.commit [of H st2 "se_storage en 2" h] c in \<open>metis snd_conv\<close>)
      have "engine_reachable H st'" unfolding st' by (rule engine_reachable.step [OF r3 engine_step.abort])
      then show ?thesis using Commit_failed [OF c [unfolded e']] F B by (auto simp: st' abort_fields blob_get_def)
    qed
  qed
  then show "engine_reachable H st'" "blob_get x st = Some g \<Longrightarrow> blob_get x st' = Some g"
    "hold_registrations (e_holds st') x = hold_registrations (e_holds st) x" by auto
qed


section \<open>The arms of a deploy\<close>

lemma quota_passed: "checkQuota en po gov k path incoming replaced s = (None, s1) \<Longrightarrow> s1 = s"
  by (auto simp: checkQuota_def Let_def split: if_splits sum.splits)

lemma quota_state: "checkQuota en po gov k path incoming replaced s = (r, s1) \<Longrightarrow>
   tbl s1 = tbl s \<and> eng s1 = eng s \<and> sv_usage s1 = sv_usage s \<and> sv_props s1 = sv_props s"
  by (auto simp: checkQuota_def Let_def split: if_splits sum.splits)

lemma land_success:
  assumes "land_content en p gov k path ref existing mime props s = (Inr n, s')"
  shows "checkQuota en (Some p) gov k path (int (Size ref)) (replaced_size existing) s = (None, s)"
    "putNode (se_land en) (se_now en) (p_Name p) k path (Some ref) mime props s = (Inr n, s')"
proof -
  obtain s1 where q: "checkQuota en (Some p) gov k path (int (Size ref)) (replaced_size existing) s = (None, s1)"
    "putNode (se_land en) (se_now en) (p_Name p) k path (Some ref) mime props s1 = (Inr n, s')"
    using assms by (auto simp: land_content_def split: prod.splits option.splits sum.splits)
  then show "checkQuota en (Some p) gov k path (int (Size ref)) (replaced_size existing) s = (None, s)"
    "putNode (se_land en) (se_now en) (p_Name p) k path (Some ref) mime props s = (Inr n, s')"
    using quota_passed [OF q(1)] by simp_all
qed

text \<open>Events and released holds leave rows, counters and properties as they are.\<close>

definition same_store :: "service \<Rightarrow> service \<Rightarrow> bool" where
  "same_store s s' \<longleftrightarrow> tbl s' = tbl s \<and> sv_usage s' = sv_usage s \<and> sv_props s' = sv_props s"

lemma same_events [simp]:
  "same_store s (emit e s') = same_store s s'" "same_store s (releaseGCHold x s') = same_store s s'"
  "same_store s (set_eng st s') = same_store s s'" "same_store s (notifyReplicator k p x s') = same_store s s'" "same_store s s"
  by (auto simp: same_store_def releaseGCHold_def notifyReplicator_def)

lemma same_storeD: "same_store s s' \<Longrightarrow> tbl s' = tbl s" "same_store s s' \<Longrightarrow> sv_usage s' = sv_usage s"
    "same_store s s' \<Longrightarrow> sv_props s' = sv_props s" "same_store s s' \<Longrightarrow> content_ok s' = content_ok s"
  by (auto simp: same_store_def content_ok_def)

lemma event_engine [simp]: "eng (notifyReplicator k p x s) = eng s"
    "eng (releaseGCHold x s) = (if x = [] \<or> x = emptyFolderSHA then eng s else ReleaseGCHold x (eng s))"
  by (simp_all add: notifyReplicator_def releaseGCHold_def)

lemma put_file_success:
  assumes "put_file H en p gov k path body expect mime opts s = (Inr n, s')"
  obtains idem existing ref st s1 where
    "authorizeContentPut en (Some p) k path (Sha256 expect) (pu_SkipOverwriteCheck opts) s = Inr (idem, existing)"
    "commitBlob H en body expect (eng s) = (Inr ref, st)"
    "checkQuota en (Some p) gov k path (int (Size ref)) (replaced_size existing) (set_eng st s) = (None, set_eng st s)"
    "putNode (se_land en) (se_now en) (p_Name p) k path (Some ref) mime (pu_Properties opts) (set_eng st s) = (Inr n, s1)"
    "same_store s1 s'" "eng s' = (if Sha256 ref = [] \<or> Sha256 ref = emptyFolderSHA then eng s1 else ReleaseGCHold (Sha256 ref) (eng s1))"
proof -
  obtain idem existing where a: "authorizeContentPut en (Some p) k path (Sha256 expect) (pu_SkipOverwriteCheck opts) s = Inr (idem, existing)"
    using assms by (auto simp: put_file_def split: sum.splits)
  obtain ref st where c: "commitBlob H en body expect (eng s) = (Inr ref, st)"
    using assms a by (auto simp: put_file_def split: sum.splits prod.splits)
  obtain s1 where l: "land_content en p gov k path ref existing mime (pu_Properties opts) (set_eng st s) = (Inr n, s1)"
    and s': "s' = notifyReplicator k path (nd_Sha256 n) (emit (Hooked TypeArtifactDeployed k path (nd_Sha256 n) (nd_Size n))
                         (emit (Audited (p_Name p) AuditActionDeploy k path) (releaseGCHold (Sha256 ref) s1)))"
    using assms a c by (auto simp: put_file_def split: sum.splits prod.splits)
  show thesis by (rule that [OF a c land_success [OF l]]) (simp_all add: s')
qed

lemma deploy_arms:
  assumes "PutWithOptions H en po repoKey path body expect mime opts s = (r, s')"
  obtains e where "r = Inl e" "s' = s"
  | p row gov where "po = Some p" "validateNodePath path" "guardSystemRepo repoKey" "ValidatePropSet (pu_Properties opts)"
      "write_target en repoKey path s = Inr (row, gov)"
      "(if isFolderNode path then put_folder en p (rp_RepoKey row) path body (default_mime mime) opts s
        else put_file H en p gov (rp_RepoKey row) path body expect (default_mime mime) opts s) = (r, s')"
  using assms by (auto simp: PutWithOptions_def split: option.splits if_splits sum.splits prod.splits)

lemma write_row:
  assumes "write_target en repoKey path s = Inr (row, gov)"
  shows "gov = parseGovernance (rp_Config row)" "allowsPath gov path" "\<not> blackedOut (rp_Config row)" "rp_Type row \<notin> {TypeRemote, TypeVirtual}"
    "find (\<lambda>r. rp_RepoKey r = rp_RepoKey row) (tb_repos (tbl s)) = Some row"
proof -
  have r: "resolveWriteRepo (se_virtual en) (tbl s) repoKey = Inr row"
    and "gov = parseGovernance (rp_Config row)" "allowsPath gov path" "\<not> blackedOut (rp_Config row)"
    using assms by (auto simp: write_target_def Let_def split: sum.splits if_splits)
  then show "gov = parseGovernance (rp_Config row)" "allowsPath gov path" "\<not> blackedOut (rp_Config row)" by auto
  obtain k where k: "repos_Get (se_gate en) (tbl s) k = Inr row" "refuseNonLocalWrite row = None"
    using r by (auto simp: resolveWriteRepo_def Let_def split: sum.splits if_splits option.splits)
  then show "rp_Type row \<notin> {TypeRemote, TypeVirtual}" by (auto simp: refuseNonLocalWrite_def split: if_splits)
  have "find (\<lambda>r. rp_RepoKey r = k) (tb_repos (tbl s)) = Some row" using k(1) by (auto simp: repos_Get_def split: if_splits option.splits)
  moreover from this have "rp_RepoKey row = k" by (auto simp: find_Some_iff)
  ultimately show "find (\<lambda>r. rp_RepoKey r = rp_RepoKey row) (tb_repos (tbl s)) = Some row" by simp
qed


section \<open>Deploying a file\<close>

lemma content_eng [simp]: "content_ok (set_eng st s) = content_ok s"
  by (rule content_ok_cong) simp_all

lemma touches_eng: "touches k P (set_eng st s) s' \<Longrightarrow> node_at (tbl s') k' p' = node_at (tbl s) k' p' \<or> k' = k \<and> p' \<in> P"
    "touches k P (set_eng st s) s' \<Longrightarrow> eng s' = st" "touches k P (set_eng st s) s' \<Longrightarrow> tb_repos (tbl s') = tb_repos (tbl s)"
    "touches k P (set_eng st s) s' \<Longrightarrow> k' \<noteq> k \<Longrightarrow> sv_usage s' k' = sv_usage s k'"
  by (auto simp: touches_def)

lemma ref_size: "Size (body_ref H data) = length data" "Sha256 (body_ref H data) = sum_sha256 (sums H data)"
  by (simp_all add: body_ref_def)

text \<open>The target of a deploy, as the name of the row in the repository it resolves to.\<close>

lemma deploy_success:
  assumes "content_ok s" "engine_reachable H (eng s)" "sized_hashes H" "fresh_upload en (eng s)" "\<not> isFolderNode path"
    "PutWithOptions H en po repoKey path body expect mime opts s = (Inr n, s')"
  obtains p row data f st s1 idem existing where "po = Some p" "write_target en repoKey path s = Inr (row, parseGovernance (rp_Config row))"
    "nd_RepoKey n = rp_RepoKey row" "nd_Path n = path" "validateNodePath path"
    "authorizeContentPut en po (rp_RepoKey row) path (Sha256 expect) (pu_SkipOverwriteCheck opts) s = Inr (idem, existing)"
    "checkQuota en po (parseGovernance (rp_Config row)) (rp_RepoKey row) path (int (length data)) (replaced_size existing) (set_eng st s) = (None, set_eng st s)"
    "putNode (se_land en) (se_now en) (p_Name p) (rp_RepoKey row) path (Some (body_ref H data)) (default_mime mime) (pu_Properties opts) (set_eng st s) = (Inr n, s1)"
    "same_store s1 s'" "copyWithCtx body [] [] = (data, data, True)" "digests_match expect (body_ref H data)"
    "nd_Sha256 n = sum_sha256 (sums H data)" "blob_get (nd_Sha256 n) (eng s') = Some f" "blob_get (nd_Sha256 n) (eng s) = None \<longrightarrow> f_data f = data"
    "\<forall>x g. blob_get x (eng s) = Some g \<longrightarrow> blob_get x (eng s') = Some g" "engine_reachable H (eng s')"
    "nd_Sha256 n \<noteq> emptyFolderSHA \<longrightarrow> hold_registrations (e_holds (eng s')) = hold_registrations (e_holds (eng s))"
proof (rule deploy_arms [OF assms(6)])
  fix e assume "Inr n = Inl e" then show thesis by simp
next
  fix p row gov
  assume po: "po = Some p" and v: "validateNodePath path" and w: "write_target en repoKey path s = Inr (row, gov)"
    and run: "(if isFolderNode path then put_folder en p (rp_RepoKey row) path body (default_mime mime) opts s
        else put_file H en p gov (rp_RepoKey row) path body expect (default_mime mime) opts s) = (Inr n, s')"
  let ?k = "rp_RepoKey row"
  obtain idem existing ref st s1 where P:
    "authorizeContentPut en (Some p) ?k path (Sha256 expect) (pu_SkipOverwriteCheck opts) s = Inr (idem, existing)"
    "commitBlob H en body expect (eng s) = (Inr ref, st)"
    "checkQuota en (Some p) gov ?k path (int (Size ref)) (replaced_size existing) (set_eng st s) = (None, set_eng st s)"
    "putNode (se_land en) (se_now en) (p_Name p) ?k path (Some ref) (default_mime mime) (pu_Properties opts) (set_eng st s) = (Inr n, s1)"
    "same_store s1 s'" "eng s' = (if Sha256 ref = [] \<or> Sha256 ref = emptyFolderSHA then eng s1 else ReleaseGCHold (Sha256 ref) (eng s1))"
    using put_file_success [OF run [unfolded if_not_P [OF assms(5)]]] .
  obtain data f where C: "copyWithCtx body [] [] = (data, data, True)" "ref = body_ref H data" "digests_match expect ref"
    "blob_get (Sha256 ref) st = Some f" "blob_get (Sha256 ref) (eng s) = None \<longrightarrow> f_data f = data"
    "\<forall>x g. blob_get x (eng s) = Some g \<longrightarrow> blob_get x st = Some g"
    "\<forall>x. hold_registrations (e_holds st) x = hold_registrations (e_holds (eng s)) x + (if x = Sha256 ref then 1 else 0)"
    "engine_reachable H st"
    using commit_blob [OF assms(2-4) P(2)] .
  note S = putNode_step [OF _ _ P(4)]
  have S': "touches ?k (insert path (set (ancestorDirs path))) (set_eng st s) s1" "node_at (tbl s1) ?k path = Some n"
      "describes n ref (default_mime mime) (node_at (tbl s) ?k path)"
    using S(2) S(3) [OF _ _ refl] assms(1,5) by auto
  have e1: "eng s1 = st" by (rule touches_eng(2) [OF S'(1)])
  have sha: "nd_Sha256 n = Sha256 ref" using S'(3) by (simp add: describes_def)
  have ne: "Sha256 ref \<noteq> []" using sums_nonempty(1) [OF assms(3)] C(2) by (simp add: body_ref_def)
  have blobs: "blob_get x (eng s') = blob_get x st" for x by (simp add: P(6) e1 ReleaseGCHold_def blob_get_def)
  have reach: "engine_reachable H (eng s')"
    using C(8) engine_reachable.step [OF C(8) engine_step.release_hold] by (simp add: P(6) e1)
  have holds: "hold_registrations (e_holds (eng s')) = hold_registrations (e_holds (eng s))" if "nd_Sha256 n \<noteq> emptyFolderSHA"
    using that ne C(7) by (intro ext) (simp add: P(6) e1 sha ReleaseGCHold_def hs.cnt_rel)
  have g: "gov = parseGovernance (rp_Config row)" by (rule write_row(1) [OF w])
  show thesis
    by (rule that [OF po w [unfolded g] _ _ v P(1) [folded po] P(3) [folded po, unfolded g C(2) ref_size] P(4) [unfolded C(2)] P(5) C(1) C(3) [unfolded C(2)] _ _ _ _ reach])
      (use node_at_key [OF S'(2)] sha C blobs holds in \<open>auto simp: body_ref_def\<close>)
qed


lemma deploy_row:
  assumes "content_ok s" "engine_reachable H (eng s)" "sized_hashes H" "fresh_upload en (eng s)" "\<not> isFolderNode path"
    "PutWithOptions H en po repoKey path body expect mime opts s = (Inr n, s')"
  shows "node_at (tbl s') (nd_RepoKey n) path = Some n"
proof (rule deploy_success [OF assms])
  fix p row data st s1
  assume D: "nd_RepoKey n = rp_RepoKey row" "same_store s1 s'"
    "putNode (se_land en) (se_now en) (p_Name p) (rp_RepoKey row) path (Some (body_ref H data)) (default_mime mime) (pu_Properties opts) (set_eng st s) = (Inr n, s1)"
  show ?thesis using putNode_step(3) [OF _ _ D(3)] assms(1,5) D(1) same_storeD(1) [OF D(2)] by simp
qed





section \<open>The digests rows name\<close>

text \<open>
  A write changes the digest of a row only to one of the given (repository, path, digest) triples,
  and removes no row.
\<close>

definition digest_at :: "service \<Rightarrow> string \<Rightarrow> string \<Rightarrow> string option" where
  "digest_at s k p = map_option nd_Sha256 (node_at (tbl s) k p)"

definition lands :: "(string \<times> string \<times> string) set \<Rightarrow> service \<Rightarrow> service \<Rightarrow> bool" where
  "lands X s s' \<longleftrightarrow> (\<forall>k p. digest_at s' k p = digest_at s k p \<or> (\<exists>x. (k, p, x) \<in> X \<and> digest_at s' k p = Some x))"

lemma lands_same: "(\<And>k p. node_at (tbl s') k p = node_at (tbl s) k p) \<Longrightarrow> lands X s s'"
  by (simp add: lands_def digest_at_def)

lemma lands_rows: "lands X s s1 \<Longrightarrow> tbl s' = tbl s1 \<Longrightarrow> lands X s s'"
  by (simp add: lands_def digest_at_def)

lemma lands_trans: "lands X s s' \<Longrightarrow> lands Y s' s'' \<Longrightarrow> lands (X \<union> Y) s s''"
  unfolding lands_def by (metis UnCI)

lemma lands_mono: "lands X s s' \<Longrightarrow> X \<subseteq> Y \<Longrightarrow> lands Y s s'"
  unfolding lands_def by blast

lemma written_lands:
  assumes "\<And>k p. node_at (tbl s1) k p = node_at (tbl s) k p" "written n (PutNodeWithUsage fl n s1) = (r, s')"
  shows "lands {(nd_RepoKey n, nd_Path n, nd_Sha256 n)} s s'"
proof (rule put_row_cases [of fl n s1])
  fix e assume "PutNodeWithUsage fl n s1 = (Some e, s1)"
  then show ?thesis using assms by (intro lands_same) (simp add: written_def)
next
  fix s2 assume "PutNodeWithUsage fl n s1 = (None, s2)" "tbl s2 = nodeStore_Put n (tbl s1)"
  then show ?thesis using assms by (auto simp: written_def lands_def digest_at_def)
qed

lemma folder_lands:
  assumes "putFolderRow fl now who k d mime s = (r, s')" shows "lands {(k, d, emptyFolderSHA)} s s'"
proof (rule folder_arms [of fl now who k d mime s])
  fix e assume "putFolderRow fl now who k d mime s = (Inl e, s)"
  then show ?thesis using assms by (intro lands_same) simp
next
  fix m assume "putFolderRow fl now who k d mime s = written (refresh now mime m) (PutNodeWithUsage fl (refresh now mime m) s)"
    "nd_Sha256 m = emptyFolderSHA" "nd_RepoKey m = k" "nd_Path m = d"
  then show ?thesis using written_lands [of s s "refresh now mime m" fl r s'] assms by simp
next
  fix n assume n: "n = kept_origin (node_at (tbl s) k d) (new_folder now who k d mime)"
    "putFolderRow fl now who k d mime s = written n (PutNodeWithUsage fl n (set_tbl (blobStore_Put (folder_blob now) (tbl s)) s))"
  show ?thesis using written_lands [of "set_tbl (blobStore_Put (folder_blob now) (tbl s)) s" s n fl r s'] assms n(2) by (simp add: n(1))
qed

lemma file_lands:
  assumes "putFileRow fl now who k p ref mime s = (r, s')" shows "lands {(k, p, Sha256 ref)} s s'"
proof (rule file_arms [of fl now who k p ref mime s])
  fix e assume "putFileRow fl now who k p ref mime s = (Inl e, s)"
  then show ?thesis using assms by (intro lands_same) simp
next
  fix m assume "putFileRow fl now who k p ref mime s = written (refresh now mime m) (PutNodeWithUsage fl (refresh now mime m) s)"
    "nd_Sha256 m = Sha256 ref" "nd_RepoKey m = k" "nd_Path m = p"
  then show ?thesis using written_lands [of s s "refresh now mime m" fl r s'] assms by simp
next
  fix n assume n: "n = kept_origin (node_at (tbl s) k p) (new_file now who k p ref mime)"
    "putFileRow fl now who k p ref mime s = written n (PutNodeWithUsage fl n (set_tbl (blobStore_Put (ref_blob now ref) (tbl s)) s))"
  show ?thesis using written_lands [of "set_tbl (blobStore_Put (ref_blob now ref) (tbl s)) s" s n fl r s'] assms n(2) by (simp add: n(1))
qed

definition markers :: "string \<Rightarrow> string set \<Rightarrow> (string \<times> string \<times> string) set" where
  "markers k D = (\<lambda>d. (k, d, emptyFolderSHA)) ` D"

lemma folders_lands: "put_folders fl now who k dirs s = (r, s') \<Longrightarrow> lands (markers k (set dirs)) s s'"
proof (induction dirs arbitrary: s)
  case Nil
  then show ?case by (intro lands_same) simp
next
  case (Cons d dirs)
  obtain x s1 where x: "putFolderRow fl now who k d folderMime s = (x, s1)" by fastforce
  note L = folder_lands [OF x]
  show ?case
  proof (cases x)
    case (Inl e)
    then have "s' = s1" using Cons.prems x by simp
    then show ?thesis using lands_mono [OF L] by (simp add: markers_def)
  next
    case (Inr n)
    then have "lands (markers k (set dirs)) s1 s'" using Cons.IH [of s1] Cons.prems x by simp
    then show ?thesis using lands_trans [OF L] by (simp add: markers_def)
  qed
qed

lemma props_rows: "applyDeployProps fl k path props s = (r, s') \<Longrightarrow> tbl s' = tbl s"
  by (auto simp: applyDeployProps_def nodeProps_Merge_def split: if_splits)

lemma putNode_lands:
  assumes "putNode fl now who k path content mime props s = (r, s')"
  shows "lands (insert (k, path, case content of None \<Rightarrow> emptyFolderSHA | Some ref \<Rightarrow> Sha256 ref) (markers k (set (ancestorDirs path)))) s s'"
    (is "lands (insert ?x ?M) s s'")
proof -
  obtain a s1 where a: "materializeAncestors fl now who k path s = (a, s1)" by fastforce
  have A: "lands ?M s s1" using folders_lands a by (simp add: materializeAncestors_def)
  obtain b s2 where b: "(case content of None \<Rightarrow> putFolderRow fl now who k path mime s1 | Some ref \<Rightarrow> putFileRow fl now who k path ref mime s1) = (b, s2)"
    by fastforce
  have "lands {?x} s1 s2" using b folder_lands [of fl now who k path mime s1] file_lands [of fl now who k path _ mime s1] by (cases content) auto
  then have B: "lands (insert ?x ?M) s s2" using lands_trans [OF A] by fastforce
  show ?thesis
  proof (cases a)
    case (Some e)
    then show ?thesis using assms a lands_mono [OF A] by (auto simp: putNode_def)
  next
    case None
    show ?thesis
    proof (cases b)
      case (Inl e)
      then show ?thesis using assms a None b B by (simp add: putNode_def)
    next
      case (Inr n)
      obtain c s3 where c: "applyDeployProps fl k path props s2 = (c, s3)" by fastforce
      then have "s' = s3" using assms a None b Inr by (auto simp: putNode_def written_def split: option.splits)
      then show ?thesis using B props_rows [OF c] by (simp add: lands_def digest_at_def)
    qed
  qed
qed


section \<open>Every file row has its bytes\<close>

definition stored :: "engine \<Rightarrow> string \<Rightarrow> bool" where
  "stored st x \<longleftrightarrow> x = emptyFolderSHA \<or> validSha256 x \<and> blob_get x st \<noteq> None"

definition backed :: "service \<Rightarrow> bool" where
  "backed s \<longleftrightarrow> (\<forall>k p x. digest_at s k p = Some x \<longrightarrow> stored (eng s) x)"

text \<open>
  A well-kept service: rows, counters and properties fit together, every row's bytes are stored,
  and the storage engine is in a state its operations reach.
\<close>

definition service_ok :: "hash_suite \<Rightarrow> service \<Rightarrow> bool" where
  "service_ok H s \<longleftrightarrow> content_ok s \<and> backed s \<and> engine_reachable H (eng s)"

lemma backed_lands:
  assumes "backed s" "lands X s s'" "\<And>k p x. (k, p, x) \<in> X \<Longrightarrow> stored (eng s') x" "\<And>x g. blob_get x (eng s) = Some g \<Longrightarrow> blob_get x (eng s') = Some g"
  shows "backed s'"
proof -
  have "stored (eng s') x" if "stored (eng s) x" for x using that assms(4) unfolding stored_def by fastforce
  then show ?thesis using assms(1-3) unfolding backed_def lands_def by (metis option.inject)
qed

lemma land_step:
  assumes "content_ok s" "\<not> isFolderNode path" "land_content en p gov k path ref existing mime props s = (r, s')"
  shows "content_ok s'" "eng s' = eng s" "lands (insert (k, path, Sha256 ref) (markers k (set (ancestorDirs path)))) s s'"
proof -
  obtain q s1 where q: "checkQuota en (Some p) gov k path (int (Size ref)) (replaced_size existing) s = (q, s1)" by fastforce
  note Q = quota_state [OF q]
  have ok: "content_ok s1" using Q assms(1) content_ok_cong [of s1 s] by simp
  obtain x s2 where x: "putNode (se_land en) (se_now en) (p_Name p) k path (Some ref) mime props s1 = (x, s2)" by fastforce
  note P = putNode_step(1,2) [OF ok _ x] putNode_lands [OF x]
  have r: "s' = s1 \<or> s' = s2" using assms(3) q x by (auto simp: land_content_def split: option.splits sum.splits)
  show "content_ok s'" using r ok P(1) assms(2) by auto
  show "eng s' = eng s" using r Q P(2) assms(2) by (auto simp: touches_def)
  show "lands (insert (k, path, Sha256 ref) (markers k (set (ancestorDirs path)))) s s'"
    using r Q P(3) by (auto simp: lands_def digest_at_def)
qed

lemma folder_put_step:
  assumes "content_ok s" "isFolderNode path" "put_folder en p k path body mime opts s = (r, s')"
  shows "content_ok s'" "eng s' = eng s" "lands (insert (k, path, emptyFolderSHA) (markers k (set (ancestorDirs path)))) s s'"
proof -
  obtain x s2 where x: "putNode (se_land en) (se_now en) (p_Name p) k path None mime (pu_Properties opts) s = (x, s2)" by fastforce
  note P = putNode_step(1,2) [OF assms(1) _ x] putNode_lands [OF x]
  have r: "s' = s \<or> same_store s2 s' \<and> eng s' = eng s2" using assms(3) x by (auto simp: put_folder_def split: if_splits sum.splits)
  show "content_ok s'" using r assms(1,2) P(1) same_storeD(4) by blast
  show "eng s' = eng s" using r P(2) assms(2) by (auto simp: touches_def)
  show "lands (insert (k, path, emptyFolderSHA) (markers k (set (ancestorDirs path)))) s s'"
    using r P(3) lands_same [of s' s] lands_rows [OF P(3), of s'] by (auto dest: same_storeD(1))
qed

lemma markers_stored: "(k', p', x) \<in> insert (k, p, y) (markers k D) \<Longrightarrow> stored st y \<Longrightarrow> stored st x"
  by (auto simp: markers_def stored_def)

lemma released_reachable: "engine_reachable H (eng s) \<Longrightarrow> engine_reachable H (eng (releaseGCHold x s))"
  using engine_reachable.step [OF _ engine_step.release_hold] by simp

text \<open>A file deploy: what it leaves, whatever it returns.\<close>

lemma put_file_step:
  assumes "service_ok H s" "sized_hashes H" "fresh_upload en (eng s)" "\<not> isFolderNode path"
    "put_file H en p gov k path body expect mime opts s = (r, s')"
  shows "service_ok H s'" "blob_get x (eng s) = Some g \<Longrightarrow> blob_get x (eng s') = Some g"
    "tbl s' = tbl s \<or> (\<exists>y idem existing. authorizeContentPut en (Some p) k path (Sha256 expect) (pu_SkipOverwriteCheck opts) s = Inr (idem, existing) \<and>
       (Sha256 expect = [] \<or> to_lower (Sha256 expect) = y) \<and> lands (insert (k, path, y) (markers k (set (ancestorDirs path)))) s s')"
proof -
  have ok: "content_ok s" "backed s" "engine_reachable H (eng s)" using assms(1) by (auto simp: service_ok_def)
  have "service_ok H s' \<and> (\<forall>x g. blob_get x (eng s) = Some g \<longrightarrow> blob_get x (eng s') = Some g) \<and>
      (tbl s' = tbl s \<or> (\<exists>y idem existing. authorizeContentPut en (Some p) k path (Sha256 expect) (pu_SkipOverwriteCheck opts) s = Inr (idem, existing) \<and>
       (Sha256 expect = [] \<or> to_lower (Sha256 expect) = y) \<and> lands (insert (k, path, y) (markers k (set (ancestorDirs path)))) s s'))"
  proof (cases "authorizeContentPut en (Some p) k path (Sha256 expect) (pu_SkipOverwriteCheck opts) s")
    case (Inl e)
    then show ?thesis using assms(1,5) by (auto simp: put_file_def)
  next
    case (Inr ie)
    obtain idem existing where ie: "ie = (idem, existing)" by fastforce
    obtain c st where c: "commitBlob H en body expect (eng s) = (c, st)" by fastforce
    show ?thesis
    proof (cases c)
      case (Inl e)
      note F = commit_blob_failed [OF ok(3) assms(3) c [unfolded Inl]]
      have s': "s' = set_eng st s" using assms(5) Inr ie c Inl by (simp add: put_file_def)
      have "backed s'" by (rule backed_lands [OF ok(2), where X = "{}"]) (use F(2) s' in \<open>auto intro: lands_same\<close>)
      then show ?thesis using F(1,2) ok(1) s' by (simp add: service_ok_def)
    next
      case ref: (Inr ref)
      obtain data f where C: "copyWithCtx body [] [] = (data, data, True)" "ref = body_ref H data" "digests_match expect ref"
        "blob_get (Sha256 ref) st = Some f" "blob_get (Sha256 ref) (eng s) = None \<longrightarrow> f_data f = data"
        "\<forall>x g. blob_get x (eng s) = Some g \<longrightarrow> blob_get x st = Some g"
        "\<forall>x. hold_registrations (e_holds st) x = hold_registrations (e_holds (eng s)) x + (if x = Sha256 ref then 1 else 0)"
        "engine_reachable H st"
        using commit_blob [OF ok(3) assms(2,3) c [unfolded ref]] .
      obtain y s1 where y: "land_content en p gov k path ref existing mime (pu_Properties opts) (set_eng st s) = (y, s1)" by fastforce
      note L = land_step [OF _ assms(4) y]
      have s': "same_store s1 s'" "eng s' = eng s1 \<or> eng s' = eng (releaseGCHold (Sha256 ref) s1)"
        using assms(5) Inr ie c ref y by (auto simp: put_file_def split: sum.splits)
      have e1: "eng s1 = st" using L(2) ok(1) by simp
      have reach: "engine_reachable H (eng s')" using s'(2) e1 C(8) released_reachable [of H s1] by auto
      have blobs: "blob_get x (eng s') = blob_get x st" for x using s'(2) e1 by (auto simp: ReleaseGCHold_def blob_get_def split: if_splits)
      have lands: "lands (insert (k, path, Sha256 ref) (markers k (set (ancestorDirs path)))) s s'"
        using L(3) ok(1) same_storeD(1) [OF s'(1)] by (simp add: lands_def digest_at_def)
      have "stored (eng s') (Sha256 ref)" using blobs C(2,4) sums_valid [OF assms(2)] by (simp add: stored_def body_ref_def)
      then have "backed s'"
        by (intro backed_lands [OF ok(2) lands]) (use markers_stored C(6) blobs in auto)
      then have "service_ok H s'" using L(1) ok(1) same_storeD(4) [OF s'(1)] reach by (simp add: service_ok_def)
      then show ?thesis using C(3,6) blobs Inr ie lands by (auto simp: digests_match_def)
    qed
  qed
  then show "service_ok H s'" "blob_get x (eng s) = Some g \<Longrightarrow> blob_get x (eng s') = Some g"
    "tbl s' = tbl s \<or> (\<exists>y idem existing. authorizeContentPut en (Some p) k path (Sha256 expect) (pu_SkipOverwriteCheck opts) s = Inr (idem, existing) \<and>
       (Sha256 expect = [] \<or> to_lower (Sha256 expect) = y) \<and> lands (insert (k, path, y) (markers k (set (ancestorDirs path)))) s s')"
    by auto
qed


lemma deploy_step:
  assumes "service_ok H s" "sized_hashes H" "fresh_upload en (eng s)" "PutWithOptions H en po repoKey path body expect mime opts s = (r, s')"
  shows "service_ok H s'" "blob_get x (eng s) = Some g \<Longrightarrow> blob_get x (eng s') = Some g"
proof -
  have "service_ok H s' \<and> (\<forall>x g. blob_get x (eng s) = Some g \<longrightarrow> blob_get x (eng s') = Some g)"
  proof (rule deploy_arms [OF assms(4)])
    fix p row gov
    assume run: "(if isFolderNode path then put_folder en p (rp_RepoKey row) path body (default_mime mime) opts s
        else put_file H en p gov (rp_RepoKey row) path body expect (default_mime mime) opts s) = (r, s')"
    show ?thesis
    proof (cases "isFolderNode path")
      case False
      then show ?thesis using put_file_step(1,2) [OF assms(1-3) False] run by auto
    next
      case True
      have ok: "content_ok s" "backed s" "engine_reachable H (eng s)" using assms(1) by (auto simp: service_ok_def)
      note F = folder_put_step [OF ok(1) True, of en p "rp_RepoKey row" body "default_mime mime" opts r s'] run True
      have "backed s'"
        by (rule backed_lands [OF ok(2)]) (use F in \<open>auto simp: stored_def markers_def\<close>)
      then show ?thesis using F ok(3) by (simp add: service_ok_def)
    qed
  qed (use assms(1) in simp)
  then show "service_ok H s'" "blob_get x (eng s) = Some g \<Longrightarrow> blob_get x (eng s') = Some g" by auto
qed


section \<open>Grants\<close>

lemma authorized:
  assumes "authorizeContentPut en po k path sha skip s = Inr (idem, existing)"
  shows "existing = node_at (tbl s) k path"
    "(\<exists>m. node_at (tbl s) k path = Some m \<and> nd_Sha256 m = sha \<and> sha \<noteq> []) \<or>
     allow en po k path ActionWrite \<and> (node_at (tbl s) k path = None \<or> skip \<or> allow en po k path ActionDelete)"
  using assms by (auto simp: authorizeContentPut_def isIdempotentRedeploy_def node_Get split: sum.splits if_splits option.splits)

text \<open>
  The grants of a deploy. Whenever \<open>PutWithOptions\<close> changes anything at all or reports success,
  the caller is authenticated, the path is well formed, the repository is not the trash can, and
  the write resolved to a repository that takes local writes, is not blacked out and whose
  patterns admit the path; a folder needs the write grant, a file the write grant together with
  the delete grant when it replaces a row (unless the caller of the service lifts that check), or
  else a standing row that already has the declared digest.
\<close>

theorem deploy_grants:
  assumes "PutWithOptions H en po repoKey path body expect mime opts s = (r, s')" "s' \<noteq> s \<or> (\<exists>n. r = Inr n)"
  shows "po \<noteq> None \<and> validateNodePath path \<and> repoKey \<noteq> TrashRepoKey \<and> ValidatePropSet (pu_Properties opts) \<and>
    (\<exists>row. find (\<lambda>r. rp_RepoKey r = rp_RepoKey row) (tb_repos (tbl s)) = Some row \<and> rp_Type row \<notin> {TypeRemote, TypeVirtual} \<and>
      \<not> blackedOut (rp_Config row) \<and> allowsPath (parseGovernance (rp_Config row)) path \<and>
      (allow en po (rp_RepoKey row) path ActionWrite \<and>
         (isFolderNode path \<or> node_at (tbl s) (rp_RepoKey row) path = None \<or> pu_SkipOverwriteCheck opts \<or> allow en po (rp_RepoKey row) path ActionDelete) \<or>
       \<not> isFolderNode path \<and> (\<exists>m. node_at (tbl s) (rp_RepoKey row) path = Some m \<and> nd_Sha256 m = Sha256 expect \<and> Sha256 expect \<noteq> [])))"
proof (rule deploy_arms [OF assms(1)])
  fix e assume "r = Inl e" "s' = s" then show ?thesis using assms(2) by simp
next
  fix p row gov
  assume G: "po = Some p" "validateNodePath path" "guardSystemRepo repoKey" "ValidatePropSet (pu_Properties opts)"
    "write_target en repoKey path s = Inr (row, gov)"
    and run: "(if isFolderNode path then put_folder en p (rp_RepoKey row) path body (default_mime mime) opts s
        else put_file H en p gov (rp_RepoKey row) path body expect (default_mime mime) opts s) = (r, s')"
  note W = write_row [OF G(5)]
  have "allow en po (rp_RepoKey row) path ActionWrite \<and>
         (isFolderNode path \<or> node_at (tbl s) (rp_RepoKey row) path = None \<or> pu_SkipOverwriteCheck opts \<or> allow en po (rp_RepoKey row) path ActionDelete) \<or>
       \<not> isFolderNode path \<and> (\<exists>m. node_at (tbl s) (rp_RepoKey row) path = Some m \<and> nd_Sha256 m = Sha256 expect \<and> Sha256 expect \<noteq> [])"
  proof (cases "isFolderNode path")
    case True
    then show ?thesis using run assms(2) G(1) by (auto simp: put_folder_def split: if_splits)
  next
    case False
    then obtain idem existing where "authorizeContentPut en po (rp_RepoKey row) path (Sha256 expect) (pu_SkipOverwriteCheck opts) s = Inr (idem, existing)"
      using run assms(2) G(1) by (auto simp: put_file_def split: sum.splits)
    then show ?thesis using authorized(2) False by fastforce
  qed
  then show ?thesis using G W by (auto simp: guardSystemRepo_def)
qed

lemma valid_lower: "validSha256 x \<Longrightarrow> to_lower x = x"
  by (force simp: validSha256_def to_lower_def lower_hex_def list_all_iff lower_char_def is_digit_def is_upper_alpha_def intro!: map_idI)

lemma marker_folders:
  assumes "content_ok s" "node_at (tbl s) k path \<noteq> None" "d \<in> set (ancestorDirs path)"
  shows "digest_at s k d = Some emptyFolderSHA"
proof -
  obtain n where n: "node_at (tbl s) k path = Some n" using assms(2) by blast
  have "nd_Path n = path" using node_at_key [OF n] by simp
  then obtain m where m: "node_at (tbl s) k d = Some m" using content_okD(3) [OF assms(1) n] assms(3) by (auto simp: row_ok_def)
  then show ?thesis using content_okD(3) [OF assms(1) m] node_at_key [OF m] ancestor_folder [OF assms(3)] by (simp add: row_ok_def digest_at_def)
qed

text \<open>
  Without the write grant no content changes. A deploy by a caller without the write grant on
  the path, in whichever repository it resolves to, leaves the digest of every row of every
  repository as it was: the retransmission of a standing digest, the one way past the grant,
  cannot replace what is stored.
\<close>

theorem ungranted_deploy_keeps_content:
  assumes "service_ok H s" "sized_hashes H" "fresh_upload en (eng s)" "PutWithOptions H en po repoKey path body expect mime opts s = (r, s')"
    "\<And>k. \<not> allow en po k path ActionWrite"
  shows "map_option nd_Sha256 (node_at (tbl s') k p) = map_option nd_Sha256 (node_at (tbl s) k p)"
proof (rule deploy_arms [OF assms(4)])
  fix q row gov
  assume G: "po = Some q" and run: "(if isFolderNode path then put_folder en q (rp_RepoKey row) path body (default_mime mime) opts s
        else put_file H en q gov (rp_RepoKey row) path body expect (default_mime mime) opts s) = (r, s')"
  let ?k = "rp_RepoKey row"
  have ok: "content_ok s" "backed s" using assms(1) by (auto simp: service_ok_def)
  show ?thesis
  proof (cases "isFolderNode path \<or> tbl s' = tbl s")
    case True
    then show ?thesis using run assms(5) G by (auto simp: put_folder_def)
  next
    case False
    then obtain y idem existing where a: "authorizeContentPut en po ?k path (Sha256 expect) (pu_SkipOverwriteCheck opts) s = Inr (idem, existing)"
      "Sha256 expect = [] \<or> to_lower (Sha256 expect) = y" "lands (insert (?k, path, y) (markers ?k (set (ancestorDirs path)))) s s'"
      using put_file_step(3) [OF assms(1-3), of path q gov ?k body expect "default_mime mime" opts r s'] run G by auto
    obtain m where m: "node_at (tbl s) ?k path = Some m" "nd_Sha256 m = Sha256 expect" "Sha256 expect \<noteq> []"
      using authorized(2) [OF a(1)] assms(5) by blast
    have "stored (eng s) (Sha256 expect)" using ok(2) m by (auto simp: backed_def digest_at_def)
    then have "to_lower (Sha256 expect) = Sha256 expect"
      using valid_lower by (auto simp: stored_def emptyFolderSHA_def to_lower_def lower_char_def is_upper_alpha_def byte_of_def)
    then have y: "digest_at s ?k path = Some y" using a(2) m by (simp add: digest_at_def)
    have "digest_at s' k p = digest_at s k p"
      using a(3) y marker_folders [OF ok(1), of ?k path] m(1) unfolding lands_def markers_def by fastforce
    then show ?thesis by (simp add: digest_at_def)
  qed
qed simp


section \<open>Failures and the quota\<close>

lemma land_failed:
  assumes "content_ok s" "\<not> isFolderNode path" "land_content en p gov k path ref existing mime [] s = (Inl e, s')"
  shows "sv_usage s' = sv_usage s" "sv_props s' = sv_props s"
    "\<not> (k' = k \<and> p' \<in> set (ancestorDirs path)) \<Longrightarrow> node_at (tbl s') k' p' = node_at (tbl s) k' p'"
proof -
  obtain q s1 where q: "checkQuota en (Some p) gov k path (int (Size ref)) (replaced_size existing) s = (q, s1)" by fastforce
  note Q = quota_state [OF q]
  have ok: "content_ok s1" using Q assms(1) content_ok_cong [of s1 s] by simp
  obtain x s2 where x: "putNode (se_land en) (se_now en) (p_Name p) k path (Some ref) mime [] s1 = (x, s2)" by fastforce
  have "s' = s1 \<or> (\<exists>e'. x = Inl e') \<and> s' = s2" using assms(3) q x by (auto simp: land_content_def split: option.splits sum.splits)
  then have "sv_usage s' = sv_usage s \<and> sv_props s' = sv_props s \<and> touches k (set (ancestorDirs path)) s1 s'"
    using putNode_step(4) [OF ok _ x] assms(2) Q by auto
  then show "sv_usage s' = sv_usage s" "sv_props s' = sv_props s"
    "\<not> (k' = k \<and> p' \<in> set (ancestorDirs path)) \<Longrightarrow> node_at (tbl s') k' p' = node_at (tbl s) k' p'"
    using Q touches_at [of k "set (ancestorDirs path)" s1 s' k' p'] by auto
qed

text \<open>
  A failed deploy leaves nothing but folders. When \<open>PutWithOptions\<close> without properties returns
  an error, at whichever gate, read or write, every usage counter and every property is what it
  was, no row changed but folder rows above the path in one repository, and every stored blob is
  still stored; the store stays well kept.
\<close>

theorem failed_deploy_keeps_rows:
  assumes "service_ok H s" "sized_hashes H" "fresh_upload en (eng s)"
    "PutWithOptions H en po repoKey path body expect mime opts s = (Inl e, s')" "pu_Properties opts = []"
  shows "sv_usage s' = sv_usage s \<and> sv_props s' = sv_props s \<and> service_ok H s'
    \<and> (\<exists>k. \<forall>k' p'. \<not> (k' = k \<and> p' \<in> set (ancestorDirs path)) \<longrightarrow> node_at (tbl s') k' p' = node_at (tbl s) k' p')
    \<and> (\<forall>x g. blob_get x (eng s) = Some g \<longrightarrow> blob_get x (eng s') = Some g)"
proof -
  have ok: "content_ok s" using assms(1) by (simp add: service_ok_def)
  have "sv_usage s' = sv_usage s \<and> sv_props s' = sv_props s
    \<and> (\<exists>k. \<forall>k' p'. \<not> (k' = k \<and> p' \<in> set (ancestorDirs path)) \<longrightarrow> node_at (tbl s') k' p' = node_at (tbl s) k' p')"
  proof (rule deploy_arms [OF assms(4)])
    fix p row gov
    assume run: "(if isFolderNode path then put_folder en p (rp_RepoKey row) path body (default_mime mime) opts s
        else put_file H en p gov (rp_RepoKey row) path body expect (default_mime mime) opts s) = (Inl e, s')"
    let ?k = "rp_RepoKey row"
    have "sv_usage s' = sv_usage s \<and> sv_props s' = sv_props s
      \<and> (\<forall>k' p'. \<not> (k' = ?k \<and> p' \<in> set (ancestorDirs path)) \<longrightarrow> node_at (tbl s') k' p' = node_at (tbl s) k' p')"
    proof (cases "isFolderNode path")
      case True
      obtain x s2 where x: "putNode (se_land en) (se_now en) (p_Name p) ?k path None (default_mime mime) [] s = (x, s2)" by fastforce
      have "s' = s \<or> (\<exists>e'. x = Inl e') \<and> s' = s2" using run True x assms(5) by (auto simp: put_folder_def split: if_splits sum.splits)
      then show ?thesis using putNode_step(4) [OF ok _ x] True touches_at by fastforce
    next
      case False
      then have f: "put_file H en p gov ?k path body expect (default_mime mime) opts s = (Inl e, s')" using run by simp
      consider "s' = s" | st where "s' = set_eng st s"
        | st ref existing where "land_content en p gov ?k path ref existing (default_mime mime) [] (set_eng st s) = (Inl e, s')"
        using f assms(5) by (auto simp: put_file_def split: sum.splits prod.splits)
      then show ?thesis
      proof cases
        case (3 st ref existing)
        show ?thesis using land_failed [OF _ False 3] ok by simp
      qed simp_all
    qed
    then show ?thesis by blast
  qed simp
  then show ?thesis using deploy_step [OF assms(1-4)] by auto
qed

text \<open>
  The quota of a repository. A successful deploy of a file into a repository with a quota leaves
  the usage of the repository at most the quota, or at most what it was before, and the usage
  changes by exactly the size of the new row less the size of the row it replaced.
\<close>

theorem deploy_within_quota:
  assumes "service_ok H s" "sized_hashes H" "fresh_upload en (eng s)" "\<not> isFolderNode path"
    "PutWithOptions H en po repoKey path body expect mime opts s = (Inr n, s')"
    "repos_Get fl (tbl s) (nd_RepoKey n) = Inr row" "0 < g_quotaBytes (parseGovernance (rp_Config row))"
  shows "sv_usage s' (nd_RepoKey n) \<le> max (g_quotaBytes (parseGovernance (rp_Config row))) (sv_usage s (nd_RepoKey n))
    \<and> sv_usage s' (nd_RepoKey n) = sv_usage s (nd_RepoKey n)
        + int (nd_Size n) - (case node_at (tbl s) (nd_RepoKey n) path of None \<Rightarrow> 0 | Some m \<Rightarrow> int (nd_Size m))"
proof (rule deploy_success [OF _ _ assms(2-5)])
  fix p row' data st s1 idem existing
  assume D: "write_target en repoKey path s = Inr (row', parseGovernance (rp_Config row'))" "nd_RepoKey n = rp_RepoKey row'"
    "authorizeContentPut en po (rp_RepoKey row') path (Sha256 expect) (pu_SkipOverwriteCheck opts) s = Inr (idem, existing)"
    "checkQuota en po (parseGovernance (rp_Config row')) (rp_RepoKey row') path (int (length data)) (replaced_size existing) (set_eng st s) = (None, set_eng st s)"
    "putNode (se_land en) (se_now en) (p_Name p) (rp_RepoKey row') path (Some (body_ref H data)) (default_mime mime) (pu_Properties opts) (set_eng st s) = (Inr n, s1)"
    "same_store s1 s'"
  let ?k = "nd_RepoKey n"
  have row: "row = row'" using assms(6) write_row(5) [OF D(1)] D(2) by (auto simp: repos_Get_def split: if_splits)
  have old: "existing = node_at (tbl s) ?k path" using authorized(1) [OF D(3)] D(2) by simp
  have S: "sv_usage s1 ?k = sv_usage s ?k + (int (nd_Size n) - node_size (tbl s) ?k path)"
      "describes n (body_ref H data) (default_mime mime) (node_at (tbl s) ?k path)"
    using putNode_step(3) [OF _ _ D(5) refl] assms(1,4) D(2) by (auto simp: service_ok_def)
  have r: "node_size (tbl s) ?k path = replaced_size existing" by (simp add: node_size_at replaced_size_def old)
  have q: "int (length data) - replaced_size existing \<le> 0 \<or>
      sv_usage s ?k + (int (length data) - replaced_size existing) \<le> g_quotaBytes (parseGovernance (rp_Config row))"
    using D(4) assms(7) row D(2) by (auto simp: checkQuota_def Let_def usage_Get_def split: if_splits)
  have "nd_Size n = length data \<or> int (nd_Size n) = replaced_size existing"
    using S(2) by (auto simp: describes_def ref_size replaced_size_def old)
  then show ?thesis using q S(1) r same_storeD(2) [OF D(6)] by (auto simp: node_size_at)
qed (use assms(1) in \<open>auto simp: service_ok_def\<close>)


section \<open>A deploy and a read\<close>























end
