(* ===== verification/Repo_History.thy ===== *)
theory Repo_History
  imports Repo_Deploy
begin

text \<open>
  The remaining content operations and their histories: the deploys from stored blobs, the read of
  a local repository, the removal with its pruning (\<open>Delete\<close> of \<open>internal/repo/service.go\<close>), the rows
  a removal takes exactly, and the invariant of every sequence of these operations.
\<close>


section \<open>Deploys from stored blobs\<close>








section \<open>Removals\<close>

text \<open>The rows a removal is asked to take: the path, and for a folder what lies below it.\<close>

definition doomed :: "string \<Rightarrow> string \<Rightarrow> bool" where
  "doomed path q \<longleftrightarrow> q = path \<or> isFolderNode path \<and> has_prefix q path"

lemma doomed_up: "doomed path d \<Longrightarrow> d \<in> set (ancestorDirs q) \<Longrightarrow> doomed path q"
  using ancestor_prefix(1) [of d q] ancestor_folder [of d q] prefix_trans [of q d path] by (auto simp: doomed_def)

text \<open>
  What is left after a removal: the doomed rows are gone, and so are the folders above the path
  with no row below them, and nothing else.
\<close>

definition cleared :: "string \<Rightarrow> string \<Rightarrow> service \<Rightarrow> service \<Rightarrow> bool" where
  "cleared k path s s' \<longleftrightarrow>
     (\<exists>P \<subseteq> set (ancestorDirs path).
        (\<forall>k' q. node_at (tbl s') k' q = (if k' = k \<and> (doomed path q \<or> q \<in> P) then None else node_at (tbl s) k' q)) \<and>
        (\<forall>d\<in>P. \<forall>q. has_prefix q d \<longrightarrow> node_at (tbl s') k q = None)) \<and>
     (\<forall>d\<in>set (ancestorDirs path). node_at (tbl s') k d \<noteq> None \<longrightarrow>
        (\<exists>q. q \<noteq> d \<and> node_at (tbl s') k q \<noteq> None \<and> below_prefix (trim_suffix d ''/'') q))"

lemma cleared_rows: "cleared k path s s1 \<Longrightarrow> tbl s' = tbl s1 \<Longrightarrow> cleared k path s s'"
  by (simp add: cleared_def)

text \<open>Rows only go: every digest that is left was there.\<close>

definition only_drops :: "service \<Rightarrow> service \<Rightarrow> bool" where
  "only_drops s s' \<longleftrightarrow> content_ok s' \<and> eng s' = eng s \<and> (\<forall>k p n. node_at (tbl s') k p = Some n \<longrightarrow> node_at (tbl s) k p = Some n)"


lemma removes_drops: "removes k P s s' \<Longrightarrow> content_ok s' \<Longrightarrow> only_drops s s'"
  by (auto simp: only_drops_def removes_def)

lemma drops_emit: "same_store s1 s' \<Longrightarrow> eng s' = eng s1 \<Longrightarrow> only_drops s s1 \<Longrightarrow> only_drops s s'"
  by (simp add: only_drops_def same_store_def content_ok_def)

text \<open>A row set with everything above it gone, then the pruning of the chain above the path.\<close>

lemma prune_after:
  assumes "content_ok s" "clean path" "removes k D s s1" "counted s1"
    "\<And>q. q \<in> D \<Longrightarrow> doomed path q" "\<And>q. doomed path q \<Longrightarrow> node_at (tbl s) k q \<noteq> None \<Longrightarrow> q \<in> D"
    "pruneEmptyParents fl k path s1 = (r, s2)"
  shows "only_drops s s1" "only_drops s s2" "r = None \<Longrightarrow> cleared k path s s2"
proof -
  have ok1: "content_ok s1"
    by (rule removed_ok [OF assms(1,4,3)]) (use assms(5,6) doomed_up in blast)
  then show "only_drops s s1" by (rule removes_drops [OF assms(3)])
  have pr: "pruned k (set (ancestorDirs path)) r s1 s2" by (rule prune_parents [OF ok1 assms(2,7)])
  then obtain P where P: "P \<subseteq> set (ancestorDirs path)" "removes k P s1 s2" "\<forall>d\<in>P. \<forall>q. has_prefix q d \<longrightarrow> node_at (tbl s2) k q = None"
    by (auto simp: pruned_def)
  note R = removes_trans [OF assms(3) P(2)]
  show "only_drops s s2" using removes_drops [OF R] pr by (simp add: pruned_def)
  have "node_at (tbl s2) k' q = (if k' = k \<and> (doomed path q \<or> q \<in> P) then None else node_at (tbl s) k' q)" for k' q
    using R assms(5,6) unfolding removes_def by (cases "node_at (tbl s) k' q") auto
  then show "r = None \<Longrightarrow> cleared k path s s2" using P(1,3) pr unfolding cleared_def pruned_def by blast
qed

lemma delete_file_step:
  assumes "content_ok s" "clean path" "\<not> isFolderNode path" "delete_file en p k path s = (r, s')"
  shows "only_drops s s'" "r = None \<Longrightarrow> cleared k path s s' \<and> node_at (tbl s) k path \<noteq> None"
proof -
  have refl: "only_drops s s" using assms(1) by (simp add: only_drops_def)
  have "only_drops s s' \<and> (r = None \<longrightarrow> cleared k path s s' \<and> node_at (tbl s) k path \<noteq> None)"
  proof (rule node_Delete_cases [of "se_land en" "tbl s" k path])
    fix t assume d: "nodeStore_Delete (se_land en) (tbl s) k path = (None, t)"
    define s1 where "s1 = (set_tbl t s)\<lparr>sv_usage := (sv_usage s)(k := sv_usage s k - node_size (tbl s) k path)\<rparr>"
    have "counted s" using assms(1) content_counted by blast
    note D = drop_counted [OF this d, folded s1_def]
    obtain x s2 where x: "pruneEmptyParents (se_land en) k path s1 = (x, s2)" by fastforce
    have A: "only_drops s s1" "only_drops s s2" "x = None \<Longrightarrow> cleared k path s s2"
      by (rule prune_after [OF assms(1,2) D(2,1) _ _ x]; use assms(3) in \<open>auto simp: doomed_def\<close>)+
    have run: "DeleteNodeWithUsage (se_land en) k path s = (None, s1)" using d by (simp add: DeleteNodeWithUsage_def s1_def)
    have "s' = s \<and> r \<noteq> None \<or> s' = s2 \<and> r \<noteq> None \<or> x = None \<and> same_store s2 s' \<and> eng s' = eng s2"
      using assms(4) run x by (auto simp: delete_file_def split: sum.splits option.splits)
    then show ?thesis using A refl drops_emit [of s2 s' s] D(3) cleared_rows [of k path s s2 s'] same_storeD(1) [of s2 s'] by metis
  qed (use assms(4) refl in \<open>auto simp: delete_file_def DeleteNodeWithUsage_def split: sum.splits\<close>)
  then show "only_drops s s'" "r = None \<Longrightarrow> cleared k path s s' \<and> node_at (tbl s) k path \<noteq> None" by auto
qed

lemma delete_folder_step:
  assumes "content_ok s" "clean path" "isFolderNode path" "delete_folder en p k path s = (r, s')"
    "r = None \<or> (\<forall>q. \<not> se_land en (NodeDrop k q))"
  shows "only_drops s s'" "r = None \<Longrightarrow> cleared k path s s' \<and> (\<exists>q. doomed path q \<and> node_at (tbl s) k q \<noteq> None)"
proof -
  let ?fl = "se_land en" and ?dir = "trim_suffix path ''/''"
  have refl: "only_drops s s" using assms(1) by (simp add: only_drops_def)
  have dir: "?dir @ ''/'' = path" by (rule folder_eq [OF assms(3)])
  have "only_drops s s' \<and> (r = None \<longrightarrow> cleared k path s s' \<and> (\<exists>q. doomed path q \<and> node_at (tbl s) k q \<noteq> None))"
  proof (cases "nodeStore_ListByPrefix ?fl (tbl s) k ?dir")
    case (Inl e)
    then show ?thesis using assms(4) refl by (auto simp: delete_folder_def Let_def)
  next
    case (Inr rows)
    define ps where "ps = filter (\<lambda>q. q = path \<or> has_prefix q path) (map nd_Path rows)"
    have mem: "q \<in> set ps \<longleftrightarrow> node_at (tbl s) k q \<noteq> None \<and> doomed path q" for q
      using listed_paths(1) [OF Inr, of q] below_clean [OF assms(3,2), of q] assms(3)
      by (auto simp: ps_def doomed_def has_prefix_iff)
    obtain d s1 where d: "drop_rows ?fl k ps 0 s = (d, s1)" by fastforce
    note run = assms(4) [unfolded delete_folder_def Let_def Inr sum.case dir, folded ps_def, unfolded d prod.case]
    have "\<exists>m. d = Inr m"
    proof (cases "r = None")
      case True
      then show ?thesis using run by (cases d) auto
    next
      case False
      then show ?thesis using drop_rows_total [of ps ?fl k 0 s] assms(5) d by auto
    qed
    then obtain m where m: "d = Inr m" by blast
    have "counted s" using assms(1) content_counted by blast
    then have D: "counted s1" "removes k (set ps) s s1" "m = 0 \<longleftrightarrow> (\<forall>p\<in>set ps. node_at (tbl s) k p = None)"
      using drop_rows_step [of s ?fl k ps 0 m s1] d m by auto
    obtain x s2 where x: "pruneEmptyParents ?fl k path s1 = (x, s2)" by fastforce
    have A: "only_drops s s1" "only_drops s s2" "x = None \<Longrightarrow> cleared k path s s2"
      by (rule prune_after [OF assms(1,2) D(2,1) _ _ x]; use mem in blast)+
    have "s' = s1 \<and> r \<noteq> None \<or> m \<noteq> 0 \<and> (s' = s2 \<and> r \<noteq> None \<or> x = None \<and> same_store s2 s' \<and> eng s' = eng s2)"
      using run m x by (auto split: if_splits option.splits)
    moreover have "m \<noteq> 0 \<Longrightarrow> \<exists>q. doomed path q \<and> node_at (tbl s) k q \<noteq> None" using D(3) mem by blast
    ultimately show ?thesis using A drops_emit [of s2 s' s] cleared_rows [of k path s s2 s'] same_storeD(1) [of s2 s'] by metis
  qed
  then show "only_drops s s'" "r = None \<Longrightarrow> cleared k path s s' \<and> (\<exists>q. doomed path q \<and> node_at (tbl s) k q \<noteq> None)" by auto
qed


lemma service_delete_arms:
  assumes "service_Delete en po k path s = (r, s')" "se_trash en = None \<or> trashSkipPath path"
    "\<And>row. repos_Get (se_gate en) (tbl s) k = Inr row \<Longrightarrow> rp_Type row \<notin> {TypeRemote, TypeVirtual}"
  obtains "s' = s" "r \<noteq> None"
  | p where "po = Some p" "clean path" "allow en po k path ActionDelete" "k \<noteq> TrashRepoKey"
      "(if isFolderNode path then delete_folder en p k path s else delete_file en p k path s) = (r, s')"
  using assms
  by (auto simp: service_Delete_def guardSystemRepo_def validate_clean split: option.splits sum.splits if_splits)

lemma service_delete_step:
  assumes "content_ok s" "service_Delete en po k path s = (r, s')" "se_trash en = None \<or> trashSkipPath path"
    "\<And>row. repos_Get (se_gate en) (tbl s) k = Inr row \<Longrightarrow> rp_Type row \<notin> {TypeRemote, TypeVirtual}"
    "r = None \<or> \<not> isFolderNode path \<or> (\<forall>q. \<not> se_land en (NodeDrop k q))"
  shows "only_drops s s'"
    "r = None \<Longrightarrow> cleared k path s s' \<and> (\<exists>q. doomed path q \<and> node_at (tbl s) k q \<noteq> None) \<and> po \<noteq> None \<and> allow en po k path ActionDelete \<and> k \<noteq> TrashRepoKey"
proof -
  have "only_drops s s' \<and> (r = None \<longrightarrow> cleared k path s s' \<and> (\<exists>q. doomed path q \<and> node_at (tbl s) k q \<noteq> None) \<and> po \<noteq> None
      \<and> allow en po k path ActionDelete \<and> k \<noteq> TrashRepoKey)"
  proof (rule service_delete_arms [OF assms(2-4)])
    fix p assume p: "po = Some p" "clean path" "allow en po k path ActionDelete" "k \<noteq> TrashRepoKey"
      "(if isFolderNode path then delete_folder en p k path s else delete_file en p k path s) = (r, s')"
    show ?thesis
    proof (cases "isFolderNode path")
      case True
      then show ?thesis using delete_folder_step [OF assms(1) p(2) True, of en p k r s'] p assms(5) by simp
    next
      case False
      have "doomed path path" by (simp add: doomed_def)
      then show ?thesis using delete_file_step [OF assms(1) p(2) False, of en p k r s'] p False by auto
    qed
  qed (use assms(1) in \<open>auto simp: only_drops_def\<close>)
  then show "only_drops s s'"
    "r = None \<Longrightarrow> cleared k path s s' \<and> (\<exists>q. doomed path q \<and> node_at (tbl s) k q \<noteq> None) \<and> po \<noteq> None \<and> allow en po k path ActionDelete \<and> k \<noteq> TrashRepoKey"
    by auto
qed

text \<open>
  A removal takes exactly what it names. When \<open>Delete\<close> on a local repository without a trash can
  succeeds, the caller had the delete grant, at least one row was named, the rows of the path (for a
  folder, everything below it) are gone, of the folders above only those without any row below them
  went too and none without one is left, every other row of every repository is as it was, the
  stored blobs are untouched, and the usage is again the sum of the sizes of the rows.
\<close>

theorem delete_exact:
  assumes "content_ok s" "service_Delete en po k path s = (None, s')" "se_trash en = None \<or> trashSkipPath path"
    "repos_Get (se_gate en) (tbl s) k = Inr row" "rp_Type row \<notin> {TypeRemote, TypeVirtual}"
  shows "\<exists>P \<subseteq> set (ancestorDirs path).
      (\<forall>k' q. node_at (tbl s') k' q =
         (if k' = k \<and> (q = path \<or> isFolderNode path \<and> has_prefix q path \<or> q \<in> P) then None else node_at (tbl s) k' q))
    \<and> (\<forall>d\<in>P. \<forall>q. has_prefix q d \<longrightarrow> node_at (tbl s') k q = None)
    \<and> (\<forall>d\<in>set (ancestorDirs path). node_at (tbl s') k d \<noteq> None \<longrightarrow>
         (\<exists>q. q \<noteq> d \<and> node_at (tbl s') k q \<noteq> None \<and> below_prefix (trim_suffix d ''/'') q))
    \<and> (\<exists>q. (q = path \<or> isFolderNode path \<and> has_prefix q path) \<and> node_at (tbl s) k q \<noteq> None)
    \<and> po \<noteq> None \<and> allow en po k path ActionDelete \<and> eng s' = eng s \<and> (\<forall>k'. sv_usage s' k' = stored_bytes (tbl s') k')"
proof -
  note S = service_delete_step [OF assms(1-3)] assms(4,5)
  have d: "only_drops s s'" and c: "cleared k path s s'" and x: "\<exists>q. doomed path q \<and> node_at (tbl s) k q \<noteq> None"
    and a: "po \<noteq> None" "allow en po k path ActionDelete"
    using S by auto
  have e: "eng s' = eng s" "\<forall>k'. sv_usage s' k' = stored_bytes (tbl s') k'" using d content_okD(2) [of s'] by (simp_all add: only_drops_def)
  obtain P where "P \<subseteq> set (ancestorDirs path)"
    "\<forall>k' q. node_at (tbl s') k' q = (if k' = k \<and> (doomed path q \<or> q \<in> P) then None else node_at (tbl s) k' q)"
    "\<forall>d\<in>P. \<forall>q. has_prefix q d \<longrightarrow> node_at (tbl s') k q = None"
    "\<forall>d\<in>set (ancestorDirs path). node_at (tbl s') k d \<noteq> None \<longrightarrow>
         (\<exists>q. q \<noteq> d \<and> node_at (tbl s') k q \<noteq> None \<and> below_prefix (trim_suffix d ''/'') q)"
    using c unfolding cleared_def by (elim exE conjE)
  then show ?thesis using x a e unfolding doomed_def disj_assoc by (intro exI [of _ P] conjI) assumption+
qed


section \<open>Histories\<close>









end
