(* ===== verification/Spec2Isabelle.thy ===== *)
theory Spec2Isabelle
  imports Version_Semver Version_Nuget Version_Maven Version_Goproxy Storage_GC Auth_Login Sched_Engine Repo_History
begin

text \<open>
  BinFlow, a binary artifact repository server: verification library.

  \<^bold>\<open>The program.\<close> The server keeps artifacts as content-addressed blobs on disk
  (\<open>internal/storage\<close>) and everything else in a relational metadata store
  (\<open>internal/metadata\<close>). Requests are authenticated and authorized (\<open>internal/auth\<close>), resolved
  against local, remote and virtual repositories (\<open>internal/repo\<close>, \<open>internal/remote\<close>) and served
  in the wire format of a package manager (\<open>internal/adapter\<close>). A scheduler
  (\<open>internal/scheduler\<close>) starts maintenance jobs.

  \<^bold>\<open>Conventions.\<close> A Go function is a function of the same name (prefixed where two packages share
  it); a struct is a record, a closed set of strings or errors a datatype; a result with an error
  is a sum with the error on the left. What a call reads from its surroundings (clock, random
  source, which I/O or store calls fail, answers of the network, hash functions) is a field of an
  environment argument, so that a theorem holds for every behaviour of the surroundings. A Go call
  is atomic unless a step relation says otherwise. Strings are byte lists. Log lines, metrics and
  message texts of errors are left out unless a decision depends on them.

  \<^bold>\<open>Where a model is coarser than the code.\<close> Case folding and white space are ASCII's; RFC 3339 texts
  are read by the strict grammar; one sweep of the collector and one pass of a remote read take
  one reading of the clock; resuming an upload is one step and removing its directory succeeds or
  fails as a whole; the retry after a busy database doubles its pause in the integers, which an
  int64 follows until the pause is 146 years; a dial is the unit of an attempt, so the resend that
  \<open>net/http\<close> does by itself on a reused connection is not seen; uniqueness and foreign keys are the
  schema's, written as guards of the inserts. Each is noted where it is defined.

  \<^bold>\<open>Shared theories.\<close>
  \<^item> \<open>GoPrelude\<close>: strings, decimal numbers, \<open>ParseUint\<close>/\<open>ParseInt\<close>, three-way comparison; the locale
    \<open>go_comparator\<close> of a total preorder given by a comparison function, interpreted by every
    version comparator for which the laws hold.
  \<^item> \<open>GoTime\<close>: instants, durations, the proleptic calendar, RFC 3339 texts and their order.
  \<^item> \<open>GoJson\<close>: the fragment of \<open>encoding/json\<close> that stores lists in text columns; the parser runs with
    fuel twice the length of the text plus one, and each call that does not consume fuel consumes
    a character, so the fuel is never what stops it.
  \<^item> \<open>GoNet\<close>: \<open>netip\<close> addresses as words, prefixes, and the texts of addresses and host:port pairs.
  \<^item> \<open>Meta_Nodes\<close>: rows and statements of the repository, node, blob and remote tables.

  \<^bold>\<open>Storage\<close> (\<open>internal/storage\<close>: \<open>hold.go\<close>, \<open>busy.go\<close>, \<open>engine.go\<close>, \<open>session.go\<close>, \<open>digest.go\<close>,
  \<open>gc.go\<close>). \<open>Storage_Hold\<close> has the counted, expiring registrations and the busy retry, with the locale
  \<open>hold_counter\<close>; \<open>Storage_Engine\<close> the operations of the disk engine on sessions, files and rows;
  \<open>Storage_Sessions\<close> the invariant and its preservation by each operation; \<open>Storage_Contract\<close> the
  reachable states and what they promise (content addressing, commit, resume, sweep);
  \<open>Storage_GC\<close> the collector, sequentially and interleaved with publishers.

  \<^bold>\<open>Authentication and authorization\<close> (\<open>internal/auth\<close>, \<open>internal/metadata/substores_auth.go\<close>,
  \<open>substores_console.go\<close>). \<open>Meta_Auth\<close> has the security tables with their keys, cascades and the
  reachable-database invariant; \<open>Auth_Paths\<close> the path patterns against a declarative meaning;
  \<open>Auth_Rbac\<close> roles, capabilities, target evaluation, buckets and the principal view, with the
  locale \<open>permission_store\<close>; \<open>Auth_Tokens\<close> tokens, web sessions, deletion guards; \<open>Auth_Login\<close> the
  failure limiter, Basic credentials and step-up grants.

  \<^bold>\<open>Scheduling\<close> (\<open>internal/scheduler\<close>). \<open>Sched_Cron\<close> has the expression parser and the next-run search;
  the loop that expands a step runs with fuel four above the upper bound of the field, which is
  enough because the value grows or wraps below the bound once (\<open>expand_total\<close>); the search for
  the next run ends at the last year it considers. \<open>Sched_Engine\<close> has the ledger and the dispatcher.

  \<^bold>\<open>Repositories\<close>. \<open>Repo_Virtual\<close> (\<open>internal/repo/virtual.go\<close>) has the member expansion, which ends
  because every descent marks a new key, the resolution order, reads, listings and the write
  route; what a read relies on in the remote engine is the locale \<open>pull_engine\<close>. Remote
  repositories (\<open>internal/remote\<close>) are \<open>Remote_Guard\<close> (\<open>ssrfguard.go\<close>, \<open>internal/redact\<close>: the address
  classifier, the URL check, the guarded dial), \<open>Remote_Client\<close> (\<open>client.go\<close>: redirects, retries,
  credentials, the body cap), \<open>Remote_Fetch\<close> (\<open>fetcher.go\<close>, \<open>cachestate.go\<close>, \<open>ttldefaults.go\<close>: the
  read flow from lookup to landing over the node tables and the storage engine), \<open>Remote_Cache\<close>
  (what the flow promises: confinement, when it contacts the upstream, the circuit breaker,
  landings and remembered misses) and \<open>Remote_Virtual\<close> (the interpretation of \<open>pull_engine\<close> by the
  flow, one probe at a time). The retry loop of a read takes the list of its passes: a pass that waited for another
  flight is followed by the next, so a list that ends in a settled flight is enough.

  The content operations of the repository service (\<open>internal/repo/service.go\<close>, \<open>governance.go\<close>,
  \<open>blackedout.go\<close>, \<open>validate.go\<close>, \<open>internal/metadata/substores_usage.go\<close>, \<open>substores_nodeprops.go\<close>,
  \<open>props.go\<close>) are \<open>Repo_Governance\<close> (patterns, quota, blackout mark, property rules, and the agreement
  of the duplicated pattern matcher with the one of the permissions), \<open>Repo_Content\<close> (the node,
  ledger, usage and property rows a write leaves), \<open>Repo_Tree\<close> (whole landings, removals and the
  pruning of emptied folders), \<open>Repo_Service\<close> (the deploys, \<open>Get\<close> and \<open>Delete\<close> with their gates, over
  the storage engine, the virtual walk and the remote engine), \<open>Repo_Deploy\<close> (round trip, grants,
  failures and quota of a deploy) and \<open>Repo_History\<close> (what a removal takes exactly, and the invariant
  of every history). The walk that prunes folders ends because a parent's path is shorter.

  \<^bold>\<open>Package versions\<close> (\<open>internal/adapter/*/version.go\<close>, \<open>semver.go\<close>). \<open>Version_Semver\<close> (npm, cargo,
  helm), \<open>Version_Nuget\<close>, \<open>Version_Maven\<close>, \<open>Version_Goproxy\<close>: parsers, comparators, latest
  selection, and for each whether the comparator is an order.

  \<^bold>\<open>Not modelled.\<close> The HTTP layer, the index documents of the package formats, the S3 engine, the
  identity providers and remote browsing are protocols around third-party libraries; listing, copy
  and move, the trash can, the docker use cases and repository management of the service, search,
  replication, builds, bundles, configuration, licensing and the console are not modelled. Mutual
  exclusion of flights is an outcome of the environment, and the reads of one instance are
  sequences of passes, not interleaved statements.
\<close>

end
